(* ===== verification/Prelude.thy ===== *)
theory Prelude
  imports Main "HOL-Library.Word"
begin

section \<open>Shared types, automation and lemmas\<close>

text \<open>
  What every component of the compiler model shares: the machine types (size_t and
  unsigned long long as 64-bit words, uint32_t as 32-bit words, bytes as 8-bit words),
  the rounding idiom \<open>(n + a - 1) & ~(a - 1)\<close> on words and on int, the decimal
  printing of \<open>%d\<close>, the C-string view of a byte string (up to its first NUL), and the
  named collections the component theories fill. A C \<open>int\<close> that the source never lets
  wrap is an unbounded \<open>int\<close>; signed overflow is undefined behaviour in C.
\<close>

unbundle bit_operations_syntax

type_synonym u64 = "64 word"
type_synonym u32 = "32 word"
type_synonym byte = "8 word"

named_theorems tc_split \<open>case splits for the option and conditional results of the model\<close>
named_theorems frame_simps \<open>what an operation leaves unchanged\<close>

lemmas [tc_split] = option.splits if_splits

subsection \<open>Rounding up to a power of two\<close>

text \<open>The same expression written in line on int (type.c, regalloc.c, codegen.c).\<close>

definition round_up :: "int \<Rightarrow> int \<Rightarrow> int" where
  "round_up n al = (n + al - 1) AND NOT (al - 1)"

lemma and_not_mask: "(x :: 'a :: ring_bit_operations) AND NOT (mask k) = x - take_bit k x"
proof -
  have "x - take_bit k x = x AND NOT (take_bit k x)"
    by (rule disjunctive_diff_eq_and_not) (auto simp: bit_eq_iff bit_simps)
  also have "\<dots> = x AND NOT (mask k)"
    by (auto simp: bit_eq_iff bit_simps)
  finally show ?thesis by simp
qed

lemma round_up_pow2: "round_up n (2 ^ k) = ((n + 2 ^ k - 1) div 2 ^ k) * 2 ^ k"
proof -
  have "round_up n (2 ^ k) = (n + 2 ^ k - 1) - (n + 2 ^ k - 1) mod 2 ^ k"
    using and_not_mask [of "n + 2 ^ k - 1" k]
    by (simp add: round_up_def mask_eq_exp_minus_1 take_bit_eq_mod)
  then show ?thesis by (simp add: minus_mod_eq_div_mult)
qed

lemma round_up_dvd [intro]: "2 ^ k dvd round_up n (2 ^ k)"
  by (simp add: round_up_pow2)

lemma round_up_ge: "n \<le> round_up n (2 ^ k)"
proof -
  have "(n + 2 ^ k - 1) mod 2 ^ k < 2 ^ k" by simp
  moreover have "round_up n (2 ^ k) = (n + 2 ^ k - 1) - (n + 2 ^ k - 1) mod 2 ^ k"
    by (simp only: round_up_pow2 minus_mod_eq_div_mult)
  ultimately show ?thesis by linarith
qed

lemma round_up_less: "round_up n (2 ^ k) < n + 2 ^ k"
proof -
  have "0 \<le> (n + 2 ^ k - 1) mod 2 ^ k" by simp
  moreover have "round_up n (2 ^ k) = (n + 2 ^ k - 1) - (n + 2 ^ k - 1) mod 2 ^ k"
    by (simp only: round_up_pow2 minus_mod_eq_div_mult)
  ultimately show ?thesis by linarith
qed

lemma round_up_id: "2 ^ k dvd n \<Longrightarrow> round_up n (2 ^ k) = n"
proof -
  assume d: "2 ^ k dvd n"
  have "2 ^ k dvd round_up n (2 ^ k) - n"
    using d round_up_dvd [of k n] by (rule dvd_diff [rotated])
  moreover have "0 \<le> round_up n (2 ^ k) - n" "round_up n (2 ^ k) - n < 2 ^ k"
    using round_up_ge [of n k] round_up_less [of n k] by auto
  ultimately have "round_up n (2 ^ k) - n = 0"
    using zdvd_imp_le [of "2 ^ k" "round_up n (2 ^ k) - n"] by linarith
  then show ?thesis by simp
qed

text \<open>The alignments the compiler uses are powers of two.\<close>

definition pow2 :: "int \<Rightarrow> bool" where
  "pow2 a \<longleftrightarrow> a \<in> {1, 2, 4, 8, 16}"

lemma pow2_exp: "pow2 a \<Longrightarrow> \<exists>k. a = 2 ^ k"
  unfolding pow2_def
  by (auto intro: exI [of _ 0] exI [of _ 1] exI [of _ 2] exI [of _ 3] exI [of _ 4])

lemma pow2_pos: "pow2 a \<Longrightarrow> 0 < a"
  by (auto simp: pow2_def)

lemma pow2_dvd_max: "pow2 a \<Longrightarrow> pow2 b \<Longrightarrow> a \<le> b \<Longrightarrow> a dvd b"
  by (auto simp: pow2_def)

lemma pow2_round_up:
  assumes "pow2 a"
  shows "a dvd round_up n a" "n \<le> round_up n a" "round_up n a < n + a"
  using pow2_exp [OF assms] round_up_dvd round_up_ge round_up_less by auto

lemma pow2_round_up_id: "pow2 a \<Longrightarrow> a dvd n \<Longrightarrow> round_up n a = n"
  using pow2_exp [of a] round_up_id by auto

subsection \<open>Decimal printing\<close>

text \<open>The digits that \<open>%d\<close> and \<open>%lld\<close> print.\<close>

fun show_nat :: "nat \<Rightarrow> string" where
  "show_nat n = (if n < 10 then [char_of (48 + n)]
                 else show_nat (n div 10) @ [char_of (48 + n mod 10)])"

declare show_nat.simps [simp del]

definition show_int :: "int \<Rightarrow> string" where
  "show_int i = (if i < 0 then CHR ''-'' # show_nat (nat (- i)) else show_nat (nat i))"

definition read_nat :: "string \<Rightarrow> nat" where
  "read_nat s = foldl (\<lambda>v c. v * 10 + (of_char c - 48)) 0 s"

lemma of_char_digit: "n < 10 \<Longrightarrow> of_char (char_of (48 + n :: nat) :: char) = (48 + n :: nat)"
  by (simp add: of_char_of take_bit_eq_mod)

lemma read_show_nat [simp]: "read_nat (show_nat n) = n"
proof (induction n rule: show_nat.induct)
  case (1 n)
  show ?case
  proof (cases "n < 10")
    case True
    then show ?thesis
      by (subst show_nat.simps) (simp add: read_nat_def of_char_digit)
  next
    case False
    with "1.IH" have IH: "foldl (\<lambda>v c. v * 10 + (of_char c - 48)) 0 (show_nat (n div 10)) = n div 10"
      by (simp add: read_nat_def)
    have d: "(of_char (char_of (48 + n mod 10 :: nat) :: char) :: nat) = 48 + n mod 10"
      by (rule of_char_digit) simp
    from False show ?thesis
      by (subst show_nat.simps) (simp add: read_nat_def IH d)
  qed
qed

lemma show_nat_inj: "show_nat m = show_nat n \<longleftrightarrow> m = n"
  using read_show_nat by metis

lemma show_nat_nonempty [simp]: "show_nat n \<noteq> []"
  by (subst show_nat.simps) simp

lemma show_nat_digits: "c \<in> set (show_nat n) \<Longrightarrow> 48 \<le> (of_char c :: nat) \<and> (of_char c :: nat) < 58"
proof (induction n rule: show_nat.induct)
  case (1 n)
  have d: "(of_char (char_of (48 + k :: nat) :: char) :: nat) = 48 + k" if "k < 10" for k
    using that by (rule of_char_digit)
  show ?case
  proof (cases "n < 10")
    case True
    with "1.prems" show ?thesis by (simp add: show_nat.simps [of n] d)
  next
    case False
    with "1.prems" have "c \<in> set (show_nat (n div 10)) \<or> c = char_of (48 + n mod 10)"
      by (auto simp add: show_nat.simps [of n])
    then show ?thesis using "1.IH" [OF False] d [of "n mod 10"] by auto
  qed
qed

subsection \<open>C strings\<close>

text \<open>A char pointer handed to strlen, strcmp or fputs is read up to its first NUL.\<close>

definition NUL :: char where
  "NUL = CHR 0x00"

definition c_str :: "string \<Rightarrow> string" where
  "c_str s = takeWhile (\<lambda>c. c \<noteq> NUL) s"

lemma c_str_no_nul: "NUL \<notin> set (c_str s)"
  using set_takeWhileD unfolding c_str_def by fastforce

lemma c_str_id: "NUL \<notin> set s \<Longrightarrow> c_str s = s"
  unfolding c_str_def by (rule takeWhile_eq_all_conv [THEN iffD2]) auto

lemma c_str_append_nul: "c_str (s @ [NUL]) = c_str s"
  by (induction s) (auto simp: c_str_def)

lemma c_str_idem [simp]: "c_str (c_str s) = c_str s"
  by (rule c_str_id) (rule c_str_no_nul)

subsection \<open>Lists\<close>

lemma nth_take_eq: "take n xs = take n ys \<Longrightarrow> i < n \<Longrightarrow> i < length xs \<Longrightarrow> i < length ys \<Longrightarrow> xs ! i = ys ! i"
  by (metis nth_take)

lemma take_Suc_update: "n < length xs \<Longrightarrow> take (Suc n) (xs[n := x]) = take n xs @ [x]"
  by (simp add: take_Suc_conv_app_nth)

lemma map_upt_snoc: "map f [0..<Suc n] = map f [0..<n] @ [f n]"
  by simp

lemma find_append:
  "List.find P (xs @ ys) = (case List.find P xs of None \<Rightarrow> List.find P ys | Some x \<Rightarrow> Some x)"
  by (induction xs) auto

lemma find_eq_None: "(\<And>x. x \<in> set xs \<Longrightarrow> \<not> P x) \<Longrightarrow> List.find P xs = None"
  by (induction xs) auto

end
