(* ===== verification/Token.thy ===== *)
theory Token
  imports Prelude
begin

section \<open>Tokens (token.h, the token tables of lexer.c)\<close>

text \<open>
  The token kinds in the order of the enum, their numbers, the printable names and the
  keyword table of lexer.c. The enum of token.h has 101 enumerators; they are grouped here
  into the sections the header itself marks (keywords, extensions, operators, punctuation),
  and every enumerator keeps its C name as an abbreviation. A token refers to the source by
  offset and length, as the C struct does by pointer; its double is kept as the characters
  handed to strtod.
\<close>

datatype (plugins only: code size) keyword_kind =
    KW_AUTO | KW_BREAK | KW_CASE | KW_CHAR | KW_CONST | KW_CONTINUE | KW_DEFAULT | KW_DO
   | KW_DOUBLE | KW_ELSE | KW_ENUM | KW_EXTERN | KW_FLOAT | KW_FOR | KW_GOTO | KW_IF
   | KW_INLINE | KW_INT | KW_LONG | KW_REGISTER | KW_RESTRICT | KW_RETURN | KW_SHORT
   | KW_SIGNED | KW_SIZEOF | KW_STATIC | KW_STRUCT | KW_SWITCH | KW_TYPEDEF | KW_UNION
   | KW_UNSIGNED | KW_VOID | KW_VOLATILE | KW_WHILE | KW_BOOL | KW_COMPLEX | KW_IMAGINARY
   | KW_PRAGMA | KW_ALIGNOF

datatype (plugins only: code size) extension_kind =
    EX_ATTRIBUTE | EX_ASM | EX_BUILTIN_VA_LIST | EX_EXTENSION | EX_NONNULL | EX_NORETURN
   | EX_NULLABLE | EX_TYPEOF

datatype (plugins only: code size) operator_kind =
    OP_PLUS | OP_MINUS | OP_STAR | OP_SLASH | OP_PERCENT | OP_AMP | OP_PIPE | OP_CARET
   | OP_TILDE | OP_BANG | OP_AND | OP_OR | OP_LT | OP_GT | OP_LE | OP_GE | OP_EQ | OP_NEQ
   | OP_LSHIFT | OP_RSHIFT | OP_ASSIGN | OP_PLUS_ASSIGN | OP_MINUS_ASSIGN | OP_STAR_ASSIGN
   | OP_SLASH_ASSIGN | OP_PERCENT_ASSIGN | OP_AMP_ASSIGN | OP_PIPE_ASSIGN | OP_CARET_ASSIGN
   | OP_LSHIFT_ASSIGN | OP_RSHIFT_ASSIGN | OP_PLUSPLUS | OP_MINUSMINUS | OP_ARROW | OP_DOT
   | OP_QUESTION | OP_COLON

datatype (plugins only: code size) punct_kind =
    PU_LPAREN | PU_RPAREN | PU_LBRACE | PU_RBRACE | PU_LBRACKET | PU_RBRACKET | PU_SEMICOLON
   | PU_COMMA | PU_ELLIPSIS | PU_HASH

datatype (plugins only: code size) TokenKind =
    TOK_INT_LIT | TOK_FLOAT_LIT | TOK_CHAR_LIT | TOK_STR_LIT | TOK_IDENT
  | Keyword keyword_kind
  | Extension extension_kind
  | Operator operator_kind
  | Punct punct_kind
  | TOK_EOF | TOK_ERROR

abbreviation TOK_AUTO :: TokenKind where "TOK_AUTO \<equiv> Keyword KW_AUTO"
abbreviation TOK_BREAK :: TokenKind where "TOK_BREAK \<equiv> Keyword KW_BREAK"
abbreviation TOK_CASE :: TokenKind where "TOK_CASE \<equiv> Keyword KW_CASE"
abbreviation TOK_CHAR :: TokenKind where "TOK_CHAR \<equiv> Keyword KW_CHAR"
abbreviation TOK_CONST :: TokenKind where "TOK_CONST \<equiv> Keyword KW_CONST"
abbreviation TOK_CONTINUE :: TokenKind where "TOK_CONTINUE \<equiv> Keyword KW_CONTINUE"
abbreviation TOK_DEFAULT :: TokenKind where "TOK_DEFAULT \<equiv> Keyword KW_DEFAULT"
abbreviation TOK_DO :: TokenKind where "TOK_DO \<equiv> Keyword KW_DO"
abbreviation TOK_DOUBLE :: TokenKind where "TOK_DOUBLE \<equiv> Keyword KW_DOUBLE"
abbreviation TOK_ELSE :: TokenKind where "TOK_ELSE \<equiv> Keyword KW_ELSE"
abbreviation TOK_ENUM :: TokenKind where "TOK_ENUM \<equiv> Keyword KW_ENUM"
abbreviation TOK_EXTERN :: TokenKind where "TOK_EXTERN \<equiv> Keyword KW_EXTERN"
abbreviation TOK_FLOAT :: TokenKind where "TOK_FLOAT \<equiv> Keyword KW_FLOAT"
abbreviation TOK_FOR :: TokenKind where "TOK_FOR \<equiv> Keyword KW_FOR"
abbreviation TOK_GOTO :: TokenKind where "TOK_GOTO \<equiv> Keyword KW_GOTO"
abbreviation TOK_IF :: TokenKind where "TOK_IF \<equiv> Keyword KW_IF"
abbreviation TOK_INLINE :: TokenKind where "TOK_INLINE \<equiv> Keyword KW_INLINE"
abbreviation TOK_INT :: TokenKind where "TOK_INT \<equiv> Keyword KW_INT"
abbreviation TOK_LONG :: TokenKind where "TOK_LONG \<equiv> Keyword KW_LONG"
abbreviation TOK_REGISTER :: TokenKind where "TOK_REGISTER \<equiv> Keyword KW_REGISTER"
abbreviation TOK_RESTRICT :: TokenKind where "TOK_RESTRICT \<equiv> Keyword KW_RESTRICT"
abbreviation TOK_RETURN :: TokenKind where "TOK_RETURN \<equiv> Keyword KW_RETURN"
abbreviation TOK_SHORT :: TokenKind where "TOK_SHORT \<equiv> Keyword KW_SHORT"
abbreviation TOK_SIGNED :: TokenKind where "TOK_SIGNED \<equiv> Keyword KW_SIGNED"
abbreviation TOK_SIZEOF :: TokenKind where "TOK_SIZEOF \<equiv> Keyword KW_SIZEOF"
abbreviation TOK_STATIC :: TokenKind where "TOK_STATIC \<equiv> Keyword KW_STATIC"
abbreviation TOK_STRUCT :: TokenKind where "TOK_STRUCT \<equiv> Keyword KW_STRUCT"
abbreviation TOK_SWITCH :: TokenKind where "TOK_SWITCH \<equiv> Keyword KW_SWITCH"
abbreviation TOK_TYPEDEF :: TokenKind where "TOK_TYPEDEF \<equiv> Keyword KW_TYPEDEF"
abbreviation TOK_UNION :: TokenKind where "TOK_UNION \<equiv> Keyword KW_UNION"
abbreviation TOK_UNSIGNED :: TokenKind where "TOK_UNSIGNED \<equiv> Keyword KW_UNSIGNED"
abbreviation TOK_VOID :: TokenKind where "TOK_VOID \<equiv> Keyword KW_VOID"
abbreviation TOK_VOLATILE :: TokenKind where "TOK_VOLATILE \<equiv> Keyword KW_VOLATILE"
abbreviation TOK_WHILE :: TokenKind where "TOK_WHILE \<equiv> Keyword KW_WHILE"
abbreviation TOK_BOOL :: TokenKind where "TOK_BOOL \<equiv> Keyword KW_BOOL"
abbreviation TOK_COMPLEX :: TokenKind where "TOK_COMPLEX \<equiv> Keyword KW_COMPLEX"
abbreviation TOK_IMAGINARY :: TokenKind where "TOK_IMAGINARY \<equiv> Keyword KW_IMAGINARY"
abbreviation TOK_PRAGMA :: TokenKind where "TOK_PRAGMA \<equiv> Keyword KW_PRAGMA"
abbreviation TOK_ALIGNOF :: TokenKind where "TOK_ALIGNOF \<equiv> Keyword KW_ALIGNOF"
abbreviation TOK_ATTRIBUTE :: TokenKind where "TOK_ATTRIBUTE \<equiv> Extension EX_ATTRIBUTE"
abbreviation TOK_ASM :: TokenKind where "TOK_ASM \<equiv> Extension EX_ASM"
abbreviation TOK_BUILTIN_VA_LIST :: TokenKind where "TOK_BUILTIN_VA_LIST \<equiv> Extension EX_BUILTIN_VA_LIST"
abbreviation TOK_EXTENSION :: TokenKind where "TOK_EXTENSION \<equiv> Extension EX_EXTENSION"
abbreviation TOK_NONNULL :: TokenKind where "TOK_NONNULL \<equiv> Extension EX_NONNULL"
abbreviation TOK_NORETURN :: TokenKind where "TOK_NORETURN \<equiv> Extension EX_NORETURN"
abbreviation TOK_NULLABLE :: TokenKind where "TOK_NULLABLE \<equiv> Extension EX_NULLABLE"
abbreviation TOK_TYPEOF :: TokenKind where "TOK_TYPEOF \<equiv> Extension EX_TYPEOF"
abbreviation TOK_PLUS :: TokenKind where "TOK_PLUS \<equiv> Operator OP_PLUS"
abbreviation TOK_MINUS :: TokenKind where "TOK_MINUS \<equiv> Operator OP_MINUS"
abbreviation TOK_STAR :: TokenKind where "TOK_STAR \<equiv> Operator OP_STAR"
abbreviation TOK_SLASH :: TokenKind where "TOK_SLASH \<equiv> Operator OP_SLASH"
abbreviation TOK_PERCENT :: TokenKind where "TOK_PERCENT \<equiv> Operator OP_PERCENT"
abbreviation TOK_AMP :: TokenKind where "TOK_AMP \<equiv> Operator OP_AMP"
abbreviation TOK_PIPE :: TokenKind where "TOK_PIPE \<equiv> Operator OP_PIPE"
abbreviation TOK_CARET :: TokenKind where "TOK_CARET \<equiv> Operator OP_CARET"
abbreviation TOK_TILDE :: TokenKind where "TOK_TILDE \<equiv> Operator OP_TILDE"
abbreviation TOK_BANG :: TokenKind where "TOK_BANG \<equiv> Operator OP_BANG"
abbreviation TOK_AND :: TokenKind where "TOK_AND \<equiv> Operator OP_AND"
abbreviation TOK_OR :: TokenKind where "TOK_OR \<equiv> Operator OP_OR"
abbreviation TOK_LT :: TokenKind where "TOK_LT \<equiv> Operator OP_LT"
abbreviation TOK_GT :: TokenKind where "TOK_GT \<equiv> Operator OP_GT"
abbreviation TOK_LE :: TokenKind where "TOK_LE \<equiv> Operator OP_LE"
abbreviation TOK_GE :: TokenKind where "TOK_GE \<equiv> Operator OP_GE"
abbreviation TOK_EQ :: TokenKind where "TOK_EQ \<equiv> Operator OP_EQ"
abbreviation TOK_NEQ :: TokenKind where "TOK_NEQ \<equiv> Operator OP_NEQ"
abbreviation TOK_LSHIFT :: TokenKind where "TOK_LSHIFT \<equiv> Operator OP_LSHIFT"
abbreviation TOK_RSHIFT :: TokenKind where "TOK_RSHIFT \<equiv> Operator OP_RSHIFT"
abbreviation TOK_ASSIGN :: TokenKind where "TOK_ASSIGN \<equiv> Operator OP_ASSIGN"
abbreviation TOK_PLUS_ASSIGN :: TokenKind where "TOK_PLUS_ASSIGN \<equiv> Operator OP_PLUS_ASSIGN"
abbreviation TOK_MINUS_ASSIGN :: TokenKind where "TOK_MINUS_ASSIGN \<equiv> Operator OP_MINUS_ASSIGN"
abbreviation TOK_STAR_ASSIGN :: TokenKind where "TOK_STAR_ASSIGN \<equiv> Operator OP_STAR_ASSIGN"
abbreviation TOK_SLASH_ASSIGN :: TokenKind where "TOK_SLASH_ASSIGN \<equiv> Operator OP_SLASH_ASSIGN"
abbreviation TOK_PERCENT_ASSIGN :: TokenKind where "TOK_PERCENT_ASSIGN \<equiv> Operator OP_PERCENT_ASSIGN"
abbreviation TOK_AMP_ASSIGN :: TokenKind where "TOK_AMP_ASSIGN \<equiv> Operator OP_AMP_ASSIGN"
abbreviation TOK_PIPE_ASSIGN :: TokenKind where "TOK_PIPE_ASSIGN \<equiv> Operator OP_PIPE_ASSIGN"
abbreviation TOK_CARET_ASSIGN :: TokenKind where "TOK_CARET_ASSIGN \<equiv> Operator OP_CARET_ASSIGN"
abbreviation TOK_LSHIFT_ASSIGN :: TokenKind where "TOK_LSHIFT_ASSIGN \<equiv> Operator OP_LSHIFT_ASSIGN"
abbreviation TOK_RSHIFT_ASSIGN :: TokenKind where "TOK_RSHIFT_ASSIGN \<equiv> Operator OP_RSHIFT_ASSIGN"
abbreviation TOK_PLUSPLUS :: TokenKind where "TOK_PLUSPLUS \<equiv> Operator OP_PLUSPLUS"
abbreviation TOK_MINUSMINUS :: TokenKind where "TOK_MINUSMINUS \<equiv> Operator OP_MINUSMINUS"
abbreviation TOK_ARROW :: TokenKind where "TOK_ARROW \<equiv> Operator OP_ARROW"
abbreviation TOK_DOT :: TokenKind where "TOK_DOT \<equiv> Operator OP_DOT"
abbreviation TOK_QUESTION :: TokenKind where "TOK_QUESTION \<equiv> Operator OP_QUESTION"
abbreviation TOK_COLON :: TokenKind where "TOK_COLON \<equiv> Operator OP_COLON"
abbreviation TOK_LPAREN :: TokenKind where "TOK_LPAREN \<equiv> Punct PU_LPAREN"
abbreviation TOK_RPAREN :: TokenKind where "TOK_RPAREN \<equiv> Punct PU_RPAREN"
abbreviation TOK_LBRACE :: TokenKind where "TOK_LBRACE \<equiv> Punct PU_LBRACE"
abbreviation TOK_RBRACE :: TokenKind where "TOK_RBRACE \<equiv> Punct PU_RBRACE"
abbreviation TOK_LBRACKET :: TokenKind where "TOK_LBRACKET \<equiv> Punct PU_LBRACKET"
abbreviation TOK_RBRACKET :: TokenKind where "TOK_RBRACKET \<equiv> Punct PU_RBRACKET"
abbreviation TOK_SEMICOLON :: TokenKind where "TOK_SEMICOLON \<equiv> Punct PU_SEMICOLON"
abbreviation TOK_COMMA :: TokenKind where "TOK_COMMA \<equiv> Punct PU_COMMA"
abbreviation TOK_ELLIPSIS :: TokenKind where "TOK_ELLIPSIS \<equiv> Punct PU_ELLIPSIS"
abbreviation TOK_HASH :: TokenKind where "TOK_HASH \<equiv> Punct PU_HASH"

text \<open>The value of each enumerator.\<close>

primrec kw_code :: "keyword_kind \<Rightarrow> nat" where
  "kw_code KW_AUTO = 5"
| "kw_code KW_BREAK = 6"
| "kw_code KW_CASE = 7"
| "kw_code KW_CHAR = 8"
| "kw_code KW_CONST = 9"
| "kw_code KW_CONTINUE = 10"
| "kw_code KW_DEFAULT = 11"
| "kw_code KW_DO = 12"
| "kw_code KW_DOUBLE = 13"
| "kw_code KW_ELSE = 14"
| "kw_code KW_ENUM = 15"
| "kw_code KW_EXTERN = 16"
| "kw_code KW_FLOAT = 17"
| "kw_code KW_FOR = 18"
| "kw_code KW_GOTO = 19"
| "kw_code KW_IF = 20"
| "kw_code KW_INLINE = 21"
| "kw_code KW_INT = 22"
| "kw_code KW_LONG = 23"
| "kw_code KW_REGISTER = 24"
| "kw_code KW_RESTRICT = 25"
| "kw_code KW_RETURN = 26"
| "kw_code KW_SHORT = 27"
| "kw_code KW_SIGNED = 28"
| "kw_code KW_SIZEOF = 29"
| "kw_code KW_STATIC = 30"
| "kw_code KW_STRUCT = 31"
| "kw_code KW_SWITCH = 32"
| "kw_code KW_TYPEDEF = 33"
| "kw_code KW_UNION = 34"
| "kw_code KW_UNSIGNED = 35"
| "kw_code KW_VOID = 36"
| "kw_code KW_VOLATILE = 37"
| "kw_code KW_WHILE = 38"
| "kw_code KW_BOOL = 39"
| "kw_code KW_COMPLEX = 40"
| "kw_code KW_IMAGINARY = 41"
| "kw_code KW_PRAGMA = 42"
| "kw_code KW_ALIGNOF = 43"

primrec ex_code :: "extension_kind \<Rightarrow> nat" where
  "ex_code EX_ATTRIBUTE = 44"
| "ex_code EX_ASM = 45"
| "ex_code EX_BUILTIN_VA_LIST = 46"
| "ex_code EX_EXTENSION = 47"
| "ex_code EX_NONNULL = 48"
| "ex_code EX_NORETURN = 49"
| "ex_code EX_NULLABLE = 50"
| "ex_code EX_TYPEOF = 51"

primrec op_code :: "operator_kind \<Rightarrow> nat" where
  "op_code OP_PLUS = 52"
| "op_code OP_MINUS = 53"
| "op_code OP_STAR = 54"
| "op_code OP_SLASH = 55"
| "op_code OP_PERCENT = 56"
| "op_code OP_AMP = 57"
| "op_code OP_PIPE = 58"
| "op_code OP_CARET = 59"
| "op_code OP_TILDE = 60"
| "op_code OP_BANG = 61"
| "op_code OP_AND = 62"
| "op_code OP_OR = 63"
| "op_code OP_LT = 64"
| "op_code OP_GT = 65"
| "op_code OP_LE = 66"
| "op_code OP_GE = 67"
| "op_code OP_EQ = 68"
| "op_code OP_NEQ = 69"
| "op_code OP_LSHIFT = 70"
| "op_code OP_RSHIFT = 71"
| "op_code OP_ASSIGN = 72"
| "op_code OP_PLUS_ASSIGN = 73"
| "op_code OP_MINUS_ASSIGN = 74"
| "op_code OP_STAR_ASSIGN = 75"
| "op_code OP_SLASH_ASSIGN = 76"
| "op_code OP_PERCENT_ASSIGN = 77"
| "op_code OP_AMP_ASSIGN = 78"
| "op_code OP_PIPE_ASSIGN = 79"
| "op_code OP_CARET_ASSIGN = 80"
| "op_code OP_LSHIFT_ASSIGN = 81"
| "op_code OP_RSHIFT_ASSIGN = 82"
| "op_code OP_PLUSPLUS = 83"
| "op_code OP_MINUSMINUS = 84"
| "op_code OP_ARROW = 85"
| "op_code OP_DOT = 86"
| "op_code OP_QUESTION = 87"
| "op_code OP_COLON = 88"

primrec pu_code :: "punct_kind \<Rightarrow> nat" where
  "pu_code PU_LPAREN = 89"
| "pu_code PU_RPAREN = 90"
| "pu_code PU_LBRACE = 91"
| "pu_code PU_RBRACE = 92"
| "pu_code PU_LBRACKET = 93"
| "pu_code PU_RBRACKET = 94"
| "pu_code PU_SEMICOLON = 95"
| "pu_code PU_COMMA = 96"
| "pu_code PU_ELLIPSIS = 97"
| "pu_code PU_HASH = 98"

primrec tok_code :: "TokenKind \<Rightarrow> nat" where
  "tok_code TOK_INT_LIT = 0"
| "tok_code TOK_FLOAT_LIT = 1"
| "tok_code TOK_CHAR_LIT = 2"
| "tok_code TOK_STR_LIT = 3"
| "tok_code TOK_IDENT = 4"
| "tok_code (Keyword k) = kw_code k"
| "tok_code (Extension k) = ex_code k"
| "tok_code (Operator k) = op_code k"
| "tok_code (Punct k) = pu_code k"
| "tok_code TOK_EOF = 99"
| "tok_code TOK_ERROR = 100"

definition TOK_COUNT :: nat where
  "TOK_COUNT = 101"

definition all_tokens :: "TokenKind list" where
  "all_tokens = [
    TOK_INT_LIT, TOK_FLOAT_LIT, TOK_CHAR_LIT, TOK_STR_LIT, TOK_IDENT, TOK_AUTO, TOK_BREAK,
    TOK_CASE, TOK_CHAR, TOK_CONST, TOK_CONTINUE, TOK_DEFAULT, TOK_DO, TOK_DOUBLE, TOK_ELSE,
    TOK_ENUM, TOK_EXTERN, TOK_FLOAT, TOK_FOR, TOK_GOTO, TOK_IF, TOK_INLINE, TOK_INT, TOK_LONG,
    TOK_REGISTER, TOK_RESTRICT, TOK_RETURN, TOK_SHORT, TOK_SIGNED, TOK_SIZEOF, TOK_STATIC,
    TOK_STRUCT, TOK_SWITCH, TOK_TYPEDEF, TOK_UNION, TOK_UNSIGNED, TOK_VOID, TOK_VOLATILE,
    TOK_WHILE, TOK_BOOL, TOK_COMPLEX, TOK_IMAGINARY, TOK_PRAGMA, TOK_ALIGNOF, TOK_ATTRIBUTE,
    TOK_ASM, TOK_BUILTIN_VA_LIST, TOK_EXTENSION, TOK_NONNULL, TOK_NORETURN, TOK_NULLABLE,
    TOK_TYPEOF, TOK_PLUS, TOK_MINUS, TOK_STAR, TOK_SLASH, TOK_PERCENT, TOK_AMP, TOK_PIPE,
    TOK_CARET, TOK_TILDE, TOK_BANG, TOK_AND, TOK_OR, TOK_LT, TOK_GT, TOK_LE, TOK_GE, TOK_EQ,
    TOK_NEQ, TOK_LSHIFT, TOK_RSHIFT, TOK_ASSIGN, TOK_PLUS_ASSIGN, TOK_MINUS_ASSIGN,
    TOK_STAR_ASSIGN, TOK_SLASH_ASSIGN, TOK_PERCENT_ASSIGN, TOK_AMP_ASSIGN, TOK_PIPE_ASSIGN,
    TOK_CARET_ASSIGN, TOK_LSHIFT_ASSIGN, TOK_RSHIFT_ASSIGN, TOK_PLUSPLUS, TOK_MINUSMINUS,
    TOK_ARROW, TOK_DOT, TOK_QUESTION, TOK_COLON, TOK_LPAREN, TOK_RPAREN, TOK_LBRACE, TOK_RBRACE,
    TOK_LBRACKET, TOK_RBRACKET, TOK_SEMICOLON, TOK_COMMA, TOK_ELLIPSIS, TOK_HASH, TOK_EOF,
    TOK_ERROR]"

lemma kw_nth: "all_tokens ! kw_code k = Keyword k"
  by (cases k) (simp_all add: all_tokens_def)

lemma ex_nth: "all_tokens ! ex_code k = Extension k"
  by (cases k) (simp_all add: all_tokens_def)

lemma op_nth: "all_tokens ! op_code k = Operator k"
  by (cases k) (simp_all add: all_tokens_def)

lemma pu_nth: "all_tokens ! pu_code k = Punct k"
  by (cases k) (simp_all add: all_tokens_def)

lemma all_tokens_nth: "all_tokens ! tok_code k = k"
  by (cases k) (simp_all add: kw_nth ex_nth op_nth pu_nth, simp_all add: all_tokens_def)

lemma tok_code_inj: "tok_code j = tok_code k \<longleftrightarrow> j = k"
  using all_tokens_nth by metis

instantiation TokenKind :: linorder
begin

definition less_eq_TokenKind :: "TokenKind \<Rightarrow> TokenKind \<Rightarrow> bool" where
  "j \<le> k \<longleftrightarrow> tok_code j \<le> tok_code k"

definition less_TokenKind :: "TokenKind \<Rightarrow> TokenKind \<Rightarrow> bool" where
  "j < k \<longleftrightarrow> tok_code j < tok_code k"

instance
  by standard (auto simp: less_eq_TokenKind_def less_TokenKind_def tok_code_inj)

end

text \<open>The suffix flags of integer literals, combined with bitwise or.\<close>

definition INT_SUFFIX_NONE :: int where "INT_SUFFIX_NONE = 0"
definition INT_SUFFIX_U :: int where "INT_SUFFIX_U = 1"
definition INT_SUFFIX_L :: int where "INT_SUFFIX_L = 2"
definition INT_SUFFIX_LL :: int where "INT_SUFFIX_LL = 4"

record token =
  tk_kind :: TokenKind
  tk_start :: nat
  tk_len :: nat
  tk_line :: int
  tk_col :: int
  tk_int_val :: u64
  tk_float_val :: string
  tk_int_suffix :: int
  tk_float_suffix :: char
  tk_str_idx :: int
  tk_is_wide :: bool

subsection \<open>Names\<close>

definition tok_names :: "(TokenKind \<times> string) list" where
  "tok_names = [
    (TOK_INT_LIT, ''INT_LIT''), (TOK_FLOAT_LIT, ''FLOAT_LIT''), (TOK_CHAR_LIT, ''CHAR_LIT''),
    (TOK_STR_LIT, ''STR_LIT''), (TOK_IDENT, ''IDENT''), (TOK_AUTO, ''auto''),
    (TOK_BREAK, ''break''), (TOK_CASE, ''case''), (TOK_CHAR, ''char''), (TOK_CONST, ''const''),
    (TOK_CONTINUE, ''continue''), (TOK_DEFAULT, ''default''), (TOK_DO, ''do''),
    (TOK_DOUBLE, ''double''), (TOK_ELSE, ''else''), (TOK_ENUM, ''enum''),
    (TOK_EXTERN, ''extern''), (TOK_FLOAT, ''float''), (TOK_FOR, ''for''), (TOK_GOTO, ''goto''),
    (TOK_IF, ''if''), (TOK_INLINE, ''inline''), (TOK_INT, ''int''), (TOK_LONG, ''long''),
    (TOK_REGISTER, ''register''), (TOK_RESTRICT, ''restrict''), (TOK_RETURN, ''return''),
    (TOK_SHORT, ''short''), (TOK_SIGNED, ''signed''), (TOK_SIZEOF, ''sizeof''),
    (TOK_STATIC, ''static''), (TOK_STRUCT, ''struct''), (TOK_SWITCH, ''switch''),
    (TOK_TYPEDEF, ''typedef''), (TOK_UNION, ''union''), (TOK_UNSIGNED, ''unsigned''),
    (TOK_VOID, ''void''), (TOK_VOLATILE, ''volatile''), (TOK_WHILE, ''while''),
    (TOK_BOOL, ''_Bool''), (TOK_COMPLEX, ''_Complex''), (TOK_IMAGINARY, ''_Imaginary''),
    (TOK_PRAGMA, ''_Pragma''), (TOK_ATTRIBUTE, ''__attribute__''), (TOK_ASM, ''__asm__''),
    (TOK_BUILTIN_VA_LIST, ''__builtin_va_list''), (TOK_EXTENSION, ''__extension__''),
    (TOK_TYPEOF, ''__typeof__''), (TOK_NONNULL, ''_Nonnull''), (TOK_NORETURN, ''_Noreturn''),
    (TOK_NULLABLE, ''_Nullable''), (TOK_PLUS, ''+''), (TOK_MINUS, ''-''), (TOK_STAR, ''*''),
    (TOK_SLASH, ''/''), (TOK_PERCENT, ''%''), (TOK_AMP, ''&''), (TOK_PIPE, ''|''),
    (TOK_CARET, ''^''), (TOK_TILDE, ''~''), (TOK_BANG, ''!''), (TOK_AND, ''&&''),
    (TOK_OR, ''||''), (TOK_LT, ''<''), (TOK_GT, ''>''), (TOK_LE, ''<=''), (TOK_GE, ''>=''),
    (TOK_EQ, ''==''), (TOK_NEQ, ''!=''), (TOK_LSHIFT, ''<<''), (TOK_RSHIFT, ''>>''),
    (TOK_ASSIGN, ''=''), (TOK_PLUS_ASSIGN, ''+=''), (TOK_MINUS_ASSIGN, ''-=''),
    (TOK_STAR_ASSIGN, ''*=''), (TOK_SLASH_ASSIGN, ''/=''), (TOK_PERCENT_ASSIGN, ''%=''),
    (TOK_AMP_ASSIGN, ''&=''), (TOK_PIPE_ASSIGN, ''|=''), (TOK_CARET_ASSIGN, ''^=''),
    (TOK_LSHIFT_ASSIGN, ''<<=''), (TOK_RSHIFT_ASSIGN, ''>>=''), (TOK_PLUSPLUS, ''++''),
    (TOK_MINUSMINUS, ''--''), (TOK_ARROW, ''->''), (TOK_DOT, ''.''), (TOK_QUESTION, ''?''),
    (TOK_COLON, '':''), (TOK_LPAREN, ''(''), (TOK_RPAREN, '')''), (TOK_LBRACE, ''{''),
    (TOK_RBRACE, ''}''), (TOK_LBRACKET, ''[''), (TOK_RBRACKET, '']''), (TOK_SEMICOLON, '';''),
    (TOK_COMMA, '',''), (TOK_ELLIPSIS, ''...''), (TOK_HASH, ''#''), (TOK_EOF, ''EOF''),
    (TOK_ERROR, ''ERROR'')]"

definition token_kind_name :: "TokenKind \<Rightarrow> string" where
  "token_kind_name kind = (case map_of tok_names kind of Some n \<Rightarrow> n | None \<Rightarrow> ''UNKNOWN'')"

definition token_keyword_str :: "TokenKind \<Rightarrow> string option" where
  "token_keyword_str kind =
     (if kind \<ge> TOK_AUTO \<and> kind \<le> TOK_PRAGMA then Some (token_kind_name kind) else None)"

text \<open>The keyword table, as written in lookup_keyword.\<close>

definition NUM_KW :: nat where
  "NUM_KW = 59"

definition kw_table :: "(string \<times> TokenKind) list" where
  "kw_table = [
    (''_Alignof'', TOK_ALIGNOF), (''_Bool'', TOK_BOOL), (''_Complex'', TOK_COMPLEX),
    (''_Imaginary'', TOK_IMAGINARY), (''_Nonnull'', TOK_NONNULL), (''_Noreturn'', TOK_NORETURN),
    (''_Nullable'', TOK_NULLABLE), (''_Pragma'', TOK_PRAGMA), (''__asm'', TOK_ASM),
    (''__asm__'', TOK_ASM), (''__attribute__'', TOK_ATTRIBUTE),
    (''__builtin_va_list'', TOK_BUILTIN_VA_LIST), (''__const'', TOK_CONST),
    (''__const__'', TOK_CONST), (''__extension__'', TOK_EXTENSION), (''__inline'', TOK_INLINE),
    (''__inline__'', TOK_INLINE), (''__restrict'', TOK_RESTRICT),
    (''__restrict__'', TOK_RESTRICT), (''__signed'', TOK_SIGNED), (''__signed__'', TOK_SIGNED),
    (''__typeof__'', TOK_TYPEOF), (''__volatile'', TOK_VOLATILE),
    (''__volatile__'', TOK_VOLATILE), (''asm'', TOK_ASM), (''auto'', TOK_AUTO),
    (''break'', TOK_BREAK), (''case'', TOK_CASE), (''char'', TOK_CHAR), (''const'', TOK_CONST),
    (''continue'', TOK_CONTINUE), (''default'', TOK_DEFAULT), (''do'', TOK_DO),
    (''double'', TOK_DOUBLE), (''else'', TOK_ELSE), (''enum'', TOK_ENUM),
    (''extern'', TOK_EXTERN), (''float'', TOK_FLOAT), (''for'', TOK_FOR), (''goto'', TOK_GOTO),
    (''if'', TOK_IF), (''inline'', TOK_INLINE), (''int'', TOK_INT), (''long'', TOK_LONG),
    (''register'', TOK_REGISTER), (''restrict'', TOK_RESTRICT), (''return'', TOK_RETURN),
    (''short'', TOK_SHORT), (''signed'', TOK_SIGNED), (''sizeof'', TOK_SIZEOF),
    (''static'', TOK_STATIC), (''struct'', TOK_STRUCT), (''switch'', TOK_SWITCH),
    (''typedef'', TOK_TYPEDEF), (''union'', TOK_UNION), (''unsigned'', TOK_UNSIGNED),
    (''void'', TOK_VOID), (''volatile'', TOK_VOLATILE), (''while'', TOK_WHILE)]"

lemma kw_table_length: "length kw_table = NUM_KW"
  by (simp add: kw_table_def NUM_KW_def)

end
