(* ===== verification/Arena.thy ===== *)
theory Arena
  imports Prelude
begin

section \<open>The bump-pointer arena (arena.c, arena.h)\<close>

text \<open>
  An arena is its chain of pages, the first page first. A page records the size of the
  block malloc returned (the 32-byte \<open>struct Arena\<close> header included), the bytes handed
  out so far, its capacity, and the contents of the capacity bytes after the header. A
  pointer into an arena is a page number and an offset from that page's \<open>base\<close>.
  \<open>malloc\<close> is an argument: it maps a request to the initial contents of the new block,
  or to None when the request fails, in which case the code prints a message and exits.
\<close>

subsection \<open>State and operations\<close>

record page =
  pg_block :: u64
  pg_used :: u64
  pg_cap :: u64
  pg_mem :: "nat \<Rightarrow> char"

type_synonym arena = "page list"
type_synonym aptr = "nat \<times> nat"
type_synonym malloc_fn = "u64 \<Rightarrow> (nat \<Rightarrow> char) option"

datatype alloc_result =
    Exited \<comment> \<open>exit(1) after a failed malloc\<close>
  | Undefined \<comment> \<open>a null pointer is dereferenced\<close>
  | NullPtr arena
  | Ptr arena aptr

definition ARENA_DEFAULT_CAP :: u64 where
  "ARENA_DEFAULT_CAP = 64 * 1024"

definition SIZE_MAX :: u64 where
  "SIZE_MAX = - 1"

definition sizeof_Arena :: u64 where
  "sizeof_Arena = 32"

definition align_up :: "u64 \<Rightarrow> u64 \<Rightarrow> u64" where
  "align_up n align = (n + align - 1) AND NOT (align - 1)"

definition malloc_page :: "malloc_fn \<Rightarrow> u64 \<Rightarrow> page option" where
  "malloc_page malloc cap =
     (case malloc (sizeof_Arena + cap) of
        None \<Rightarrow> None
      | Some bytes \<Rightarrow> Some \<lparr>pg_block = sizeof_Arena + cap, pg_used = 0, pg_cap = cap, pg_mem = bytes\<rparr>)"

definition arena_create :: "malloc_fn \<Rightarrow> u64 \<Rightarrow> arena option" where
  "arena_create malloc initial_cap =
     (let cap = (if initial_cap = 0 then ARENA_DEFAULT_CAP else initial_cap)
      in map_option (\<lambda>p. [p]) (malloc_page malloc cap))"

definition arena_alloc :: "malloc_fn \<Rightarrow> arena \<Rightarrow> u64 \<Rightarrow> u64 \<Rightarrow> alloc_result" where
  "arena_alloc malloc a sz align =
     (let i = length a - 1; cur = a ! i;
          offset = align_up (pg_used cur) align
      in if offset > SIZE_MAX - sz then NullPtr a
         else if offset + sz \<le> pg_cap cur
           then Ptr (a[i := cur\<lparr>pg_used := offset + sz\<rparr>]) (i, unat offset)
         else if sz > SIZE_MAX - align then NullPtr a
         else let new_cap = (if sz + align > ARENA_DEFAULT_CAP then sz + align
                             else ARENA_DEFAULT_CAP)
              in case malloc_page malloc new_cap of
                   None \<Rightarrow> Exited
                 | Some page \<Rightarrow>
                     let offset = align_up (pg_used page) align
                     in Ptr (a @ [page\<lparr>pg_used := offset + sz\<rparr>]) (length a, unat offset))"

text \<open>memcpy into a page, and reading a run of bytes back.\<close>

definition write_mem :: "(nat \<Rightarrow> char) \<Rightarrow> nat \<Rightarrow> string \<Rightarrow> (nat \<Rightarrow> char)" where
  "write_mem m off bs = (\<lambda>k. if off \<le> k \<and> k < off + length bs then bs ! (k - off) else m k)"

definition arena_write :: "arena \<Rightarrow> aptr \<Rightarrow> string \<Rightarrow> arena" where
  "arena_write a p bs = a[fst p := (a ! fst p)\<lparr>pg_mem := write_mem (pg_mem (a ! fst p)) (snd p) bs\<rparr>]"

definition arena_read :: "arena \<Rightarrow> aptr \<Rightarrow> nat \<Rightarrow> string" where
  "arena_read a p n = map (\<lambda>k. pg_mem (a ! fst p) (snd p + k)) [0..<n]"

definition arena_strdup :: "malloc_fn \<Rightarrow> arena \<Rightarrow> string \<Rightarrow> alloc_result" where
  "arena_strdup malloc a s =
     (case arena_alloc malloc a (of_nat (length s) + 1) 1 of
        Ptr a' p \<Rightarrow> Ptr (arena_write a' p (s @ [NUL])) p
      | NullPtr a' \<Rightarrow> Undefined
      | r \<Rightarrow> r)"

text \<open>The blocks handed to free, in order.\<close>

fun arena_destroy :: "arena \<Rightarrow> page list" where
  "arena_destroy [] = []"
| "arena_destroy (p # ps) = p # arena_destroy ps"

definition arena_reset :: "arena \<Rightarrow> arena \<times> page list" where
  "arena_reset a = ([(hd a)\<lparr>pg_used := 0\<rparr>], arena_destroy (tl a))"

subsection \<open>The invariant and what a pointer may touch\<close>

definition page_ok :: "page \<Rightarrow> bool" where
  "page_ok p \<longleftrightarrow> pg_used p \<le> pg_cap p \<and> unat (pg_block p) = unat (pg_cap p) + 32"

definition arena_inv :: "arena \<Rightarrow> bool" where
  "arena_inv a \<longleftrightarrow> a \<noteq> [] \<and> (\<forall>p \<in> set a. page_ok p)"

text \<open>A region the arena has handed out.\<close>

definition owned :: "arena \<Rightarrow> aptr \<Rightarrow> nat \<Rightarrow> bool" where
  "owned a p n \<longleftrightarrow> fst p < length a \<and> snd p + n \<le> unat (pg_used (a ! fst p))"

definition disjoint_regions :: "aptr \<Rightarrow> nat \<Rightarrow> aptr \<Rightarrow> nat \<Rightarrow> bool" where
  "disjoint_regions p n q m \<longleftrightarrow> fst p \<noteq> fst q \<or> snd p + n \<le> snd q \<or> snd q + m \<le> snd p"

text \<open>The alignments \<open>_Alignof\<close> gives, and requests that leave room for a header.\<close>

definition align_ok :: "u64 \<Rightarrow> bool" where
  "align_ok al \<longleftrightarrow> al \<in> {1, 2, 4, 8, 16}"

definition size_ok :: "u64 \<Rightarrow> bool" where
  "size_ok sz \<longleftrightarrow> unat sz + 64 < 2 ^ 64"

subsection \<open>Alignment on size_t\<close>

lemma unat_pow2_64: "k < 64 \<Longrightarrow> unat (2 ^ k :: u64) = 2 ^ k"
proof -
  assume k: "k < 64"
  have "unat (of_nat (2 ^ k) :: u64) = 2 ^ k mod 2 ^ 64"
    by (simp only: unat_of_nat) simp
  also have "\<dots> = 2 ^ k"
    using k by (intro mod_less power_strict_increasing) auto
  finally show ?thesis by simp
qed

lemma align_up_mask:
  assumes "k < 64" "unat n + 2 ^ k \<le> 2 ^ 64"
  shows "unat (align_up n (2 ^ k)) = (unat n + (2 ^ k - 1)) div 2 ^ k * 2 ^ k"
proof -
  let ?x = "n + 2 ^ k - 1"
  have u: "unat (2 ^ k :: u64) = 2 ^ k" using assms(1) by (rule unat_pow2_64)
  have x: "unat ?x = unat n + (2 ^ k - 1)"
  proof -
    have m: "unat (2 ^ k - 1 :: u64) = 2 ^ k - 1"
      using u by (metis power_not_zero unat_0 unat_minus_one zero_neq_numeral)
    have "(1 :: nat) \<le> 2 ^ k" by simp
    then have "unat n + (2 ^ k - 1) < 2 ^ 64" using assms(2) by linarith
    then have "unat (n + (2 ^ k - 1)) = unat n + (2 ^ k - 1)"
      using m by (simp add: unat_word_ariths)
    then show ?thesis by (simp add: add_diff_eq)
  qed
  have "align_up n (2 ^ k) = ?x - take_bit k ?x"
    using and_not_mask [of ?x k] by (simp add: align_up_def mask_eq_exp_minus_1)
  moreover have t: "unat (take_bit k ?x) = unat ?x mod 2 ^ k"
    by (subst unsigned_take_bit_eq) (rule take_bit_eq_mod)
  ultimately have "unat (align_up n (2 ^ k)) = unat ?x - unat ?x mod 2 ^ k"
    by (simp only: unat_sub word_le_nat_alt mod_less_eq_dividend)
  then show ?thesis by (simp only: x minus_mod_eq_div_mult)
qed

lemma align_ok_exp: "align_ok al \<Longrightarrow> \<exists>k. k \<le> 4 \<and> al = 2 ^ k \<and> unat al = 2 ^ k"
  unfolding align_ok_def
  by (auto intro: exI [of _ 0] exI [of _ 1] exI [of _ 2] exI [of _ 3] exI [of _ 4])

lemma align_up_spec:
  assumes "align_ok al" "unat n + 16 \<le> 2 ^ 64"
  shows "unat al dvd unat (align_up n al)" "unat n \<le> unat (align_up n al)"
    "unat (align_up n al) < unat n + unat al"
proof -
  obtain k where k: "k \<le> 4" "al = 2 ^ k" "unat al = 2 ^ k"
    using align_ok_exp [OF assms(1)] by auto
  have "(2 :: nat) ^ k \<le> 2 ^ 4" using k(1) by (intro power_increasing) auto
  then have r: "unat n + 2 ^ k \<le> 2 ^ 64" using assms(2) by simp
  let ?m = "unat n + (2 ^ k - 1)"
  have e: "unat (align_up n al) = ?m div 2 ^ k * 2 ^ k"
    using align_up_mask [OF _ r] k by simp
  moreover have "?m div 2 ^ k * 2 ^ k + ?m mod 2 ^ k = ?m" "?m mod 2 ^ k < 2 ^ k"
    by (simp_all add: div_mult_mod_eq)
  moreover have "(1 :: nat) \<le> 2 ^ k" by simp
  ultimately show "unat n \<le> unat (align_up n al)" "unat (align_up n al) < unat n + unat al"
    using k(3) by linarith+
  show "unat al dvd unat (align_up n al)" using e k(3) by simp
qed

lemma page_ok_used:
  assumes "page_ok p"
  shows "unat (pg_used p) \<le> unat (pg_cap p)" "unat (pg_cap p) + 32 < 2 ^ 64"
proof -
  show "unat (pg_used p) \<le> unat (pg_cap p)"
    using assms by (simp add: page_ok_def word_le_nat_alt)
  have "unat (pg_block p) < 2 ^ 64" using unsigned_less [of "pg_block p"] by simp
  then show "unat (pg_cap p) + 32 < 2 ^ 64" using assms by (simp add: page_ok_def)
qed

subsection \<open>What one allocation does\<close>

text \<open>
  The fit test is exact: no wrap-around hides in the comparison with the capacity, because
  the test against \<open>SIZE_MAX - size\<close> comes first.
\<close>

lemma no_wrap_iff: "\<not> (offset > SIZE_MAX - sz) \<longleftrightarrow> unat offset + unat sz < 2 ^ 64"
proof -
  have lt: "unat sz < 2 ^ 64" using unsigned_less [of sz] by simp
  then have "unat (SIZE_MAX - sz) = 2 ^ 64 - 1 - unat sz"
    by (simp add: SIZE_MAX_def unat_sub_if' unsigned_minus_1_eq_mask mask_eq_exp_minus_1)
  moreover note lt
  ultimately show ?thesis by (auto simp: word_less_nat_alt not_less)
qed

lemma unat_add_no_wrap: "unat a + unat b < 2 ^ 64 \<Longrightarrow> unat (a + b :: u64) = unat a + unat b"
  by (simp add: unat_word_ariths)

lemma malloc_page_ok:
  assumes "malloc_page malloc cap = Some p" "unat cap + 32 < 2 ^ 64"
  shows "page_ok p" "pg_used p = 0" "pg_cap p = cap"
  using assms unat_add_no_wrap [of 32 cap]
  by (auto simp: malloc_page_def page_ok_def sizeof_Arena_def split: option.splits)

lemma new_cap_bound:
  assumes "size_ok sz" "align_ok al"
  shows "unat (sz + al) = unat sz + unat al" "\<not> (sz > SIZE_MAX - al)"
    "unat (if sz + al > ARENA_DEFAULT_CAP then sz + al else ARENA_DEFAULT_CAP) + 32 < 2 ^ 64"
proof -
  have a: "unat al \<le> 16" using assms(2) by (auto simp: align_ok_def)
  then have n: "unat sz + unat al < 2 ^ 64" using assms(1) by (simp add: size_ok_def)
  then show e: "unat (sz + al) = unat sz + unat al" by (rule unat_add_no_wrap)
  show "\<not> (sz > SIZE_MAX - al)" using n no_wrap_iff by blast
  show "unat (if sz + al > ARENA_DEFAULT_CAP then sz + al else ARENA_DEFAULT_CAP) + 32 < 2 ^ 64"
    using assms(1) a e by (simp add: size_ok_def ARENA_DEFAULT_CAP_def)
qed

lemma alloc_Ptr_cases:
  assumes "arena_inv a" "size_ok sz" "align_ok al" "arena_alloc malloc a sz al = Ptr a' p"
  obtains (fits) off where "a' = a[length a - 1 := (last a)\<lparr>pg_used := off + sz\<rparr>]"
      "p = (length a - 1, unat off)" "unat al dvd unat off"
      "unat (pg_used (last a)) \<le> unat off" "unat off + unat sz \<le> unat (pg_cap (last a))"
      "unat (off + sz) = unat off + unat sz"
  | (grows) pg where "a' = a @ [pg\<lparr>pg_used := sz\<rparr>]" "p = (length a, 0)"
      "page_ok pg" "unat sz \<le> unat (pg_cap pg)"
proof -
  from assms(1) have ne: "a \<noteq> []" and lst: "page_ok (last a)" by (auto simp: arena_inv_def)
  have cur: "a ! (length a - Suc 0) = last a" using ne by (simp add: last_conv_nth)
  let ?off = "align_up (pg_used (last a)) al"
  have u: "unat (pg_used (last a)) + 16 \<le> 2 ^ 64" using page_ok_used [OF lst] by linarith
  note au = align_up_spec [OF assms(3) u]
  show thesis
  proof (cases "\<not> ?off > SIZE_MAX - sz \<and> ?off + sz \<le> pg_cap (last a)")
    case True
    then have nw: "unat ?off + unat sz < 2 ^ 64" using no_wrap_iff [of sz ?off] by auto
    note e = unat_add_no_wrap [OF nw]
    have "a' = a[length a - 1 := (last a)\<lparr>pg_used := ?off + sz\<rparr>]" "p = (length a - 1, unat ?off)"
      using assms(4) True by (simp_all add: arena_alloc_def Let_def cur)
    moreover have "unat ?off + unat sz \<le> unat (pg_cap (last a))"
      using True e by (simp add: word_le_nat_alt)
    ultimately show thesis using fits au e by blast
  next
    case False
    note nb = new_cap_bound [OF assms(2,3)]
    let ?cap = "if sz + al > ARENA_DEFAULT_CAP then sz + al else ARENA_DEFAULT_CAP"
    from False assms(4) nb(2) obtain pg where pg: "malloc_page malloc ?cap = Some pg"
      and a': "a' = a @ [pg\<lparr>pg_used := align_up (pg_used pg) al + sz\<rparr>]"
      and p: "p = (length a, unat (align_up (pg_used pg) al))"
      by (auto simp: arena_alloc_def Let_def cur split: option.splits if_splits)
    note mp = malloc_page_ok [OF pg nb(3)]
    have "unat (align_up 0 al) = 0"
      using align_up_spec [OF assms(3), of 0] nat_dvd_not_less by fastforce
    then have z: "align_up 0 al = 0" by (simp add: unat_eq_zero)
    have "unat sz \<le> unat ?cap"
      using nb(1) by (auto simp: word_less_nat_alt not_less ARENA_DEFAULT_CAP_def)
    then show thesis using grows [of pg] a' p mp z by simp
  qed
qed

subsection \<open>Safety of the allocator\<close>

definition extends :: "arena \<Rightarrow> arena \<Rightarrow> bool" where
  "extends a a' \<longleftrightarrow> length a \<le> length a' \<and>
     (\<forall>i < length a. pg_used (a ! i) \<le> pg_used (a' ! i) \<and> pg_mem (a' ! i) = pg_mem (a ! i))"

lemma extends_owned:
  assumes "extends a a'" "owned a q m"
  shows "owned a' q m" "arena_read a' q m = arena_read a q m"
  using assms by (auto simp: extends_def owned_def arena_read_def word_le_nat_alt intro: order_trans)

lemma arena_alloc_effect:
  assumes "arena_inv a" "size_ok sz" "align_ok al" "arena_alloc malloc a sz al = Ptr a' p"
  shows "arena_inv a'" "owned a' p (unat sz)" "unat al dvd snd p" "extends a a'"
    "owned a q m \<Longrightarrow> disjoint_regions p (unat sz) q m"
    "snd p + unat sz \<le> unat (pg_cap (a' ! fst p))"
proof -
  have ne: "a \<noteq> []" and ok: "\<forall>p \<in> set a. page_ok p" using assms(1) by (auto simp: arena_inv_def)
  have lst: "last a = a ! (length a - Suc 0)" using ne by (simp add: last_conv_nth)
  have "arena_inv a' \<and> owned a' p (unat sz) \<and> unat al dvd snd p \<and> extends a a' \<and>
      (owned a q m \<longrightarrow> disjoint_regions p (unat sz) q m) \<and> snd p + unat sz \<le> unat (pg_cap (a' ! fst p))"
    using assms
  proof (cases rule: alloc_Ptr_cases)
    case (fits off)
    have "page_ok ((last a)\<lparr>pg_used := off + sz\<rparr>)"
      using ok ne fits(5,6) by (simp add: page_ok_def word_le_nat_alt)
    then show ?thesis
      using ok ne fits set_update_subset_insert [of a "length a - 1"]
      by (auto simp: arena_inv_def owned_def extends_def disjoint_regions_def nth_list_update
          word_le_nat_alt lst)
  next
    case (grows pg)
    have "page_ok (pg\<lparr>pg_used := sz\<rparr>)"
      using grows(3,4) by (simp add: page_ok_def word_le_nat_alt)
    then show ?thesis
      using ok grows
      by (auto simp: arena_inv_def owned_def extends_def disjoint_regions_def nth_append)
  qed
  then show "arena_inv a'" "owned a' p (unat sz)" "unat al dvd snd p" "extends a a'"
    "owned a q m \<Longrightarrow> disjoint_regions p (unat sz) q m"
    "snd p + unat sz \<le> unat (pg_cap (a' ! fst p))"
    by blast+
qed

text \<open>C26: an allocation keeps the arena well formed, is aligned, lies inside its page, and
  does not overlap any region handed out before, whose bytes it leaves as they are.\<close>

theorem arena_alloc_safe:
  assumes "arena_inv a" "size_ok sz" "align_ok al" "arena_alloc malloc a sz al = Ptr a' p"
  shows "arena_inv a' \<and> owned a' p (unat sz) \<and> unat al dvd snd p
    \<and> snd p + unat sz \<le> unat (pg_cap (a' ! fst p))
    \<and> (\<forall>q m. owned a q m \<longrightarrow> disjoint_regions p (unat sz) q m \<and> owned a' q m
          \<and> arena_read a' q m = arena_read a q m)"
  using arena_alloc_effect [OF assms] extends_owned by blast

text \<open>With room for the request below the address-space limit, the only other outcome is the
  exit after a failed malloc: the null-pointer branches are not taken.\<close>

lemma arena_alloc_not_null:
  assumes "arena_inv a" "size_ok sz" "align_ok al" "unat (pg_cap (last a)) + unat sz + 16 < 2 ^ 64"
  shows "arena_alloc malloc a sz al = Exited \<or> (\<exists>a' p. arena_alloc malloc a sz al = Ptr a' p)"
proof -
  have ne: "a \<noteq> []" and lst: "page_ok (last a)" using assms(1) by (auto simp: arena_inv_def)
  have cur: "a ! (length a - Suc 0) = last a" using ne by (simp add: last_conv_nth)
  have u: "unat (pg_used (last a)) + 16 \<le> 2 ^ 64" using page_ok_used [OF lst] by linarith
  have "unat (align_up (pg_used (last a)) al) + unat sz < 2 ^ 64"
    using align_up_spec(3) [OF assms(3) u] assms(3,4) page_ok_used(1) [OF lst]
    by (auto simp: align_ok_def)
  then have "\<not> align_up (pg_used (last a)) al > SIZE_MAX - sz" using no_wrap_iff by blast
  then show ?thesis
    using new_cap_bound(2) [OF assms(2,3)]
    by (auto simp: arena_alloc_def Let_def cur split: option.splits)
qed

lemma arena_create_inv:
  assumes "arena_create malloc cap = Some a" "size_ok cap"
  shows "arena_inv a" "\<not> owned a p (Suc n)"
proof -
  let ?c = "if cap = 0 then ARENA_DEFAULT_CAP else cap"
  obtain pg where pg: "malloc_page malloc ?c = Some pg" "a = [pg]"
    using assms(1) by (auto simp: arena_create_def Let_def)
  have "unat ?c + 32 < 2 ^ 64" using assms(2) by (simp add: size_ok_def ARENA_DEFAULT_CAP_def)
  from malloc_page_ok [OF pg(1) this] pg(2) show "arena_inv a" "\<not> owned a p (Suc n)"
    by (auto simp: arena_inv_def owned_def)
qed

lemma arena_destroy_all: "arena_destroy a = a"
  by (induction a) auto

lemma arena_reset_inv:
  assumes "arena_inv a" "arena_reset a = (a', freed)"
  shows "arena_inv a'" "length a' = 1" "freed = tl a" "\<not> owned a' p (Suc n)"
proof -
  obtain q qs where "a = q # qs" using assms(1) by (cases a) (auto simp: arena_inv_def)
  with assms show "arena_inv a'" "length a' = 1" "freed = tl a" "\<not> owned a' p (Suc n)"
    by (auto simp: arena_reset_def arena_inv_def page_ok_def owned_def arena_destroy_all)
qed

subsection \<open>Copying a string into the arena\<close>

lemma arena_write_inv: "arena_inv a \<Longrightarrow> arena_inv (arena_write a p bs)"
proof (cases "fst p < length a")
  case True
  assume "arena_inv a"
  with True have "page_ok (a ! fst p)" by (auto simp: arena_inv_def)
  then have "page_ok ((a ! fst p)\<lparr>pg_mem := write_mem (pg_mem (a ! fst p)) (snd p) bs\<rparr>)"
    by (simp add: page_ok_def)
  then show ?thesis
    using \<open>arena_inv a\<close> set_update_subset_insert [of a "fst p"]
    unfolding arena_inv_def arena_write_def by auto
qed (simp add: arena_write_def list_update_beyond)

lemma owned_arena_write [simp]: "owned (arena_write a p bs) q m = owned a q m"
  by (cases "fst p < length a")
    (auto simp: owned_def arena_write_def nth_list_update list_update_beyond)

lemma arena_read_write:
  assumes "fst p < length a"
  shows "arena_read (arena_write a p bs) p (length bs) = bs"
  using assms by (auto simp: arena_read_def arena_write_def write_mem_def intro: nth_equalityI)

lemma arena_read_write_disjoint:
  assumes "disjoint_regions p (length bs) q m" "fst q < length a"
  shows "arena_read (arena_write a p bs) q m = arena_read a q m"
  using assms
  by (cases "fst p = fst q")
    (auto simp: arena_read_def arena_write_def write_mem_def disjoint_regions_def)

definition str_ok :: "string \<Rightarrow> bool" where
  "str_ok s \<longleftrightarrow> length s + 66 < 2 ^ 64"

lemma arena_strdup_effect:
  assumes "arena_inv a" "str_ok s" "arena_strdup malloc a s = Ptr a' p"
  shows "arena_inv a'" "owned a' p (Suc (length s))"
    "arena_read a' p (Suc (length s)) = s @ [NUL]"
    "owned a q m \<Longrightarrow> owned a' q m \<and> arena_read a' q m = arena_read a q m"
proof -
  let ?n = "of_nat (length s) + 1 :: u64"
  obtain b where b: "arena_alloc malloc a ?n 1 = Ptr b p" and a': "a' = arena_write b p (s @ [NUL])"
    using assms(3) by (auto simp: arena_strdup_def split: alloc_result.splits)
  have n: "unat ?n = Suc (length s)"
  proof -
    have "?n = of_nat (Suc (length s))" by simp
    moreover have "Suc (length s) < 2 ^ 64" using assms(2) by (simp add: str_ok_def)
    ultimately show ?thesis by (simp only: unat_of_nat) simp
  qed
  have sz: "size_ok ?n" "align_ok 1" using assms(2) n by (simp_all add: size_ok_def str_ok_def align_ok_def)
  note eff = arena_alloc_effect [OF assms(1) sz b]
  show "arena_inv a'" using eff(1) a' by (simp add: arena_write_inv)
  show "owned a' p (Suc (length s))" using eff(2) a' n by simp
  have "fst p < length b" using eff(2) by (simp add: owned_def)
  then show "arena_read a' p (Suc (length s)) = s @ [NUL]"
    using arena_read_write [of p b "s @ [NUL]"] a' by simp
  assume q: "owned a q m"
  have q': "owned b q m" "arena_read b q m = arena_read a q m"
    using extends_owned [OF eff(4) q] by auto
  then have "fst q < length b" by (simp add: owned_def)
  then show "owned a' q m \<and> arena_read a' q m = arena_read a q m"
    using arena_read_write_disjoint [of p "s @ [NUL]" q m b] eff(5) [OF q] n a' q' by simp
qed

subsection \<open>The interface the string table relies on\<close>

text \<open>
  A store of byte strings: \<open>dup\<close> copies a string and returns where the copy lives, and
  no later copy disturbs an earlier one.
\<close>

locale string_store =
  fixes dup :: "'a \<Rightarrow> string \<Rightarrow> ('a \<times> 'p) option"
    and rd :: "'a \<Rightarrow> 'p \<Rightarrow> nat \<Rightarrow> string"
    and has :: "'a \<Rightarrow> 'p \<Rightarrow> nat \<Rightarrow> bool"
    and small :: "string \<Rightarrow> bool"
    and wf :: "'a \<Rightarrow> bool"
  assumes dup_wf: "wf a \<Longrightarrow> small s \<Longrightarrow> dup a s = Some (a', p) \<Longrightarrow> wf a'"
    and dup_has: "wf a \<Longrightarrow> small s \<Longrightarrow> dup a s = Some (a', p) \<Longrightarrow> has a' p (Suc (length s))"
    and dup_read: "wf a \<Longrightarrow> small s \<Longrightarrow> dup a s = Some (a', p) \<Longrightarrow>
      rd a' p (Suc (length s)) = s @ [NUL]"
    and dup_keep: "wf a \<Longrightarrow> small s \<Longrightarrow> dup a s = Some (a', p) \<Longrightarrow> has a q n \<Longrightarrow>
      has a' q n \<and> rd a' q n = rd a q n"
begin

text \<open>The copies listed in \<open>es\<close> (where, and what was copied) are all intact.\<close>

definition holds_all :: "'a \<Rightarrow> ('p \<times> string) list \<Rightarrow> bool" where
  "holds_all a es \<longleftrightarrow>
     (\<forall>(p, s) \<in> set es. has a p (Suc (length s)) \<and> rd a p (Suc (length s)) = s @ [NUL])"

lemma holds_all_Nil: "holds_all a []"
  by (simp add: holds_all_def)

lemma holds_all_dup:
  assumes "wf a" "small s" "dup a s = Some (a', p)" "holds_all a es"
  shows "holds_all a' (es @ [(p, s)])"
  using assms(4) dup_has [OF assms(1-3)] dup_read [OF assms(1-3)] dup_keep [OF assms(1-3)]
  by (fastforce simp: holds_all_def)

end

definition arena_dup :: "malloc_fn \<Rightarrow> arena \<Rightarrow> string \<Rightarrow> (arena \<times> aptr) option" where
  "arena_dup malloc a s = (case arena_strdup malloc a s of Ptr a' p \<Rightarrow> Some (a', p) | _ \<Rightarrow> None)"

lemma arena_dup_Some: "arena_dup malloc a s = Some (a', p) \<longleftrightarrow> arena_strdup malloc a s = Ptr a' p"
  by (auto simp: arena_dup_def split: alloc_result.splits)

interpretation arena_store: string_store "arena_dup malloc" arena_read owned str_ok arena_inv
  for malloc
  by unfold_locales (auto simp: arena_dup_Some dest: arena_strdup_effect)

text \<open>A copied string reads back, NUL-terminated, and every string copied into the arena
  before it still reads as it was copied.\<close>

theorem arena_strdup_keeps_strings:
  assumes "arena_inv a" "str_ok s" "arena_strdup malloc a s = Ptr a' p"
    and "\<forall>(q, t) \<in> set es. owned a q (Suc (length t)) \<and> arena_read a q (Suc (length t)) = t @ [NUL]"
  shows "arena_inv a' \<and> (\<forall>(q, t) \<in> set (es @ [(p, s)]).
      owned a' q (Suc (length t)) \<and> arena_read a' q (Suc (length t)) = t @ [NUL])"
proof -
  have d: "arena_dup malloc a s = Some (a', p)" using assms(3) by (simp add: arena_dup_Some)
  have "arena_store.holds_all a es" using assms(4) by (simp add: arena_store.holds_all_def)
  from arena_store.holds_all_dup [OF assms(1,2) d this] arena_store.dup_wf [OF assms(1,2) d]
  show ?thesis by (simp add: arena_store.holds_all_def)
qed

subsection \<open>A request that wraps the malloc size\<close>

text \<open>Arena.c checks \<open>size + align\<close> against SIZE_MAX but not the header it adds for
  malloc: a request of SIZE_MAX - 16 bytes succeeds with a block of 16 bytes although the
  page claims the whole capacity.\<close>

theorem arena_alloc_header_wraps:
  "\<exists>a' p. arena_alloc (\<lambda>n. if n \<le> 64 then Some (\<lambda>_. NUL) else None)
            [\<lparr>pg_block = 132, pg_used = 0, pg_cap = 100, pg_mem = (\<lambda>_. NUL)\<rparr>]
            (SIZE_MAX - 17) 1 = Ptr a' p
     \<and> unat (pg_block (a' ! 1)) = 15 \<and> pg_cap (a' ! 1) = SIZE_MAX - 16
     \<and> unat (pg_used (a' ! 1)) = 2 ^ 64 - 18"
  by (simp add: arena_alloc_def malloc_page_def align_up_def SIZE_MAX_def sizeof_Arena_def
      ARENA_DEFAULT_CAP_def Let_def)

lemma arena_alloc_safe_witness:
  "\<exists>a' p. arena_alloc (\<lambda>_. None)
            [\<lparr>pg_block = 132, pg_used = 3, pg_cap = 100, pg_mem = (\<lambda>_. NUL)\<rparr>] 8 8 = Ptr a' p
     \<and> owned a' p 8 \<and> 8 dvd snd p"
proof -
  let ?a = "[\<lparr>pg_block = 132, pg_used = 3, pg_cap = 100, pg_mem = (\<lambda>_. NUL)\<rparr>]"
  have i: "arena_inv ?a" "size_ok 8" "align_ok 8"
    by (simp_all add: arena_inv_def page_ok_def size_ok_def align_ok_def)
  obtain a' p where r: "arena_alloc (\<lambda>_. None) ?a 8 8 = Ptr a' p"
    by (simp add: arena_alloc_def align_up_def SIZE_MAX_def Let_def)
  from arena_alloc_safe [OF i r] r show ?thesis by auto
qed

lemma arena_strdup_keeps_strings_witness:
  "\<exists>a' p. arena_strdup (\<lambda>_. None)
            [\<lparr>pg_block = 132, pg_used = 0, pg_cap = 100, pg_mem = (\<lambda>_. NUL)\<rparr>] ''int'' = Ptr a' p
     \<and> arena_inv a' \<and> arena_read a' p 4 = ''int'' @ [NUL]"
proof -
  let ?a = "[\<lparr>pg_block = 132, pg_used = 0, pg_cap = 100, pg_mem = (\<lambda>_. NUL)\<rparr>]"
  have i: "arena_inv ?a" "str_ok ''int''" by (simp_all add: arena_inv_def page_ok_def str_ok_def)
  obtain a' p where r: "arena_strdup (\<lambda>_. None) ?a ''int'' = Ptr a' p"
    by (simp add: arena_strdup_def arena_alloc_def align_up_def SIZE_MAX_def Let_def)
  from arena_strdup_keeps_strings [OF i r, of "[]"]
  have "arena_inv a'" "arena_read a' p 4 = ''int'' @ [NUL]" by (simp_all add: numeral_eq_Suc)
  with r show ?thesis by blast
qed

end
