(* ===== verification/Strtab.thy ===== *)
theory Strtab
  imports Arena
begin

section \<open>The string interning table (strtab.c, strtab.h)\<close>

text \<open>
  The table is three parallel arrays of \<open>st_cap\<close> slots, the first \<open>st_count\<close> of them in
  use, and the arena its copies live in. The arrays are lists of exactly \<open>st_cap\<close>
  elements, so an access outside them would be visible; a NULL entry is None. The abstract
  table is the list of the strings in the order they were interned. The two failures that
  end the process (calloc, realloc and the arena's malloc) are the result None.
\<close>

subsection \<open>State and operations\<close>

record string_table =
  st_arena :: arena
  st_entries :: "aptr option list"
  st_lengths :: "nat list"
  st_hashes :: "u32 list"
  st_count :: nat
  st_cap :: nat

definition STRTAB_INITIAL_CAP :: nat where
  "STRTAB_INITIAL_CAP = 256"

definition fnv1a :: "string \<Rightarrow> u32" where
  "fnv1a s = foldl (\<lambda>h c. (h XOR of_char c) * 16777619) 2166136261 s"

definition strtab_init :: "(nat \<Rightarrow> bool) \<Rightarrow> arena \<Rightarrow> string_table option" where
  "strtab_init mem_ok a =
     (let cap = STRTAB_INITIAL_CAP
      in if mem_ok (cap * 8) \<and> mem_ok (cap * 4)
         then Some \<lparr>st_arena = a, st_entries = replicate cap None, st_lengths = replicate cap 0,
                    st_hashes = replicate cap 0, st_count = 0, st_cap = cap\<rparr>
         else None)"

definition entry_matches :: "string_table \<Rightarrow> string \<Rightarrow> u32 \<Rightarrow> nat \<Rightarrow> bool" where
  "entry_matches st s h i \<longleftrightarrow>
     st_hashes st ! i = h \<and> st_lengths st ! i = length s
     \<and> arena_read (st_arena st) (the (st_entries st ! i)) (length s) = s"

definition find_slot :: "string_table \<Rightarrow> string \<Rightarrow> u32 \<Rightarrow> int" where
  "find_slot st s h =
     (case List.find (entry_matches st s h) [0..<st_count st] of Some i \<Rightarrow> int i | None \<Rightarrow> - 1)"

definition grow_if_needed :: "(nat \<Rightarrow> bool) \<Rightarrow> string_table \<Rightarrow> string_table option" where
  "grow_if_needed mem_ok st =
     (if st_count st < st_cap st then Some st
      else let new_cap = st_cap st * 2; more = new_cap - st_cap st
           in if mem_ok (new_cap * 8) \<and> mem_ok (new_cap * 4)
              then Some (st\<lparr>st_entries := st_entries st @ replicate more None,
                            st_lengths := st_lengths st @ replicate more 0,
                            st_hashes := st_hashes st @ replicate more 0,
                            st_cap := new_cap\<rparr>)
              else None)"

definition strtab_intern ::
    "malloc_fn \<Rightarrow> (nat \<Rightarrow> bool) \<Rightarrow> string_table \<Rightarrow> string \<Rightarrow> (string_table \<times> nat) option" where
  "strtab_intern malloc mem_ok st s =
     (let h = fnv1a s; existing = find_slot st s h
      in if existing \<ge> 0 then Some (st, nat existing)
         else case grow_if_needed mem_ok st of
                None \<Rightarrow> None
              | Some st \<Rightarrow>
                  let idx = st_count st
                  in case arena_dup malloc (st_arena st) s of
                       None \<Rightarrow> None
                     | Some (a', p) \<Rightarrow>
                         Some (st\<lparr>st_arena := a', st_entries := (st_entries st)[idx := Some p],
                                  st_lengths := (st_lengths st)[idx := length s],
                                  st_hashes := (st_hashes st)[idx := h],
                                  st_count := st_count st + 1\<rparr>, idx))"

definition strtab_get :: "string_table \<Rightarrow> int \<Rightarrow> aptr option" where
  "strtab_get st idx = (if idx < 0 \<or> idx \<ge> int (st_count st) then None else st_entries st ! nat idx)"

definition strtab_len :: "string_table \<Rightarrow> int \<Rightarrow> nat" where
  "strtab_len st idx = (if idx < 0 \<or> idx \<ge> int (st_count st) then 0 else st_lengths st ! nat idx)"

definition strtab_free :: "string_table \<Rightarrow> string_table" where
  "strtab_free st = st\<lparr>st_entries := [], st_lengths := [], st_hashes := [], st_count := 0, st_cap := 0\<rparr>"

subsection \<open>What an interning table promises\<close>

text \<open>Interning a list of strings one after the other, with any interning operation.\<close>

fun intern_all :: "('t \<Rightarrow> 's \<Rightarrow> ('t \<times> 'k) option) \<Rightarrow> 't \<Rightarrow> 's list \<Rightarrow> ('t \<times> 'k list) option" where
  "intern_all f t [] = Some (t, [])"
| "intern_all f t (s # ss) =
     (case f t s of
        None \<Rightarrow> None
      | Some (t1, k) \<Rightarrow>
          (case intern_all f t1 ss of None \<Rightarrow> None | Some (t2, ks) \<Rightarrow> Some (t2, k # ks)))"

text \<open>The keys of a table stand for its contents, and later insertions do not change that.\<close>

locale interner =
  fixes intern :: "'t \<Rightarrow> 's \<Rightarrow> ('t \<times> 'k) option"
    and content :: "'t \<Rightarrow> 'k \<Rightarrow> 's option"
    and small :: "'s \<Rightarrow> bool"
    and wf :: "'t \<Rightarrow> bool"
  assumes intern_wf: "wf t \<Longrightarrow> small s \<Longrightarrow> intern t s = Some (t', k) \<Longrightarrow> wf t'"
    and intern_content: "wf t \<Longrightarrow> small s \<Longrightarrow> intern t s = Some (t', k) \<Longrightarrow> content t' k = Some s"
    and intern_keep: "wf t \<Longrightarrow> small s \<Longrightarrow> intern t s = Some (t', k) \<Longrightarrow>
      content t j = Some r \<Longrightarrow> content t' j = Some r"
    and content_inj: "wf t \<Longrightarrow> content t j = Some s \<Longrightarrow> content t k = Some s \<Longrightarrow> j = k"
begin

lemma intern_all_keep:
  "wf t \<Longrightarrow> list_all small ss \<Longrightarrow> intern_all intern t ss = Some (t', ks) \<Longrightarrow>
   wf t' \<and> length ks = length ss \<and> (\<forall>j r. content t j = Some r \<longrightarrow> content t' j = Some r)"
proof (induction ss arbitrary: t ks)
  case Nil
  then show ?case by simp
next
  case (Cons s ss)
  then obtain t1 k ks1 where s: "intern t s = Some (t1, k)"
    and ss: "intern_all intern t1 ss = Some (t', ks1)" and ks: "ks = k # ks1"
    by (auto split: option.splits)
  have wf1: "wf t1" using intern_wf [OF Cons.prems(1) _ s] Cons.prems(2) by simp
  from Cons.IH [OF wf1 _ ss] Cons.prems(2)
  have "wf t' \<and> length ks1 = length ss \<and> (\<forall>j r. content t1 j = Some r \<longrightarrow> content t' j = Some r)"
    by simp
  then show ?case
    using intern_keep [OF Cons.prems(1) _ s] Cons.prems(2) ks by auto
qed

lemma intern_all_content:
  "wf t \<Longrightarrow> list_all small ss \<Longrightarrow> intern_all intern t ss = Some (t', ks) \<Longrightarrow>
   i < length ss \<Longrightarrow> content t' (ks ! i) = Some (ss ! i)"
proof (induction ss arbitrary: t ks i)
  case Nil
  then show ?case by simp
next
  case (Cons s ss)
  then obtain t1 k ks1 where s: "intern t s = Some (t1, k)"
    and ss: "intern_all intern t1 ss = Some (t', ks1)" and ks: "ks = k # ks1"
    by (auto split: option.splits)
  have wf1: "wf t1" using intern_wf [OF Cons.prems(1) _ s] Cons.prems(2) by simp
  show ?case
  proof (cases i)
    case 0
    have "content t1 k = Some s" using intern_content [OF Cons.prems(1) _ s] Cons.prems(2) by simp
    then have "content t' k = Some s"
      using intern_all_keep [OF wf1 _ ss] Cons.prems(2) by auto
    then show ?thesis using 0 ks by simp
  next
    case (Suc n)
    then show ?thesis using Cons.IH [OF wf1 _ ss, of n] Cons.prems(2,4) ks by simp
  qed
qed

text \<open>Comparing keys is comparing strings.\<close>

lemma keys_eq_iff:
  assumes "wf t" "list_all small ss" "intern_all intern t ss = Some (t', ks)"
    and "i < length ss" "j < length ss"
  shows "ks ! i = ks ! j \<longleftrightarrow> ss ! i = ss ! j"
proof
  assume "ks ! i = ks ! j"
  then show "ss ! i = ss ! j"
    using intern_all_content [OF assms(1-3,4)] intern_all_content [OF assms(1-3,5)] by simp
next
  assume "ss ! i = ss ! j"
  then show "ks ! i = ks ! j"
    using intern_all_content [OF assms(1-3,4)] intern_all_content [OF assms(1-3,5)]
      content_inj intern_all_keep [OF assms(1-3)] by metis
qed

end

subsection \<open>The abstract table\<close>

definition str_index :: "string list \<Rightarrow> string \<Rightarrow> nat" where
  "str_index xs s = length (takeWhile (\<lambda>x. x \<noteq> s) xs)"

definition intern_spec :: "string list \<Rightarrow> string \<Rightarrow> (string list \<times> nat) option" where
  "intern_spec xs s = Some (if s \<in> set xs then (xs, str_index xs s) else (xs @ [s], length xs))"

definition list_content :: "string list \<Rightarrow> nat \<Rightarrow> string option" where
  "list_content xs i = (if i < length xs then Some (xs ! i) else None)"

lemma str_index_in: "s \<in> set xs \<Longrightarrow> str_index xs s < length xs \<and> xs ! str_index xs s = s"
  unfolding str_index_def
  by (induction xs) auto

lemma str_index_snoc:
  "str_index (xs @ [x]) s =
     (if s \<in> set xs then str_index xs s else if x = s then length xs else Suc (length xs))"
  unfolding str_index_def by (induction xs) auto

lemma str_index_unique: "distinct xs \<Longrightarrow> i < length xs \<Longrightarrow> str_index xs (xs ! i) = i"
  using str_index_in [of "xs ! i" xs] nth_eq_iff_index_eq [of xs "str_index xs (xs ! i)" i] by simp

interpretation spec_table: interner intern_spec list_content "\<lambda>_. True" distinct
  by unfold_locales
    (auto simp: intern_spec_def list_content_def str_index_in nth_append nth_eq_iff_index_eq
       split: if_splits)

subsection \<open>The invariant and the refinement\<close>

definition slot_str :: "string_table \<Rightarrow> nat \<Rightarrow> string" where
  "slot_str st i = arena_read (st_arena st) (the (st_entries st ! i)) (st_lengths st ! i)"

definition strtab_abs :: "string_table \<Rightarrow> string list" where
  "strtab_abs st = map (slot_str st) [0..<st_count st]"

definition slot_ok :: "string_table \<Rightarrow> nat \<Rightarrow> bool" where
  "slot_ok st i \<longleftrightarrow> st_entries st ! i \<noteq> None
     \<and> owned (st_arena st) (the (st_entries st ! i)) (Suc (st_lengths st ! i))
     \<and> arena_read (st_arena st) (the (st_entries st ! i)) (Suc (st_lengths st ! i)) = slot_str st i @ [NUL]
     \<and> st_hashes st ! i = fnv1a (slot_str st i)"

definition strtab_inv :: "string_table \<Rightarrow> bool" where
  "strtab_inv st \<longleftrightarrow> arena_inv (st_arena st) \<and> 0 < st_cap st \<and> st_count st \<le> st_cap st
     \<and> length (st_entries st) = st_cap st \<and> length (st_lengths st) = st_cap st
     \<and> length (st_hashes st) = st_cap st
     \<and> (\<forall>i < st_count st. slot_ok st i) \<and> distinct (strtab_abs st)"

lemma length_arena_read [simp]: "length (arena_read a p n) = n"
  by (simp add: arena_read_def)

lemma length_slot_str [simp]: "length (slot_str st i) = st_lengths st ! i"
  by (simp add: slot_str_def)

lemma length_strtab_abs [simp]: "length (strtab_abs st) = st_count st"
  by (simp add: strtab_abs_def)

lemma arena_read_Suc: "arena_read a p (Suc n) = arena_read a p n @ [pg_mem (a ! fst p) (snd p + n)]"
  by (simp add: arena_read_def)

text \<open>Comparing hash, length and bytes decides equality with the stored string.\<close>

lemma entry_matches_iff:
  assumes "slot_ok st i"
  shows "entry_matches st s (fnv1a s) i \<longleftrightarrow> slot_str st i = s"
  using assms by (auto simp: entry_matches_def slot_ok_def slot_str_def)

lemma find_slot_spec:
  assumes "\<forall>i < st_count st. slot_ok st i"
  shows "find_slot st s (fnv1a s) =
    (if s \<in> set (strtab_abs st) then int (str_index (strtab_abs st) s) else - 1)"
proof -
  have "List.find (entry_matches st s (fnv1a s)) [0..<st_count st] =
      List.find (\<lambda>i. slot_str st i = s) [0..<st_count st]"
    using assms by (intro find_cong) (auto simp: entry_matches_iff)
  moreover have "List.find (\<lambda>i. slot_str st i = s) [0..<n] =
      (if s \<in> set (map (slot_str st) [0..<n]) then Some (str_index (map (slot_str st) [0..<n]) s) else None)" for n
  proof (induction n)
    case (Suc n)
    then show ?case by (auto simp: str_index_snoc find_append)
  qed (simp add: str_index_def)
  ultimately show ?thesis by (simp add: find_slot_def strtab_abs_def)
qed

lemma grow_if_needed_effect:
  assumes "strtab_inv st" "grow_if_needed mem_ok st = Some st'"
  shows "strtab_inv st'" "strtab_abs st' = strtab_abs st" "st_count st' < st_cap st'"
    "st_arena st' = st_arena st" "st_count st' = st_count st"
proof -
  have same: "slot_str st' i = slot_str st i" "slot_ok st' i = slot_ok st i" if "i < st_count st" for i
    using assms that
    by (auto simp: grow_if_needed_def Let_def strtab_inv_def slot_str_def slot_ok_def nth_append
        split: if_splits)
  have f: "st_arena st' = st_arena st" "st_count st' = st_count st"
    using assms by (auto simp: grow_if_needed_def Let_def split: if_splits)
  then show "st_arena st' = st_arena st" "st_count st' = st_count st" by auto
  show a: "strtab_abs st' = strtab_abs st" using f same by (simp add: strtab_abs_def)
  show "st_count st' < st_cap st'"
    using assms by (auto simp: grow_if_needed_def Let_def strtab_inv_def split: if_splits)
  then show "strtab_inv st'"
    using assms f same a
    by (auto simp: grow_if_needed_def Let_def strtab_inv_def split: if_splits)
qed

text \<open>Writing the new slot: the slots before it keep their strings, since the copy did not
  disturb the arena regions they point to.\<close>

lemma new_slot_effect:
  assumes inv: "strtab_inv st" and room: "st_count st < st_cap st" and s: "str_ok s"
    and new: "s \<notin> set (strtab_abs st)" and dup: "arena_dup malloc (st_arena st) s = Some (a', p)"
    and st': "st' = st\<lparr>st_arena := a', st_entries := (st_entries st)[st_count st := Some p],
      st_lengths := (st_lengths st)[st_count st := length s],
      st_hashes := (st_hashes st)[st_count st := fnv1a s], st_count := st_count st + 1\<rparr>"
  shows "strtab_inv st'" "strtab_abs st' = strtab_abs st @ [s]"
proof -
  have ai: "arena_inv (st_arena st)" using inv by (simp add: strtab_inv_def)
  note keep = arena_store.dup_keep [OF ai s dup]
  have len: "length (st_entries st) = st_cap st" "length (st_lengths st) = st_cap st"
    "length (st_hashes st) = st_cap st" using inv by (auto simp: strtab_inv_def)
  have old: "slot_str st' i = slot_str st i \<and> slot_ok st' i" if i: "i < st_count st" for i
  proof -
    have ok: "slot_ok st i" using inv i by (simp add: strtab_inv_def)
    let ?q = "the (st_entries st ! i)" and ?n = "st_lengths st ! i"
    have k: "owned a' ?q (Suc ?n)" "arena_read a' ?q (Suc ?n) = arena_read (st_arena st) ?q (Suc ?n)"
      using keep [of ?q "Suc ?n"] ok by (auto simp: slot_ok_def)
    then have "arena_read a' ?q ?n = arena_read (st_arena st) ?q ?n"
      by (simp add: arena_read_Suc)
    with k ok i show ?thesis by (auto simp: slot_str_def slot_ok_def st')
  qed
  have rd: "arena_read a' p (Suc (length s)) = s @ [NUL]" "owned a' p (Suc (length s))"
    using arena_store.dup_read [OF ai s dup] arena_store.dup_has [OF ai s dup] by auto
  then have "arena_read a' p (length s) = s" by (simp add: arena_read_Suc)
  then have here: "slot_str st' (st_count st) = s \<and> slot_ok st' (st_count st)"
    using rd room len by (simp add: slot_str_def slot_ok_def st')
  show abs: "strtab_abs st' = strtab_abs st @ [s]"
    using old here by (simp add: strtab_abs_def st')
  have "\<forall>i < st_count st'. slot_ok st' i" using old here by (auto simp: st' less_Suc_eq)
  then show "strtab_inv st'"
    using inv new abs room arena_store.dup_wf [OF ai s dup]
    by (auto simp: strtab_inv_def st')
qed

text \<open>C17: one call of strtab_intern does to the abstract table what the specification says
  and keeps the invariant, whatever the arena does with its pages.\<close>

theorem strtab_intern_refines:
  assumes "strtab_inv st" "str_ok s" "strtab_intern malloc mem_ok st s = Some (st', i)"
  shows "strtab_inv st' \<and> intern_spec (strtab_abs st) s = Some (strtab_abs st', i)"
proof (cases "s \<in> set (strtab_abs st)")
  case True
  have "find_slot st s (fnv1a s) = int (str_index (strtab_abs st) s)"
    using assms(1) True by (simp add: strtab_inv_def find_slot_spec)
  then have "st' = st" "i = str_index (strtab_abs st) s"
    using assms(3) by (auto simp: strtab_intern_def Let_def)
  then show ?thesis using assms(1) True by (simp add: intern_spec_def)
next
  case False
  have "find_slot st s (fnv1a s) = - 1"
    using assms(1) False by (simp add: strtab_inv_def find_slot_spec)
  then obtain st1 a' p where g: "grow_if_needed mem_ok st = Some st1"
    and d: "arena_dup malloc (st_arena st1) s = Some (a', p)"
    and st': "st' = st1\<lparr>st_arena := a', st_entries := (st_entries st1)[st_count st1 := Some p],
      st_lengths := (st_lengths st1)[st_count st1 := length s],
      st_hashes := (st_hashes st1)[st_count st1 := fnv1a s], st_count := st_count st1 + 1\<rparr>"
    and i: "i = st_count st1"
    using assms(3) by (auto simp: strtab_intern_def Let_def split: option.splits)
  note ge = grow_if_needed_effect [OF assms(1) g]
  have new: "s \<notin> set (strtab_abs st1)" using False ge(2) by simp
  from new_slot_effect [OF ge(1,3) assms(2) new d st'] False i ge
  show ?thesis by (simp add: intern_spec_def)
qed

subsection \<open>The table as an interner\<close>

definition strtab_content :: "string_table \<Rightarrow> nat \<Rightarrow> string option" where
  "strtab_content st i = list_content (strtab_abs st) i"

lemma strtab_abs_distinct: "strtab_inv st \<Longrightarrow> distinct (strtab_abs st)"
  by (simp add: strtab_inv_def)

interpretation strtab: interner "strtab_intern malloc mem_ok" strtab_content str_ok strtab_inv
  for malloc mem_ok
proof unfold_locales
  fix t s t' k j r
  assume wf: "strtab_inv t" and s: "str_ok s" and i: "strtab_intern malloc mem_ok t s = Some (t', k)"
  note ref = strtab_intern_refines [OF wf s i]
  note d = strtab_abs_distinct [OF wf]
  show "strtab_inv t'" using ref by simp
  show "strtab_content t' k = Some s"
    using spec_table.intern_content [OF d _ conjunct2 [OF ref]] by (simp add: strtab_content_def)
  show "strtab_content t' j = Some r" if "strtab_content t j = Some r"
    using spec_table.intern_keep [OF d _ conjunct2 [OF ref]] that by (simp add: strtab_content_def)
next
  fix t j s k
  assume "strtab_inv t" "strtab_content t j = Some s" "strtab_content t k = Some s"
  then show "j = k"
    using spec_table.content_inj [OF strtab_abs_distinct] by (simp add: strtab_content_def)
qed

text \<open>After interning any list of strings, two of the returned indices are equal exactly
  when the two strings are, so the compiler may compare names by index or pointer.\<close>

theorem interned_indices_decide_equality:
  assumes "strtab_inv st" "list_all str_ok ss"
    and "intern_all (strtab_intern malloc mem_ok) st ss = Some (st', ks)"
    and "i < length ss" "j < length ss"
  shows "ks ! i = ks ! j \<longleftrightarrow> ss ! i = ss ! j"
  by (rule strtab.keys_eq_iff [OF assms])

lemma strtab_get_content:
  assumes "strtab_inv st" "strtab_content st i = Some s"
  shows "\<exists>p. strtab_get st (int i) = Some p \<and> arena_read (st_arena st) p (Suc (length s)) = s @ [NUL]"
    "strtab_len st (int i) = length s"
proof -
  have i: "i < st_count st" "slot_str st i = s"
    using assms(2) by (auto simp: strtab_content_def list_content_def strtab_abs_def split: if_splits)
  then have "slot_ok st i" using assms(1) by (simp add: strtab_inv_def)
  with i show "\<exists>p. strtab_get st (int i) = Some p \<and> arena_read (st_arena st) p (Suc (length s)) = s @ [NUL]"
    by (auto simp: strtab_get_def slot_ok_def)
  show "strtab_len st (int i) = length s" using i by (auto simp: strtab_len_def)
qed

lemma strtab_get_out_of_range:
  "i < 0 \<or> int (st_count st) \<le> i \<Longrightarrow> strtab_get st i = None \<and> strtab_len st i = 0"
  by (auto simp: strtab_get_def strtab_len_def)

text \<open>The pointer strtab_get returns for an index is the string interned under it,
  NUL-terminated, and stays so after any later interning.\<close>

theorem strtab_get_after_intern:
  assumes "strtab_inv st" "list_all str_ok ss"
    and "intern_all (strtab_intern malloc mem_ok) st ss = Some (st', ks)" and "i < length ss"
  shows "\<exists>p. strtab_get st' (int (ks ! i)) = Some p
    \<and> arena_read (st_arena st') p (Suc (length (ss ! i))) = ss ! i @ [NUL]"
  using strtab_get_content(1) strtab.intern_all_keep [OF assms(1-3)]
    strtab.intern_all_content [OF assms] by blast

lemma strtab_init_inv:
  "arena_inv a \<Longrightarrow> strtab_init mem_ok a = Some st \<Longrightarrow> strtab_inv st \<and> strtab_abs st = []"
  by (auto simp: strtab_init_def Let_def STRTAB_INITIAL_CAP_def strtab_inv_def strtab_abs_def
      split: if_splits)

subsection \<open>Witnesses\<close>

text \<open>A table of four slots over a page of 100 bytes, two strings interned.\<close>

definition demo_arena :: arena where
  "demo_arena = [\<lparr>pg_block = 132, pg_used = 0, pg_cap = 100, pg_mem = (\<lambda>_. NUL)\<rparr>]"

definition demo_table :: string_table where
  "demo_table = \<lparr>st_arena = demo_arena, st_entries = replicate 4 None, st_lengths = replicate 4 0,
     st_hashes = replicate 4 0, st_count = 0, st_cap = 4\<rparr>"

lemma demo_table_inv: "strtab_inv demo_table"
  by (simp add: demo_table_def demo_arena_def strtab_inv_def arena_inv_def page_ok_def strtab_abs_def)

lemma demo_intern:
  "map_option snd (intern_all (strtab_intern (\<lambda>_. None) (\<lambda>_. False)) demo_table [''x'', ''y'', ''x'']) =
     Some [0, 1, 0]"
  by code_simp

lemma demo_intern_Some:
  obtains st' where "intern_all (strtab_intern (\<lambda>_. None) (\<lambda>_. False)) demo_table [''x'', ''y'', ''x''] =
    Some (st', [0, 1, 0])"
  using demo_intern by auto

lemma demo_small: "list_all str_ok [''x'', ''y'', ''x'']"
  by (simp add: str_ok_def)

lemma strtab_intern_refines_witness:
  "\<exists>st'. strtab_intern (\<lambda>_. None) (\<lambda>_. False) demo_table ''x'' = Some (st', 0)
     \<and> strtab_abs st' = [''x'']"
proof -
  obtain st' ks where a: "intern_all (strtab_intern (\<lambda>_. None) (\<lambda>_. False)) demo_table [''x'', ''y'', ''x''] =
    Some (st', ks)" by (rule demo_intern_Some)
  then obtain st1 k where i: "strtab_intern (\<lambda>_. None) (\<lambda>_. False) demo_table ''x'' = Some (st1, k)"
    by (auto split: option.splits)
  have s: "str_ok ''x''" by (simp add: str_ok_def)
  have e: "strtab_abs demo_table = []" by (simp add: strtab_abs_def demo_table_def)
  from strtab_intern_refines [OF demo_table_inv s i] e i show ?thesis by (auto simp: intern_spec_def)
qed

lemma interned_indices_decide_equality_witness:
  "\<exists>st' ks. intern_all (strtab_intern (\<lambda>_. None) (\<lambda>_. False)) demo_table [''x'', ''y'', ''x''] = Some (st', ks)
     \<and> ks ! 0 \<noteq> ks ! 1 \<and> ks ! 0 = ks ! 2"
proof -
  obtain st' where a: "intern_all (strtab_intern (\<lambda>_. None) (\<lambda>_. False)) demo_table [''x'', ''y'', ''x''] =
    Some (st', [0, 1, 0])" by (rule demo_intern_Some)
  from interned_indices_decide_equality [OF demo_table_inv demo_small a, of 0 1]
    interned_indices_decide_equality [OF demo_table_inv demo_small a, of 0 2] a
  show ?thesis by auto
qed

lemma strtab_get_after_intern_witness:
  "\<exists>st' ks p. intern_all (strtab_intern (\<lambda>_. None) (\<lambda>_. False)) demo_table [''x'', ''y'', ''x''] = Some (st', ks)
     \<and> strtab_get st' 1 = Some p \<and> arena_read (st_arena st') p 2 = ''y'' @ [NUL]"
proof -
  obtain st' where a: "intern_all (strtab_intern (\<lambda>_. None) (\<lambda>_. False)) demo_table [''x'', ''y'', ''x''] =
    Some (st', [0, 1, 0])" by (rule demo_intern_Some)
  from strtab_get_after_intern [OF demo_table_inv demo_small a, of 1] a
  show ?thesis by (auto simp: numeral_2_eq_2)
qed

end
