(* ===== verification/Diagnostic.thy ===== *)
theory Diagnostic
  imports Prelude
begin

section \<open>Diagnostics (diagnostic.c, diagnostic.h)\<close>

text \<open>
  The four file-scope variables are the record \<open>diag\<close>, with what has been written to
  stderr in \<open>dg_err\<close>. A message arrives already formatted by vfprintf. The source text is
  read as a C string. The TINYC_SELFHOST variant (one printf, the same counters) is not
  modelled.
\<close>

datatype DiagLevel = DIAG_NOTE | DIAG_WARNING | DIAG_ERROR | DIAG_FATAL

record diag =
  dg_filename :: string
  dg_source :: "string option"
  dg_errors :: nat
  dg_warnings :: nat
  dg_err :: string

text \<open>The initial values of the file-scope variables, before anything is written.\<close>

definition diag_static :: diag where
  "diag_static = \<lparr>dg_filename = ''<unknown>'', dg_source = None, dg_errors = 0, dg_warnings = 0,
     dg_err = []\<rparr>"

definition diag_init :: "string option \<Rightarrow> string option \<Rightarrow> diag \<Rightarrow> diag" where
  "diag_init filename source d =
     d\<lparr>dg_filename := (case filename of Some f \<Rightarrow> f | None \<Rightarrow> ''<unknown>''),
       dg_source := source, dg_errors := 0, dg_warnings := 0\<rparr>"

fun level_str :: "DiagLevel \<Rightarrow> string" where
  "level_str DIAG_NOTE = ''note''"
| "level_str DIAG_WARNING = ''warning''"
| "level_str DIAG_ERROR = ''error''"
| "level_str DIAG_FATAL = ''fatal error''"

definition ESC :: char where
  "ESC = CHR 0x1B"

fun level_color :: "DiagLevel \<Rightarrow> string" where
  "level_color DIAG_NOTE = ESC # ''[1;36m''"
| "level_color DIAG_WARNING = ESC # ''[1;35m''"
| "level_color DIAG_ERROR = ESC # ''[1;31m''"
| "level_color DIAG_FATAL = ESC # ''[1;31m''"

text \<open>The loop of find_line_start: the current line number and the text from \<open>p\<close> on.\<close>

fun line_scan :: "int \<Rightarrow> int \<Rightarrow> string \<Rightarrow> int \<times> string" where
  "line_scan lineno cur [] = (cur, [])"
| "line_scan lineno cur (c # cs) =
     (if cur < lineno \<and> c \<noteq> NUL
      then line_scan lineno (if c = CHR 0x0A then cur + 1 else cur) cs
      else (cur, c # cs))"

definition find_line_start :: "string option \<Rightarrow> int \<Rightarrow> string option" where
  "find_line_start source lineno =
     (case source of
        None \<Rightarrow> None
      | Some src \<Rightarrow>
          if lineno < 1 then None
          else let (cur, p) = line_scan lineno 1 src
               in if cur = lineno then Some p else None)"

definition NL :: char where
  "NL = CHR 0x0A"

definition TAB :: char where
  "TAB = CHR 0x09"

text \<open>The source line and the caret under its column.\<close>

definition caret_line :: "string \<Rightarrow> int \<Rightarrow> string" where
  "caret_line line col =
     (if col > 0 \<and> col \<le> int (length line)
      then '' '' @ map (\<lambda>i. if line ! (i - 1) = TAB then TAB else CHR '' '') [1..<nat col]
           @ ESC # ''[1;32m^'' @ ESC # ''[0m'' @ [NL]
      else [])"

definition source_excerpt :: "string option \<Rightarrow> int \<Rightarrow> int \<Rightarrow> string" where
  "source_excerpt source line col =
     (case find_line_start source line of
        None \<Rightarrow> []
      | Some p \<Rightarrow>
          let text = takeWhile (\<lambda>c. c \<noteq> NUL \<and> c \<noteq> NL) p
          in '' '' @ text @ [NL] @ caret_line text col)"

definition diag_emit :: "DiagLevel \<Rightarrow> int \<Rightarrow> int \<Rightarrow> string \<Rightarrow> diag \<Rightarrow> diag" where
  "diag_emit level line col msg d =
     (let out = ESC # ''[1m'' @ dg_filename d @ '':'' @ show_int line @ '':'' @ show_int col @ '': ''
                @ level_color level @ level_str level @ '': '' @ ESC # ''[0m''
                @ ESC # ''[1m'' @ msg @ ESC # ''[0m'' @ [NL]
                @ source_excerpt (dg_source d) line col;
          d = d\<lparr>dg_err := dg_err d @ out\<rparr>
      in if level = DIAG_ERROR \<or> level = DIAG_FATAL then d\<lparr>dg_errors := dg_errors d + 1\<rparr>
         else if level = DIAG_WARNING then d\<lparr>dg_warnings := dg_warnings d + 1\<rparr>
         else d)"

definition diag_error_count :: "diag \<Rightarrow> nat" where
  "diag_error_count d = dg_errors d"

definition diag_warning_count :: "diag \<Rightarrow> nat" where
  "diag_warning_count d = dg_warnings d"

text \<open>A fatal diagnostic is emitted like an error, then the process exits with status 1.\<close>

definition diag_fatal :: "int \<Rightarrow> int \<Rightarrow> string \<Rightarrow> diag \<Rightarrow> diag \<times> nat" where
  "diag_fatal line col msg d = (diag_emit DIAG_FATAL line col msg d, 1)"

subsection \<open>The line search\<close>

lemma line_scan_spec:
  "cur \<le> n \<Longrightarrow> line_scan n cur s = (k, p) \<Longrightarrow>
   \<exists>pre. s = pre @ p \<and> NUL \<notin> set pre \<and> k = cur + int (count_list pre NL) \<and> k \<le> n
     \<and> (k = n \<longrightarrow> pre = [] \<or> last pre = NL) \<and> (k < n \<longrightarrow> p = [] \<or> hd p = NUL)"
proof (induction n cur s rule: line_scan.induct)
  case (1 n cur)
  then show ?case by auto
next
  case (2 n cur c cs)
  show ?case
  proof (cases "cur < n \<and> c \<noteq> NUL")
    case True
    let ?cur = "if c = CHR 0x0A then cur + 1 else cur"
    have le: "?cur \<le> n" using True by auto
    have "line_scan n ?cur cs = (k, p)" using "2.prems"(2) True by simp
    from "2.IH" [OF True le this] obtain pre where
      pre: "cs = pre @ p" "NUL \<notin> set pre" "k = ?cur + int (count_list pre NL)" "k \<le> n"
        "k = n \<longrightarrow> pre = [] \<or> last pre = NL" "k < n \<longrightarrow> p = [] \<or> hd p = NUL" by blast
    have "k = n \<longrightarrow> last (c # pre) = NL"
      using pre(3,5) True by (auto simp: NL_def split: if_splits)
    then show ?thesis
      using pre True by (intro exI [of _ "c # pre"]) (auto simp: NL_def)
  next
    case False
    then have "k = cur" "p = c # cs" using "2.prems"(2) by auto
    then show ?thesis using False "2.prems"(1) by (intro exI [of _ "[]"]) auto
  qed
qed

text \<open>The text find_line_start returns for line \<open>n\<close> is preceded by exactly \<open>n - 1\<close>
  newlines and begins right after the last of them; without such a line it returns NULL.\<close>

theorem find_line_start_correct:
  "find_line_start (Some src) n = Some p \<longleftrightarrow>
     1 \<le> n \<and> (\<exists>pre. src = pre @ p \<and> NUL \<notin> set pre \<and> int (count_list pre NL) = n - 1
       \<and> (pre = [] \<or> last pre = NL))"
proof -
  have uniq: "pre @ p = pre' @ p' \<Longrightarrow> count_list pre NL = count_list pre' NL \<Longrightarrow>
      pre = [] \<or> last pre = NL \<Longrightarrow> pre' = [] \<or> last pre' = NL \<Longrightarrow> p = p'" for pre pre' p p' :: string
  proof -
    assume e: "pre @ p = pre' @ p'" and c: "count_list pre NL = count_list pre' NL"
      and l: "pre = [] \<or> last pre = NL" "pre' = [] \<or> last pre' = NL"
    from e obtain us where "pre = pre' @ us \<and> us @ p = p' \<or> pre @ us = pre' \<and> p = us @ p'"
      by (auto simp: append_eq_append_conv2)
    moreover have "count_list us NL = 0" using calculation c by (auto simp: count_list_append)
    moreover have "us \<noteq> [] \<Longrightarrow> last us = NL" using calculation(1) l by auto
    ultimately show "p = p'"
      using last_in_set [of us] by (cases "us = []") (auto simp: count_list_0_iff)
  qed
  show ?thesis
  proof (cases "1 \<le> n")
    case False
    then show ?thesis by (simp add: find_line_start_def)
  next
    case True
    obtain k q where kq: "line_scan n 1 src = (k, q)" by (cases "line_scan n 1 src")
    from line_scan_spec [OF True kq] obtain pre where
      pre: "src = pre @ q" "NUL \<notin> set pre" "k = 1 + int (count_list pre NL)" "k \<le> n"
        "k = n \<longrightarrow> pre = [] \<or> last pre = NL" "k < n \<longrightarrow> q = [] \<or> hd q = NUL" by blast
    have r: "find_line_start (Some src) n = (if k = n then Some q else None)"
      using True kq by (simp add: find_line_start_def)
    show ?thesis
    proof
      assume "find_line_start (Some src) n = Some p"
      then show "1 \<le> n \<and> (\<exists>pre. src = pre @ p \<and> NUL \<notin> set pre \<and> int (count_list pre NL) = n - 1
          \<and> (pre = [] \<or> last pre = NL))"
        using pre r True by (auto split: if_splits)
    next
      assume "1 \<le> n \<and> (\<exists>pre. src = pre @ p \<and> NUL \<notin> set pre \<and> int (count_list pre NL) = n - 1
          \<and> (pre = [] \<or> last pre = NL))"
      then obtain pre' where pre': "src = pre' @ p" "NUL \<notin> set pre'"
        "int (count_list pre' NL) = n - 1" "pre' = [] \<or> last pre' = NL" by blast
      have "k = n"
      proof (rule ccontr)
        assume "k \<noteq> n"
        then have lt: "k < n" using pre(4) by simp
        from pre(1) pre'(1) obtain us where
          us: "pre = pre' @ us \<and> us @ q = p \<or> pre @ us = pre' \<and> q = us @ p"
          by (auto simp: append_eq_append_conv2)
        then show False
          using lt pre(3,6) pre'(2,3) by (cases us) (auto simp: count_list_append)
      qed
      then show "find_line_start (Some src) n = Some p"
        using r uniq [of pre q pre' p] pre pre' by auto
    qed
  qed
qed

subsection \<open>The counters\<close>

definition diag_run :: "(DiagLevel \<times> int \<times> int \<times> string) list \<Rightarrow> diag \<Rightarrow> diag" where
  "diag_run es d = fold (\<lambda>(lv, line, col, msg). diag_emit lv line col msg) es d"

lemma diag_emit_counts:
  "dg_errors (diag_emit lv line col msg d) = dg_errors d + (if lv = DIAG_ERROR \<or> lv = DIAG_FATAL then 1 else 0)"
  "dg_warnings (diag_emit lv line col msg d) = dg_warnings d + (if lv = DIAG_WARNING then 1 else 0)"
  by (auto simp: diag_emit_def Let_def)

lemma diag_emit_errors_mono: "dg_errors d \<le> dg_errors (diag_emit lv line col msg d)"
  by (simp add: diag_emit_counts)

lemma diag_run_counts:
  "dg_errors (diag_run es d) = dg_errors d + length (filter (\<lambda>(lv, _). lv = DIAG_ERROR \<or> lv = DIAG_FATAL) es)"
  "dg_warnings (diag_run es d) = dg_warnings d + length (filter (\<lambda>(lv, _). lv = DIAG_WARNING) es)"
  by (induction es arbitrary: d) (auto simp: diag_run_def diag_emit_counts split: if_splits)

text \<open>The caret stands under the reported column: as many columns precede it as characters
  of the line, tabs under tabs.\<close>

lemma caret_line_column:
  assumes "0 < col" "col \<le> int (length line)"
  shows "takeWhile (\<lambda>c. c \<noteq> ESC) (caret_line line col) =
    CHR '' '' # map (\<lambda>c. if c = TAB then TAB else CHR '' '') (take (nat col - 1) line)"
proof -
  have "map (\<lambda>i. if line ! (i - 1) = TAB then TAB else CHR '' '') [1..<nat col] =
      map (\<lambda>c. if c = TAB then TAB else CHR '' '') (take (nat col - 1) line)"
    using assms by (intro nth_equalityI) auto
  moreover have "takeWhile (\<lambda>c. c \<noteq> ESC) (map (\<lambda>c. if c = TAB then TAB else CHR '' '') xs @ ESC # ys) =
      map (\<lambda>c. if c = TAB then TAB else CHR '' '') xs" for xs ys
    by (induction xs) (auto simp: ESC_def TAB_def)
  ultimately show ?thesis
    using assms by (simp add: caret_line_def) (simp add: ESC_def)
qed

end
