(* ===== verification/Lexer.thy ===== *)
theory Lexer
  imports Token Strtab Diagnostic
begin

section \<open>The lexer (lexer.c, lexer.h)\<close>

text \<open>
  The scan position, line and column of \<open>Lexer\<close> are the record \<open>lexer\<close>; pointers into
  the source are offsets. The string table is the abstract one of theory Strtab (the list
  of interned strings), which the theorem \<open>strtab_intern_refines\<close> there connects to
  the arrays and the arena; the diagnostics are threaded through \<open>lx_diag\<close>. A function
  that returns \<open>adv(l)\<close>'s character reads it with \<open>peekc\<close> first. The loops end
  because each turn advances \<open>cur\<close> towards \<open>end\<close>.
\<close>

subsection \<open>Characters and the C library functions used\<close>

definition ccode :: "char \<Rightarrow> int" where
  "ccode c = of_char c"

definition is_digit :: "char \<Rightarrow> bool" where
  "is_digit c \<longleftrightarrow> 48 \<le> ccode c \<and> ccode c \<le> 57"

definition is_octal :: "char \<Rightarrow> bool" where
  "is_octal c \<longleftrightarrow> 48 \<le> ccode c \<and> ccode c \<le> 55"

definition is_alpha :: "char \<Rightarrow> bool" where
  "is_alpha c \<longleftrightarrow> (65 \<le> ccode c \<and> ccode c \<le> 90) \<or> (97 \<le> ccode c \<and> ccode c \<le> 122)"

definition is_alnum :: "char \<Rightarrow> bool" where
  "is_alnum c \<longleftrightarrow> is_alpha c \<or> is_digit c"

definition ishex :: "char \<Rightarrow> bool" where
  "ishex c \<longleftrightarrow> is_digit c \<or> (97 \<le> ccode c \<and> ccode c \<le> 102) \<or> (65 \<le> ccode c \<and> ccode c \<le> 70)"

text \<open>\<open>(h <= '9' ? h - '0' : (h | 32) - 'a' + 10)\<close> on a hexadecimal digit.\<close>

definition hex_val :: "char \<Rightarrow> int" where
  "hex_val h = (if ccode h \<le> 57 then ccode h - 48 else (ccode h OR 32) - 97 + 10)"

text \<open>A plain char is signed on this target.\<close>

definition schar :: "char \<Rightarrow> int" where
  "schar c = (if ccode c < 128 then ccode c else ccode c - 256)"

fun strncmp :: "string \<Rightarrow> string \<Rightarrow> nat \<Rightarrow> int" where
  "strncmp s t 0 = 0"
| "strncmp s t (Suc n) =
     (let a = (case s of [] \<Rightarrow> 0 | c # _ \<Rightarrow> ccode c);
          b = (case t of [] \<Rightarrow> 0 | c # _ \<Rightarrow> ccode c)
      in if a \<noteq> b then a - b else if a = 0 then 0 else strncmp (tl s) (tl t) n)"

text \<open>strtoull on text that starts with a digit; ULLONG_MAX when the value is too large.\<close>

fun digits_value :: "int \<Rightarrow> int \<Rightarrow> string \<Rightarrow> int" where
  "digits_value base acc [] = acc"
| "digits_value base acc (c # cs) =
     (if ishex c \<and> hex_val c < base then digits_value base (acc * base + hex_val c) cs else acc)"

definition strtoull :: "string \<Rightarrow> int \<Rightarrow> u64" where
  "strtoull s base =
     (let t = (if base = 16 \<and> length s > 2 \<and> s ! 0 = CHR ''0'' \<and> s ! 1 \<in> {CHR ''x'', CHR ''X''}
                  \<and> ishex (s ! 2) then drop 2 s else s);
          v = digits_value base 0 t
      in if v < 2 ^ 64 then word_of_int v else - 1)"

subsection \<open>State\<close>

record lexer =
  lx_src :: string
  lx_cur :: nat
  lx_end :: nat
  lx_line :: int
  lx_col :: int
  lx_strings :: "string list"
  lx_diag :: diag
  lx_has_peek :: bool
  lx_peeked :: token

definition null_token :: token where
  "null_token = \<lparr>tk_kind = TOK_INT_LIT, tk_start = 0, tk_len = 0, tk_line = 0, tk_col = 0,
     tk_int_val = 0, tk_float_val = [], tk_int_suffix = 0, tk_float_suffix = NUL, tk_str_idx = 0,
     tk_is_wide = False\<rparr>"

definition lexer_init :: "string \<Rightarrow> nat \<Rightarrow> string list \<Rightarrow> diag \<Rightarrow> lexer" where
  "lexer_init src len strings d =
     \<lparr>lx_src = src, lx_cur = 0, lx_end = len, lx_line = 1, lx_col = 1, lx_strings = strings,
      lx_diag = d, lx_has_peek = False, lx_peeked = null_token\<rparr>"

definition at_end :: "lexer \<Rightarrow> bool" where
  "at_end l \<longleftrightarrow> lx_cur l \<ge> lx_end l"

definition peekc :: "lexer \<Rightarrow> char" where
  "peekc l = (if at_end l then NUL else lx_src l ! lx_cur l)"

definition peekc2 :: "lexer \<Rightarrow> char" where
  "peekc2 l = (if lx_cur l + 1 < lx_end l then lx_src l ! (lx_cur l + 1) else NUL)"

definition adv :: "lexer \<Rightarrow> lexer" where
  "adv l = (if at_end l then l
            else if lx_src l ! lx_cur l = NL
              then l\<lparr>lx_cur := lx_cur l + 1, lx_line := lx_line l + 1, lx_col := 1\<rparr>
            else l\<lparr>lx_cur := lx_cur l + 1, lx_col := lx_col l + 1\<rparr>)"

text \<open>The source text between two offsets, and from an offset to the end.\<close>

definition text_between :: "lexer \<Rightarrow> nat \<Rightarrow> nat \<Rightarrow> string" where
  "text_between l s e = take (e - s) (drop s (lx_src l))"

definition mktok :: "lexer \<Rightarrow> TokenKind \<Rightarrow> nat \<Rightarrow> int \<Rightarrow> int \<Rightarrow> token" where
  "mktok l k s ln co =
     null_token\<lparr>tk_kind := k, tk_start := s, tk_len := lx_cur l - s, tk_line := ln, tk_col := co\<rparr>"

definition lx_emit :: "DiagLevel \<Rightarrow> int \<Rightarrow> int \<Rightarrow> string \<Rightarrow> lexer \<Rightarrow> lexer" where
  "lx_emit lv ln co msg l = l\<lparr>lx_diag := diag_emit lv ln co msg (lx_diag l)\<rparr>"

definition errtok :: "lexer \<Rightarrow> nat \<Rightarrow> int \<Rightarrow> int \<Rightarrow> string \<Rightarrow> token \<times> lexer" where
  "errtok l s ln co msg = (mktok l TOK_ERROR s ln co, lx_emit DIAG_ERROR ln co msg l)"

subsection \<open>Progress of adv\<close>

text \<open>Fields no movement of the scan position writes.\<close>

lemma adv_frame [simp]:
  "lx_src (adv l) = lx_src l" "lx_end (adv l) = lx_end l" "lx_strings (adv l) = lx_strings l"
  "lx_diag (adv l) = lx_diag l" "lx_has_peek (adv l) = lx_has_peek l" "lx_peeked (adv l) = lx_peeked l"
  by (auto simp: adv_def)

lemma adv_cur: "lx_cur (adv l) = (if at_end l then lx_cur l else lx_cur l + 1)"
  by (auto simp: adv_def)

lemma adv_cur_le: "lx_cur l \<le> lx_cur (adv l)"
  by (simp add: adv_cur)

lemma adv_measure: "\<not> at_end l \<Longrightarrow> lx_end l - lx_cur (adv l) < lx_end l - lx_cur l"
  by (simp add: adv_cur at_end_def)

text \<open>\<open>while (!at_end(l) && P(peekc(l))) adv(l);\<close>\<close>

function adv_while :: "(char \<Rightarrow> bool) \<Rightarrow> lexer \<Rightarrow> lexer" where
  "adv_while P l = (if \<not> at_end l \<and> P (peekc l) then adv_while P (adv l) else l)"
  by pat_completeness auto
termination
  by (relation "measure (\<lambda>(P, l). lx_end l - lx_cur l)") (auto simp: adv_measure)

declare adv_while.simps [simp del]

lemma adv_while_frame [simp]:
  "lx_src (adv_while P l) = lx_src l" "lx_end (adv_while P l) = lx_end l"
  "lx_strings (adv_while P l) = lx_strings l" "lx_diag (adv_while P l) = lx_diag l"
  "lx_has_peek (adv_while P l) = lx_has_peek l" "lx_peeked (adv_while P l) = lx_peeked l"
  by (induction P l rule: adv_while.induct; subst adv_while.simps; simp)+

lemma adv_while_cur_le: "lx_cur l \<le> lx_cur (adv_while P l)"
proof (induction P l rule: adv_while.induct)
  case (1 P l)
  then show ?case
    by (subst adv_while.simps) (auto intro: order_trans [OF adv_cur_le])
qed

subsection \<open>White space and comments\<close>

definition is_ws :: "char \<Rightarrow> bool" where
  "is_ws c \<longleftrightarrow> ccode c \<in> {32, 9, 13, 10, 12, 11}"

text \<open>The body of a block comment; False when the input ends first.\<close>

function skip_block :: "lexer \<Rightarrow> lexer \<times> bool" where
  "skip_block l =
     (if at_end l then (l, False)
      else if peekc l = CHR ''*'' \<and> peekc2 l = CHR ''/'' then (adv (adv l), True)
      else skip_block (adv l))"
  by pat_completeness auto
termination
  by (relation "measure (\<lambda>l. lx_end l - lx_cur l)") (auto simp: adv_measure)

declare skip_block.simps [simp del]

lemma skip_block_frame:
  "lx_src (fst (skip_block l)) = lx_src l \<and> lx_end (fst (skip_block l)) = lx_end l
   \<and> lx_strings (fst (skip_block l)) = lx_strings l \<and> lx_diag (fst (skip_block l)) = lx_diag l
   \<and> lx_has_peek (fst (skip_block l)) = lx_has_peek l \<and> lx_peeked (fst (skip_block l)) = lx_peeked l
   \<and> lx_cur l \<le> lx_cur (fst (skip_block l))"
proof (induction l rule: skip_block.induct)
  case (1 l)
  then show ?case
    using adv_cur_le [of l] adv_cur_le [of "adv l"] by (subst (1 2 3 4 5 6 7) skip_block.simps) auto
qed

function skip_ws :: "lexer \<Rightarrow> lexer" where
  "skip_ws l =
     (if at_end l then l
      else let c = peekc l
      in if is_ws c then skip_ws (adv l)
         else if c = CHR ''/'' \<and> peekc2 l = CHR ''/''
           then skip_ws (adv_while (\<lambda>c. c \<noteq> NL) (adv (adv l)))
         else if c = CHR ''/'' \<and> peekc2 l = CHR ''*''
           then let r = skip_block (adv (adv l))
                in if snd r then skip_ws (fst r)
                   else lx_emit DIAG_ERROR (lx_line l) (lx_col l) ''unterminated block comment'' (fst r)
         else if c = CHR ''#'' then skip_ws (adv_while (\<lambda>c. c \<noteq> NL) (adv l))
         else l)"
  by pat_completeness auto
termination
proof (relation "measure (\<lambda>l. lx_end l - lx_cur l)", goal_cases)
  case (2 l c)
  then show ?case by (simp add: adv_measure)
next
  case (3 l c)
  then show ?case
    using adv_while_cur_le [of "adv (adv l)" "\<lambda>c. c \<noteq> NL"] adv_cur_le [of "adv l"]
    by (auto simp: adv_cur at_end_def)
next
  case (4 l c r)
  then show ?case
    using skip_block_frame [of "adv (adv l)"] adv_cur_le [of "adv l"]
    by (auto simp: adv_cur at_end_def split: if_splits)
next
  case (5 l c)
  then show ?case
    using adv_while_cur_le [of "adv l" "\<lambda>c. c \<noteq> NL"]
    by (auto simp: adv_cur at_end_def)
qed auto

declare skip_ws.simps [simp del]

subsection \<open>Numbers\<close>

definition scan_exponent :: "lexer \<Rightarrow> lexer" where
  "scan_exponent l =
     (let l = adv l;
          l = (if peekc l = CHR ''+'' \<or> peekc l = CHR ''-'' then adv l else l)
      in adv_while is_digit l)"

text \<open>The digits of a number: the final state, whether it is floating, and its base.\<close>

definition scan_num_body :: "lexer \<Rightarrow> lexer \<times> bool \<times> int" where
  "scan_num_body l =
     (if peekc l = CHR ''0'' \<and> (peekc2 l = CHR ''x'' \<or> peekc2 l = CHR ''X'')
      then let l = adv_while ishex (adv (adv l));
               f1 = (peekc l = CHR ''.'');
               l = (if f1 then adv_while ishex (adv l) else l);
               f2 = (peekc l = CHR ''p'' \<or> peekc l = CHR ''P'');
               l = (if f2 then scan_exponent l else l)
           in (l, f1 \<or> f2, 16)
      else if peekc l = CHR ''0'' \<and> is_octal (peekc2 l)
      then (adv_while is_octal l, False, 8)
      else let l = adv_while is_digit l;
               f1 = (peekc l = CHR ''.'');
               l = (if f1 then adv_while is_digit (adv l) else l);
               f2 = (peekc l = CHR ''e'' \<or> peekc l = CHR ''E'');
               l = (if f2 then scan_exponent l else l)
           in (l, f1 \<or> f2, 10))"

function scan_suffix :: "lexer \<Rightarrow> int \<Rightarrow> lexer \<times> int" where
  "scan_suffix l suf =
     (let c = peekc l
      in if c = CHR ''u'' \<or> c = CHR ''U'' then scan_suffix (adv l) (suf OR INT_SUFFIX_U)
         else if (c = CHR ''l'' \<or> c = CHR ''L'') \<and> (peekc2 l = CHR ''l'' \<or> peekc2 l = CHR ''L'')
           then scan_suffix (adv (adv l)) (suf OR INT_SUFFIX_LL)
         else if c = CHR ''l'' \<or> c = CHR ''L'' then scan_suffix (adv l) (suf OR INT_SUFFIX_L)
         else (l, suf))"
  by pat_completeness auto
termination
  by (relation "measure (\<lambda>(l, suf). lx_end l - lx_cur l)")
    (auto simp: adv_cur at_end_def peekc_def NUL_def split: if_splits)

declare scan_suffix.simps [simp del]

definition scan_num :: "lexer \<Rightarrow> nat \<Rightarrow> int \<Rightarrow> int \<Rightarrow> token \<times> lexer" where
  "scan_num l s ln co =
     (let (l, is_flt, base) = scan_num_body l
      in if is_flt
         then let t = (mktok l TOK_FLOAT_LIT s ln co)\<lparr>tk_float_val := text_between l s (lx_cur l)\<rparr>;
                  c = peekc l;
                  (t, l) = (if c = CHR ''f'' \<or> c = CHR ''F'' then (t\<lparr>tk_float_suffix := CHR ''f''\<rparr>, adv l)
                            else if c = CHR ''l'' \<or> c = CHR ''L'' then (t\<lparr>tk_float_suffix := CHR ''l''\<rparr>, adv l)
                            else (t, l))
              in (t\<lparr>tk_len := lx_cur l - s\<rparr>, l)
         else let t = (mktok l TOK_INT_LIT s ln co)
                        \<lparr>tk_int_val := strtoull (text_between l s (lx_end l)) base\<rparr>;
                  (l, suf) = scan_suffix l INT_SUFFIX_NONE
              in (t\<lparr>tk_int_suffix := suf, tk_len := lx_cur l - s\<rparr>, l))"

subsection \<open>Escapes, strings and character literals\<close>

function scan_hex_esc :: "lexer \<Rightarrow> int \<Rightarrow> int \<times> lexer" where
  "scan_hex_esc l v =
     (if \<not> at_end l \<and> ishex (peekc l)
      then scan_hex_esc (adv l) (v * 16 + hex_val (peekc l))
      else (v, l))"
  by pat_completeness auto
termination
  by (relation "measure (\<lambda>(l, v). lx_end l - lx_cur l)") (auto simp: adv_cur at_end_def)

declare scan_hex_esc.simps [simp del]

text \<open>At most \<open>n\<close> further octal digits.\<close>

fun scan_oct_esc :: "nat \<Rightarrow> lexer \<Rightarrow> int \<Rightarrow> int \<times> lexer" where
  "scan_oct_esc 0 l v = (v, l)"
| "scan_oct_esc (Suc n) l v =
     (if \<not> at_end l \<and> is_octal (peekc l)
      then scan_oct_esc n (adv l) (v * 8 + (ccode (peekc l) - 48))
      else (v, l))"

definition simple_escapes :: "(char \<times> int) list" where
  "simple_escapes = [(CHR ''n'', 10), (CHR ''t'', 9), (CHR ''r'', 13), (CHR 0x5C, 92), (CHR 0x27, 39),
     (CHR 0x22, 34), (CHR ''0'', 0), (CHR ''a'', 7), (CHR ''b'', 8), (CHR ''f'', 12), (CHR ''v'', 11)]"

definition scan_esc :: "lexer \<Rightarrow> int \<times> lexer" where
  "scan_esc l0 =
     (let c = peekc l0; l = adv l0
      in case map_of simple_escapes c of
           Some v \<Rightarrow> (v, l)
         | None \<Rightarrow>
             if c = CHR ''x'' then scan_hex_esc l 0
             else if is_octal c then scan_oct_esc 2 l (ccode c - 48)
             else (schar c, lx_emit DIAG_WARNING (lx_line l) (lx_col l)
                              (''unknown escape '' @ [CHR 0x27, CHR 0x5C] @ [c] @ [CHR 0x27]) l))"

definition to_char :: "int \<Rightarrow> char" where
  "to_char v = char_of (nat (v mod 256))"

lemma scan_hex_esc_frame:
  "lx_src (snd (scan_hex_esc l v)) = lx_src l \<and> lx_end (snd (scan_hex_esc l v)) = lx_end l
   \<and> lx_strings (snd (scan_hex_esc l v)) = lx_strings l \<and> lx_has_peek (snd (scan_hex_esc l v)) = lx_has_peek l
   \<and> lx_peeked (snd (scan_hex_esc l v)) = lx_peeked l \<and> lx_cur l \<le> lx_cur (snd (scan_hex_esc l v))"
proof (induction l v rule: scan_hex_esc.induct)
  case (1 l v)
  show ?case
  proof (cases "\<not> at_end l \<and> ishex (peekc l)")
    case True
    then show ?thesis using 1 adv_cur_le [of l] by (simp add: scan_hex_esc.simps [of l v])
  qed (auto simp: scan_hex_esc.simps [of l v])
qed

lemma scan_oct_esc_frame:
  "lx_src (snd (scan_oct_esc n l v)) = lx_src l \<and> lx_end (snd (scan_oct_esc n l v)) = lx_end l
   \<and> lx_strings (snd (scan_oct_esc n l v)) = lx_strings l \<and> lx_has_peek (snd (scan_oct_esc n l v)) = lx_has_peek l
   \<and> lx_peeked (snd (scan_oct_esc n l v)) = lx_peeked l \<and> lx_cur l \<le> lx_cur (snd (scan_oct_esc n l v))"
proof (induction n l v rule: scan_oct_esc.induct)
  case (2 n l v)
  then show ?case using adv_cur_le [of l] by auto
qed simp

lemma lx_emit_frame [simp]:
  "lx_src (lx_emit lv ln co m l) = lx_src l" "lx_end (lx_emit lv ln co m l) = lx_end l"
  "lx_strings (lx_emit lv ln co m l) = lx_strings l" "lx_has_peek (lx_emit lv ln co m l) = lx_has_peek l"
  "lx_peeked (lx_emit lv ln co m l) = lx_peeked l" "lx_cur (lx_emit lv ln co m l) = lx_cur l"
  "lx_line (lx_emit lv ln co m l) = lx_line l" "lx_col (lx_emit lv ln co m l) = lx_col l"
  by (simp_all add: lx_emit_def)

lemma scan_esc_frame:
  "lx_src (snd (scan_esc l)) = lx_src l \<and> lx_end (snd (scan_esc l)) = lx_end l
   \<and> lx_strings (snd (scan_esc l)) = lx_strings l \<and> lx_has_peek (snd (scan_esc l)) = lx_has_peek l
   \<and> lx_peeked (snd (scan_esc l)) = lx_peeked l \<and> lx_cur l \<le> lx_cur (snd (scan_esc l))"
  using scan_hex_esc_frame [of "adv l" 0] scan_oct_esc_frame [of 2 "adv l" "ccode (peekc l) - 48"]
    adv_cur_le [of l]
  by (auto simp: scan_esc_def Let_def simp del: scan_oct_esc.simps split: option.splits)

text \<open>The loop of scan_str: the state and the buffer where it stops, and whether it stopped
  at a newline.\<close>

function scan_str_loop :: "lexer \<Rightarrow> string \<Rightarrow> lexer \<times> string \<times> bool" where
  "scan_str_loop l buf =
     (if at_end l \<or> peekc l = CHR 0x22 then (l, buf, False)
      else if peekc l = NL then (l, buf, True)
      else if peekc l = CHR 0x5C
        then let l = adv l
             in if length buf < 4095
                then let r = scan_esc l in scan_str_loop (snd r) (buf @ [to_char (fst r)])
                else scan_str_loop l buf
        else scan_str_loop (adv l) (if length buf < 4095 then buf @ [peekc l] else buf))"
  by pat_completeness auto
termination
proof (relation "measure (\<lambda>(l, buf). lx_end l - lx_cur l)", goal_cases)
  case (2 l buf l' r)
  then show ?case using scan_esc_frame [of "adv l"] by (auto simp: adv_cur at_end_def split: if_splits)
qed (auto simp: adv_cur at_end_def)

declare scan_str_loop.simps [simp del]

text \<open>strtab_intern on the abstract table always succeeds.\<close>

definition lx_intern :: "lexer \<Rightarrow> string \<Rightarrow> nat \<times> lexer" where
  "lx_intern l s =
     (case intern_spec (lx_strings l) s of
        Some (tab, i) \<Rightarrow> (i, l\<lparr>lx_strings := tab\<rparr>)
      | None \<Rightarrow> (0, l))"

definition scan_str :: "lexer \<Rightarrow> nat \<Rightarrow> int \<Rightarrow> int \<Rightarrow> bool \<Rightarrow> token \<times> lexer" where
  "scan_str l s ln co wide =
     (let (l, buf, bad) = scan_str_loop (adv l) []
      in if bad then errtok l s ln co ''unterminated string literal''
         else if at_end l then errtok l s ln co ''unterminated string literal''
         else let l = adv l;
                  t = mktok l TOK_STR_LIT s ln co;
                  (i, l) = lx_intern l buf
              in (t\<lparr>tk_str_idx := int i, tk_is_wide := wide\<rparr>, l))"

definition scan_chr :: "lexer \<Rightarrow> nat \<Rightarrow> int \<Rightarrow> int \<Rightarrow> bool \<Rightarrow> token \<times> lexer" where
  "scan_chr l s ln co wide =
     (let l = adv l
      in if at_end l \<or> peekc l = CHR 0x27 then errtok l s ln co ''empty character literal''
         else let (val, l) = (if peekc l = CHR 0x5C then scan_esc (adv l)
                              else (ccode (peekc l), adv l))
              in if at_end l \<or> peekc l \<noteq> CHR 0x27 then errtok l s ln co ''unterminated character literal''
                 else let l = adv l
                      in ((mktok l TOK_CHAR_LIT s ln co)\<lparr>tk_int_val := of_int val, tk_is_wide := wide\<rparr>, l))"

subsection \<open>Keywords\<close>

definition char_at :: "string \<Rightarrow> nat \<Rightarrow> char" where
  "char_at s i = (if i < length s then s ! i else NUL)"

function kw_search :: "string \<Rightarrow> int \<Rightarrow> int \<Rightarrow> TokenKind" where
  "kw_search s lo hi =
     (if lo \<le> hi
      then let mid = (lo + hi) div 2;
               entry = kw_table ! nat mid;
               cmp = strncmp s (fst entry) (length s)
           in if cmp = 0 \<and> char_at (fst entry) (length s) = NUL then snd entry
              else let cmp = (if cmp = 0 then - 1 else cmp)
                   in if cmp < 0 then kw_search s lo (mid - 1) else kw_search s (mid + 1) hi
      else TOK_IDENT)"
  by pat_completeness auto
termination
  by (relation "measure (\<lambda>(s, lo, hi). nat (hi - lo + 1))") (auto simp: Let_def)

declare kw_search.simps [simp del]

definition lookup_keyword :: "string \<Rightarrow> TokenKind" where
  "lookup_keyword s = kw_search s 0 (int NUM_KW - 1)"

subsection \<open>Operators and punctuation\<close>

text \<open>The final switch of scan_token: \<open>c\<close> has just been consumed. The result is the kind
  and the state, or None for the error at the end and for a number that starts with a dot.\<close>

definition scan_punct :: "lexer \<Rightarrow> char \<Rightarrow> (TokenKind \<times> lexer) option" where
  "scan_punct l c =
     (let one = (\<lambda>k. Some (k, l)); two = (\<lambda>k. Some (k, adv l)); p = peekc l
      in if c = CHR ''('' then one TOK_LPAREN
         else if c = CHR '')'' then one TOK_RPAREN
         else if c = CHR ''{'' then one TOK_LBRACE
         else if c = CHR ''}'' then one TOK_RBRACE
         else if c = CHR ''['' then one TOK_LBRACKET
         else if c = CHR '']'' then one TOK_RBRACKET
         else if c = CHR '';'' then one TOK_SEMICOLON
         else if c = CHR '','' then one TOK_COMMA
         else if c = CHR ''~'' then one TOK_TILDE
         else if c = CHR ''?'' then one TOK_QUESTION
         else if c = CHR '':'' then one TOK_COLON
         else if c = CHR ''#'' then one TOK_HASH
         else if c = CHR ''+'' then
           (if p = CHR ''+'' then two TOK_PLUSPLUS
            else if p = CHR ''='' then two TOK_PLUS_ASSIGN else one TOK_PLUS)
         else if c = CHR ''-'' then
           (if p = CHR ''-'' then two TOK_MINUSMINUS
            else if p = CHR ''='' then two TOK_MINUS_ASSIGN
            else if p = CHR ''>'' then two TOK_ARROW else one TOK_MINUS)
         else if c = CHR ''*'' then (if p = CHR ''='' then two TOK_STAR_ASSIGN else one TOK_STAR)
         else if c = CHR ''/'' then (if p = CHR ''='' then two TOK_SLASH_ASSIGN else one TOK_SLASH)
         else if c = CHR ''%'' then (if p = CHR ''='' then two TOK_PERCENT_ASSIGN else one TOK_PERCENT)
         else if c = CHR ''&'' then
           (if p = CHR ''&'' then two TOK_AND
            else if p = CHR ''='' then two TOK_AMP_ASSIGN else one TOK_AMP)
         else if c = CHR ''|'' then
           (if p = CHR ''|'' then two TOK_OR
            else if p = CHR ''='' then two TOK_PIPE_ASSIGN else one TOK_PIPE)
         else if c = CHR ''^'' then (if p = CHR ''='' then two TOK_CARET_ASSIGN else one TOK_CARET)
         else if c = CHR ''!'' then (if p = CHR ''='' then two TOK_NEQ else one TOK_BANG)
         else if c = CHR ''='' then (if p = CHR ''='' then two TOK_EQ else one TOK_ASSIGN)
         else if c = CHR ''<'' then
           (if p = CHR ''<'' then
              (let l2 = adv l in if peekc l2 = CHR ''='' then Some (TOK_LSHIFT_ASSIGN, adv l2)
                                 else Some (TOK_LSHIFT, l2))
            else if p = CHR ''='' then two TOK_LE else one TOK_LT)
         else if c = CHR ''>'' then
           (if p = CHR ''>'' then
              (let l2 = adv l in if peekc l2 = CHR ''='' then Some (TOK_RSHIFT_ASSIGN, adv l2)
                                 else Some (TOK_RSHIFT, l2))
            else if p = CHR ''='' then two TOK_GE else one TOK_GT)
         else if c = CHR ''.'' then
           (if p = CHR ''.'' \<and> peekc2 l = CHR ''.'' then Some (TOK_ELLIPSIS, adv (adv l))
            else if is_digit p then None else one TOK_DOT)
         else None)"

subsection \<open>The main dispatch\<close>

definition scan_token :: "lexer \<Rightarrow> token \<times> lexer" where
  "scan_token l =
     (let l = skip_ws l
      in if at_end l then (mktok l TOK_EOF (lx_cur l) (lx_line l) (lx_col l), l)
         else let s = lx_cur l; ln = lx_line l; co = lx_col l; c = peekc l; l1 = adv l
         in if is_alpha c \<or> c = CHR ''_'' then
              (if c = CHR ''L'' \<and> \<not> at_end l1 \<and> peekc l1 = CHR 0x22 then scan_str l1 s ln co True
               else if c = CHR ''L'' \<and> \<not> at_end l1 \<and> peekc l1 = CHR 0x27 then scan_chr l1 s ln co True
               else let l2 = adv_while (\<lambda>c. is_alnum c \<or> c = CHR ''_'') l1;
                        name = text_between l2 s (lx_cur l2);
                        k = lookup_keyword name;
                        t = mktok l2 k s ln co
                    in if k = TOK_IDENT
                       then let (i, l3) = lx_intern l2 name
                            in (t\<lparr>tk_str_idx := int i, tk_is_wide := False\<rparr>, l3)
                       else (t, l2))
            else if is_digit c then scan_num (l1\<lparr>lx_cur := s, lx_col := co\<rparr>) s ln co
            else if c = CHR 0x22 then scan_str (l1\<lparr>lx_cur := s, lx_col := co\<rparr>) s ln co False
            else if c = CHR 0x27 then scan_chr (l1\<lparr>lx_cur := s, lx_col := co\<rparr>) s ln co False
            else case scan_punct l1 c of
                   Some (k, l2) \<Rightarrow> (mktok l2 k s ln co, l2)
                 | None \<Rightarrow>
                     if c = CHR ''.'' then scan_num (l1\<lparr>lx_cur := s, lx_col := co\<rparr>) s ln co
                     else errtok l1 s ln co ''unexpected character'')"

definition lexer_next :: "lexer \<Rightarrow> token \<times> lexer" where
  "lexer_next l = (if lx_has_peek l then (lx_peeked l, l\<lparr>lx_has_peek := False\<rparr>) else scan_token l)"

definition lexer_peek :: "lexer \<Rightarrow> token \<times> lexer" where
  "lexer_peek l =
     (if lx_has_peek l then (lx_peeked l, l)
      else let (t, l) = scan_token l in (t, l\<lparr>lx_peeked := t, lx_has_peek := True\<rparr>))"

subsection \<open>token_describe\<close>

text \<open>snprintf into the 256 byte buffer keeps 255 characters; \<open>fmt_g\<close> prints a floating
  value with \<open>%g\<close>.\<close>

definition token_describe :: "(string \<Rightarrow> string) \<Rightarrow> string \<Rightarrow> token \<Rightarrow> string" where
  "token_describe fmt_g src tok =
     take 255
      (if tk_kind tok = TOK_INT_LIT then ''INT_LIT('' @ show_nat (unat (tk_int_val tok)) @ '')''
       else if tk_kind tok = TOK_FLOAT_LIT then ''FLOAT_LIT('' @ fmt_g (tk_float_val tok) @ '')''
       else if tk_kind tok = TOK_IDENT \<or> tk_kind tok = TOK_STR_LIT \<or> tk_kind tok = TOK_CHAR_LIT
         then token_kind_name (tk_kind tok) @ ''('' @ [CHR 0x27]
              @ c_str (take (tk_len tok) (drop (tk_start tok) src)) @ [CHR 0x27] @ '')''
       else token_kind_name (tk_kind tok))"

end
