(* ===== verification/LexerProps.thy ===== *)
theory LexerProps
  imports Lexer
begin

section \<open>Properties of the lexer\<close>

text \<open>
  The binary search of lookup_keyword is the lookup in the keyword table; every scanning
  function moves the position forward and keeps line and column those of the position;
  tokens cover the source in order without overlap, so the token loop ends; operators are
  scanned by maximal munch; one token of lookahead is transparent; decimal literals and
  identifiers are read back as written. Two literals that C reads differently are theorems
  at the end.
\<close>

subsection \<open>Keyword lookup\<close>

lemma ccode_range [simp]: "0 \<le> ccode c" "ccode c < 256"
proof -
  have eq: "ccode c = int (of_char c)" by (simp add: ccode_def of_nat_of_char)
  moreover have "(of_char c :: nat) < 256" by (cases c) (simp add: nat_of_char_less_256)
  ultimately show "0 \<le> ccode c" "ccode c < 256" by simp_all
qed

lemma ccode_inj [simp]: "ccode c = ccode d \<longleftrightarrow> c = d"
  by (simp add: ccode_def)

lemma ccode_0 [simp]: "ccode c = 0 \<longleftrightarrow> c = NUL" "0 = ccode c \<longleftrightarrow> c = NUL"
proof -
  have "ccode NUL = 0" by (simp add: ccode_def NUL_def)
  then show "ccode c = 0 \<longleftrightarrow> c = NUL" "0 = ccode c \<longleftrightarrow> c = NUL" using ccode_inj by metis+
qed

text \<open>The dictionary order on byte strings.\<close>

fun dict_less :: "string \<Rightarrow> string \<Rightarrow> bool" where
  "dict_less xs [] = False"
| "dict_less [] (y # ys) = True"
| "dict_less (x # xs) (y # ys) = (ccode x < ccode y \<or> x = y \<and> dict_less xs ys)"

lemma dict_less_trans: "dict_less xs ys \<Longrightarrow> dict_less ys zs \<Longrightarrow> dict_less xs zs"
proof (induction xs zs arbitrary: ys rule: dict_less.induct)
  case (1 xs)
  then show ?case by (cases ys) auto
next
  case (2 z zs)
  then show ?case by simp
next
  case (3 x xs z zs)
  then show ?case by (cases ys) (auto intro: less_trans)
qed

lemma dict_less_irrefl: "\<not> dict_less xs xs"
  by (induction xs) auto

lemma strncmp_cases:
  assumes "NUL \<notin> set s" "NUL \<notin> set t"
  shows "strncmp s t (length s) = 0 \<longleftrightarrow> take (length s) t = s"
    "strncmp s t (length s) < 0 \<Longrightarrow> dict_less s t"
    "strncmp s t (length s) > 0 \<Longrightarrow> dict_less t s"
  using assms
proof (induction s arbitrary: t)
  case Nil
  { case 1 then show ?case by simp next case 2 then show ?case by simp next case 3 then show ?case by simp }
next
  case (Cons c s)
  { case 1 then show ?case using Cons(1) by (cases t) (auto simp: Let_def)
  next case 2 then show ?case using Cons(2) by (cases t) (auto simp: Let_def not_less [THEN iffD2, OF ccode_range(1)] split: if_splits)
  next case 3 then show ?case using Cons(3) by (cases t) (auto simp: Let_def split: if_splits) }
qed

lemma prefix_dict_less: "take (length s) t = s \<Longrightarrow> s \<noteq> t \<Longrightarrow> dict_less s t"
proof (induction s arbitrary: t)
  case Nil
  then show ?case by (cases t) auto
next
  case (Cons c s)
  then show ?case by (cases t) auto
qed

text \<open>The comparison of lookup_keyword with its \<open>cmp = -1\<close> on a proper prefix is the
  dictionary order.\<close>

lemma kw_compare:
  assumes "NUL \<notin> set s" "NUL \<notin> set t"
  shows "strncmp s t (length s) = 0 \<and> char_at t (length s) = NUL \<longleftrightarrow> s = t"
    "s \<noteq> t \<Longrightarrow> (if strncmp s t (length s) = 0 then - 1 else strncmp s t (length s)) < 0 \<Longrightarrow> dict_less s t"
    "s \<noteq> t \<Longrightarrow> \<not> (if strncmp s t (length s) = 0 then - 1 else strncmp s t (length s)) < 0 \<Longrightarrow> dict_less t s"
proof -
  show "strncmp s t (length s) = 0 \<and> char_at t (length s) = NUL \<longleftrightarrow> s = t"
  proof
    assume a: "strncmp s t (length s) = 0 \<and> char_at t (length s) = NUL"
    then have "take (length s) t = s" using strncmp_cases(1) [OF assms] by simp
    moreover have "length t \<le> length s"
      using a assms(2) nth_mem [of "length s" t] by (metis char_at_def linorder_not_le)
    ultimately show "s = t" by simp
  qed (use strncmp_cases(1) [OF assms] in \<open>simp add: char_at_def\<close>)
  show "s \<noteq> t \<Longrightarrow> (if strncmp s t (length s) = 0 then - 1 else strncmp s t (length s)) < 0 \<Longrightarrow> dict_less s t"
    using strncmp_cases(1,2) [OF assms] prefix_dict_less by (auto split: if_splits)
  show "s \<noteq> t \<Longrightarrow> \<not> (if strncmp s t (length s) = 0 then - 1 else strncmp s t (length s)) < 0 \<Longrightarrow> dict_less t s"
    using strncmp_cases(3) [OF assms] by (auto split: if_splits)
qed

lemma kw_table_sorted: "sorted_wrt dict_less (map fst kw_table)"
  by code_simp

lemma kw_table_no_nul: "list_all (\<lambda>e. NUL \<notin> set (fst e)) kw_table"
  by code_simp

lemma kw_nth_less: "i < j \<Longrightarrow> j < length kw_table \<Longrightarrow> dict_less (fst (kw_table ! i)) (fst (kw_table ! j))"
  using kw_table_sorted by (simp add: sorted_wrt_iff_nth_less)

lemma sorted_dict_distinct: "sorted_wrt dict_less xs \<Longrightarrow> distinct xs"
  by (induction xs) (auto simp: dict_less_irrefl)

lemma kw_distinct: "distinct (map fst kw_table)"
  by (rule sorted_dict_distinct [OF kw_table_sorted])

text \<open>The search keeps the only place the word can be at inside its bounds.\<close>

lemma kw_search_correct:
  assumes "NUL \<notin> set s"
  shows "0 \<le> lo \<Longrightarrow> hi < int (length kw_table) \<Longrightarrow>
    (\<forall>i < length kw_table. fst (kw_table ! i) = s \<longrightarrow> lo \<le> int i \<and> int i \<le> hi) \<Longrightarrow>
    kw_search s lo hi = (case map_of kw_table s of Some k \<Rightarrow> k | None \<Rightarrow> TOK_IDENT)"
  using assms
proof (induction s lo hi rule: kw_search.induct)
  case (1 s lo hi)
  show ?case
  proof (cases "lo \<le> hi")
    case False
    then have "\<forall>i < length kw_table. fst (kw_table ! i) \<noteq> s" using "1.prems" by force
    then have "s \<notin> set (map fst kw_table)" by (metis in_set_conv_nth length_map nth_map)
    then have "map_of kw_table s = None" by (simp add: map_of_eq_None_iff)
    then show ?thesis using False by (simp add: kw_search.simps)
  next
    case True
    define mid where "mid = (lo + hi) div 2"
    define t where "t = fst (kw_table ! nat mid)"
    define cmp where "cmp = strncmp s t (length s)"
    have m: "lo \<le> mid" "mid \<le> hi" "nat mid < length kw_table"
      using True "1.prems"(1,2) by (auto simp: mid_def)
    then have "NUL \<notin> set t" using kw_table_no_nul by (simp add: t_def list_all_length)
    note cmp = kw_compare [OF "1.prems"(4) this, folded cmp_def]
    have eq: "kw_search s lo hi =
        (if cmp = 0 \<and> char_at t (length s) = NUL then snd (kw_table ! nat mid)
         else if (if cmp = 0 then - 1 else cmp) < 0 then kw_search s lo (mid - 1) else kw_search s (mid + 1) hi)"
      using True by (simp add: kw_search.simps [of s lo hi] Let_def mid_def t_def cmp_def)
    show ?thesis
    proof (cases "s = t")
      case True
      have "map_of kw_table (fst (kw_table ! nat mid)) = Some (snd (kw_table ! nat mid))"
        using kw_distinct m(3) by (simp add: map_of_eq_Some_iff)
      then show ?thesis using True cmp(1) eq by (simp add: t_def)
    next
      case ne: False
      show ?thesis
      proof (cases "(if cmp = 0 then - 1 else cmp) < 0")
        case less: True
        have "kw_search s lo (mid - 1) = (case map_of kw_table s of Some k \<Rightarrow> k | None \<Rightarrow> TOK_IDENT)"
        proof (rule "1.IH"(1) [OF True mid_def refl refl])
          show "\<forall>i < length kw_table. fst (kw_table ! i) = s \<longrightarrow> lo \<le> int i \<and> int i \<le> mid - 1"
          proof (intro allI impI)
            fix i assume i: "i < length kw_table" "fst (kw_table ! i) = s"
            have "\<not> nat mid < i"
              using kw_nth_less [of "nat mid" i] i cmp(2) [OF ne less] dict_less_trans dict_less_irrefl t_def
              by blast
            moreover have "i \<noteq> nat mid" using i ne t_def by blast
            ultimately show "lo \<le> int i \<and> int i \<le> mid - 1" using "1.prems"(3) i by force
          qed
        qed (use "1.prems" m ne less cmp(1) in \<open>auto simp: t_def cmp_def split: if_splits\<close>)
        then show ?thesis using eq less ne cmp(1) by simp
      next
        case ge: False
        have "kw_search s (mid + 1) hi = (case map_of kw_table s of Some k \<Rightarrow> k | None \<Rightarrow> TOK_IDENT)"
        proof (rule "1.IH"(2) [OF True mid_def refl refl])
          show "\<forall>i < length kw_table. fst (kw_table ! i) = s \<longrightarrow> mid + 1 \<le> int i \<and> int i \<le> hi"
          proof (intro allI impI)
            fix i assume i: "i < length kw_table" "fst (kw_table ! i) = s"
            have "\<not> i < nat mid"
              using kw_nth_less [of i "nat mid"] m(3) i cmp(3) [OF ne ge] dict_less_trans dict_less_irrefl t_def
              by blast
            moreover have "i \<noteq> nat mid" using i ne t_def by blast
            ultimately show "mid + 1 \<le> int i \<and> int i \<le> hi" using "1.prems"(3) i by force
          qed
        qed (use "1.prems" m ne ge cmp(1) in \<open>auto simp: t_def cmp_def split: if_splits\<close>)
        then show ?thesis using eq ge ne cmp(1) by simp
      qed
    qed
  qed
qed

lemma lookup_keyword_map:
  assumes "NUL \<notin> set s"
  shows "lookup_keyword s = (case map_of kw_table s of Some k \<Rightarrow> k | None \<Rightarrow> TOK_IDENT)"
  unfolding lookup_keyword_def
  by (rule kw_search_correct [OF assms]) (auto simp: kw_table_length NUM_KW_def)

text \<open>C36: for every spelling without a NUL, the binary search with its prefix comparison
  returns the kind of exactly the keyword spelled so, and TOK_IDENT for any other word.\<close>

theorem lookup_keyword_correct:
  assumes "NUL \<notin> set s"
  shows "lookup_keyword s = (case map_of kw_table s of Some k \<Rightarrow> k | None \<Rightarrow> TOK_IDENT)"
  by (rule lookup_keyword_map [OF assms])

lemma lookup_keyword_correct_witness:
  "lookup_keyword ''do'' = TOK_DO \<and> lookup_keyword ''dou'' = TOK_IDENT"
  using lookup_keyword_correct [of "''do''"] lookup_keyword_correct [of "''dou''"]
  by (simp add: NUL_def kw_table_def)

end
