(* ===== verification/LexerPos.thy ===== *)
theory LexerPos
  imports LexerProps
begin

subsection \<open>The position invariant\<close>

text \<open>Line and column of an offset: one more than the newlines before it, and one more than
  the characters since the last of them.\<close>

definition pos_of :: "string \<Rightarrow> nat \<Rightarrow> int \<times> int" where
  "pos_of src n =
     (1 + int (length (filter (\<lambda>c. c = NL) (take n src))),
      1 + int (length (takeWhile (\<lambda>c. c \<noteq> NL) (rev (take n src)))))"

definition lexer_ok :: "lexer \<Rightarrow> bool" where
  "lexer_ok l \<longleftrightarrow> lx_end l \<le> length (lx_src l) \<and> lx_cur l \<le> lx_end l
     \<and> (lx_line l, lx_col l) = pos_of (lx_src l) (lx_cur l)"

text \<open>What every scanning function keeps: the source, the lookahead slot, the invariant; the
  position does not go back, the interned strings keep their indices and errors are only added.\<close>

definition lx_moves :: "lexer \<Rightarrow> lexer \<Rightarrow> bool" where
  "lx_moves l l' \<longleftrightarrow> lx_src l' = lx_src l \<and> lx_end l' = lx_end l \<and> lx_has_peek l' = lx_has_peek l
     \<and> lx_peeked l' = lx_peeked l \<and> lx_cur l \<le> lx_cur l'
     \<and> (\<exists>ys. lx_strings l' = lx_strings l @ ys) \<and> (lexer_ok l \<longrightarrow> lexer_ok l')
     \<and> dg_errors (lx_diag l) \<le> dg_errors (lx_diag l')"

lemma lx_moves_refl [simp, intro]: "lx_moves l l"
  by (simp add: lx_moves_def)

lemma lx_moves_trans [trans]: "lx_moves l l' \<Longrightarrow> lx_moves l' l'' \<Longrightarrow> lx_moves l l''"
  by (auto simp: lx_moves_def)

lemma lx_moves_cur: "lx_moves l l' \<Longrightarrow> lx_cur l \<le> lx_cur l'"
  by (simp add: lx_moves_def)

lemma lx_moves_end: "lx_moves l l' \<Longrightarrow> lx_end l' = lx_end l"
  by (simp add: lx_moves_def)

lemma pos_of_0: "pos_of src 0 = (1, 1)"
  by (simp add: pos_of_def)

lemma pos_of_Suc:
  assumes "n < length src"
  shows "pos_of src (Suc n) = (if src ! n = NL then (fst (pos_of src n) + 1, 1)
    else (fst (pos_of src n), snd (pos_of src n) + 1))"
  using assms by (simp add: pos_of_def take_Suc_conv_app_nth)

lemma lexer_init_ok: "len \<le> length src \<Longrightarrow> lexer_ok (lexer_init src len strings d)"
  by (simp add: lexer_ok_def lexer_init_def pos_of_0)

lemma adv_ok: "lexer_ok l \<Longrightarrow> lexer_ok (adv l)"
  using pos_of_Suc [of "lx_cur l" "lx_src l"]
  by (auto simp: lexer_ok_def adv_def at_end_def prod_eq_iff)

lemma adv_moves [simp, intro]: "lx_moves l (adv l)"
  by (simp add: lx_moves_def adv_cur_le adv_ok)

lemma moves_adv [intro]: "lx_moves l l' \<Longrightarrow> lx_moves l (adv l')"
  by (rule lx_moves_trans [OF _ adv_moves])

lemma emit_moves [simp, intro]: "lx_moves l (lx_emit lv ln co m l)"
  by (simp add: lx_moves_def lexer_ok_def diag_emit_counts lx_emit_def)

lemma moves_emit [intro]: "lx_moves l l' \<Longrightarrow> lx_moves l (lx_emit lv ln co m l')"
  by (rule lx_moves_trans [OF _ emit_moves])

text \<open>scan_token and scan_punct put the first character of a number or string back.\<close>

lemma adv_undo:
  assumes "\<not> at_end l" "peekc l \<noteq> NL"
  shows "(adv l)\<lparr>lx_cur := lx_cur l, lx_col := lx_col l\<rparr> = l"
  using assms by (simp add: adv_def peekc_def)

lemma adv_while_moves [simp, intro]: "lx_moves l (adv_while P l)"
proof (induction P l rule: adv_while.induct)
  case (1 P l)
  then show ?case using lx_moves_trans [OF adv_moves] by (simp add: adv_while.simps [of P l])
qed

lemma moves_adv_while [intro]: "lx_moves l l' \<Longrightarrow> lx_moves l (adv_while P l')"
  by (rule lx_moves_trans [OF _ adv_while_moves])

lemma skip_block_moves [simp, intro]: "lx_moves l (fst (skip_block l))"
proof (induction l rule: skip_block.induct)
  case (1 l)
  note ih = "1" [THEN lx_moves_trans [OF adv_moves]]
  show ?case
    by (subst skip_block.simps) (simp add: ih moves_adv)
qed

lemma skip_ws_moves [simp, intro]: "lx_moves l (skip_ws l)"
proof (induction l rule: skip_ws.induct)
  case (1 l)
  have r: "lx_moves l (fst (skip_block (adv (adv l))))"
    by (rule lx_moves_trans [OF moves_adv [OF adv_moves] skip_block_moves])
  note ih = "1.IH" (1) [OF _ refl, THEN lx_moves_trans [OF adv_moves]]
    "1.IH" (2) [OF _ refl, THEN lx_moves_trans [OF moves_adv_while [OF moves_adv [OF adv_moves]]]]
    "1.IH" (3) [OF _ refl _ _ _ refl, THEN lx_moves_trans [OF r]]
    "1.IH" (4) [OF _ refl, THEN lx_moves_trans [OF moves_adv_while [OF adv_moves]]]
  show ?case
    by (subst skip_ws.simps) (simp add: Let_def ih r moves_emit)
qed

lemma moves_skip_ws [intro]: "lx_moves l l' \<Longrightarrow> lx_moves l (skip_ws l')"
  by (rule lx_moves_trans [OF _ skip_ws_moves])

subsection \<open>The scanning functions move forward\<close>

lemma scan_exponent_moves [simp, intro]: "lx_moves l (scan_exponent l)"
  by (auto simp: scan_exponent_def Let_def)

lemma moves_scan_exponent [intro]: "lx_moves l l' \<Longrightarrow> lx_moves l (scan_exponent l')"
  by (rule lx_moves_trans [OF _ scan_exponent_moves])

lemma moves_if: "lx_moves l a \<Longrightarrow> lx_moves l b \<Longrightarrow> lx_moves l (if P then a else b)"
  by simp

lemma scan_num_body_moves: "lx_moves l (fst (scan_num_body l))"
  unfolding scan_num_body_def Let_def if_distrib [of fst] fst_conv
  by (intro moves_if moves_scan_exponent moves_adv_while moves_adv lx_moves_refl)

lemma scan_suffix_moves: "lx_moves l (fst (scan_suffix l suf))"
proof (induction l suf rule: scan_suffix.induct)
  case (1 l suf)
  note ih = "1.IH" [OF refl, THEN lx_moves_trans [OF adv_moves]]
    "1.IH" (2) [OF refl, THEN lx_moves_trans [OF moves_adv [OF adv_moves]]]
  show ?case
    by (subst scan_suffix.simps) (simp add: Let_def ih)
qed

lemma scan_num_moves: "lx_moves l (snd (scan_num l s ln co))"
  using scan_num_body_moves [of l] lx_moves_trans [OF _ scan_suffix_moves [of _ INT_SUFFIX_NONE], of l]
  by (simp add: scan_num_def Let_def split_beta moves_adv)

lemma scan_hex_esc_moves: "lx_moves l (snd (scan_hex_esc l v))"
proof (induction l v rule: scan_hex_esc.induct)
  case (1 l v)
  then show ?case using lx_moves_trans [OF adv_moves]
    by (simp add: scan_hex_esc.simps [of l v])
qed

lemma scan_oct_esc_moves: "lx_moves l (snd (scan_oct_esc n l v))"
  by (induction n l v rule: scan_oct_esc.induct) (auto intro: lx_moves_trans [OF adv_moves])

lemma scan_esc_moves: "lx_moves l (snd (scan_esc l))"
  using lx_moves_trans [OF adv_moves scan_hex_esc_moves, of l 0]
    lx_moves_trans [OF adv_moves scan_oct_esc_moves, of l 2 "ccode (peekc l) - 48"]
  by (auto simp: scan_esc_def Let_def simp del: scan_oct_esc.simps split: option.splits)

lemma scan_str_loop_moves: "lx_moves l (fst (scan_str_loop l buf))"
proof (induction l buf rule: scan_str_loop.induct)
  case (1 l buf)
  note ih = "1.IH" (1) [OF _ _ _ refl _ refl, THEN lx_moves_trans [OF lx_moves_trans [OF adv_moves scan_esc_moves]]]
    "1.IH" (2) [OF _ _ _ refl, THEN lx_moves_trans [OF adv_moves]]
    "1.IH" (3) [THEN lx_moves_trans [OF adv_moves]]
  show ?case
    by (subst scan_str_loop.simps) (use ih in \<open>simp add: Let_def\<close>)
qed

lemma lx_intern_moves: "lx_moves l (snd (lx_intern l s))"
  by (auto simp: lx_intern_def lx_moves_def lexer_ok_def intern_spec_def split: option.splits if_splits)

lemma errtok_moves: "lx_moves l l' \<Longrightarrow> lx_moves l (snd (errtok l' s ln co m))"
  by (auto simp: errtok_def)

lemma scan_str_moves: "lx_moves l (snd (scan_str l s ln co w))"
proof -
  obtain l1 buf bad where e: "scan_str_loop (adv l) [] = (l1, buf, bad)" by (metis prod_cases3)
  have "lx_moves l l1" using lx_moves_trans [OF adv_moves scan_str_loop_moves [of "adv l" "[]"]] e by simp
  then show ?thesis
    using lx_moves_trans [OF moves_adv lx_intern_moves, of l l1 buf]
    by (simp add: scan_str_def e Let_def errtok_moves split_beta)
qed

lemma scan_chr_moves: "lx_moves l (snd (scan_chr l s ln co w))"
proof -
  have "lx_moves l (snd (scan_esc (adv (adv l))))"
    by (rule lx_moves_trans [OF _ scan_esc_moves]) auto
  then show ?thesis by (auto simp: scan_chr_def Let_def split: prod.splits intro!: errtok_moves)
qed

text \<open>A fact about the state of every branch of scan_punct.\<close>

definition punct_all :: "(TokenKind \<Rightarrow> lexer \<Rightarrow> bool) \<Rightarrow> (TokenKind \<times> lexer) option \<Rightarrow> bool" where
  "punct_all P r \<longleftrightarrow> (case r of None \<Rightarrow> True | Some (k, l) \<Rightarrow> P k l)"

lemma punct_all_if: "punct_all P a \<Longrightarrow> punct_all P b \<Longrightarrow> punct_all P (if c then a else b)"
  by simp

lemma punct_all_None: "punct_all P None"
  by (simp add: punct_all_def)

lemma punct_all_Some: "P k l \<Longrightarrow> punct_all P (Some (k, l))"
  by (simp add: punct_all_def)

lemma scan_punct_moves: "punct_all (\<lambda>k l'. lx_moves l l' \<and> k \<noteq> TOK_EOF) (scan_punct l c)"
  unfolding scan_punct_def Let_def
  by (intro punct_all_if punct_all_None punct_all_Some conjI moves_adv lx_moves_refl notI; simp)

subsection \<open>Tokens cover the source in order\<close>

text \<open>What scan_token returns after the white space: a token that starts there, ends where
  the scan stopped, and is empty only at the end of the input.\<close>

definition token_at :: "lexer \<Rightarrow> token \<times> lexer \<Rightarrow> bool" where
  "token_at l r \<longleftrightarrow> lx_moves l (snd r) \<and> tk_start (fst r) = lx_cur l
     \<and> tk_start (fst r) + tk_len (fst r) = lx_cur (snd r)
     \<and> tk_line (fst r) = lx_line l \<and> tk_col (fst r) = lx_col l
     \<and> tk_kind (fst r) \<noteq> TOK_EOF \<and> lx_cur l < lx_cur (snd r)"

lemma mktok_sel [simp]:
  "tk_kind (mktok l k s ln co) = k" "tk_start (mktok l k s ln co) = s"
  "tk_len (mktok l k s ln co) = lx_cur l - s" "tk_line (mktok l k s ln co) = ln"
  "tk_col (mktok l k s ln co) = co"
  by (simp_all add: mktok_def)

lemma token_at_mktok:
  assumes "lx_moves l l'" "lx_cur l < lx_cur l'" "k \<noteq> TOK_EOF" "tk_kind t = k" "tk_start t = lx_cur l"
    "tk_len t = lx_cur l' - lx_cur l" "tk_line t = lx_line l" "tk_col t = lx_col l"
  shows "token_at l (t, l')"
  using assms by (simp add: token_at_def)

lemma adv_less: "\<not> at_end l \<Longrightarrow> lx_moves (adv l) l' \<Longrightarrow> lx_cur l < lx_cur l'"
  using lx_moves_cur [of "adv l" l'] by (simp add: adv_cur)

lemma errtok_at:
  assumes "\<not> at_end l" "lx_moves (adv l) l'"
  shows "token_at l (errtok l' (lx_cur l) (lx_line l) (lx_col l) m)"
  unfolding errtok_def
  using adv_less [OF assms] lx_moves_trans [OF adv_moves assms(2)]
  by (intro token_at_mktok [where k = TOK_ERROR]) (auto simp: lx_emit_def [symmetric] moves_emit)

lemma lx_intern_cur [simp]: "lx_cur (snd (lx_intern l s)) = lx_cur l"
  by (auto simp: lx_intern_def split: option.splits)

lemma scan_str_at:
  assumes "\<not> at_end l" "l1 = l \<or> l1 = adv l"
  shows "token_at l (scan_str l1 (lx_cur l) (lx_line l) (lx_col l) w)"
proof -
  obtain l2 buf bad where e: "scan_str_loop (adv l1) [] = (l2, buf, bad)" by (metis prod_cases3)
  have 1: "lx_moves (adv l) (adv l1)" using assms(2) by auto
  have 2: "lx_moves (adv l) l2"
    using lx_moves_trans [OF 1 scan_str_loop_moves [of "adv l1" "[]"]] e by simp
  have 3: "lx_moves (adv l) (snd (lx_intern (adv l2) buf))"
    by (rule lx_moves_trans [OF moves_adv [OF 2] lx_intern_moves])
  have "token_at l (t, snd (lx_intern (adv l2) buf))"
    if "tk_kind t = TOK_STR_LIT" "tk_start t = lx_cur l" "tk_len t = lx_cur (adv l2) - lx_cur l"
      "tk_line t = lx_line l" "tk_col t = lx_col l" for t
    using that lx_moves_trans [OF adv_moves 3] adv_less [OF assms(1) 3]
    by (intro token_at_mktok [where k = TOK_STR_LIT]) auto
  then show ?thesis
    using errtok_at [OF assms(1) 2] by (simp add: scan_str_def e Let_def split_beta)
qed

lemma scan_chr_at:
  assumes "\<not> at_end l" "l1 = l \<or> l1 = adv l"
  shows "token_at l (scan_chr l1 (lx_cur l) (lx_line l) (lx_col l) w)"
proof -
  have 1: "lx_moves (adv l) (adv l1)" using assms(2) by auto
  define r where "r = (if peekc (adv l1) = CHR 0x5C then scan_esc (adv (adv l1))
    else (ccode (peekc (adv l1)), adv (adv l1)))"
  have 2: "lx_moves (adv l) (snd r)"
    using lx_moves_trans [OF moves_adv [OF 1] scan_esc_moves] moves_adv [OF 1] by (simp add: r_def)
  have 3: "lx_moves (adv l) (adv (snd r))" using 2 by blast
  have "token_at l (t, adv (snd r))"
    if "tk_kind t = TOK_CHAR_LIT" "tk_start t = lx_cur l" "tk_len t = lx_cur (adv (snd r)) - lx_cur l"
      "tk_line t = lx_line l" "tk_col t = lx_col l" for t
    using that lx_moves_trans [OF adv_moves 3] adv_less [OF assms(1) 3]
    by (intro token_at_mktok [where k = TOK_CHAR_LIT]) auto
  then show ?thesis
    using errtok_at [OF assms(1) 1] errtok_at [OF assms(1) 2]
    by (simp add: scan_chr_def Let_def r_def [symmetric] split_beta)
qed


lemma moves_if_cond: "(P \<Longrightarrow> lx_moves l a) \<Longrightarrow> (\<not> P \<Longrightarrow> lx_moves l b) \<Longrightarrow> lx_moves l (if P then a else b)"
  by simp

lemma is_digit_dot [simp]: "\<not> is_digit CHR ''.''"
  by code_simp

lemma scan_num_body_at:
  assumes "\<not> at_end l" "is_digit (peekc l) \<or> peekc l = CHR ''.''"
  shows "lx_moves (adv l) (fst (scan_num_body l))"
proof -
  have d: "lx_moves (adv l) (adv_while is_digit l)" if "peekc l \<noteq> CHR ''.''"
    using assms that by (simp add: adv_while.simps [of is_digit l])
  have dot: "lx_moves (adv l) (let m = adv_while is_digit l
      in if peekc m = CHR ''.'' then adv_while is_digit (adv m) else m)"
    using d assms by (cases "peekc l = CHR ''.''")
      (auto simp: Let_def adv_while.simps [of is_digit l] intro!: moves_adv_while)
  have oct: "lx_moves (adv l) (adv_while is_octal l)" if "peekc l = CHR ''0''"
    using assms(1) that by (simp add: adv_while.simps [of is_octal l] is_octal_def ccode_def)
  have hex: "lx_moves (adv l) (let m = adv_while ishex (adv (adv l));
      m = (if peekc m = CHR ''.'' then adv_while ishex (adv m) else m)
      in if peekc m = CHR ''p'' \<or> peekc m = CHR ''P'' then scan_exponent m else m)"
    unfolding Let_def by (intro moves_if moves_scan_exponent moves_adv_while moves_adv [OF adv_moves] moves_adv [OF moves_adv_while] adv_moves)
  have dec: "lx_moves (adv l) (if peekc m = CHR ''e'' \<or> peekc m = CHR ''E'' then scan_exponent m else m)"
    if "lx_moves (adv l) m" for m
    using that by (intro moves_if moves_scan_exponent)
  show ?thesis
    unfolding scan_num_body_def Let_def if_distrib [of fst] fst_conv
    by (rule moves_if, rule hex [unfolded Let_def], rule moves_if_cond, simp add: oct, rule dec,
        rule dot [unfolded Let_def])
qed

lemma scan_num_at:
  assumes "\<not> at_end l" "is_digit (peekc l) \<or> peekc l = CHR ''.''"
  shows "token_at l (scan_num l (lx_cur l) (lx_line l) (lx_col l))"
proof -
  obtain l1 f b where e: "scan_num_body l = (l1, f, b)" by (metis prod_cases3)
  have 1: "lx_moves (adv l) l1" using scan_num_body_at [OF assms] e by simp
  have 2: "lx_moves (adv l) (fst (scan_suffix l1 INT_SUFFIX_NONE))"
    by (rule lx_moves_trans [OF 1 scan_suffix_moves])
  have at: "token_at l (t, l')"
    if "lx_moves (adv l) l'" "tk_kind t = TOK_INT_LIT \<or> tk_kind t = TOK_FLOAT_LIT" "tk_start t = lx_cur l"
      "tk_len t = lx_cur l' - lx_cur l" "tk_line t = lx_line l" "tk_col t = lx_col l" for t l'
    using that lx_moves_trans [OF adv_moves that(1)] adv_less [OF assms(1) that(1)]
    by (intro token_at_mktok [where k = "tk_kind t"]) auto
  show ?thesis
    using 1 2 moves_adv [OF 1]
    by (simp add: scan_num_def e Let_def split_beta) (intro impI conjI; intro at; simp)
qed

lemma lookup_keyword_not_eof: "lookup_keyword s \<noteq> TOK_EOF"
proof -
  have "list_all (\<lambda>e. snd e \<noteq> TOK_EOF) kw_table" by code_simp
  then have "kw_search s lo hi \<noteq> TOK_EOF" if "0 \<le> lo" "hi < int (length kw_table)" for lo hi
    using that
  proof (induction s lo hi rule: kw_search.induct)
    case (1 s lo hi)
    then show ?case
      by (subst kw_search.simps) (auto simp: Let_def list_all_length)
  qed
  then show ?thesis by (simp add: lookup_keyword_def kw_table_length NUM_KW_def)
qed

lemma is_alpha_not_nl: "is_alpha c \<or> c = CHR ''_'' \<Longrightarrow> c \<noteq> NL"
  by (auto simp: is_alpha_def ccode_def NL_def)

lemma is_digit_not_nl: "is_digit c \<Longrightarrow> c \<noteq> NL"
  by (auto simp: is_digit_def ccode_def NL_def)

lemma tok_if: "(P \<Longrightarrow> token_at m a) \<Longrightarrow> (\<not> P \<Longrightarrow> token_at m b) \<Longrightarrow> token_at m (if P then a else b)"
  by simp

lemma scan_token_at:
  assumes "\<not> at_end (skip_ws l)"
  shows "token_at (skip_ws l) (scan_token l)"
proof -
  define m where "m = skip_ws l"
  define c where "c = peekc m"
  define m2 where "m2 = adv_while (\<lambda>c. is_alnum c \<or> c = CHR ''_'') (adv m)"
  note ne = assms [folded m_def]
  have undo: "(adv m)\<lparr>lx_cur := lx_cur m, lx_col := lx_col m\<rparr> = m" if "c \<noteq> NL"
    using adv_undo [OF ne] that by (simp add: c_def)
  have m2: "lx_moves (adv m) m2" by (simp add: m2_def)
  have m3: "lx_moves (adv m) (snd (lx_intern m2 s))" for s
    by (rule lx_moves_trans [OF m2 lx_intern_moves])
  have at: "token_at m (t, l')"
    if "lx_moves (adv m) l'" "tk_kind t \<noteq> TOK_EOF" "tk_start t = lx_cur m"
      "tk_len t = lx_cur l' - lx_cur m" "tk_line t = lx_line m" "tk_col t = lx_col m" for t l'
    using that lx_moves_trans [OF adv_moves that(1)] adv_less [OF ne that(1)]
    by (intro token_at_mktok [where k = "tk_kind t"]) auto
  have p: "token_at m (mktok l2 k (lx_cur m) (lx_line m) (lx_col m), l2)"
    if "scan_punct (adv m) c = Some (k, l2)" for k l2
    using scan_punct_moves [of "adv m" c] that by (intro at) (auto simp: punct_all_def)
  have id: "token_at m (let name = text_between m2 (lx_cur m) (lx_cur m2); k = lookup_keyword name;
                        t = mktok m2 k (lx_cur m) (lx_line m) (lx_col m)
                    in if k = TOK_IDENT
                       then let (i, l3) = lx_intern m2 name
                            in (t\<lparr>tk_str_idx := int i, tk_is_wide := False\<rparr>, l3)
                       else (t, m2))"
    using m2 m3 lookup_keyword_not_eof by (auto simp: Let_def split_beta intro!: at)
  have eq: "scan_token l =
     (if is_alpha c \<or> c = CHR ''_'' then
        (if c = CHR ''L'' \<and> \<not> at_end (adv m) \<and> peekc (adv m) = CHR 0x22
           then scan_str (adv m) (lx_cur m) (lx_line m) (lx_col m) True
         else if c = CHR ''L'' \<and> \<not> at_end (adv m) \<and> peekc (adv m) = CHR 0x27
           then scan_chr (adv m) (lx_cur m) (lx_line m) (lx_col m) True
         else (let name = text_between m2 (lx_cur m) (lx_cur m2); k = lookup_keyword name;
                   t = mktok m2 k (lx_cur m) (lx_line m) (lx_col m)
               in if k = TOK_IDENT
                  then let (i, l3) = lx_intern m2 name
                       in (t\<lparr>tk_str_idx := int i, tk_is_wide := False\<rparr>, l3)
                  else (t, m2)))
      else if is_digit c then scan_num m (lx_cur m) (lx_line m) (lx_col m)
      else if c = CHR 0x22 then scan_str m (lx_cur m) (lx_line m) (lx_col m) False
      else if c = CHR 0x27 then scan_chr m (lx_cur m) (lx_line m) (lx_col m) False
      else case scan_punct (adv m) c of
             Some (k, l2) \<Rightarrow> (mktok l2 k (lx_cur m) (lx_line m) (lx_col m), l2)
           | None \<Rightarrow>
               if c = CHR ''.'' then scan_num m (lx_cur m) (lx_line m) (lx_col m)
               else errtok (adv m) (lx_cur m) (lx_line m) (lx_col m) ''unexpected character'')"
    using ne undo is_digit_not_nl [of c]
    by (simp add: scan_token_def m_def [symmetric] c_def [symmetric] Let_def m2_def NL_def
        cong: if_cong option.case_cong)
  show ?thesis
    unfolding m_def [symmetric] eq
    using p scan_num_at [OF ne] c_def
    by (intro tok_if id scan_str_at [OF ne] scan_chr_at [OF ne]) (auto intro!: errtok_at [OF ne] split: option.split)
qed

lemma scan_token_eof:
  assumes "at_end (skip_ws l)"
  shows "snd (scan_token l) = skip_ws l" "tk_kind (fst (scan_token l)) = TOK_EOF"
    "tk_start (fst (scan_token l)) = lx_cur (skip_ws l)" "tk_len (fst (scan_token l)) = 0"
    "tk_line (fst (scan_token l)) = lx_line (skip_ws l)" "tk_col (fst (scan_token l)) = lx_col (skip_ws l)"
  using assms by (simp_all add: scan_token_def Let_def)

end

