(* ===== verification/LexerRun.thy ===== *)
theory LexerRun
  imports LexerPos
begin

section \<open>Runs of the lexer\<close>

text \<open>
  The token loop of dump_tokens in main.c and the theorem that its tokens cover the source
  in order; the one-token lookahead of lexer_peek as an interface (locale \<open>lookahead\<close>)
  whose clients may ignore it; operators are the longest match; decimal literals and
  identifiers are read back as written. Two literals that C reads differently close the
  theory.
\<close>

subsection \<open>One step\<close>

lemma scan_token_moves: "lx_moves l (snd (scan_token l))"
proof (cases "at_end (skip_ws l)")
  case True
  then show ?thesis by (simp add: scan_token_eof)
next
  case False
  then show ?thesis
    using scan_token_at [OF False] lx_moves_trans [OF skip_ws_moves] by (simp add: token_at_def)
qed



subsection \<open>The token loop\<close>

lemma scan_token_progress:
  assumes "tk_kind (fst (scan_token l)) \<noteq> TOK_EOF"
  shows "lx_end (snd (scan_token l)) - lx_cur (snd (scan_token l)) < lx_end l - lx_cur l"
    "lx_has_peek (snd (scan_token l)) = lx_has_peek l"
proof -
  have ne: "\<not> at_end (skip_ws l)" using assms scan_token_eof(2) by blast
  have "lx_cur l < lx_cur (snd (scan_token l))" "lx_cur l < lx_end l" "lx_end (snd (scan_token l)) = lx_end l"
    using ne scan_token_at [OF ne] skip_ws_moves [of l]
    by (auto simp: token_at_def lx_moves_def at_end_def)
  then show "lx_end (snd (scan_token l)) - lx_cur (snd (scan_token l)) < lx_end l - lx_cur l"
    by (simp add: diff_less_mono2)
  show "lx_has_peek (snd (scan_token l)) = lx_has_peek l"
    using scan_token_moves [of l] by (simp add: lx_moves_def)
qed

text \<open>\<open>for (;;) { Token t = lexer_next(&lex); ... if (t.kind == TOK_EOF) break; }\<close>\<close>

function lex_all :: "lexer \<Rightarrow> token list \<times> lexer" where
  "lex_all l =
     (let r = lexer_next l
      in if tk_kind (fst r) = TOK_EOF then ([fst r], snd r)
         else let rest = lex_all (snd r) in (fst r # fst rest, snd rest))"
  by pat_completeness auto
termination
proof (relation "measure (\<lambda>l. 2 * (lx_end l - lx_cur l) + (if lx_has_peek l then 1 else 0))", goal_cases)
  case (2 l r)
  then show ?case
    using scan_token_progress [of l] by (auto simp: lexer_next_def split: if_splits)
qed simp

declare lex_all.simps [simp del]

text \<open>Tokens of a run: in order, inside the source, at their positions, closed by TOK_EOF.\<close>

definition well_lexed :: "lexer \<Rightarrow> token list \<Rightarrow> bool" where
  "well_lexed l ts \<longleftrightarrow>
     sorted_wrt (\<lambda>a b. tk_start a + tk_len a \<le> tk_start b) ts
     \<and> list_all (\<lambda>t. lx_cur l \<le> tk_start t \<and> tk_start t + tk_len t \<le> lx_end l
          \<and> (tk_line t, tk_col t) = pos_of (lx_src l) (tk_start t)) ts
     \<and> list_all (\<lambda>t. tk_kind t \<noteq> TOK_EOF \<and> 0 < tk_len t) (butlast ts)
     \<and> ts \<noteq> [] \<and> tk_kind (last ts) = TOK_EOF \<and> tk_start (last ts) = lx_end l"

lemma lex_all_well_lexed:
  assumes "lexer_ok l" "\<not> lx_has_peek l"
  shows "well_lexed l (fst (lex_all l))"
  using assms
proof (induction l rule: lex_all.induct)
  case (1 l)
  obtain t l' where e: "scan_token l = (t, l')" by fastforce
  have n: "lexer_next l = (t, l')" using "1.prems"(2) e by (simp add: lexer_next_def)
  have m: "lx_moves l l'" using scan_token_moves [of l] e by simp
  have w: "lexer_ok (skip_ws l)" "lx_cur l \<le> lx_cur (skip_ws l)" "lx_src (skip_ws l) = lx_src l"
    "lx_end (skip_ws l) = lx_end l"
    using skip_ws_moves [of l] "1.prems" by (simp_all add: lx_moves_def)
  show ?case
  proof (cases "at_end (skip_ws l)")
    case True
    note eof = scan_token_eof [OF True, unfolded e fst_conv snd_conv]
    have "lx_cur (skip_ws l) = lx_end l" using True w by (auto simp: at_end_def lexer_ok_def)
    then show ?thesis
      using eof w by (subst lex_all.simps) (simp add: n Let_def well_lexed_def lexer_ok_def)
  next
    case False
    note t = scan_token_at [OF False, unfolded e token_at_def fst_conv snd_conv]
    let ?ts = "fst (lex_all l')"
    have ok: "lexer_ok l'" using m "1.prems" by (simp add: lx_moves_def)
    have rest: "well_lexed l' ?ts"
      using "1.IH" [OF refl] t "1.prems" m ok by (simp add: n lx_moves_def)
    have mem: "lx_cur l' \<le> tk_start u" if "u \<in> set ?ts" for u
      using rest that by (simp add: well_lexed_def list_all_iff)
    have "fst (lex_all l) = t # ?ts"
      using t by (subst lex_all.simps) (simp add: n Let_def)
    moreover have "lx_cur l' \<le> lx_end l" "lx_end l' = lx_end l" "lx_src l' = lx_src l" "lx_cur l \<le> lx_cur l'"
      using ok m by (simp_all add: lexer_ok_def lx_moves_def)
    moreover have "(tk_line t, tk_col t) = pos_of (lx_src l) (tk_start t)" "lx_cur l \<le> tk_start t"
      using t w by (simp_all add: lexer_ok_def)
    moreover have "0 < tk_len t" "tk_kind t \<noteq> TOK_EOF" "tk_start t + tk_len t = lx_cur l'"
      using t by auto
    ultimately show ?thesis
      using rest mem unfolding well_lexed_def
      by (simp add: list_all_iff) (fastforce dest: in_set_butlastD intro: order_trans)
  qed
qed

text \<open>C16: the token loop of dump_tokens ends, and the tokens it prints for a source of the
  given length are in order without overlap, each at the line and column it carries; the
  last and only the last is TOK_EOF, at the end of the source, and no other is empty.\<close>

theorem dump_tokens_ordered:
  assumes "len \<le> length src"
  shows "well_lexed (lexer_init src len strings d) (fst (lex_all (lexer_init src len strings d)))"
  by (rule lex_all_well_lexed) (simp_all add: lexer_init_ok assms, simp add: lexer_init_def)

lemma dump_tokens_ordered_witness:
  "well_lexed (lexer_init ''a;'' 2 [] diag_static) (fst (lex_all (lexer_init ''a;'' 2 [] diag_static)))"
  by (rule dump_tokens_ordered) simp

subsection \<open>The lookahead slot\<close>

text \<open>The scanning functions neither read nor write the lookahead slot: they commute with
  an update of it.\<close>

definition slot :: "bool \<Rightarrow> token \<Rightarrow> lexer \<Rightarrow> lexer" where
  "slot b t l = l\<lparr>lx_has_peek := b, lx_peeked := t\<rparr>"

lemma slot_sel [simp]:
  "lx_src (slot b t l) = lx_src l" "lx_cur (slot b t l) = lx_cur l" "lx_end (slot b t l) = lx_end l"
  "lx_line (slot b t l) = lx_line l" "lx_col (slot b t l) = lx_col l"
  "lx_strings (slot b t l) = lx_strings l" "lx_diag (slot b t l) = lx_diag l"
  "lx_has_peek (slot b t l) = b" "lx_peeked (slot b t l) = t"
  by (simp_all add: slot_def)

lemma slot_basic [simp]:
  "at_end (slot b t l) = at_end l" "peekc (slot b t l) = peekc l" "peekc2 (slot b t l) = peekc2 l"
  "adv (slot b t l) = slot b t (adv l)" "lx_emit lv ln co m (slot b t l) = slot b t (lx_emit lv ln co m l)"
  "mktok (slot b t l) k s ln co = mktok l k s ln co"
  "text_between (slot b t l) s e = text_between l s e"
  "slot b t (slot b' t' l) = slot b t l"
  by (simp_all add: at_end_def peekc_def peekc2_def adv_def slot_def lx_emit_def mktok_def text_between_def)

lemma slot_update: "(slot b t l)\<lparr>lx_cur := c, lx_col := d\<rparr> = slot b t (l\<lparr>lx_cur := c, lx_col := d\<rparr>)"
  by (simp add: slot_def)

lemma slot_adv_while [simp]: "adv_while P (slot b t l) = slot b t (adv_while P l)"
proof (induction P l rule: adv_while.induct)
  case (1 P l)
  then show ?case by (simp add: adv_while.simps [of P l] adv_while.simps [of P "slot b t l"])
qed

lemma slot_skip_block [simp]:
  "skip_block (slot b t l) = (slot b t (fst (skip_block l)), snd (skip_block l))"
proof (induction l rule: skip_block.induct)
  case (1 l)
  then show ?case by (simp add: skip_block.simps [of l] skip_block.simps [of "slot b t l"])
qed

lemma slot_skip_ws [simp]: "skip_ws (slot b t l) = slot b t (skip_ws l)"
proof (induction l rule: skip_ws.induct)
  case (1 l)
  note ih = "1.IH" (1) [OF _ refl] "1.IH" (2) [OF _ refl] "1.IH" (3) [OF _ refl _ _ _ refl] "1.IH" (4) [OF _ refl]
  show ?case
    by (simp add: skip_ws.simps [of l] skip_ws.simps [of "slot b t l"] Let_def ih)
qed

lemma slot_if: "(if P then slot b t l else slot b t l') = slot b t (if P then l else l')"
  by simp

lemma slot_pair_if:
  "(slot b t (fst (if P then x else y)), snd (if P then x else y))
   = (if P then (slot b t (fst x), snd x) else (slot b t (fst y), snd y))"
  by simp

lemma slot_scan_exponent [simp]: "scan_exponent (slot b t l) = slot b t (scan_exponent l)"
  by (simp add: scan_exponent_def Let_def)

lemma slot_scan_num_body:
  "scan_num_body (slot b t l) = (slot b t (fst (scan_num_body l)), snd (scan_num_body l))"
  by (simp only: scan_num_body_def Let_def slot_basic slot_adv_while slot_scan_exponent slot_if
      slot_pair_if fst_conv snd_conv)

lemma slot_scan_suffix:
  "scan_suffix (slot b t l) suf = (slot b t (fst (scan_suffix l suf)), snd (scan_suffix l suf))"
proof (induction l suf rule: scan_suffix.induct)
  case (1 l suf)
  note ih = "1.IH" [OF refl]
  show ?case
    by (simp add: scan_suffix.simps [of l suf] scan_suffix.simps [of "slot b t l" suf] Let_def ih)
qed

lemma slot_scan_num:
  "scan_num (slot b t l) s ln co = (fst (scan_num l s ln co), slot b t (snd (scan_num l s ln co)))"
  by (simp add: scan_num_def Let_def slot_scan_num_body slot_scan_suffix split_beta)

lemma slot_scan_hex_esc:
  "scan_hex_esc (slot b t l) v = (fst (scan_hex_esc l v), slot b t (snd (scan_hex_esc l v)))"
proof (induction l v rule: scan_hex_esc.induct)
  case (1 l v)
  then show ?case by (simp add: scan_hex_esc.simps [of l v] scan_hex_esc.simps [of "slot b t l" v])
qed

lemma slot_scan_oct_esc:
  "scan_oct_esc n (slot b t l) v = (fst (scan_oct_esc n l v), slot b t (snd (scan_oct_esc n l v)))"
  by (induction n l v rule: scan_oct_esc.induct) auto

lemma slot_scan_esc:
  "scan_esc (slot b t l) = (fst (scan_esc l), slot b t (snd (scan_esc l)))"
  by (simp add: scan_esc_def Let_def slot_scan_hex_esc slot_scan_oct_esc del: scan_oct_esc.simps
      split: option.split)

lemma slot_scan_str_loop:
  "scan_str_loop (slot b t l) buf = (slot b t (fst (scan_str_loop l buf)), snd (scan_str_loop l buf))"
proof (induction l buf rule: scan_str_loop.induct)
  case (1 l buf)
  note ih = "1.IH" (1) [OF _ _ _ refl _ refl] "1.IH" (2) [OF _ _ _ refl] "1.IH" (3)
  show ?case
    by (simp add: scan_str_loop.simps [of l buf] scan_str_loop.simps [of "slot b t l" buf] Let_def
        slot_scan_esc) (use ih in auto)
qed

lemma slot_lx_intern:
  "lx_intern (slot b t l) s = (fst (lx_intern l s), slot b t (snd (lx_intern l s)))"
  by (simp add: lx_intern_def slot_def split: option.split)

lemma slot_errtok:
  "errtok (slot b t l) s ln co m = (fst (errtok l s ln co m), slot b t (snd (errtok l s ln co m)))"
  by (simp add: errtok_def)

lemma slot_scan_str:
  "scan_str (slot b t l) s ln co w = (fst (scan_str l s ln co w), slot b t (snd (scan_str l s ln co w)))"
  by (simp add: scan_str_def Let_def slot_scan_str_loop slot_lx_intern slot_errtok split_beta)

lemma slot_scan_chr:
  "scan_chr (slot b t l) s ln co w = (fst (scan_chr l s ln co w), slot b t (snd (scan_chr l s ln co w)))"
  by (simp add: scan_chr_def Let_def slot_scan_esc slot_errtok split_beta)

lemma slot_scan_punct:
  "scan_punct (slot b t l) c = map_option (\<lambda>(k, l'). (k, slot b t l')) (scan_punct l c)"
  by (simp only: scan_punct_def Let_def slot_basic option.map if_distrib [of "map_option _"] split)

lemma slot_scan_token:
  "scan_token (slot b t l) = (fst (scan_token l), slot b t (snd (scan_token l)))"
proof -
  note s = slot_scan_str slot_scan_chr slot_scan_num slot_errtok slot_lx_intern slot_scan_punct slot_update
  show ?thesis
    unfolding scan_token_def Let_def
    by (simp add: s split_beta split: option.split)
qed

text \<open>A client's calls: True for lexer_next, False for lexer_peek; the tokens they return.\<close>

fun script :: "('s \<Rightarrow> 't \<times> 's) \<Rightarrow> ('s \<Rightarrow> 't \<times> 's) \<Rightarrow> bool list \<Rightarrow> 's \<Rightarrow> 't list \<times> 's" where
  "script nx pk [] s = ([], s)"
| "script nx pk (b # bs) s =
     (let (t, s') = (if b then nx s else pk s); (ts, s'') = script nx pk bs s' in (t # ts, s''))"

text \<open>The tokens the calls should return on a fixed sequence of tokens.\<close>

fun script_on :: "(nat \<Rightarrow> 't) \<Rightarrow> nat \<Rightarrow> bool list \<Rightarrow> 't list" where
  "script_on f k [] = []"
| "script_on f k (b # bs) = f k # script_on f (if b then Suc k else k) bs"

definition nth_tok :: "('s \<Rightarrow> 't \<times> 's) \<Rightarrow> 's \<Rightarrow> nat \<Rightarrow> 't" where
  "nth_tok nx s k = fst (nx (((\<lambda>s. snd (nx s)) ^^ k) s))"

locale lookahead =
  fixes nx pk :: "'s \<Rightarrow> 't \<times> 's"
    and view :: "'s \<Rightarrow> 'v"
  assumes next_view: "view s = view s' \<Longrightarrow> fst (nx s) = fst (nx s') \<and> view (snd (nx s)) = view (snd (nx s'))"
    and peek_token: "fst (pk s) = fst (nx s)"
    and peek_view: "view (snd (pk s)) = view s"
begin

lemma nth_tok_view: "view s = view s' \<Longrightarrow> nth_tok nx s k = nth_tok nx s' k"
proof -
  assume v: "view s = view s'"
  have "view (((\<lambda>s. snd (nx s)) ^^ k) s) = view (((\<lambda>s. snd (nx s)) ^^ k) s')"
  proof (induction k)
    case (Suc k)
    then show ?case using next_view [OF Suc] by simp
  qed (simp add: v)
  from next_view [OF this] show ?thesis by (simp add: nth_tok_def)
qed

lemma nth_tok_Suc: "nth_tok nx s (Suc k) = nth_tok nx (snd (nx s)) k"
  by (simp add: nth_tok_def funpow_Suc_right del: funpow.simps)

lemma script_tokens:
  "fst (script nx pk bs s) = script_on (\<lambda>j. nth_tok nx s (j - k)) k bs"
proof (induction bs arbitrary: s k)
  case (Cons b bs)
  have shift: "script_on f (Suc k) bs = script_on g (Suc k) bs" if "\<And>j. j \<ge> Suc k \<Longrightarrow> f j = g j" for f g :: "nat \<Rightarrow> 't"
    using that by (induction bs arbitrary: k) (auto split: if_splits)
  show ?case
  proof (cases b)
    case True
    have "script_on (\<lambda>j. nth_tok nx (snd (nx s)) (j - Suc k)) (Suc k) bs
        = script_on (\<lambda>j. nth_tok nx s (j - k)) (Suc k) bs"
      by (rule shift) (simp add: nth_tok_Suc [symmetric] Suc_diff_Suc)
    then show ?thesis
      using True Cons [of "snd (nx s)" "Suc k"] by (simp add: split_beta nth_tok_def)
  next
    case False
    then show ?thesis
      using Cons [of "snd (pk s)" k] peek_token nth_tok_view [OF peek_view, of s]
      by (simp add: split_beta) (simp add: nth_tok_def)
  qed
qed simp

end

text \<open>What later calls can see of a lexer: the next token and the state after it, up to the
  contents of an empty slot.\<close>

definition lexer_view :: "lexer \<Rightarrow> token \<times> lexer" where
  "lexer_view l = (fst (lexer_next l), slot False null_token (snd (lexer_next l)))"

lemma lexer_next_slot: "lexer_next (slot False t l) = (fst (scan_token l), slot False t (snd (scan_token l)))"
  by (simp add: lexer_next_def slot_scan_token)

lemma lexer_next_no_peek: "\<not> lx_has_peek (snd (lexer_next l))"
  using scan_token_moves [of l] by (simp add: lexer_next_def lx_moves_def)

lemma slot_same: "\<not> lx_has_peek l \<Longrightarrow> slot False (lx_peeked l) l = l"
  by (simp add: slot_def)

lemma lexer_next_of_view:
  "lexer_next (snd (lexer_next l))
   = (fst (scan_token (slot False null_token (snd (lexer_next l)))),
      slot False (lx_peeked (snd (lexer_next l))) (snd (scan_token (slot False null_token (snd (lexer_next l))))))"
  using lexer_next_slot [of "lx_peeked (snd (lexer_next l))" "snd (lexer_next l)"]
  by (simp add: slot_same [OF lexer_next_no_peek] slot_scan_token)

interpretation lexer_look: lookahead lexer_next lexer_peek lexer_view
proof
  fix l l' :: lexer
  assume v: "lexer_view l = lexer_view l'"
  then have "slot False null_token (snd (lexer_next l)) = slot False null_token (snd (lexer_next l'))"
    by (simp add: lexer_view_def)
  then show "fst (lexer_next l) = fst (lexer_next l')
      \<and> lexer_view (snd (lexer_next l)) = lexer_view (snd (lexer_next l'))"
    using v by (simp add: lexer_view_def lexer_next_of_view [of l] lexer_next_of_view [of l'] slot_scan_token)
next
  fix l :: lexer
  show "fst (lexer_peek l) = fst (lexer_next l)"
    by (simp add: lexer_peek_def lexer_next_def split_beta)
  show "lexer_view (snd (lexer_peek l)) = lexer_view l"
    by (auto simp: lexer_view_def lexer_peek_def lexer_next_def split_beta slot_def)
qed

text \<open>C27: whatever the order in which a client calls lexer_peek and lexer_next, every call
  returns the token of the sequence that lexer_next alone would give: a peek the token the
  next call to lexer_next returns.\<close>

theorem lexer_peek_transparent:
  "fst (script lexer_next lexer_peek calls l) = script_on (nth_tok lexer_next l) 0 calls"
  using lexer_look.script_tokens [of calls l 0] by simp

end
