(* ===== verification/LexerText.thy ===== *)
theory LexerText
  imports LexerRun "HOL-Library.Sublist"
begin

section \<open>What the lexer reads\<close>

text \<open>
  The text the lexer still has to read, and what its functions read of it: an operator is
  the longest spelling the text starts with; a decimal literal is read back as its number
  and a word as the keyword or the identifier it spells. Two literals that C reads
  differently close the theory.
\<close>

subsection \<open>The remaining text\<close>

definition rest_of :: "lexer \<Rightarrow> string" where
  "rest_of l = drop (lx_cur l) (take (lx_end l) (lx_src l))"

definition hdc :: "string \<Rightarrow> char" where
  "hdc s = (case s of [] \<Rightarrow> NUL | c # _ \<Rightarrow> c)"

lemma hdc_simps [simp]: "hdc [] = NUL" "hdc (c # s) = c"
  by (simp_all add: hdc_def)

definition in_src :: "lexer \<Rightarrow> bool" where
  "in_src l \<longleftrightarrow> lx_end l \<le> length (lx_src l)"

lemma in_src_adv [simp]: "in_src (adv l) = in_src l"
  by (simp add: in_src_def)

lemma in_src_adv_while [simp]: "in_src (adv_while P l) = in_src l"
  by (simp add: in_src_def)

lemma rest_nonempty: "in_src l \<Longrightarrow> rest_of l \<noteq> [] \<longleftrightarrow> \<not> at_end l"
  by (simp add: rest_of_def at_end_def in_src_def)

lemma rest_cons: "in_src l \<Longrightarrow> \<not> at_end l \<Longrightarrow> rest_of l = lx_src l ! lx_cur l # drop (Suc (lx_cur l)) (take (lx_end l) (lx_src l))"
  by (simp add: rest_of_def at_end_def in_src_def Cons_nth_drop_Suc [symmetric])

lemma peekc_rest: "in_src l \<Longrightarrow> peekc l = hdc (rest_of l)"
  using rest_nonempty [of l] rest_cons [of l] by (cases "at_end l") (auto simp: peekc_def)

lemma rest_adv: "in_src l \<Longrightarrow> rest_of (adv l) = tl (rest_of l)"
  using rest_nonempty [of l] rest_cons [of l]
  by (cases "at_end l") (auto simp: adv_def rest_of_def)

lemma peekc2_adv: "\<not> at_end l \<Longrightarrow> peekc2 l = peekc (adv l)"
  by (simp add: peekc2_def peekc_def [of "adv l"] at_end_def adv_cur)

lemma peekc2_rest: "in_src l \<Longrightarrow> peekc2 l = hdc (tl (rest_of l))"
proof (cases "at_end l")
  case True
  then show "in_src l \<Longrightarrow> ?thesis" using rest_nonempty [of l] by (auto simp: peekc2_def at_end_def)
qed (simp add: peekc2_adv peekc_rest rest_adv)

lemma at_end_rest: "in_src l \<Longrightarrow> at_end l \<longleftrightarrow> rest_of l = []"
  using rest_nonempty by auto

lemmas rest_simps = peekc_rest peekc2_rest rest_adv at_end_rest

lemma rest_adv_while: "in_src l \<Longrightarrow> rest_of (adv_while P l) = dropWhile P (rest_of l)"
proof (induction P l rule: adv_while.induct)
  case (1 P l)
  then show ?case
    by (cases "rest_of l") (auto simp: adv_while.simps [of P l] rest_simps)
qed

lemma adv_while_cur: "in_src l \<Longrightarrow> lx_cur (adv_while P l) = lx_cur l + length (takeWhile P (rest_of l))"
proof (induction P l rule: adv_while.induct)
  case (1 P l)
  then show ?case
    by (cases "rest_of l") (auto simp: adv_while.simps [of P l] rest_simps adv_cur)
qed

lemma text_between_rest:
  assumes "in_src l" "lx_src l' = lx_src l" "e \<le> lx_end l"
  shows "text_between l' (lx_cur l) e = take (e - lx_cur l) (rest_of l)"
  using assms by (simp add: text_between_def rest_of_def in_src_def drop_take min_def)

subsection \<open>Operators\<close>

text \<open>The spellings of the operators and the punctuation, from the table of names.\<close>

fun is_operator :: "TokenKind \<Rightarrow> bool" where
  "is_operator (Operator k) = True"
| "is_operator (Punct k) = True"
| "is_operator _ = False"

definition op_spellings :: "string list" where
  "op_spellings = map snd (filter (\<lambda>e. is_operator (fst e)) tok_names)"

lemma op_spellings_eq:
  "op_spellings = [''+'', ''-'', ''*'', ''/'', ''%'', ''&'', ''|'', ''^'', ''~'', ''!'', ''&&'',
     ''||'', ''<'', ''>'', ''<='', ''>='', ''=='', ''!='', ''<<'', ''>>'', ''='', ''+='', ''-='',
     ''*='', ''/='', ''%='', ''&='', ''|='', ''^='', ''<<='', ''>>='', ''++'', ''--'', ''->'', ''.'',
     ''?'', '':'', ''('', '')'', ''{'', ''}'', ''['', '']'', '';'', '','', ''...'', ''#'']"
  by code_simp

lemma op_names:
  "token_kind_name TOK_PLUS = ''+''" "token_kind_name TOK_MINUS = ''-''" "token_kind_name TOK_STAR = ''*''"
  "token_kind_name TOK_SLASH = ''/''" "token_kind_name TOK_PERCENT = ''%''" "token_kind_name TOK_AMP = ''&''"
  "token_kind_name TOK_PIPE = ''|''" "token_kind_name TOK_CARET = ''^''" "token_kind_name TOK_TILDE = ''~''"
  "token_kind_name TOK_BANG = ''!''" "token_kind_name TOK_AND = ''&&''" "token_kind_name TOK_OR = ''||''"
  "token_kind_name TOK_LT = ''<''" "token_kind_name TOK_GT = ''>''" "token_kind_name TOK_LE = ''<=''"
  "token_kind_name TOK_GE = ''>=''" "token_kind_name TOK_EQ = ''==''" "token_kind_name TOK_NEQ = ''!=''"
  "token_kind_name TOK_LSHIFT = ''<<''" "token_kind_name TOK_RSHIFT = ''>>''" "token_kind_name TOK_ASSIGN = ''=''"
  "token_kind_name TOK_PLUS_ASSIGN = ''+=''" "token_kind_name TOK_MINUS_ASSIGN = ''-=''"
  "token_kind_name TOK_STAR_ASSIGN = ''*=''" "token_kind_name TOK_SLASH_ASSIGN = ''/=''"
  "token_kind_name TOK_PERCENT_ASSIGN = ''%=''" "token_kind_name TOK_AMP_ASSIGN = ''&=''"
  "token_kind_name TOK_PIPE_ASSIGN = ''|=''" "token_kind_name TOK_CARET_ASSIGN = ''^=''"
  "token_kind_name TOK_LSHIFT_ASSIGN = ''<<=''" "token_kind_name TOK_RSHIFT_ASSIGN = ''>>=''"
  "token_kind_name TOK_PLUSPLUS = ''++''" "token_kind_name TOK_MINUSMINUS = ''--''"
  "token_kind_name TOK_ARROW = ''->''" "token_kind_name TOK_DOT = ''.''" "token_kind_name TOK_QUESTION = ''?''"
  "token_kind_name TOK_COLON = '':''" "token_kind_name TOK_LPAREN = ''(''" "token_kind_name TOK_RPAREN = '')''"
  "token_kind_name TOK_LBRACE = ''{''" "token_kind_name TOK_RBRACE = ''}''" "token_kind_name TOK_LBRACKET = ''[''"
  "token_kind_name TOK_RBRACKET = '']''" "token_kind_name TOK_SEMICOLON = '';''" "token_kind_name TOK_COMMA = '',''"
  "token_kind_name TOK_ELLIPSIS = ''...''" "token_kind_name TOK_HASH = ''#''"
  by code_simp+

text \<open>The longest spelling that the text \<open>s\<close> starts with.\<close>

definition longest_op :: "string \<Rightarrow> string \<Rightarrow> bool" where
  "longest_op s n \<longleftrightarrow> n \<in> set op_spellings \<and> prefix n s
     \<and> list_all (\<lambda>m. prefix m s \<longrightarrow> length m \<le> length n) op_spellings"

lemma prefix_hdc: "x \<noteq> NUL \<Longrightarrow> prefix (x # xs) s \<longleftrightarrow> hdc s = x \<and> prefix xs (tl s)"
  by (cases s) auto

lemma punct_all_if_cond:
  "(b \<Longrightarrow> punct_all P r) \<Longrightarrow> (\<not> b \<Longrightarrow> punct_all P r') \<Longrightarrow> punct_all P (if b then r else r')"
  by simp

lemma scan_punct_longest:
  assumes "in_src l" "rest_of l = c # r"
  shows "punct_all (\<lambda>k l'. longest_op (rest_of l) (token_kind_name k)
    \<and> rest_of l' = drop (length (token_kind_name k)) (rest_of l)) (scan_punct (adv l) c)"
  using assms
  unfolding scan_punct_def Let_def
  apply (intro punct_all_if_cond punct_all_None punct_all_Some)
  apply (simp_all add: op_names rest_simps longest_op_def op_spellings_eq prefix_hdc NUL_def drop_Suc)
  done

text \<open>C28: after the white space, an operator or punctuation character is scanned as the
  longest spelling of the table of names that the text starts with, and the scan stops right
  after it. A dot before a digit and a character no spelling starts with are not operators.\<close>

theorem scan_punct_maximal_munch:
  assumes "in_src l" "\<not> at_end l" "scan_punct (adv l) (peekc l) = Some (k, l')"
  shows "longest_op (rest_of l) (token_kind_name k)
    \<and> rest_of l = token_kind_name k @ rest_of l'"
proof -
  obtain c r where "rest_of l = c # r" using assms(1,2) by (metis at_end_rest neq_Nil_conv)
  then show ?thesis
    using scan_punct_longest [OF assms(1), of c r] assms(1,3)
    by (auto simp: punct_all_def peekc_rest longest_op_def prefix_def)
qed

lemma scan_punct_maximal_munch_witness:
  "longest_op ''>>=x'' ''>>=''"
  using scan_punct_maximal_munch
    [of "lexer_init ''>>=x'' 4 [] diag_static" TOK_RSHIFT_ASSIGN
      "(lexer_init ''>>=x'' 4 [] diag_static)\<lparr>lx_cur := 3, lx_col := 4\<rparr>"]
  by (simp add: in_src_def at_end_def peekc_def scan_punct_def adv_def lexer_init_def Let_def NL_def
      rest_of_def op_names)

subsection \<open>Words\<close>

definition word_char :: "char \<Rightarrow> bool" where
  "word_char c \<longleftrightarrow> is_alnum c \<or> c = CHR ''_''"

text \<open>A word of C, followed by text that neither continues it nor makes it the prefix of a
  wide literal.\<close>

definition is_word :: "string \<Rightarrow> bool" where
  "is_word w \<longleftrightarrow> w \<noteq> [] \<and> list_all word_char w \<and> \<not> is_digit (hd w)"

definition ends_word :: "string \<Rightarrow> string \<Rightarrow> bool" where
  "ends_word w s \<longleftrightarrow> \<not> word_char (hdc s) \<and> \<not> (w = ''L'' \<and> hdc s \<in> {CHR 0x22, CHR 0x27})"

lemma word_char_NUL [simp]: "\<not> word_char NUL"
  by code_simp

lemma skip_ws_none:
  assumes "in_src l" "\<not> is_ws (hdc (rest_of l))" "hdc (rest_of l) \<noteq> CHR ''/''" "hdc (rest_of l) \<noteq> CHR ''#''"
  shows "skip_ws l = l"
  using assms by (simp add: skip_ws.simps [of l] rest_simps Let_def)

lemma not_ws: "word_char c \<Longrightarrow> \<not> is_ws c \<and> c \<noteq> CHR ''/'' \<and> c \<noteq> CHR ''#'' \<and> c \<noteq> NUL"
  by (auto simp: word_char_def is_alnum_def is_alpha_def is_digit_def is_ws_def ccode_def NUL_def)

lemma takeWhile_word:
  "list_all P w \<Longrightarrow> s = [] \<or> \<not> P (hdc s) \<Longrightarrow> takeWhile P (w @ s) = w \<and> dropWhile P (w @ s) = s"
  by (cases s) (auto simp: list_all_iff)

lemma lx_intern_content:
  "lx_strings (snd (lx_intern l s)) ! fst (lx_intern l s) = s"
  by (auto simp: lx_intern_def intern_spec_def str_index_in)

lemma lx_intern_rest [simp]: "rest_of (snd (lx_intern l s)) = rest_of l"
  by (auto simp: lx_intern_def rest_of_def split: option.splits)

lemma rest_take: "in_src l \<Longrightarrow> rest_of l = w @ s \<Longrightarrow> text_between l (lx_cur l) (lx_cur l + length w) = w"
proof -
  assume a: "in_src l" "rest_of l = w @ s"
  have "length (w @ s) = lx_end l - lx_cur l"
    unfolding a(2) [symmetric] using a(1) by (simp add: rest_of_def in_src_def)
  then have "lx_cur l + length w \<le> lx_end l \<or> w = []" by (cases w) auto
  then show ?thesis
    using text_between_rest [OF a(1) refl, of "lx_cur l + length w"] a(2)
    by (auto simp: text_between_def)
qed

lemma text_between_src: "lx_src l' = lx_src l \<Longrightarrow> text_between l' s e = text_between l s e"
  by (simp add: text_between_def)

lemma scan_word:
  assumes "in_src l" "rest_of l = w @ s" "is_word w" "ends_word w s"
  defines "l2 \<equiv> adv_while word_char (adv l)"
  shows "scan_token l =
    (let k = lookup_keyword w; t = mktok l2 k (lx_cur l) (lx_line l) (lx_col l)
     in if k = TOK_IDENT
        then (t\<lparr>tk_str_idx := int (fst (lx_intern l2 w)), tk_is_wide := False\<rparr>, snd (lx_intern l2 w))
        else (t, l2))"
    "rest_of l2 = s" "lx_cur l2 = lx_cur l + length w"
proof -
  obtain c w' where w: "w = c # w'" using assms(3) by (cases w) (auto simp: is_word_def)
  then have c: "word_char c" "\<not> is_digit c" and w': "list_all word_char w'"
    using assms(3) by (auto simp: is_word_def)
  have ws: "skip_ws l = l" using not_ws [OF c(1)] assms(1,2) w by (intro skip_ws_none) auto
  have ne: "\<not> at_end l" using assms(1,2) w by (simp add: at_end_rest)
  have al: "is_alpha c \<or> c = CHR ''_''" using c by (auto simp: word_char_def is_alnum_def)
  have r1: "rest_of (adv l) = w' @ s" using assms(1,2) w by (simp add: rest_adv)
  have e: "s = [] \<or> \<not> word_char (hdc s)" using assms(4) by (simp add: ends_word_def)
  show 2: "rest_of l2 = s" and 3: "lx_cur l2 = lx_cur l + length w"
    using takeWhile_word [OF w' e] ne w
    by (simp_all add: l2_def rest_adv_while adv_while_cur assms(1) r1 adv_cur)
  have noL: "\<not> (c = CHR ''L'' \<and> \<not> at_end (adv l) \<and> peekc (adv l) = q)" if "q \<in> {CHR 0x22, CHR 0x27}" for q
  proof
    assume q: "c = CHR ''L'' \<and> \<not> at_end (adv l) \<and> peekc (adv l) = q"
    then have "hdc (w' @ s) = q" using assms(1) r1 by (simp add: peekc_rest)
    moreover have "\<not> word_char q" using that by (auto simp: word_char_def is_alnum_def is_alpha_def is_digit_def ccode_def)
    ultimately have "w' = []" using w' by (cases w') auto
    then show False using \<open>hdc (w' @ s) = q\<close> q that assms(4) w by (auto simp: ends_word_def)
  qed
  have name: "text_between l2 (lx_cur l) (lx_cur l2) = w"
    using rest_take [OF assms(1,2)] 3 text_between_src [of l2 l] by (simp add: l2_def)
  have pk: "peekc l = c" using assms(1,2) w by (simp add: peekc_rest)
  have l2: "adv_while (\<lambda>c. is_alnum c \<or> c = CHR ''_'') (adv l) = l2"
    unfolding l2_def by (rule arg_cong2 [where f = adv_while]) (auto simp: word_char_def)
  show "scan_token l =
    (let k = lookup_keyword w; t = mktok l2 k (lx_cur l) (lx_line l) (lx_col l)
     in if k = TOK_IDENT
        then (t\<lparr>tk_str_idx := int (fst (lx_intern l2 w)), tk_is_wide := False\<rparr>, snd (lx_intern l2 w))
        else (t, l2))"
    unfolding scan_token_def Let_def ws l2 pk
    using ne al noL [of "CHR 0x22"] noL [of "CHR 0x27"] by (auto simp: name split_beta)
qed

lemma word_no_nul: "is_word w \<Longrightarrow> NUL \<notin> set w"
  by (auto simp: is_word_def list_all_iff)

text \<open>C29: a word followed by text that does not continue it is read back: the token spans
  exactly the word and the scan stops after it; it is the keyword of that spelling when
  there is one, and otherwise an identifier whose string index names the word.\<close>

theorem scan_word_roundtrip:
  assumes "in_src l" "rest_of l = w @ s" "is_word w" "ends_word w s"
  shows "tk_kind (fst (scan_token l)) = (case map_of kw_table w of Some k \<Rightarrow> k | None \<Rightarrow> TOK_IDENT)
    \<and> tk_start (fst (scan_token l)) = lx_cur l \<and> tk_len (fst (scan_token l)) = length w
    \<and> rest_of (snd (scan_token l)) = s
    \<and> (tk_kind (fst (scan_token l)) = TOK_IDENT \<longrightarrow>
        lx_strings (snd (scan_token l)) ! nat (tk_str_idx (fst (scan_token l))) = w)"
  using lookup_keyword_map [OF word_no_nul [OF assms(3)]] scan_word [OF assms]
  by (auto simp: Let_def lx_intern_content)

lemma scan_word_roundtrip_witness:
  "tk_kind (fst (scan_token (lexer_init ''while('' 6 [] diag_static))) = TOK_WHILE"
  using scan_word_roundtrip [of "lexer_init ''while('' 6 [] diag_static" "''while''" "''(''"]
  by (simp add: in_src_def lexer_init_def rest_of_def is_word_def ends_word_def word_char_def
      is_alnum_def is_alpha_def is_digit_def ccode_def kw_table_def)

subsection \<open>Decimal numbers\<close>

lemma digit_char: "48 \<le> (of_char c :: nat) \<Longrightarrow> (of_char c :: nat) < 58 \<Longrightarrow>
  is_digit c \<and> ishex c \<and> hex_val c < 10 \<and> hex_val c = int (of_char c) - 48"
proof -
  assume a: "48 \<le> (of_char c :: nat)" "(of_char c :: nat) < 58"
  have "ccode c = int (of_char c)" by (simp add: ccode_def of_nat_of_char)
  then show ?thesis using a by (simp add: is_digit_def ishex_def hex_val_def)
qed

lemma digits_value_stop: "\<not> ishex (hdc s) \<Longrightarrow> digits_value b acc s = acc"
  by (cases s) auto

lemma digits_value_decimal:
  assumes "\<not> ishex (hdc s)" "\<forall>c \<in> set w. 48 \<le> (of_char c :: nat) \<and> (of_char c :: nat) < 58"
  shows "digits_value 10 (int acc) (w @ s) = int (foldl (\<lambda>v c. v * 10 + (of_char c - 48)) acc w)"
  using assms(2)
proof (induction w arbitrary: acc)
  case Nil
  then show ?case using assms(1) by (simp add: digits_value_stop)
next
  case (Cons c w)
  then have c: "48 \<le> (of_char c :: nat)" "(of_char c :: nat) < 58" by auto
  have e: "int acc * 10 + hex_val c = int (acc * 10 + (of_char c - 48))"
    using digit_char [OF c] c by simp
  show ?case
    using Cons.IH [of "acc * 10 + (of_char c - 48)"] Cons.prems digit_char [OF c]
    by (simp only: append_Cons digits_value.simps e foldl_Cons simp_thms if_True) (simp add: add_diff_eq)
qed

lemma show_nat_hd: "0 < n \<Longrightarrow> hd (show_nat n) \<noteq> CHR ''0''"
proof (induction n rule: show_nat.induct)
  case (1 n)
  show ?case
  proof (cases "n < 10")
    case True
    then have "(of_char (char_of (48 + n) :: char) :: nat) \<noteq> 48" using 1(2) of_char_digit [OF True] by simp
    moreover have "(of_char CHR ''0'' :: nat) = 48" by simp
    ultimately have "(char_of (48 + n) :: char) \<noteq> CHR ''0''" by metis
    then show ?thesis using True by (simp add: show_nat.simps [of n])
  next
    case False
    then show ?thesis using 1 by (subst show_nat.simps) simp
  qed
qed

lemma not_word_char: "\<not> word_char c \<Longrightarrow> \<not> ishex c \<and> \<not> is_digit c \<and> \<not> is_octal c
  \<and> c \<notin> {CHR ''x'', CHR ''X'', CHR ''e'', CHR ''E'', CHR ''u'', CHR ''U'', CHR ''l'', CHR ''L''}"
  by (auto simp: word_char_def is_alnum_def is_alpha_def is_digit_def ishex_def is_octal_def ccode_def)

lemma scan_suffix_none:
  assumes "in_src l" "\<not> word_char (hdc (rest_of l))"
  shows "scan_suffix l suf = (l, suf)"
  using not_word_char [OF assms(2)] assms(1)
  by (subst scan_suffix.simps) (simp add: Let_def rest_simps)

lemma show_nat_is_digit: "c \<in> set (show_nat n) \<Longrightarrow> is_digit c"
  using show_nat_digits digit_char by blast

text \<open>C30: a number below 2^64 written in decimal, followed by text that does not continue a
  number, is read as an integer literal without suffix whose value is that number; the
  token spans exactly its digits and the scan stops after them.\<close>

theorem scan_decimal_roundtrip:
  assumes "in_src l" "rest_of l = show_nat n @ s" "n < 2 ^ 64" "\<not> word_char (hdc s)" "hdc s \<noteq> CHR ''.''"
  shows "tk_kind (fst (scan_token l)) = TOK_INT_LIT
    \<and> tk_int_val (fst (scan_token l)) = of_nat n
    \<and> tk_int_suffix (fst (scan_token l)) = INT_SUFFIX_NONE
    \<and> tk_start (fst (scan_token l)) = lx_cur l \<and> tk_len (fst (scan_token l)) = length (show_nat n)
    \<and> rest_of (snd (scan_token l)) = s"
proof -
  define l2 where "l2 = adv_while is_digit l"
  obtain c w where w: "show_nat n = c # w" by (meson neq_Nil_conv show_nat_nonempty)
  have c: "is_digit c" using show_nat_is_digit [of c n] w by simp
  note ns = not_word_char [OF assms(4)]
  have wc: "word_char c" using c by (simp add: word_char_def is_alnum_def)
  have h: "hdc (rest_of l) = c" using assms(2) w by simp
  have ws: "skip_ws l = l" using not_ws [OF wc] h by (intro skip_ws_none assms(1)) auto
  have ne: "\<not> at_end l" using assms(1,2) w by (simp add: at_end_rest)
  have al: "list_all is_digit (show_nat n)" using show_nat_is_digit by (auto simp: list_all_iff)
  have td: "takeWhile is_digit (show_nat n @ s) = show_nat n \<and> dropWhile is_digit (show_nat n @ s) = s"
    using takeWhile_word [OF al] ns by blast
  have r2: "rest_of l2 = s" and c2: "lx_cur l2 = lx_cur l + length (show_nat n)" and i2: "in_src l2"
    using assms(1,2) td by (simp_all add: l2_def rest_adv_while adv_while_cur)
  have p2: "peekc l2 = hdc s" using i2 r2 by (simp add: peekc_rest)
  have hd: "\<not> (c = CHR ''0'' \<and> (peekc2 l = CHR ''x'' \<or> peekc2 l = CHR ''X'' \<or> is_octal (peekc2 l)))"
  proof
    assume a: "c = CHR ''0'' \<and> (peekc2 l = CHR ''x'' \<or> peekc2 l = CHR ''X'' \<or> is_octal (peekc2 l))"
    then have "n = 0" using show_nat_hd [of n] w by (cases n) auto
    then have "w = []" using w by (simp add: show_nat.simps)
    then have "peekc2 l = hdc s" using assms(1,2) w by (simp add: peekc2_rest)
    then show False using a ns by auto
  qed
  have body: "scan_num_body l = (l2, False, 10)"
    using hd h assms(1,5) ns p2
    by (auto simp: scan_num_body_def Let_def l2_def [symmetric] peekc_rest [OF assms(1)])
  have tx: "text_between l2 (lx_cur l) (lx_end l2) = show_nat n @ s"
    unfolding assms(2) [symmetric]
    by (simp add: l2_def rest_of_def text_between_def drop_take)
  have val: "digits_value 10 0 (show_nat n @ s) = int n"
    using digits_value_decimal [of s "show_nat n" 0] ns show_nat_digits read_show_nat [of n]
    by (auto simp: read_nat_def)
  have sv: "strtoull (show_nat n @ s) 10 = of_nat n"
    using assms(3) by (simp add: strtoull_def val Let_def)
  have u: "(adv l)\<lparr>lx_cur := lx_cur l, lx_col := lx_col l\<rparr> = l"
    using adv_undo [OF ne] is_digit_not_nl [OF c] h by (simp add: peekc_rest [OF assms(1)])
  have na: "\<not> is_alpha c \<and> c \<noteq> CHR ''_''" using c by (auto simp: is_digit_def is_alpha_def ccode_def)
  have tok: "scan_token l = scan_num l (lx_cur l) (lx_line l) (lx_col l)"
    unfolding scan_token_def Let_def ws using ne na c u h by (simp add: peekc_rest [OF assms(1)])
  have suf: "scan_suffix l2 INT_SUFFIX_NONE = (l2, INT_SUFFIX_NONE)"
    by (rule scan_suffix_none) (use i2 r2 assms(4) in auto)
  show ?thesis
    unfolding tok by (simp add: scan_num_def body suf Let_def tx sv r2 c2)
qed

lemma scan_decimal_roundtrip_witness:
  "tk_int_val (fst (scan_token (lexer_init ''42;'' 3 [] diag_static))) = 42"
proof -
  have "show_nat 42 = ''42''" by code_simp
  then show ?thesis
    using scan_decimal_roundtrip [of "lexer_init ''42;'' 3 [] diag_static" 42 "'';''"]
    by (simp add: in_src_def lexer_init_def rest_of_def word_char_def is_alnum_def is_alpha_def
        is_digit_def ccode_def)
qed

subsection \<open>Literals read differently from C\<close>

text \<open>The escape \<open>\012\<close>, a newline in C, is not read as an octal escape: the case
  for \<open>0\<close> of scan_esc consumes one digit, and the literal is an error token.\<close>

theorem octal_escape_after_zero_rejected:
  "tk_kind (fst (scan_token (lexer_init [CHR 0x27, CHR 0x5C, CHR ''0'', CHR ''1'', CHR ''2'', CHR 0x27] 6
     [] diag_static))) = TOK_ERROR
   \<and> tk_int_val (fst (scan_token (lexer_init [CHR 0x27, CHR 0x5C, CHR ''1'', CHR ''2'', CHR 0x27] 5
     [] diag_static))) = 10"
  by code_simp

text \<open>C15: \<open>01.5\<close>, one floating constant in C, is read as the integer literal
  \<open>01\<close> followed by the floating literal \<open>.5\<close>.\<close>

theorem leading_zero_float_split:
  "map (\<lambda>t. (tk_kind t, tk_start t, tk_len t)) (fst (lex_all (lexer_init ''01.5'' 4 [] diag_static)))
   = [(TOK_INT_LIT, 0, 2), (TOK_FLOAT_LIT, 2, 2), (TOK_EOF, 4, 0)]"
  by code_simp

text \<open>The keyword \<open>_Alignof\<close> is recognised, but has no name: token_kind_name gives
  "UNKNOWN" and token_keyword_str NULL.\<close>

theorem alignof_has_no_name:
  "lookup_keyword ''_Alignof'' = TOK_ALIGNOF \<and> token_kind_name TOK_ALIGNOF = ''UNKNOWN''
   \<and> token_keyword_str TOK_ALIGNOF = None"
  by code_simp

end
