(* ===== verification/CType.thy ===== *)
theory CType
  imports Strtab
begin

section \<open>Types (type.c, type.h)\<close>

text \<open>
  A \<open>Type *\<close> is the position \<open>tid\<close> of its node in the store, the list of all nodes in
  the order they were allocated; the sixteen scalar singletons come first. Nodes are
  appended and never moved, so pointer equality is equality of positions, as the arena
  guarantees for the addresses (theory Arena); the address of a node, which only ptr_hash
  reads, is the parameter \<open>adr\<close>. A linked list of fields, parameters or constants is a list,
  and the parser sets the fields of an aggregate and seals it in one go, so they stand in
  the node itself. Every type an array, pointer or function is built from exists before it,
  so the recursions over types go to smaller positions; they test this, and
  \<open>nodes_ok\<close> in theory CTypeProps states that the test never fails. Sizes and offsets are
  \<open>int\<close>s; only the conversion \<open>(int)count\<close> wraps.
\<close>

subsection \<open>Data\<close>

type_synonym tid = nat

definition QUAL_NONE :: int where "QUAL_NONE = 0"
definition QUAL_CONST :: int where "QUAL_CONST = 1"
definition QUAL_VOLATILE :: int where "QUAL_VOLATILE = 2"
definition QUAL_RESTRICT :: int where "QUAL_RESTRICT = 4"

datatype (plugins only: code size) scalar_kind =
    TY_VOID | TY_BOOL | TY_CHAR | TY_SCHAR | TY_UCHAR | TY_SHORT | TY_USHORT | TY_INT | TY_UINT
  | TY_LONG | TY_ULONG | TY_LLONG | TY_ULLONG | TY_FLOAT | TY_DOUBLE | TY_LDOUBLE

datatype TypeKind =
    ScalarKind scalar_kind
  | TY_POINTER | TY_ARRAY | TY_ARRAY_UNSIZED | TY_FUNC | TY_STRUCT | TY_UNION | TY_ENUM

record func_param =
  fp_name :: "string option"
  fp_type :: tid

record struct_field =
  sf_name :: "string option"
  sf_type :: tid
  sf_offset :: int
  sf_bit_width :: int
  sf_bit_offset :: int

record enum_const =
  ec_name :: string
  ec_value :: int

record agg_info =
  ag_tag :: "string option"
  ag_fields :: "struct_field list"
  ag_size :: int
  ag_align :: int

record enum_info =
  en_tag :: "string option"
  en_consts :: "enum_const list"
  en_complete :: bool

text \<open>The tag and the union of a \<open>struct Type\<close>.\<close>

datatype type_body =
    Scalar scalar_kind
  | Pointer tid
  | Array tid int
  | ArrayUnsized tid
  | Func tid "func_param list" int int
  | Struct agg_info
  | Union agg_info
  | Enum enum_info

record type_node =
  tn_qual :: int
  tn_body :: type_body

fun kind_of :: "type_body \<Rightarrow> TypeKind" where
  "kind_of (Scalar k) = ScalarKind k"
| "kind_of (Pointer p) = TY_POINTER"
| "kind_of (Array e n) = TY_ARRAY"
| "kind_of (ArrayUnsized e) = TY_ARRAY_UNSIZED"
| "kind_of (Func r ps n v) = TY_FUNC"
| "kind_of (Struct a) = TY_STRUCT"
| "kind_of (Union a) = TY_UNION"
| "kind_of (Enum e) = TY_ENUM"

definition scalar_kinds :: "scalar_kind list" where
  "scalar_kinds = [TY_VOID, TY_BOOL, TY_CHAR, TY_SCHAR, TY_UCHAR, TY_SHORT, TY_USHORT, TY_INT,
     TY_UINT, TY_LONG, TY_ULONG, TY_LLONG, TY_ULLONG, TY_FLOAT, TY_DOUBLE, TY_LDOUBLE]"

definition scalar_nodes :: "type_node list" where
  "scalar_nodes = map (\<lambda>k. \<lparr>tn_qual = QUAL_NONE, tn_body = Scalar k\<rparr>) scalar_kinds"

definition type_void :: tid where "type_void = 0"
definition type_bool :: tid where "type_bool = 1"
definition type_char :: tid where "type_char = 2"
definition type_schar :: tid where "type_schar = 3"
definition type_uchar :: tid where "type_uchar = 4"
definition type_short :: tid where "type_short = 5"
definition type_ushort :: tid where "type_ushort = 6"
definition type_int :: tid where "type_int = 7"
definition type_uint :: tid where "type_uint = 8"
definition type_long :: tid where "type_long = 9"
definition type_ulong :: tid where "type_ulong = 10"
definition type_llong :: tid where "type_llong = 11"
definition type_ullong :: tid where "type_ullong = 12"
definition type_float :: tid where "type_float = 13"
definition type_double :: tid where "type_double = 14"
definition type_ldouble :: tid where "type_ldouble = 15"

text \<open>The intern table with the nodes it and the rest of the program have allocated; a bucket
  lists its chain, the newest node first.\<close>

definition TYPE_TABLE_BUCKETS :: nat where
  "TYPE_TABLE_BUCKETS = 256"

record type_table =
  tt_nodes :: "type_node list"
  tt_buckets :: "tid list list"

definition type_table_init :: type_table where
  "type_table_init = \<lparr>tt_nodes = scalar_nodes, tt_buckets = replicate TYPE_TABLE_BUCKETS []\<rparr>"

abbreviation node :: "type_node list \<Rightarrow> tid \<Rightarrow> type_node" where
  "node ns t \<equiv> ns ! t"

abbreviation body :: "type_node list \<Rightarrow> tid \<Rightarrow> type_body" where
  "body ns t \<equiv> tn_body (ns ! t)"

subsection \<open>Interning of derived types\<close>

definition ptr_hash :: "u64 \<Rightarrow> u64 \<Rightarrow> nat" where
  "ptr_hash a b = unat ((a XOR drop_bit 16 a XOR b XOR drop_bit 8 b) AND 255)"

text \<open>The allocation and the fields every constructor sets, without and with the intern
  chain.\<close>

definition alloc_node :: "type_table \<Rightarrow> type_node \<Rightarrow> type_table \<times> tid" where
  "alloc_node tt n = (tt\<lparr>tt_nodes := tt_nodes tt @ [n]\<rparr>, length (tt_nodes tt))"

definition push_interned :: "type_table \<Rightarrow> nat \<Rightarrow> type_node \<Rightarrow> type_table \<times> tid" where
  "push_interned tt slot n =
     (let (tt, t) = alloc_node tt n
      in (tt\<lparr>tt_buckets := (tt_buckets tt)[slot := t # tt_buckets tt ! slot]\<rparr>, t))"

definition find_interned :: "type_table \<Rightarrow> nat \<Rightarrow> (type_node \<Rightarrow> bool) \<Rightarrow> tid option" where
  "find_interned tt slot P = List.find (\<lambda>t. P (node (tt_nodes tt) t)) (tt_buckets tt ! slot)"

definition type_pointer :: "(tid \<Rightarrow> u64) \<Rightarrow> type_table \<Rightarrow> tid \<Rightarrow> int \<Rightarrow> type_table \<times> tid" where
  "type_pointer adr tt pointee qual =
     (let slot = ptr_hash (adr pointee) (of_int qual)
      in case find_interned tt slot
                (\<lambda>n. (case tn_body n of Pointer p \<Rightarrow> p = pointee | _ \<Rightarrow> False) \<and> tn_qual n = qual) of
           Some t \<Rightarrow> (tt, t)
         | None \<Rightarrow> push_interned tt slot \<lparr>tn_qual = qual, tn_body = Pointer pointee\<rparr>)"

definition type_array :: "(tid \<Rightarrow> u64) \<Rightarrow> type_table \<Rightarrow> tid \<Rightarrow> int \<Rightarrow> type_table \<times> tid" where
  "type_array adr tt elem count =
     (let slot = ptr_hash (adr elem) (of_int count)
      in case find_interned tt slot
                (\<lambda>n. case tn_body n of Array e c \<Rightarrow> e = elem \<and> c = count | _ \<Rightarrow> False) of
           Some t \<Rightarrow> (tt, t)
         | None \<Rightarrow> push_interned tt slot \<lparr>tn_qual = QUAL_NONE, tn_body = Array elem count\<rparr>)"

definition type_array_unsized :: "(tid \<Rightarrow> u64) \<Rightarrow> type_table \<Rightarrow> tid \<Rightarrow> type_table \<times> tid" where
  "type_array_unsized adr tt elem =
     (let slot = ptr_hash (adr elem) 0xFFFF
      in case find_interned tt slot (\<lambda>n. case tn_body n of ArrayUnsized e \<Rightarrow> e = elem | _ \<Rightarrow> False) of
           Some t \<Rightarrow> (tt, t)
         | None \<Rightarrow> push_interned tt slot \<lparr>tn_qual = QUAL_NONE, tn_body = ArrayUnsized elem\<rparr>)"

text \<open>The loop of type_func over two parameter lists; interned names are equal as pointers
  exactly when they are equal as strings.\<close>

fun params_match :: "func_param list \<Rightarrow> func_param list \<Rightarrow> bool" where
  "params_match (p # ps) (q # qs) =
     (if fp_type p \<noteq> fp_type q then False
      else if fp_name p \<noteq> fp_name q then False
      else params_match ps qs)"
| "params_match ps qs = (ps = [] \<and> qs = [])"

definition type_func ::
    "(tid \<Rightarrow> u64) \<Rightarrow> type_table \<Rightarrow> tid \<Rightarrow> func_param list \<Rightarrow> int \<Rightarrow> int \<Rightarrow> type_table \<times> tid" where
  "type_func adr tt ret params n_params variadic =
     (let slot = ptr_hash (adr ret) (of_int ((n_params * 2) OR variadic))
      in case find_interned tt slot
                (\<lambda>n. case tn_body n of
                       Func r ps k v \<Rightarrow> r = ret \<and> k = n_params \<and> v = variadic \<and> params_match ps params
                     | _ \<Rightarrow> False) of
           Some t \<Rightarrow> (tt, t)
         | None \<Rightarrow> push_interned tt slot \<lparr>tn_qual = QUAL_NONE, tn_body = Func ret params n_params variadic\<rparr>)"

subsection \<open>Aggregates, enums and qualifiers\<close>

definition incomplete_agg :: "string option \<Rightarrow> agg_info" where
  "incomplete_agg tag = \<lparr>ag_tag = tag, ag_fields = [], ag_size = - 1, ag_align = 1\<rparr>"

definition type_struct :: "type_table \<Rightarrow> string option \<Rightarrow> type_table \<times> tid" where
  "type_struct tt tag = alloc_node tt \<lparr>tn_qual = QUAL_NONE, tn_body = Struct (incomplete_agg tag)\<rparr>"

definition type_union :: "type_table \<Rightarrow> string option \<Rightarrow> type_table \<times> tid" where
  "type_union tt tag = alloc_node tt \<lparr>tn_qual = QUAL_NONE, tn_body = Union (incomplete_agg tag)\<rparr>"

definition type_enum :: "type_table \<Rightarrow> string option \<Rightarrow> type_table \<times> tid" where
  "type_enum tt tag =
     alloc_node tt \<lparr>tn_qual = QUAL_NONE,
       tn_body = Enum \<lparr>en_tag = tag, en_consts = [], en_complete = False\<rparr>\<rparr>"

definition type_qualify :: "type_table \<Rightarrow> tid \<Rightarrow> int \<Rightarrow> type_table \<times> tid" where
  "type_qualify tt base added =
     (let n = node (tt_nodes tt) base; combined = tn_qual n OR added
      in if combined = tn_qual n then (tt, base) else alloc_node tt (n\<lparr>tn_qual := combined\<rparr>))"

subsection \<open>Size and alignment\<close>

text \<open>Conversion of a long long to int.\<close>

definition to_int32 :: "int \<Rightarrow> int" where
  "to_int32 n = (n + 2 ^ 31) mod 2 ^ 32 - 2 ^ 31"

fun scalar_size :: "scalar_kind \<Rightarrow> int" where
  "scalar_size TY_VOID = - 1"
| "scalar_size TY_BOOL = 1"
| "scalar_size TY_CHAR = 1"
| "scalar_size TY_SCHAR = 1"
| "scalar_size TY_UCHAR = 1"
| "scalar_size TY_SHORT = 2"
| "scalar_size TY_USHORT = 2"
| "scalar_size TY_INT = 4"
| "scalar_size TY_UINT = 4"
| "scalar_size TY_LONG = 8"
| "scalar_size TY_ULONG = 8"
| "scalar_size TY_LLONG = 8"
| "scalar_size TY_ULLONG = 8"
| "scalar_size TY_FLOAT = 4"
| "scalar_size TY_DOUBLE = 8"
| "scalar_size TY_LDOUBLE = 16"

fun scalar_align :: "scalar_kind \<Rightarrow> int" where
  "scalar_align TY_VOID = 1"
| "scalar_align k = scalar_size k"

function type_sizeof :: "type_node list \<Rightarrow> tid \<Rightarrow> int" where
  "type_sizeof ns t =
     (case body ns t of
        Scalar k \<Rightarrow> scalar_size k
      | Pointer p \<Rightarrow> 8
      | Array e n \<Rightarrow> if n \<le> 0 then - 1 else (if e < t then type_sizeof ns e else - 1) * to_int32 n
      | ArrayUnsized e \<Rightarrow> - 1
      | Func r ps n v \<Rightarrow> - 1
      | Struct a \<Rightarrow> ag_size a
      | Union a \<Rightarrow> ag_size a
      | Enum e \<Rightarrow> 4)"
  by pat_completeness auto
termination by (relation "measure snd") auto

function type_alignof :: "type_node list \<Rightarrow> tid \<Rightarrow> int" where
  "type_alignof ns t =
     (case body ns t of
        Scalar k \<Rightarrow> scalar_align k
      | Pointer p \<Rightarrow> 8
      | Array e n \<Rightarrow> if e < t then type_alignof ns e else 1
      | ArrayUnsized e \<Rightarrow> if e < t then type_alignof ns e else 1
      | Func r ps n v \<Rightarrow> 1
      | Struct a \<Rightarrow> if ag_align a > 0 then ag_align a else 1
      | Union a \<Rightarrow> if ag_align a > 0 then ag_align a else 1
      | Enum e \<Rightarrow> 4)"
  by pat_completeness auto
termination by (relation "measure snd") auto

declare type_sizeof.simps [simp del] type_alignof.simps [simp del]

subsection \<open>Layout of structs and unions\<close>

record seal_state =
  ss_offset :: int
  ss_max_align :: int
  ss_unit_off :: int
  ss_bit_next :: int
  ss_unit_size :: int
  ss_unit_align :: int

definition seal_start :: seal_state where
  "seal_start = \<lparr>ss_offset = 0, ss_max_align = 1, ss_unit_off = 0, ss_bit_next = 0,
     ss_unit_size = 0, ss_unit_align = 1\<rparr>"

text \<open>The loop body for a field whose type has alignment \<open>fa\<close> and size \<open>fs\<close>.\<close>

definition seal_field :: "int \<Rightarrow> int \<Rightarrow> struct_field \<Rightarrow> seal_state \<Rightarrow> struct_field \<times> seal_state" where
  "seal_field fa fs f s =
     (let s = (if fa > ss_max_align s then s\<lparr>ss_max_align := fa\<rparr> else s)
      in if sf_bit_width f \<ge> 0
         then let unit_bits = (if fs > 0 then fs * 8 else 32)
              in if sf_bit_width f = 0
                 then let s = (if ss_bit_next s > 0 then s\<lparr>ss_offset := ss_unit_off s + ss_unit_size s\<rparr> else s)
                      in (f, s\<lparr>ss_offset := round_up (ss_offset s) fa, ss_bit_next := 0\<rparr>)
                 else let s = (if ss_bit_next s = 0 \<or> ss_bit_next s + sf_bit_width f > unit_bits
                                   \<or> fa \<noteq> ss_unit_align s \<or> fs \<noteq> ss_unit_size s
                               then let off = round_up (ss_offset s) fa
                                    in s\<lparr>ss_offset := off + fs, ss_unit_off := off, ss_unit_size := fs,
                                         ss_unit_align := fa, ss_bit_next := 0\<rparr>
                               else s)
                      in (f\<lparr>sf_offset := ss_unit_off s, sf_bit_offset := ss_bit_next s\<rparr>,
                          s\<lparr>ss_bit_next := ss_bit_next s + sf_bit_width f\<rparr>)
         else let off = round_up (ss_offset s) fa
              in (f\<lparr>sf_offset := off\<rparr>, s\<lparr>ss_bit_next := 0, ss_offset := off + fs\<rparr>))"

fun seal_fields :: "type_node list \<Rightarrow> struct_field list \<Rightarrow> seal_state \<Rightarrow> struct_field list \<times> seal_state" where
  "seal_fields ns [] s = ([], s)"
| "seal_fields ns (f # fs) s =
     (let (f', s') = seal_field (type_alignof ns (sf_type f)) (type_sizeof ns (sf_type f)) f s;
          (fs', s'') = seal_fields ns fs s'
      in (f' # fs', s''))"

definition seal_struct :: "type_node list \<Rightarrow> agg_info \<Rightarrow> agg_info" where
  "seal_struct ns a =
     (let (fs, s) = seal_fields ns (ag_fields a) seal_start
      in a\<lparr>ag_fields := fs, ag_size := round_up (ss_offset s) (ss_max_align s),
           ag_align := ss_max_align s\<rparr>)"

definition max_over :: "(struct_field \<Rightarrow> int) \<Rightarrow> int \<Rightarrow> struct_field list \<Rightarrow> int" where
  "max_over g m fs = fold (\<lambda>f m. if g f > m then g f else m) fs m"

definition seal_union :: "type_node list \<Rightarrow> agg_info \<Rightarrow> agg_info" where
  "seal_union ns a =
     (let max_size = max_over (\<lambda>f. type_sizeof ns (sf_type f)) 0 (ag_fields a);
          max_align = max_over (\<lambda>f. type_alignof ns (sf_type f)) 1 (ag_fields a)
      in a\<lparr>ag_fields := map (\<lambda>f. if sf_bit_width f \<ge> 0 then f\<lparr>sf_offset := 0, sf_bit_offset := 0\<rparr>
                                else f\<lparr>sf_offset := 0\<rparr>) (ag_fields a),
           ag_size := round_up max_size max_align, ag_align := max_align\<rparr>)"

text \<open>The two functions on the store; \<open>flds\<close> is the list the parser has just attached.\<close>

definition type_seal_struct :: "type_table \<Rightarrow> tid \<Rightarrow> struct_field list \<Rightarrow> type_table" where
  "type_seal_struct tt t flds =
     (let ns = tt_nodes tt
      in case body ns t of
           Struct a \<Rightarrow> tt\<lparr>tt_nodes := ns[t := (node ns t)\<lparr>tn_body := Struct (seal_struct ns (a\<lparr>ag_fields := flds\<rparr>))\<rparr>]\<rparr>
         | _ \<Rightarrow> tt)"

definition type_seal_union :: "type_table \<Rightarrow> tid \<Rightarrow> struct_field list \<Rightarrow> type_table" where
  "type_seal_union tt t flds =
     (let ns = tt_nodes tt
      in case body ns t of
           Union a \<Rightarrow> tt\<lparr>tt_nodes := ns[t := (node ns t)\<lparr>tn_body := Union (seal_union ns (a\<lparr>ag_fields := flds\<rparr>))\<rparr>]\<rparr>
         | _ \<Rightarrow> tt)"

subsection \<open>Predicates\<close>

definition type_is_integer :: "type_node list \<Rightarrow> tid \<Rightarrow> bool" where
  "type_is_integer ns t \<longleftrightarrow>
     (case body ns t of
        Scalar k \<Rightarrow> k \<in> {TY_BOOL, TY_CHAR, TY_SCHAR, TY_UCHAR, TY_SHORT, TY_USHORT, TY_INT, TY_UINT,
                         TY_LONG, TY_ULONG, TY_LLONG, TY_ULLONG}
      | Enum e \<Rightarrow> True
      | _ \<Rightarrow> False)"

definition type_is_arithmetic :: "type_node list \<Rightarrow> tid \<Rightarrow> bool" where
  "type_is_arithmetic ns t \<longleftrightarrow> type_is_integer ns t
     \<or> (case body ns t of Scalar k \<Rightarrow> k = TY_FLOAT \<or> k = TY_DOUBLE \<or> k = TY_LDOUBLE | _ \<Rightarrow> False)"

definition type_is_pointer :: "type_node list \<Rightarrow> tid \<Rightarrow> bool" where
  "type_is_pointer ns t \<longleftrightarrow> (case body ns t of Pointer p \<Rightarrow> True | _ \<Rightarrow> False)"

definition type_is_scalar :: "type_node list \<Rightarrow> tid \<Rightarrow> bool" where
  "type_is_scalar ns t \<longleftrightarrow> type_is_arithmetic ns t \<or> type_is_pointer ns t"

definition type_is_complete :: "type_node list \<Rightarrow> tid \<Rightarrow> bool" where
  "type_is_complete ns t \<longleftrightarrow>
     (case body ns t of
        Struct a \<Rightarrow> ag_size a \<ge> 0
      | Union a \<Rightarrow> ag_size a \<ge> 0
      | ArrayUnsized e \<Rightarrow> False
      | Scalar k \<Rightarrow> k \<noteq> TY_VOID
      | Enum e \<Rightarrow> en_complete e
      | _ \<Rightarrow> True)"

definition type_is_signed :: "type_node list \<Rightarrow> tid \<Rightarrow> bool" where
  "type_is_signed ns t \<longleftrightarrow>
     (case body ns t of Scalar k \<Rightarrow> k \<in> {TY_CHAR, TY_SCHAR, TY_SHORT, TY_INT, TY_LONG, TY_LLONG} | _ \<Rightarrow> False)"

definition type_is_unsigned_integer :: "type_node list \<Rightarrow> tid \<Rightarrow> bool" where
  "type_is_unsigned_integer ns t \<longleftrightarrow>
     (case body ns t of Scalar k \<Rightarrow> k \<in> {TY_BOOL, TY_UCHAR, TY_USHORT, TY_UINT, TY_ULONG, TY_ULLONG} | _ \<Rightarrow> False)"

subsection \<open>Compatibility\<close>

function type_compatible :: "type_node list \<Rightarrow> tid \<Rightarrow> tid \<Rightarrow> bool" where
  "type_compatible ns a b =
     (if a = b then True
      else case (body ns a, body ns b) of
        (Enum e, Scalar k) \<Rightarrow> k = TY_INT
      | (Scalar k, Enum e) \<Rightarrow> k = TY_INT
      | (Pointer p, Pointer q) \<Rightarrow> if p < a then type_compatible ns p q else False
      | (Array e n, Array e' n') \<Rightarrow> n = n' \<and> (if e < a then type_compatible ns e e' else False)
      | (ArrayUnsized e, ArrayUnsized e') \<Rightarrow> if e < a then type_compatible ns e e' else False
      | (Func r ps n v, Func r' qs n' v') \<Rightarrow>
          (if r < a then type_compatible ns r r' else False) \<and> n = n' \<and> v = v'
          \<and> list_all2 (\<lambda>p q. if fp_type p < a then type_compatible ns (fp_type p) (fp_type q) else False) ps qs
      | (Scalar k, Scalar k') \<Rightarrow> k = k'
      | _ \<Rightarrow> False)"
  by pat_completeness auto
termination by (relation "measure (\<lambda>(ns, a, b). a)") auto

declare type_compatible.simps [simp del]

subsection \<open>Printing\<close>

fun scalar_name :: "scalar_kind \<Rightarrow> string" where
  "scalar_name TY_VOID = ''void''"
| "scalar_name TY_BOOL = ''_Bool''"
| "scalar_name TY_CHAR = ''char''"
| "scalar_name TY_SCHAR = ''signed char''"
| "scalar_name TY_UCHAR = ''unsigned char''"
| "scalar_name TY_SHORT = ''short''"
| "scalar_name TY_USHORT = ''unsigned short''"
| "scalar_name TY_INT = ''int''"
| "scalar_name TY_UINT = ''unsigned int''"
| "scalar_name TY_LONG = ''long''"
| "scalar_name TY_ULONG = ''unsigned long''"
| "scalar_name TY_LLONG = ''long long''"
| "scalar_name TY_ULLONG = ''unsigned long long''"
| "scalar_name TY_FLOAT = ''float''"
| "scalar_name TY_DOUBLE = ''double''"
| "scalar_name TY_LDOUBLE = ''long double''"

definition qual_pieces :: "int \<Rightarrow> string list" where
  "qual_pieces q =
     (if q AND QUAL_CONST \<noteq> 0 then [''const ''] else [])
     @ (if q AND QUAL_VOLATILE \<noteq> 0 then [''volatile ''] else [])
     @ (if q AND QUAL_RESTRICT \<noteq> 0 then [''restrict ''] else [])"

definition tag_name :: "string option \<Rightarrow> string" where
  "tag_name tag = (case tag of Some s \<Rightarrow> s | None \<Rightarrow> ''<anon>'')"

text \<open>The strings type_print_inner hands to APPEND, in order.\<close>

function type_pieces :: "type_node list \<Rightarrow> tid \<Rightarrow> string list" where
  "type_pieces ns t =
     qual_pieces (tn_qual (node ns t)) @
     (case body ns t of
        Scalar k \<Rightarrow> [scalar_name k]
      | Pointer p \<Rightarrow> (if p < t then type_pieces ns p else []) @ [''*'']
      | Array e n \<Rightarrow> (if e < t then type_pieces ns e else []) @ [''['' @ show_int n @ '']'']
      | ArrayUnsized e \<Rightarrow> (if e < t then type_pieces ns e else []) @ [''[]'']
      | Func r ps n v \<Rightarrow>
          (if r < t then type_pieces ns r else []) @ [''('']
          @ snd (fold (\<lambda>p (first, out). (False, out @ (if first then [] else ['', ''])
                    @ (if fp_type p < t then type_pieces ns (fp_type p) else [])
                    @ (case fp_name p of Some s \<Rightarrow> ['' '', s] | None \<Rightarrow> []))) ps (True, []))
          @ (if v \<noteq> 0 then (if ps = [] then [] else ['', '']) @ [''...''] else [])
          @ ['')'']
      | Struct a \<Rightarrow> [''struct '', tag_name (ag_tag a)]
      | Union a \<Rightarrow> [''union '', tag_name (ag_tag a)]
      | Enum e \<Rightarrow> [''enum '', tag_name (en_tag e)])"
  by pat_completeness auto
termination by (relation "measure snd") auto

declare type_pieces.simps [simp del]

text \<open>The buffer and \<open>*pos\<close>. For an empty buffer \<open>bufsz - 1\<close> wraps in C and the position
  leaves the buffer; nothing is ever written then, as here.\<close>

definition append_buf :: "string \<Rightarrow> string \<times> nat \<Rightarrow> string \<times> nat" where
  "append_buf s bp =
     (let (buf, pos) = bp; n = length s
      in if pos + n < length buf then (take pos buf @ s @ drop (pos + n) buf, pos + n)
         else if pos < length buf - 1 then (buf, length buf - 1)
         else (buf, pos))"

definition type_print :: "type_node list \<Rightarrow> tid \<Rightarrow> string \<Rightarrow> string" where
  "type_print ns t buf =
     (let (buf, pos) = fold append_buf (type_pieces ns t) (buf, 0)
      in if length buf > 0 then buf[(if pos < length buf then pos else length buf - 1) := NUL] else buf)"

end
