(* ===== verification/CTypeProps.thy ===== *)
theory CTypeProps
  imports CType
begin

section \<open>Properties of the types\<close>

text \<open>
  The four interning constructors are one operation on structural keys, an instance of the
  interface \<open>interner\<close> of theory Strtab: equal keys give the same node at any time,
  different keys different nodes. Every operation keeps the store well formed. Sealing a
  struct places its fields in order, aligned, without overlap and inside its size, down to
  the bits of bit-fields. type_compatible is symmetric, and treats a qualified struct as a
  different type. type_print never writes outside its buffer.
\<close>

subsection \<open>Interning\<close>

datatype dkey =
    KPointer tid int
  | KArray tid int
  | KUnsized tid
  | KFunc tid "func_param list" int int

definition derive :: "(tid \<Rightarrow> u64) \<Rightarrow> type_table \<Rightarrow> dkey \<Rightarrow> type_table \<times> tid" where
  "derive adr tt k =
     (case k of
        KPointer p q \<Rightarrow> type_pointer adr tt p q
      | KArray e n \<Rightarrow> type_array adr tt e n
      | KUnsized e \<Rightarrow> type_array_unsized adr tt e
      | KFunc r ps n v \<Rightarrow> type_func adr tt r ps n v)"

definition node_key :: "type_node \<Rightarrow> dkey option" where
  "node_key n =
     (case tn_body n of
        Pointer p \<Rightarrow> Some (KPointer p (tn_qual n))
      | Array e c \<Rightarrow> Some (KArray e c)
      | ArrayUnsized e \<Rightarrow> Some (KUnsized e)
      | Func r ps k v \<Rightarrow> Some (KFunc r ps k v)
      | _ \<Rightarrow> None)"

definition key_node :: "dkey \<Rightarrow> type_node" where
  "key_node k =
     (case k of
        KPointer p q \<Rightarrow> \<lparr>tn_qual = q, tn_body = Pointer p\<rparr>
      | KArray e n \<Rightarrow> \<lparr>tn_qual = QUAL_NONE, tn_body = Array e n\<rparr>
      | KUnsized e \<Rightarrow> \<lparr>tn_qual = QUAL_NONE, tn_body = ArrayUnsized e\<rparr>
      | KFunc r ps n v \<Rightarrow> \<lparr>tn_qual = QUAL_NONE, tn_body = Func r ps n v\<rparr>)"

definition key_slot :: "(tid \<Rightarrow> u64) \<Rightarrow> dkey \<Rightarrow> nat" where
  "key_slot adr k =
     (case k of
        KPointer p q \<Rightarrow> ptr_hash (adr p) (of_int q)
      | KArray e n \<Rightarrow> ptr_hash (adr e) (of_int n)
      | KUnsized e \<Rightarrow> ptr_hash (adr e) 0xFFFF
      | KFunc r ps n v \<Rightarrow> ptr_hash (adr r) (of_int ((n * 2) OR v)))"

lemma node_key_node [simp]: "node_key (key_node k) = Some k"
  by (cases k) (simp_all add: node_key_def key_node_def)

lemma params_match_iff [simp]: "params_match ps qs \<longleftrightarrow> ps = qs"
  by (induction ps qs rule: params_match.induct) auto

lemma ptr_hash_less: "ptr_hash a b < TYPE_TABLE_BUCKETS"
proof -
  have "unat ((a XOR drop_bit 16 a XOR b XOR drop_bit 8 b) AND 255) \<le> unat (255 :: u64)"
    by (metis word_and_le1 word_le_nat_alt)
  then show ?thesis by (simp add: ptr_hash_def TYPE_TABLE_BUCKETS_def)
qed

lemma key_slot_less: "key_slot adr k < TYPE_TABLE_BUCKETS"
  by (cases k) (simp_all add: key_slot_def ptr_hash_less)

lemma derive_eq:
  "derive adr tt k =
     (case find_interned tt (key_slot adr k) (\<lambda>n. node_key n = Some k) of
        Some t \<Rightarrow> (tt, t)
      | None \<Rightarrow> push_interned tt (key_slot adr k) (key_node k))"
proof -
  have P: "(case tn_body n of Pointer p \<Rightarrow> p = p' | _ \<Rightarrow> False) \<and> tn_qual n = q \<longleftrightarrow> node_key n = Some (KPointer p' q)"
    "(case tn_body n of Array e c \<Rightarrow> e = e' \<and> c = c' | _ \<Rightarrow> False) \<longleftrightarrow> node_key n = Some (KArray e' c')"
    "(case tn_body n of ArrayUnsized e \<Rightarrow> e = e' | _ \<Rightarrow> False) \<longleftrightarrow> node_key n = Some (KUnsized e')"
    "(case tn_body n of Func r ps m v \<Rightarrow> r = r' \<and> m = m' \<and> v = v' \<and> params_match ps ps' | _ \<Rightarrow> False)
       \<longleftrightarrow> node_key n = Some (KFunc r' ps' m' v')"
    for n p' q e' c' r' ps' m' v'
    by (auto simp: node_key_def split: type_body.splits)
  show ?thesis
    by (cases k) (simp_all add: derive_def type_pointer_def type_array_def type_array_unsized_def
        type_func_def key_slot_def key_node_def Let_def P split: option.split)
qed

text \<open>The chains hold nodes of their slot, and no two of them stand for the same type.\<close>

definition interned :: "type_table \<Rightarrow> tid \<Rightarrow> bool" where
  "interned tt t \<longleftrightarrow> (\<exists>slot < length (tt_buckets tt). t \<in> set (tt_buckets tt ! slot))"

definition table_inv :: "(tid \<Rightarrow> u64) \<Rightarrow> type_table \<Rightarrow> bool" where
  "table_inv adr tt \<longleftrightarrow> length (tt_buckets tt) = TYPE_TABLE_BUCKETS
     \<and> (\<forall>slot < TYPE_TABLE_BUCKETS. \<forall>t \<in> set (tt_buckets tt ! slot).
          t < length (tt_nodes tt)
          \<and> (\<exists>k. node_key (node (tt_nodes tt) t) = Some k \<and> key_slot adr k = slot))
     \<and> (\<forall>t t'. interned tt t \<longrightarrow> interned tt t' \<longrightarrow>
          node_key (node (tt_nodes tt) t) = node_key (node (tt_nodes tt) t') \<longrightarrow> t = t')"

definition type_key :: "type_table \<Rightarrow> tid \<Rightarrow> dkey option" where
  "type_key tt t = (if interned tt t then node_key (node (tt_nodes tt) t) else None)"

lemma table_inv_interned:
  assumes "table_inv adr tt" "interned tt t"
  shows "t < length (tt_nodes tt)"
    "\<exists>k. node_key (node (tt_nodes tt) t) = Some k \<and> t \<in> set (tt_buckets tt ! key_slot adr k)"
proof -
  obtain slot where s: "slot < TYPE_TABLE_BUCKETS" "t \<in> set (tt_buckets tt ! slot)"
    using assms by (auto simp: table_inv_def interned_def)
  then have "t < length (tt_nodes tt)
      \<and> (\<exists>k. node_key (node (tt_nodes tt) t) = Some k \<and> key_slot adr k = slot)"
    using assms(1) unfolding table_inv_def by blast
  then show "t < length (tt_nodes tt)"
    "\<exists>k. node_key (node (tt_nodes tt) t) = Some k \<and> t \<in> set (tt_buckets tt ! key_slot adr k)"
    using s(2) by auto
qed

lemma derive_cases:
  assumes "table_inv adr tt" "derive adr tt k = (tt', t)"
  obtains (found) "tt' = tt" "interned tt t" "node_key (node (tt_nodes tt) t) = Some k"
  | (fresh) "tt' = tt\<lparr>tt_nodes := tt_nodes tt @ [key_node k], tt_buckets := (tt_buckets tt)[key_slot adr k :=
        t # tt_buckets tt ! key_slot adr k]\<rparr>" "t = length (tt_nodes tt)" "\<forall>u. type_key tt u \<noteq> Some k"
proof (cases "find_interned tt (key_slot adr k) (\<lambda>n. node_key n = Some k)")
  case (Some u)
  then have "u \<in> set (tt_buckets tt ! key_slot adr k)" "node_key (node (tt_nodes tt) u) = Some k"
    by (auto simp: find_interned_def find_Some_iff)
  moreover have "tt' = tt" "t = u" using assms(2) Some by (auto simp: derive_eq)
  moreover have "key_slot adr k < length (tt_buckets tt)"
    using assms(1) key_slot_less by (simp add: table_inv_def)
  ultimately show ?thesis by (intro found) (auto simp: interned_def)
next
  case None
  have "type_key tt u \<noteq> Some k" for u
  proof
    assume a: "type_key tt u = Some k"
    then have "interned tt u" "node_key (node (tt_nodes tt) u) = Some k"
      by (auto simp: type_key_def split: if_splits)
    then have "u \<in> set (tt_buckets tt ! key_slot adr k)"
      using table_inv_interned(2) [OF assms(1), of u] by auto
    then show False
      using \<open>node_key (node (tt_nodes tt) u) = Some k\<close> None by (auto simp: find_interned_def find_None_iff)
  qed
  then have "\<forall>u. type_key tt u \<noteq> Some k" by blast
  then show ?thesis
    using assms(2) None by (intro fresh) (auto simp: derive_eq push_interned_def alloc_node_def Let_def)
qed

lemma interned_push:
  assumes "key_slot adr k < length (tt_buckets tt)"
  shows "interned (tt\<lparr>tt_nodes := ns, tt_buckets := (tt_buckets tt)[key_slot adr k :=
        t # tt_buckets tt ! key_slot adr k]\<rparr>) u \<longleftrightarrow> u = t \<or> interned tt u"
  using assms by (auto simp: interned_def nth_list_update split: if_splits)

lemma derive_inv:
  assumes "table_inv adr tt" "derive adr tt k = (tt', t)"
  shows "table_inv adr tt'" "type_key tt' t = Some k" "type_key tt u = Some j \<Longrightarrow> type_key tt' u = Some j"
proof -
  have slot: "key_slot adr k < length (tt_buckets tt)"
    using assms(1) key_slot_less by (simp add: table_inv_def)
  show "table_inv adr tt'" "type_key tt' t = Some k" "type_key tt u = Some j \<Longrightarrow> type_key tt' u = Some j"
    using assms
  proof (atomize (full), cases rule: derive_cases)
    case found
    then show "table_inv adr tt' \<and> type_key tt' t = Some k
        \<and> (type_key tt u = Some j \<longrightarrow> type_key tt' u = Some j)"
      using assms(1) by (simp add: type_key_def)
  next
    case fresh
    have old: "u < length (tt_nodes tt)" if "interned tt u" for u
      by (rule table_inv_interned(1) [OF assms(1) that])
    have i: "interned tt' u \<longleftrightarrow> u = t \<or> interned tt u" for u
      using interned_push [OF slot] fresh(1) by simp
    have n: "node (tt_nodes tt') u = (if u = t then key_node k else node (tt_nodes tt) u)"
      if "u = t \<or> interned tt u" for u
      using that old [of u] fresh(1,2) by (auto simp: nth_append)
    have nt: "\<not> interned tt t" using old fresh(2) by blast
    have "table_inv adr tt'"
    proof (unfold table_inv_def, intro conjI allI impI ballI)
      show "length (tt_buckets tt') = TYPE_TABLE_BUCKETS"
        using assms(1) fresh(1) by (simp add: table_inv_def)
    next
      fix sl u assume s: "sl < TYPE_TABLE_BUCKETS" and u: "u \<in> set (tt_buckets tt' ! sl)"
      then have cases: "u = t \<and> sl = key_slot adr k \<or> u \<in> set (tt_buckets tt ! sl)"
        using fresh(1) slot by (auto simp: nth_list_update split: if_splits)
      have iu: "u = t \<or> interned tt u"
        using cases s assms(1) by (auto simp: interned_def table_inv_def)
      show "u < length (tt_nodes tt')" using iu old [of u] fresh(1,2) by auto
      show "\<exists>k. node_key (node (tt_nodes tt') u) = Some k \<and> key_slot adr k = sl"
        using cases n [OF iu] nt s assms(1) old [of u] fresh(2)
        by (cases "u = t") (auto simp: table_inv_def interned_def)
    next
      fix u v
      assume a: "interned tt' u" "interned tt' v"
        "node_key (node (tt_nodes tt') u) = node_key (node (tt_nodes tt') v)"
      have "node_key (node (tt_nodes tt) w) \<noteq> Some k" if "interned tt w" for w
        using fresh(3) that by (metis type_key_def)
      then show "u = v"
        using a n [of u] n [of v] assms(1) by (auto simp: i table_inv_def split: if_splits)
    qed
    then show "table_inv adr tt' \<and> type_key tt' t = Some k
        \<and> (type_key tt u = Some j \<longrightarrow> type_key tt' u = Some j)"
      using i n nt by (auto simp: type_key_def split: if_splits)
  qed
qed

lemma type_key_inj: "table_inv adr tt \<Longrightarrow> type_key tt t = Some k \<Longrightarrow> type_key tt u = Some k \<Longrightarrow> t = u"
  by (auto simp: type_key_def table_inv_def split: if_splits)

interpretation types: interner "\<lambda>tt k. Some (derive adr tt k)" type_key "\<lambda>_. True" "table_inv adr"
  for adr
  by unfold_locales (auto dest: derive_inv type_key_inj)

subsection \<open>Any sequence of operations on the table\<close>

datatype tt_op =
    Derive dkey
  | NewStruct "string option"
  | NewUnion "string option"
  | NewEnum "string option"
  | Qualify tid int
  | SealStruct tid "struct_field list"
  | SealUnion tid "struct_field list"

fun run_op :: "(tid \<Rightarrow> u64) \<Rightarrow> tt_op \<Rightarrow> type_table \<Rightarrow> type_table" where
  "run_op adr (Derive k) tt = fst (derive adr tt k)"
| "run_op adr (NewStruct tag) tt = fst (type_struct tt tag)"
| "run_op adr (NewUnion tag) tt = fst (type_union tt tag)"
| "run_op adr (NewEnum tag) tt = fst (type_enum tt tag)"
| "run_op adr (Qualify t q) tt = fst (type_qualify tt t q)"
| "run_op adr (SealStruct t fs) tt = type_seal_struct tt t fs"
| "run_op adr (SealUnion t fs) tt = type_seal_union tt t fs"

definition run_ops :: "(tid \<Rightarrow> u64) \<Rightarrow> tt_op list \<Rightarrow> type_table \<Rightarrow> type_table" where
  "run_ops adr ops tt = fold (run_op adr) ops tt"

definition keeps_keys :: "(tid \<Rightarrow> u64) \<Rightarrow> type_table \<Rightarrow> type_table \<Rightarrow> bool" where
  "keeps_keys adr tt tt' \<longleftrightarrow> table_inv adr tt'
     \<and> (\<forall>t k. type_key tt t = Some k \<longrightarrow> type_key tt' t = Some k)"

text \<open>An operation that leaves the chains and the keys of their nodes alone.\<close>

lemma keeps_keys_same_chains:
  assumes "table_inv adr tt" "tt_buckets tt' = tt_buckets tt" "length (tt_nodes tt) \<le> length (tt_nodes tt')"
    "\<And>t. interned tt t \<Longrightarrow> node_key (node (tt_nodes tt') t) = node_key (node (tt_nodes tt) t)"
  shows "keeps_keys adr tt tt'"
proof -
  have i: "interned tt' t = interned tt t" for t using assms(2) by (simp add: interned_def)
  have m: "interned tt t" if "slot < TYPE_TABLE_BUCKETS" "t \<in> set (tt_buckets tt ! slot)" for t slot
    using that assms(1) by (auto simp: interned_def table_inv_def)
  have "table_inv adr tt'"
    unfolding table_inv_def i
  proof (intro conjI allI impI ballI)
    fix slot t assume s: "slot < TYPE_TABLE_BUCKETS" "t \<in> set (tt_buckets tt' ! slot)"
    then have t: "interned tt t" using m assms(2) by simp
    show "t < length (tt_nodes tt')" using table_inv_interned(1) [OF assms(1) t] assms(3) by simp
    show "\<exists>k. node_key (node (tt_nodes tt') t) = Some k \<and> key_slot adr k = slot"
      using assms(4) [OF t] s assms(1,2) by (simp add: table_inv_def)
  next
    fix t t' assume "interned tt t" "interned tt t'"
      "node_key (node (tt_nodes tt') t) = node_key (node (tt_nodes tt') t')"
    then show "t = t'" using assms(1,4) by (simp add: table_inv_def)
  qed (use assms(1,2) in \<open>simp add: table_inv_def\<close>)
  then show ?thesis using assms(4) by (auto simp: keeps_keys_def type_key_def i)
qed

lemma alloc_keeps: "table_inv adr tt \<Longrightarrow> keeps_keys adr tt (fst (alloc_node tt n))"
  by (rule keeps_keys_same_chains)
    (auto simp: alloc_node_def nth_append dest: table_inv_interned(1))

lemma update_keeps:
  assumes "table_inv adr tt" "node_key (node (tt_nodes tt) t) = None" "node_key n = None"
  shows "keeps_keys adr tt (tt\<lparr>tt_nodes := (tt_nodes tt)[t := n]\<rparr>)"
proof (rule keeps_keys_same_chains [OF assms(1)])
  fix u assume "interned tt u"
  then have "u \<noteq> t" using table_inv_interned(2) [OF assms(1), of u] assms(2) by auto
  then show "node_key (node (tt_nodes (tt\<lparr>tt_nodes := (tt_nodes tt)[t := n]\<rparr>)) u) = node_key (node (tt_nodes tt) u)"
    by simp
qed simp_all

lemma keeps_refl: "table_inv adr tt \<Longrightarrow> keeps_keys adr tt tt"
  by (simp add: keeps_keys_def)

lemma derive_keeps: "table_inv adr tt \<Longrightarrow> keeps_keys adr tt (fst (derive adr tt k))"
  using derive_inv [of adr tt k] by (cases "derive adr tt k") (auto simp: keeps_keys_def)

lemma seal_keeps:
  "table_inv adr tt \<Longrightarrow> keeps_keys adr tt (type_seal_struct tt t fs)"
  "table_inv adr tt \<Longrightarrow> keeps_keys adr tt (type_seal_union tt t fs)"
  unfolding type_seal_struct_def type_seal_union_def Let_def
  by (auto intro!: update_keeps keeps_refl simp: node_key_def split: type_body.split)

lemma run_op_keeps: "table_inv adr tt \<Longrightarrow> keeps_keys adr tt (run_op adr op tt)"
  by (cases op)
    (simp_all add: derive_keeps seal_keeps alloc_keeps keeps_refl type_struct_def type_union_def
      type_enum_def type_qualify_def Let_def)

lemma run_ops_keeps: "table_inv adr tt \<Longrightarrow> keeps_keys adr tt (run_ops adr ops tt)"
proof (induction ops arbitrary: tt)
  case (Cons op ops)
  from run_op_keeps [OF Cons.prems] Cons.IH [of "run_op adr op tt"]
  show ?case by (simp add: keeps_keys_def run_ops_def)
qed (simp add: keeps_refl run_ops_def)

lemma init_inv: "table_inv adr type_table_init"
proof -
  have "\<not> interned type_table_init t" for t
    by (auto simp: interned_def type_table_init_def)
  then show ?thesis by (simp add: table_inv_def) (simp add: type_table_init_def)
qed

text \<open>C18: whatever operations on types run in between, constructing a pointer, array or
  function type again returns the same node exactly when its parts are the same, so the
  compiler may compare such types by pointer.\<close>

theorem derived_types_interned:
  "let tt1 = run_ops adr ops1 type_table_init; r1 = derive adr tt1 k1;
       tt2 = run_ops adr ops2 (fst r1); r2 = derive adr tt2 k2
   in snd r1 = snd r2 \<longleftrightarrow> k1 = k2"
proof -
  define tt1 where "tt1 = run_ops adr ops1 type_table_init"
  obtain tta t1 where d1: "derive adr tt1 k1 = (tta, t1)" by fastforce
  define tt2 where "tt2 = run_ops adr ops2 tta"
  obtain ttb t2 where d2: "derive adr tt2 k2 = (ttb, t2)" by fastforce
  have i1: "table_inv adr tt1"
    using run_ops_keeps [OF init_inv] by (simp add: keeps_keys_def tt1_def)
  have k1: "table_inv adr tta" "type_key tta t1 = Some k1" using derive_inv [OF i1 d1] by auto
  have k2: "table_inv adr tt2" "type_key tt2 t1 = Some k1"
    using run_ops_keeps [OF k1(1)] k1(2) by (auto simp: keeps_keys_def tt2_def)
  have "type_key ttb t1 = Some k1" "type_key ttb t2 = Some k2" "table_inv adr ttb"
    using derive_inv [OF k2(1) d2] k2(2) by auto
  then have "t1 = t2 \<longleftrightarrow> k1 = k2" using type_key_inj by (metis option.inject)
  then show ?thesis by (simp add: Let_def tt1_def [symmetric] d1 tt2_def [symmetric] d2)
qed

subsection \<open>Well-formed stores, sizes and alignments\<close>

definition agg_ok :: "agg_info \<Rightarrow> bool" where
  "agg_ok a \<longleftrightarrow> pow2 (ag_align a) \<and> (ag_size a = - 1 \<or> ag_align a dvd ag_size a)"

text \<open>A derived type refers to older nodes, and the layout of an aggregate is sound.\<close>

definition node_ok :: "type_node list \<Rightarrow> tid \<Rightarrow> bool" where
  "node_ok ns t \<longleftrightarrow>
     (case body ns t of
        Pointer p \<Rightarrow> p < t
      | Array e n \<Rightarrow> e < t
      | ArrayUnsized e \<Rightarrow> e < t
      | Func r ps n v \<Rightarrow> r < t \<and> list_all (\<lambda>p. fp_type p < t) ps
      | Struct a \<Rightarrow> agg_ok a
      | Union a \<Rightarrow> agg_ok a
      | _ \<Rightarrow> True)"

definition nodes_ok :: "type_node list \<Rightarrow> bool" where
  "nodes_ok ns \<longleftrightarrow> (\<forall>t < length ns. node_ok ns t)"

text \<open>With the invariant the recursions never meet a position they refuse.\<close>

lemma sizeof_array:
  assumes "nodes_ok ns" "t < length ns" "body ns t = Array e n"
  shows "type_sizeof ns t = (if n \<le> 0 then - 1 else type_sizeof ns e * to_int32 n)"
    "type_alignof ns t = type_alignof ns e" "e < t"
  using assms
  by (auto simp: nodes_ok_def node_ok_def type_sizeof.simps [of ns t] type_alignof.simps [of ns t]
      split: type_body.splits)

lemma pow2_numerals [simp]: "pow2 1" "pow2 4" "pow2 8"
  by (simp_all add: pow2_def)

lemma pow2_scalar: "pow2 (scalar_align k)"
  by (cases k) (simp_all add: pow2_def)

lemma alignof_pow2: "nodes_ok ns \<Longrightarrow> t < length ns \<Longrightarrow> pow2 (type_alignof ns t)"
proof (induction ns t rule: type_alignof.induct)
  case (1 ns t)
  have "node_ok ns t" using "1.prems" by (simp add: nodes_ok_def)
  then show ?case
    using 1 by (subst type_alignof.simps)
      (auto simp: node_ok_def agg_ok_def pow2_scalar split: type_body.splits)
qed

text \<open>Array counts that the conversion to int leaves as they are.\<close>

definition counts_fit :: "type_node list \<Rightarrow> bool" where
  "counts_fit ns \<longleftrightarrow> list_all (\<lambda>n. case tn_body n of Array e c \<Rightarrow> c < 2 ^ 31 | _ \<Rightarrow> True) ns"

lemma to_int32_id: "- (2 ^ 31) \<le> n \<Longrightarrow> n < 2 ^ 31 \<Longrightarrow> to_int32 n = n"
  by (simp add: to_int32_def)

lemma scalar_align_dvd: "0 \<le> scalar_size k \<Longrightarrow> scalar_align k dvd scalar_size k"
  by (cases k) simp_all

lemma alignof_dvd_sizeof:
  "nodes_ok ns \<Longrightarrow> counts_fit ns \<Longrightarrow> t < length ns \<Longrightarrow> 0 \<le> type_sizeof ns t \<Longrightarrow>
   type_alignof ns t dvd type_sizeof ns t"
proof (induction ns t rule: type_sizeof.induct)
  case (1 ns t)
  have ok: "node_ok ns t" using "1.prems" by (simp add: nodes_ok_def)
  show ?case
  proof (cases "body ns t")
    case (Array e n)
    note a = sizeof_array [OF "1.prems"(1,3) Array]
    have n: "0 < n" "n < 2 ^ 31"
      using "1.prems" a(1) Array by (auto simp: counts_fit_def list_all_length split: if_splits)
    have s: "type_sizeof ns t = type_sizeof ns e * n" using a(1) n by (simp add: to_int32_id)
    then have "0 \<le> type_sizeof ns e" using "1.prems"(4) n by (simp add: zero_le_mult_iff)
    then have "type_alignof ns e dvd type_sizeof ns e"
      using "1.IH" [OF Array _ a(3)] n "1.prems" a(3) by simp
    then show ?thesis using a(2) s by simp
  qed (use ok "1.prems"(4) in \<open>auto simp: type_alignof.simps [of ns t] type_sizeof.simps [of ns t]
      node_ok_def agg_ok_def scalar_align_dvd pow2_pos\<close>)
qed

text \<open>In a well-formed store every type has an alignment of 1, 2, 4, 8 or 16, and the
  size of a type that has one is a multiple of it, through any nesting of arrays whose
  counts fit in an int.\<close>

theorem sizeof_multiple_of_alignof:
  assumes "nodes_ok ns" "counts_fit ns" "t < length ns"
  shows "type_alignof ns t \<in> {1, 2, 4, 8, 16}
    \<and> (0 \<le> type_sizeof ns t \<longrightarrow> type_sizeof ns t mod type_alignof ns t = 0)"
  using alignof_pow2 [OF assms(1,3)] alignof_dvd_sizeof [OF assms]
  by (simp add: pow2_def dvd_eq_mod_eq_0)

subsection \<open>Layout of structs\<close>

text \<open>The bits a field occupies, counted from the start of the struct.\<close>

definition bit_start :: "struct_field \<Rightarrow> int" where
  "bit_start f = 8 * sf_offset f + (if sf_bit_width f \<ge> 0 then sf_bit_offset f else 0)"

definition bit_end :: "type_node list \<Rightarrow> struct_field \<Rightarrow> int" where
  "bit_end ns f =
     (if sf_bit_width f \<ge> 0 then bit_start f + sf_bit_width f
      else bit_start f + 8 * type_sizeof ns (sf_type f))"

text \<open>A field whose type is complete and, for a bit-field, wide enough.\<close>

definition field_ok :: "type_node list \<Rightarrow> struct_field \<Rightarrow> bool" where
  "field_ok ns f \<longleftrightarrow> sf_type f < length ns \<and> 0 \<le> type_sizeof ns (sf_type f)
     \<and> sf_bit_width f \<le> 8 * type_sizeof ns (sf_type f)"

definition seal_inv :: "seal_state \<Rightarrow> bool" where
  "seal_inv s \<longleftrightarrow> 0 \<le> ss_offset s \<and> 0 \<le> ss_bit_next s \<and> pow2 (ss_max_align s)
     \<and> (0 < ss_bit_next s \<longrightarrow> 0 \<le> ss_unit_off s \<and> ss_unit_off s + ss_unit_size s = ss_offset s
          \<and> ss_bit_next s \<le> 8 * ss_unit_size s \<and> ss_unit_align s dvd ss_unit_off s)"

text \<open>The first bit no field placed so far uses.\<close>

definition frontier :: "seal_state \<Rightarrow> int" where
  "frontier s = (if 0 < ss_bit_next s then 8 * ss_unit_off s + ss_bit_next s else 8 * ss_offset s)"

definition placed :: "type_node list \<Rightarrow> seal_state \<Rightarrow> seal_state \<Rightarrow> struct_field \<Rightarrow> bool" where
  "placed ns s s' f \<longleftrightarrow> frontier s \<le> bit_start f \<and> bit_end ns f \<le> frontier s'
     \<and> 0 \<le> sf_offset f \<and> type_alignof ns (sf_type f) dvd sf_offset f
     \<and> sf_offset f + type_sizeof ns (sf_type f) \<le> ss_offset s'
     \<and> type_alignof ns (sf_type f) \<le> ss_max_align s'"

definition same_field :: "struct_field \<Rightarrow> struct_field \<Rightarrow> bool" where
  "same_field f g \<longleftrightarrow> sf_name g = sf_name f \<and> sf_type g = sf_type f \<and> sf_bit_width g = sf_bit_width f"

definition seal_grows :: "seal_state \<Rightarrow> seal_state \<Rightarrow> bool" where
  "seal_grows s s' \<longleftrightarrow> seal_inv s' \<and> frontier s \<le> frontier s' \<and> ss_offset s \<le> ss_offset s'
     \<and> ss_max_align s \<le> ss_max_align s'"

lemma frontier_le: "seal_inv s \<Longrightarrow> frontier s \<le> 8 * ss_offset s"
  by (auto simp: seal_inv_def frontier_def)

lemma seal_field_step:
  assumes "seal_inv s" "pow2 fa" "0 \<le> fs" "sf_bit_width f \<le> 8 * fs"
    "fa = type_alignof ns (sf_type f)" "fs = type_sizeof ns (sf_type f)"
    "seal_field fa fs f s = (f', s')"
  shows "seal_grows s s'" "same_field f f'" "sf_bit_width f \<noteq> 0 \<Longrightarrow> placed ns s s' f'"
proof -
  define s1 where "s1 = (if fa > ss_max_align s then s\<lparr>ss_max_align := fa\<rparr> else s)"
  have s1: "seal_inv s1" "frontier s1 = frontier s" "ss_offset s1 = ss_offset s" "fa \<le> ss_max_align s1"
    "ss_max_align s \<le> ss_max_align s1" "ss_bit_next s1 = ss_bit_next s" "ss_unit_off s1 = ss_unit_off s"
    "ss_unit_size s1 = ss_unit_size s" "ss_unit_align s1 = ss_unit_align s"
    using assms(1,2) by (auto simp: s1_def seal_inv_def frontier_def)
  define off where "off = round_up (ss_offset s1) fa"
  have off: "ss_offset s1 \<le> off" "fa dvd off" "0 \<le> off"
    using pow2_round_up [OF assms(2), of "ss_offset s1"] s1(1) by (auto simp: off_def seal_inv_def)
  have fr: "frontier s \<le> 8 * off" using frontier_le [OF s1(1)] s1(2) off(1) by simp
  have "seal_grows s s' \<and> same_field f f' \<and> (sf_bit_width f \<noteq> 0 \<longrightarrow> placed ns s s' f')"
  proof (cases "sf_bit_width f \<ge> 0")
    case False
    then have "f' = f\<lparr>sf_offset := off\<rparr>" "s' = s1\<lparr>ss_bit_next := 0, ss_offset := off + fs\<rparr>"
      using assms(7) by (auto simp: seal_field_def Let_def s1_def [symmetric] off_def)
    then show ?thesis
      using False s1 off fr assms(3,5,6)
      by (auto simp: seal_grows_def same_field_def placed_def seal_inv_def frontier_def bit_start_def
          bit_end_def)
  next
    case bf: True
    show ?thesis
    proof (cases "sf_bit_width f = 0")
      case True
      have o: "(if 0 < ss_bit_next s1 then ss_unit_off s1 + ss_unit_size s1 else ss_offset s1) = ss_offset s1"
        using s1(1) by (auto simp: seal_inv_def)
      have "f' = f" "s' = s1\<lparr>ss_offset := off, ss_bit_next := 0\<rparr>"
        using assms(7) True o by (auto simp: seal_field_def Let_def s1_def [symmetric] off_def split: if_splits)
      then show ?thesis
        using True s1 off fr by (auto simp: seal_grows_def same_field_def seal_inv_def frontier_def)
    next
      case False
      then have w: "0 < sf_bit_width f" using bf by simp
      then have u: "(if fs > 0 then fs * 8 else 32) = 8 * fs" using assms(4) by simp
      define new where "new \<longleftrightarrow> ss_bit_next s1 = 0 \<or> ss_bit_next s1 + sf_bit_width f > 8 * fs
        \<or> fa \<noteq> ss_unit_align s1 \<or> fs \<noteq> ss_unit_size s1"
      define s2 where "s2 = (if new then s1\<lparr>ss_offset := off + fs, ss_unit_off := off, ss_unit_size := fs,
        ss_unit_align := fa, ss_bit_next := 0\<rparr> else s1)"
      have r: "f' = f\<lparr>sf_offset := ss_unit_off s2, sf_bit_offset := ss_bit_next s2\<rparr>"
        "s' = s2\<lparr>ss_bit_next := ss_bit_next s2 + sf_bit_width f\<rparr>"
        using assms(7) w
        by (auto simp: seal_field_def Let_def s1_def [symmetric] off_def u new_def s2_def)
      show ?thesis
      proof (cases new)
        case True
        then show ?thesis
          using r s1 off fr w assms(3-6)
          by (auto simp: s2_def seal_grows_def same_field_def placed_def seal_inv_def frontier_def
              bit_start_def bit_end_def)
      next
        case old: False
        then have b: "0 < ss_bit_next s1" using s1(1) by (auto simp: new_def seal_inv_def)
        then show ?thesis
          using old r s1 w assms(5,6)
          by (auto simp: s2_def new_def seal_grows_def same_field_def placed_def seal_inv_def frontier_def
              bit_start_def bit_end_def)
      qed
    qed
  qed
  then show "seal_grows s s'" "same_field f f'" "sf_bit_width f \<noteq> 0 \<Longrightarrow> placed ns s s' f'" by auto
qed

lemma seal_grows_trans: "seal_grows s s' \<Longrightarrow> seal_grows s' s'' \<Longrightarrow> seal_grows s s''"
  by (auto simp: seal_grows_def)

lemma placed_mono:
  "seal_grows r s \<Longrightarrow> placed ns s s' f \<Longrightarrow> placed ns r s' f"
  "placed ns s s' f \<Longrightarrow> seal_grows s' t \<Longrightarrow> placed ns s t f"
  by (auto simp: placed_def seal_grows_def)

lemma seal_fields_spec:
  assumes "nodes_ok ns" "seal_inv s" "list_all (field_ok ns) fs" "seal_fields ns fs s = (gs, s')"
  shows "seal_grows s s' \<and> list_all2 same_field fs gs
    \<and> list_all (\<lambda>g. sf_bit_width g \<noteq> 0 \<longrightarrow> placed ns s s' g) gs
    \<and> sorted_wrt (\<lambda>g h. bit_end ns g \<le> bit_start h) (filter (\<lambda>g. sf_bit_width g \<noteq> 0) gs)"
  using assms(2-)
proof (induction fs arbitrary: s gs)
  case Nil
  then show ?case by (simp add: seal_grows_def)
next
  case (Cons f fs)
  obtain f' t where st: "seal_field (type_alignof ns (sf_type f)) (type_sizeof ns (sf_type f)) f s = (f', t)"
    by fastforce
  obtain gs' where re: "seal_fields ns fs t = (gs', s')" and gs: "gs = f' # gs'"
    using Cons.prems(3) st by (auto split: prod.splits)
  have f: "sf_type f < length ns" "0 \<le> type_sizeof ns (sf_type f)"
    "sf_bit_width f \<le> 8 * type_sizeof ns (sf_type f)"
    using Cons.prems(2) by (auto simp: field_ok_def)
  note step = seal_field_step [OF Cons.prems(1) alignof_pow2 [OF assms(1) f(1)] f(2,3) refl refl st]
  have it: "seal_inv t" using step(1) by (simp add: seal_grows_def)
  note ih = Cons.IH [OF it _ re]
  have rest: "seal_grows t s'" "list_all2 same_field fs gs'"
    "list_all (\<lambda>g. sf_bit_width g \<noteq> 0 \<longrightarrow> placed ns t s' g) gs'"
    "sorted_wrt (\<lambda>g h. bit_end ns g \<le> bit_start h) (filter (\<lambda>g. sf_bit_width g \<noteq> 0) gs')"
    using ih Cons.prems(2) by auto
  have w: "sf_bit_width f' = sf_bit_width f" using step(2) by (simp add: same_field_def)
  have "\<forall>h \<in> set gs'. sf_bit_width h \<noteq> 0 \<longrightarrow> bit_end ns f' \<le> bit_start h" if "sf_bit_width f' \<noteq> 0"
    using that w step(3) rest(3) by (fastforce simp: placed_def list_all_iff)
  then show ?case
    using gs rest step w seal_grows_trans [OF step(1) rest(1)] placed_mono(1) [OF step(1)] placed_mono(2) [OF _ rest(1)]
    by (auto simp: list_all_iff)
qed

lemma seal_start_inv: "seal_inv seal_start" "frontier seal_start = 0"
  by (simp_all add: seal_inv_def seal_start_def frontier_def)

lemma seal_struct_sel:
  assumes "seal_fields ns (ag_fields a) seal_start = (gs, s)"
  shows "ag_fields (seal_struct ns a) = gs" "ag_align (seal_struct ns a) = ss_max_align s"
    "ag_size (seal_struct ns a) = round_up (ss_offset s) (ss_max_align s)"
  using assms by (simp_all add: seal_struct_def)


text \<open>C33: all members of a sealed union are at offset 0; its size holds each of them and is a
  multiple of its alignment, which every member's alignment divides.\<close>

theorem seal_union_layout:
  assumes "nodes_ok ns" "list_all (\<lambda>f. sf_type f < length ns) (ag_fields a)"
  shows "let a' = seal_union ns a in
    list_all (\<lambda>g. sf_offset g = 0 \<and> type_sizeof ns (sf_type g) \<le> ag_size a'
        \<and> type_alignof ns (sf_type g) dvd ag_align a') (ag_fields a')
    \<and> list_all2 same_field (ag_fields a) (ag_fields a')
    \<and> 0 \<le> ag_size a' \<and> ag_align a' dvd ag_size a'"
proof -
  have mx: "m \<le> max_over g m fs \<and> (\<forall>f \<in> set fs. g f \<le> max_over g m fs)
      \<and> (max_over g m fs = m \<or> max_over g m fs \<in> g ` set fs)" for g m fs
  proof (induction fs arbitrary: m)
    case (Cons f fs)
    from Cons [of "if g f > m then g f else m"] show ?case by (auto simp: max_over_def)
  qed (simp add: max_over_def)
  let ?al = "max_over (\<lambda>f. type_alignof ns (sf_type f)) 1 (ag_fields a)"
  let ?sz = "max_over (\<lambda>f. type_sizeof ns (sf_type f)) 0 (ag_fields a)"
  have pf: "pow2 (type_alignof ns (sf_type f))" if "f \<in> set (ag_fields a)" for f
    using alignof_pow2 [OF assms(1)] assms(2) that by (auto simp: list_all_iff)
  have p: "pow2 ?al" using mx [of 1 "\<lambda>f. type_alignof ns (sf_type f)" "ag_fields a"] pf by auto
  note up = pow2_round_up [OF p, of ?sz]
  have al: "type_alignof ns (sf_type f) dvd ?al" if "f \<in> set (ag_fields a)" for f
    using mx [of 1 "\<lambda>f. type_alignof ns (sf_type f)" "ag_fields a"] pf [OF that] p pow2_dvd_max that by blast
  have sz: "type_sizeof ns (sf_type f) \<le> round_up ?sz ?al" if "f \<in> set (ag_fields a)" for f
    using mx [of 0 "\<lambda>f. type_sizeof ns (sf_type f)" "ag_fields a"] up(2) that by force
  have z: "0 \<le> round_up ?sz ?al"
    using mx [of 0 "\<lambda>f. type_sizeof ns (sf_type f)" "ag_fields a"] up(2) by force
  have sel: "ag_size (seal_union ns a) = round_up ?sz ?al" "ag_align (seal_union ns a) = ?al"
    "ag_fields (seal_union ns a) = map (\<lambda>f. if sf_bit_width f \<ge> 0 then f\<lparr>sf_offset := 0, sf_bit_offset := 0\<rparr>
                                else f\<lparr>sf_offset := 0\<rparr>) (ag_fields a)"
    by (simp_all add: seal_union_def Let_def)
  show ?thesis
    unfolding Let_def sel
    using up(1) z al sz by (auto simp: list_all_iff list.rel_map same_field_def intro!: list.rel_refl_strong)
qed

subsection \<open>Every operation keeps the store well formed\<close>

text \<open>The nodes an operation is given exist.\<close>

fun op_valid :: "type_table \<Rightarrow> tt_op \<Rightarrow> bool" where
  "op_valid tt (Derive (KPointer p q)) = (p < length (tt_nodes tt))"
| "op_valid tt (Derive (KArray e n)) = (e < length (tt_nodes tt))"
| "op_valid tt (Derive (KUnsized e)) = (e < length (tt_nodes tt))"
| "op_valid tt (Derive (KFunc r ps n v)) =
     (r < length (tt_nodes tt) \<and> list_all (\<lambda>p. fp_type p < length (tt_nodes tt)) ps)"
| "op_valid tt (Qualify t q) = (t < length (tt_nodes tt))"
| "op_valid tt (SealStruct t fs) =
     (t < length (tt_nodes tt) \<and> list_all (\<lambda>f. sf_type f < length (tt_nodes tt)) fs)"
| "op_valid tt (SealUnion t fs) =
     (t < length (tt_nodes tt) \<and> list_all (\<lambda>f. sf_type f < length (tt_nodes tt)) fs)"
| "op_valid tt op = True"

text \<open>Only the body and the position of a node matter.\<close>

definition body_ok :: "type_body \<Rightarrow> tid \<Rightarrow> bool" where
  "body_ok b t \<longleftrightarrow>
     (case b of
        Pointer p \<Rightarrow> p < t
      | Array e n \<Rightarrow> e < t
      | ArrayUnsized e \<Rightarrow> e < t
      | Func r ps n v \<Rightarrow> r < t \<and> list_all (\<lambda>p. fp_type p < t) ps
      | Struct a \<Rightarrow> agg_ok a
      | Union a \<Rightarrow> agg_ok a
      | _ \<Rightarrow> True)"

lemma node_ok_body: "node_ok ns t = body_ok (body ns t) t"
  by (simp add: node_ok_def body_ok_def split: type_body.split)

lemma body_ok_later: "body_ok b t \<Longrightarrow> t \<le> u \<Longrightarrow> body_ok b u"
  by (auto simp: body_ok_def list_all_iff split: type_body.splits)

lemma nodes_ok_append: "nodes_ok ns \<Longrightarrow> body_ok (tn_body n) (length ns) \<Longrightarrow> nodes_ok (ns @ [n])"
  by (auto simp: nodes_ok_def node_ok_body nth_append less_Suc_eq)

lemma nodes_ok_update: "nodes_ok ns \<Longrightarrow> body_ok (tn_body n) t \<Longrightarrow> nodes_ok (ns[t := n])"
  unfolding nodes_ok_def node_ok_body
  by (metis length_list_update nth_list_update_eq nth_list_update_neq)

lemma seal_struct_ok:
  assumes "nodes_ok ns" "list_all (\<lambda>f. sf_type f < length ns) (ag_fields a)"
  shows "agg_ok (seal_struct ns a)"
proof -
  have m: "pow2 (ss_max_align (snd (seal_fields ns fs s)))"
    if "list_all (\<lambda>f. sf_type f < length ns) fs" "pow2 (ss_max_align s)" for fs s
    using that
  proof (induction fs arbitrary: s)
    case (Cons f fs)
    let ?r = "seal_field (type_alignof ns (sf_type f)) (type_sizeof ns (sf_type f)) f s"
    have "ss_max_align (snd ?r) \<in> {ss_max_align s, type_alignof ns (sf_type f)}"
      by (auto simp: seal_field_def Let_def)
    then have "pow2 (ss_max_align (snd ?r))"
      using Cons.prems alignof_pow2 [OF assms(1), of "sf_type f"] by auto
    then show ?case using Cons by (simp add: split_beta)
  qed simp
  have "pow2 (ss_max_align (snd (seal_fields ns (ag_fields a) seal_start)))"
    by (rule m [OF assms(2)]) (simp add: seal_start_def)
  then show ?thesis using pow2_round_up(1) by (simp add: agg_ok_def seal_struct_def split_beta)
qed

lemma seal_union_ok:
  assumes "nodes_ok ns" "list_all (\<lambda>f. sf_type f < length ns) (ag_fields a)"
  shows "agg_ok (seal_union ns a)"
proof -
  have "pow2 (max_over (\<lambda>f. type_alignof ns (sf_type f)) m fs)"
    if "list_all (\<lambda>f. sf_type f < length ns) fs" "pow2 m" for m fs
    using that by (induction fs arbitrary: m) (auto simp: max_over_def alignof_pow2 [OF assms(1)])
  from this [OF assms(2), of 1] show ?thesis
    using pow2_round_up(1) by (simp add: agg_ok_def seal_union_def Let_def)
qed

lemma run_op_nodes_ok:
  assumes "nodes_ok (tt_nodes tt)" "op_valid tt op"
  shows "nodes_ok (tt_nodes (run_op adr op tt))"
proof (cases op)
  case (Derive k)
  have "body_ok (tn_body (key_node k)) (length (tt_nodes tt))"
    using assms(2) Derive by (cases k) (auto simp: key_node_def body_ok_def)
  then show ?thesis
    using assms(1) Derive
    by (auto simp: derive_eq push_interned_def alloc_node_def Let_def nodes_ok_append split: option.split)
next
  case (Qualify t q)
  then have "body_ok (body (tt_nodes tt) t) (length (tt_nodes tt))"
    using assms body_ok_later [of _ t] by (simp add: nodes_ok_def node_ok_body)
  then show ?thesis
    using assms(1) Qualify by (simp add: type_qualify_def Let_def alloc_node_def nodes_ok_append)
next
  case (SealStruct t fs)
  then show ?thesis
    using assms seal_struct_ok [OF assms(1)]
    by (auto simp: type_seal_struct_def Let_def body_ok_def intro!: nodes_ok_update split: type_body.split)
next
  case (SealUnion t fs)
  then show ?thesis
    using assms seal_union_ok [OF assms(1)]
    by (auto simp: type_seal_union_def Let_def body_ok_def intro!: nodes_ok_update split: type_body.split)
qed (use assms(1) in \<open>auto simp: type_struct_def type_union_def type_enum_def alloc_node_def body_ok_def
    agg_ok_def incomplete_agg_def intro!: nodes_ok_append\<close>)


subsection \<open>Compatibility\<close>

lemma compatible_sym:
  "nodes_ok ns \<Longrightarrow> a < length ns \<Longrightarrow> b < length ns \<Longrightarrow> type_compatible ns a b \<Longrightarrow> type_compatible ns b a"
proof (induction ns a b rule: type_compatible.induct)
  case (1 ns a b)
  have oa: "body_ok (body ns a) a" and ob: "body_ok (body ns b) b"
    using "1.prems" by (auto simp: nodes_ok_def node_ok_body)
  show ?case
  proof (cases "a = b")
    case True
    then show ?thesis by (simp add: type_compatible.simps)
  next
    case False
    note c = "1.prems"(4) [unfolded type_compatible.simps [of ns a b]]
    show ?thesis
    proof (cases "body ns a"; cases "body ns b")
      fix p q assume b: "body ns a = Pointer p" "body ns b = Pointer q"
      then have "type_compatible ns q p"
        using "1.IH"(1) [OF False, of "Pointer p" "Pointer q" p q] c oa ob False "1.prems"(1-3)
        by (auto simp: body_ok_def split: if_splits)
      then show ?thesis using b ob by (simp add: type_compatible.simps [of ns b a] body_ok_def)
    next
      fix e n e' n' assume b: "body ns a = Array e n" "body ns b = Array e' n'"
      then have "type_compatible ns e' e" "n = n'"
        using "1.IH"(2) [OF False, of "Array e n" "Array e' n'" e n e' n'] c oa ob False "1.prems"(1-3)
        by (auto simp: body_ok_def split: if_splits)
      then show ?thesis using b ob by (simp add: type_compatible.simps [of ns b a] body_ok_def)
    next
      fix e e' assume b: "body ns a = ArrayUnsized e" "body ns b = ArrayUnsized e'"
      then have "type_compatible ns e' e"
        using "1.IH"(3) [OF False, of "ArrayUnsized e" "ArrayUnsized e'" e e'] c oa ob False "1.prems"(1-3)
        by (auto simp: body_ok_def split: if_splits)
      then show ?thesis using b ob by (simp add: type_compatible.simps [of ns b a] body_ok_def)
    next
      fix r ps n v r' ps' n' v'
      assume b: "body ns a = Func r ps n v" "body ns b = Func r' ps' n' v'"
      have r: "type_compatible ns r r'" "n = n'" "v = v'"
        and l: "list_all2 (\<lambda>p q. fp_type p < a \<and> type_compatible ns (fp_type p) (fp_type q)) ps ps'"
        using c False b by (auto split: if_splits elim!: list_all2_mono)
      have older: "r < a" "r' < b" "\<forall>p \<in> set ps. fp_type p < a" "\<forall>p \<in> set ps'. fp_type p < b"
        using oa ob b by (auto simp: body_ok_def list_all_iff)
      have "type_compatible ns r' r"
        using "1.IH"(4) [OF False refl b] r older "1.prems"(1-3) b by auto
      moreover have "list_all2 (\<lambda>q p. if fp_type q < b then type_compatible ns (fp_type q) (fp_type p) else False) ps' ps"
        unfolding list_all2_conv_all_nth
      proof (intro conjI allI impI)
        show len: "length ps' = length ps" using l by (simp add: list_all2_lengthD)
        fix i assume i: "i < length ps'"
        then have m: "ps ! i \<in> set ps" "ps' ! i \<in> set ps'" using len by auto
        have "type_compatible ns (fp_type (ps ! i)) (fp_type (ps' ! i))"
          using l i len by (simp add: list_all2_conv_all_nth)
        then have "type_compatible ns (fp_type (ps' ! i)) (fp_type (ps ! i))"
          using "1.IH"(5) [OF False refl b m] older m "1.prems"(1-3) b by force
        then show "if fp_type (ps' ! i) < b then type_compatible ns (fp_type (ps' ! i)) (fp_type (ps ! i)) else False"
          using older m by simp
      qed
      ultimately show ?thesis
        using b r older by (simp add: type_compatible.simps [of ns b a])
    qed (use c False in \<open>auto simp: type_compatible.simps [of ns b a] split: if_splits\<close>)
  qed
qed

text \<open>Type_compatible is reflexive and symmetric on well-formed stores.\<close>

theorem type_compatible_symmetric:
  assumes "nodes_ok ns" "a < length ns" "b < length ns"
  shows "type_compatible ns a a \<and> type_compatible ns a b = type_compatible ns b a"
  using compatible_sym [OF assms] compatible_sym [OF assms(1,3,2)]
  by (auto simp: type_compatible.simps [of ns a a])

subsection \<open>Printing stays inside the buffer\<close>

lemma append_buf_length: "snd bp \<le> length (fst bp) \<Longrightarrow> length (fst (append_buf s bp)) = length (fst bp)
  \<and> snd (append_buf s bp) \<le> length (fst bp)
  \<and> (snd bp < length (fst bp) \<longrightarrow> snd (append_buf s bp) < length (fst bp))"
  by (cases bp) (auto simp: append_buf_def Let_def)

lemma fold_append_buf:
  assumes "pos < length buf"
  shows "length (fst (fold append_buf ps (buf, pos))) = length buf
    \<and> snd (fold append_buf ps (buf, pos)) < length buf
    \<and> (pos + length (concat ps) < length buf \<longrightarrow>
        fold append_buf ps (buf, pos)
        = (take pos buf @ concat ps @ drop (pos + length (concat ps)) buf, pos + length (concat ps)))"
  using assms
proof (induction ps arbitrary: buf pos)
  case (Cons p ps)
  obtain buf' pos' where e: "append_buf p (buf, pos) = (buf', pos')" by fastforce
  have l: "length buf' = length buf" "pos' < length buf"
    using append_buf_length [of "(buf, pos)" p] Cons.prems e by auto
  note ih = Cons.IH [of pos' buf']
  have fit: "buf' = take pos buf @ p @ drop (pos + length p) buf \<and> pos' = pos + length p"
    if "pos + length p < length buf"
    using e that by (auto simp: append_buf_def Let_def)
  show ?case
    using ih l e fit Cons.prems by (auto simp: algebra_simps)
qed simp


subsection \<open>Where the code differs from what it says\<close>

text \<open>A const-qualified struct is a copy of its node, and type_compatible, which says it
  ignores top-level qualifiers, finds the two incompatible; for int it does ignore them.\<close>

theorem qualified_struct_incompatible:
  "let (tt, s) = type_struct type_table_init (Some ''S'');
       (tt, cs) = type_qualify tt s QUAL_CONST;
       (tt, ci) = type_qualify tt type_int QUAL_CONST
   in \<not> type_compatible (tt_nodes tt) s cs \<and> type_compatible (tt_nodes tt) type_int ci"
  by code_simp

definition plain_field :: "string \<Rightarrow> tid \<Rightarrow> struct_field" where
  "plain_field name t =
     \<lparr>sf_name = Some name, sf_type = t, sf_offset = 0, sf_bit_width = - 1, sf_bit_offset = 0\<rparr>"

text \<open>A flexible array member is laid out with the size -1 of its type: a struct of a char
  and a flexible array of char gets size 0.\<close>

theorem flexible_array_struct_size:
  "let (tt, fam) = type_array_unsized (\<lambda>t. of_nat t) type_table_init type_char;
       (tt, s) = type_struct tt None;
       tt = type_seal_struct tt s [plain_field ''c'' type_char, plain_field ''data'' fam]
   in type_sizeof (tt_nodes tt) s = 0"
  by code_simp

text \<open>An array of 2^32 chars has size 0 and one of 2^32 + 3 chars size 3, since the count
  is converted to int.\<close>

theorem array_count_truncated:
  "let (tt, a) = type_array (\<lambda>t. of_nat t) type_table_init type_char (2 ^ 32);
       (tt, b) = type_array (\<lambda>t. of_nat t) tt type_char (2 ^ 32 + 3)
   in type_sizeof (tt_nodes tt) a = 0 \<and> type_sizeof (tt_nodes tt) b = 3"
  by code_simp

text \<open>When a type name does not fit, type_print keeps nothing of the piece that overflows:
  what the buffer held before stands between the last piece that fitted and the NUL.\<close>

theorem type_print_truncation_keeps_garbage:
  "type_print scalar_nodes type_uint ''????????'' = ''???????'' @ [NUL]"
  by code_simp

subsection \<open>Witnesses\<close>

lemma scalar_nodes_ok: "nodes_ok scalar_nodes"
  by (simp add: nodes_ok_def node_ok_def scalar_nodes_def split: type_body.split)

definition demo_agg :: agg_info where
  "demo_agg = (incomplete_agg None)\<lparr>ag_fields :=
     [plain_field ''c'' type_char,
      (plain_field ''b'' type_int)\<lparr>sf_bit_width := 3\<rparr>,
      (plain_field ''d'' type_int)\<lparr>sf_bit_width := 30\<rparr>,
      plain_field ''x'' type_double]\<rparr>"

lemma demo_agg_ok: "list_all (field_ok scalar_nodes) (ag_fields demo_agg)"
  by code_simp

lemma sizeof_multiple_of_alignof_witness:
  "type_alignof scalar_nodes type_ldouble \<in> {1, 2, 4, 8, 16}"
proof -
  have "counts_fit scalar_nodes" "type_ldouble < length scalar_nodes" by code_simp+
  from sizeof_multiple_of_alignof [OF scalar_nodes_ok this] show ?thesis by blast
qed


lemma seal_union_layout_witness:
  "0 \<le> ag_size (seal_union scalar_nodes demo_agg)"
proof -
  have "list_all (\<lambda>f. sf_type f < length scalar_nodes) (ag_fields demo_agg)" by code_simp
  from seal_union_layout [OF scalar_nodes_ok this] show ?thesis by (simp add: Let_def)
qed


lemma type_compatible_symmetric_witness:
  "type_compatible scalar_nodes type_int type_long = type_compatible scalar_nodes type_long type_int"
proof -
  have "type_int < length scalar_nodes" "type_long < length scalar_nodes" by code_simp+
  from type_compatible_symmetric [OF scalar_nodes_ok this] show ?thesis by blast
qed


end
