(* ===== verification/IR.thy ===== *)
theory IR
  imports CTypeProps
begin

section \<open>The intermediate representation (ir.c, ir.h)\<close>

text \<open>
  Three-address code: a function is a list of instructions over an unlimited number of
  temporaries. The array of instructions is the list of its used part with its capacity;
  the instruction a caller of ir_emit fills in is the last one (\<open>last_instr\<close>). Linked
  lists have the newest element first. The value of a floating constant is its text, as in
  the lexer, and \<open>fmt_g\<close> prints it with \<open>%g\<close>. Allocation does not fail (theory Arena).
\<close>

subsection \<open>Data\<close>

datatype ir_operand =
    IRV_TEMP int
  | IRV_CONST_INT int
  | IRV_CONST_FLOAT string
  | IRV_GLOBAL string
  | IRV_NONE

record ir_value =
  iv_op :: ir_operand
  iv_type :: "tid option"

definition irv_none :: ir_value where
  "irv_none = \<lparr>iv_op = IRV_NONE, iv_type = None\<rparr>"

definition irv_temp :: "int \<Rightarrow> tid \<Rightarrow> ir_value" where
  "irv_temp i t = \<lparr>iv_op = IRV_TEMP i, iv_type = Some t\<rparr>"

definition irv_int :: "int \<Rightarrow> tid \<Rightarrow> ir_value" where
  "irv_int c t = \<lparr>iv_op = IRV_CONST_INT c, iv_type = Some t\<rparr>"

definition irv_float :: "string \<Rightarrow> tid \<Rightarrow> ir_value" where
  "irv_float c t = \<lparr>iv_op = IRV_CONST_FLOAT c, iv_type = Some t\<rparr>"

definition irv_global :: "string \<Rightarrow> tid \<Rightarrow> ir_value" where
  "irv_global name t = \<lparr>iv_op = IRV_GLOBAL name, iv_type = Some t\<rparr>"

datatype (plugins only: code size) IROp =
    IR_NOP | IR_COPY | IR_LOAD | IR_STORE | IR_ADDR | IR_LOAD_IMM
  | IR_ADD | IR_SUB | IR_MUL | IR_DIV | IR_MOD | IR_AND | IR_OR | IR_XOR | IR_SHL | IR_SHR
  | IR_NEG | IR_NOT | IR_EQ | IR_NE | IR_LT | IR_LE | IR_GT | IR_GE
  | IR_SEXT | IR_ZEXT | IR_TRUNC | IR_ITOF | IR_FTOI
  | IR_LABEL | IR_JMP | IR_JZ | IR_JNZ | IR_CALL | IR_RET | IR_ALLOCA | IR_MEMCPY | IR_GLOBAL_DEF

record ir_instr =
  in_op :: IROp
  in_dst :: ir_value
  in_src1 :: ir_value
  in_src2 :: ir_value
  in_label :: int
  in_alloca_size :: int
  in_alloca_align :: int
  in_call_args :: "ir_value list"
  in_call_sret :: bool
  in_call_ret_ty :: "tid option"
  in_line :: int

record ir_func =
  fn_name :: string
  fn_type :: tid
  fn_instrs :: "ir_instr list"
  fn_cap :: nat
  fn_next_temp :: int
  fn_next_label :: int
  fn_is_static :: bool
  fn_sret_temp :: int

record ir_str_const =
  sc_label :: string
  sc_data :: string

record ir_global_var =
  gv_name :: string
  gv_type :: tid
  gv_init_val :: int
  gv_has_init :: bool
  gv_init_data :: "string option"
  gv_init_size :: int
  gv_is_static :: bool

record ir_module =
  md_funcs :: "ir_func list"
  md_cap :: nat
  md_str_consts :: "ir_str_const list"
  md_next_str_id :: nat
  md_global_vars :: "ir_global_var list"

subsection \<open>Building\<close>

definition ir_module_new :: ir_module where
  "ir_module_new = \<lparr>md_funcs = [], md_cap = 16, md_str_consts = [], md_next_str_id = 0, md_global_vars = []\<rparr>"

text \<open>strcmp compares up to the first NUL.\<close>

definition ir_add_string_const :: "ir_module \<Rightarrow> string \<Rightarrow> ir_module \<times> string" where
  "ir_add_string_const m data =
     (case List.find (\<lambda>s. c_str (sc_data s) = c_str data) (md_str_consts m) of
        Some s \<Rightarrow> (m, sc_label s)
      | None \<Rightarrow>
          let label = ''.Lstr'' @ show_nat (md_next_str_id m)
          in (m\<lparr>md_next_str_id := md_next_str_id m + 1,
                md_str_consts := \<lparr>sc_label = label, sc_data = data\<rparr> # md_str_consts m\<rparr>, label))"

definition ir_func_new :: "ir_module \<Rightarrow> string \<Rightarrow> tid \<Rightarrow> bool \<Rightarrow> ir_module \<times> nat" where
  "ir_func_new m name func_type is_static =
     (let m = (if length (md_funcs m) = md_cap m then m\<lparr>md_cap := md_cap m * 2\<rparr> else m);
          f = \<lparr>fn_name = name, fn_type = func_type, fn_instrs = [], fn_cap = 64, fn_next_temp = 1,
               fn_next_label = 1, fn_is_static = is_static, fn_sret_temp = 0\<rparr>
      in (m\<lparr>md_funcs := md_funcs m @ [f]\<rparr>, length (md_funcs m)))"

definition ir_emit :: "ir_func \<Rightarrow> IROp \<Rightarrow> ir_value \<Rightarrow> ir_value \<Rightarrow> ir_value \<Rightarrow> ir_func" where
  "ir_emit f op dst src1 src2 =
     (let f = (if length (fn_instrs f) = fn_cap f then f\<lparr>fn_cap := fn_cap f * 2\<rparr> else f)
      in f\<lparr>fn_instrs := fn_instrs f @
            [\<lparr>in_op = op, in_dst = dst, in_src1 = src1, in_src2 = src2, in_label = 0, in_alloca_size = 0,
              in_alloca_align = 0, in_call_args = [], in_call_sret = False, in_call_ret_ty = None,
              in_line = 0\<rparr>]\<rparr>)"

text \<open>A write through the pointer ir_emit has just returned.\<close>

definition last_instr :: "(ir_instr \<Rightarrow> ir_instr) \<Rightarrow> ir_func \<Rightarrow> ir_func" where
  "last_instr g f = f\<lparr>fn_instrs := butlast (fn_instrs f) @ [g (last (fn_instrs f))]\<rparr>"

definition ir_new_temp :: "ir_func \<Rightarrow> int \<times> ir_func" where
  "ir_new_temp f = (fn_next_temp f, f\<lparr>fn_next_temp := fn_next_temp f + 1\<rparr>)"

definition ir_new_label :: "ir_func \<Rightarrow> int \<times> ir_func" where
  "ir_new_label f = (fn_next_label f, f\<lparr>fn_next_label := fn_next_label f + 1\<rparr>)"

definition ir_emit_label :: "ir_func \<Rightarrow> int \<Rightarrow> ir_func" where
  "ir_emit_label f l = last_instr (\<lambda>i. i\<lparr>in_label := l\<rparr>) (ir_emit f IR_LABEL irv_none irv_none irv_none)"

definition ir_emit_jmp :: "ir_func \<Rightarrow> int \<Rightarrow> ir_func" where
  "ir_emit_jmp f l = last_instr (\<lambda>i. i\<lparr>in_label := l\<rparr>) (ir_emit f IR_JMP irv_none irv_none irv_none)"

definition ir_emit_jz :: "ir_func \<Rightarrow> ir_value \<Rightarrow> int \<Rightarrow> ir_func" where
  "ir_emit_jz f cond l = last_instr (\<lambda>i. i\<lparr>in_label := l\<rparr>) (ir_emit f IR_JZ irv_none cond irv_none)"

definition ir_emit_jnz :: "ir_func \<Rightarrow> ir_value \<Rightarrow> int \<Rightarrow> ir_func" where
  "ir_emit_jnz f cond l = last_instr (\<lambda>i. i\<lparr>in_label := l\<rparr>) (ir_emit f IR_JNZ irv_none cond irv_none)"

definition ir_add_global_var ::
    "ir_module \<Rightarrow> string \<Rightarrow> tid \<Rightarrow> int \<Rightarrow> bool \<Rightarrow> bool \<Rightarrow> ir_module" where
  "ir_add_global_var m name ty init_val has_init is_static =
     m\<lparr>md_global_vars := \<lparr>gv_name = name, gv_type = ty, gv_init_val = init_val, gv_has_init = has_init,
         gv_init_data = None, gv_init_size = 0, gv_is_static = is_static\<rparr> # md_global_vars m\<rparr>"

subsection \<open>Printing\<close>

definition print_val :: "(string \<Rightarrow> string) \<Rightarrow> ir_value \<Rightarrow> string" where
  "print_val fmt_g v =
     (case iv_op v of
        IRV_NONE \<Rightarrow> ''-''
      | IRV_TEMP t \<Rightarrow> ''t'' @ show_int t
      | IRV_CONST_INT c \<Rightarrow> show_int c
      | IRV_CONST_FLOAT x \<Rightarrow> fmt_g x
      | IRV_GLOBAL g \<Rightarrow> ''@'' @ g)"

fun op_name :: "IROp \<Rightarrow> string" where
  "op_name IR_NOP = ''nop''"
| "op_name IR_COPY = ''copy''"
| "op_name IR_LOAD = ''load''"
| "op_name IR_STORE = ''store''"
| "op_name IR_ADDR = ''addr''"
| "op_name IR_LOAD_IMM = ''imm''"
| "op_name IR_ADD = ''add''"
| "op_name IR_SUB = ''sub''"
| "op_name IR_MUL = ''mul''"
| "op_name IR_DIV = ''div''"
| "op_name IR_MOD = ''mod''"
| "op_name IR_AND = ''and''"
| "op_name IR_OR = ''or''"
| "op_name IR_XOR = ''xor''"
| "op_name IR_SHL = ''shl''"
| "op_name IR_SHR = ''shr''"
| "op_name IR_NEG = ''neg''"
| "op_name IR_NOT = ''not''"
| "op_name IR_EQ = ''eq''"
| "op_name IR_NE = ''ne''"
| "op_name IR_LT = ''lt''"
| "op_name IR_LE = ''le''"
| "op_name IR_GT = ''gt''"
| "op_name IR_GE = ''ge''"
| "op_name IR_SEXT = ''sext''"
| "op_name IR_ZEXT = ''zext''"
| "op_name IR_TRUNC = ''trunc''"
| "op_name IR_ITOF = ''itof''"
| "op_name IR_FTOI = ''ftoi''"
| "op_name IR_LABEL = ''label''"
| "op_name IR_JMP = ''jmp''"
| "op_name IR_JZ = ''jz''"
| "op_name IR_JNZ = ''jnz''"
| "op_name IR_CALL = ''call''"
| "op_name IR_RET = ''ret''"
| "op_name IR_ALLOCA = ''alloca''"
| "op_name IR_MEMCPY = ''memcpy''"
| "op_name IR_GLOBAL_DEF = ''global''"

text \<open>\<open>%-8s\<close>, and the argument list of a call.\<close>

definition pad8 :: "string \<Rightarrow> string" where
  "pad8 s = s @ replicate (8 - length s) (CHR '' '')"

fun print_args :: "(string \<Rightarrow> string) \<Rightarrow> ir_value list \<Rightarrow> string" where
  "print_args fmt_g [] = []"
| "print_args fmt_g [v] = print_val fmt_g v"
| "print_args fmt_g (v # vs) = print_val fmt_g v @ '', '' @ print_args fmt_g vs"

definition print_instr :: "(string \<Rightarrow> string) \<Rightarrow> ir_instr \<Rightarrow> string" where
  "print_instr fmt_g i =
     (if in_op i = IR_LABEL then ''L'' @ show_int (in_label i) @ '':'' @ [CHR 0x0A]
      else ''  '' @ pad8 (op_name (in_op i)) @ ''  '' @
       (if in_op i = IR_JMP \<or> in_op i = IR_JZ \<or> in_op i = IR_JNZ
        then (if in_op i \<noteq> IR_JMP then print_val fmt_g (in_src1 i) @ '' -> '' else [])
             @ ''L'' @ show_int (in_label i)
        else if in_op i = IR_RET
        then (if iv_op (in_src1 i) \<noteq> IRV_NONE then print_val fmt_g (in_src1 i) else [])
        else if in_op i = IR_ALLOCA
        then print_val fmt_g (in_dst i) @ ''  [size='' @ show_int (in_alloca_size i) @ '' align=''
             @ show_int (in_alloca_align i) @ '']''
        else if in_op i = IR_CALL
        then print_val fmt_g (in_dst i) @ '' = call '' @ print_val fmt_g (in_src1 i) @ ''(''
             @ print_args fmt_g (in_call_args i) @ '')''
        else (if iv_op (in_dst i) \<noteq> IRV_NONE then print_val fmt_g (in_dst i) @ '' = '' else [])
             @ (if iv_op (in_src1 i) \<noteq> IRV_NONE then print_val fmt_g (in_src1 i) else [])
             @ (if iv_op (in_src2 i) \<noteq> IRV_NONE then '', '' @ print_val fmt_g (in_src2 i) else []))
       @ [CHR 0x0A])"

definition ir_print_func :: "(string \<Rightarrow> string) \<Rightarrow> ir_func \<Rightarrow> string" where
  "ir_print_func fmt_g f =
     ''func '' @ fn_name f @ '':'' @ [CHR 0x0A] @ concat (map (print_instr fmt_g) (fn_instrs f))"

definition ir_print :: "(string \<Rightarrow> string) \<Rightarrow> ir_module \<Rightarrow> string" where
  "ir_print fmt_g m = concat (map (\<lambda>f. ir_print_func fmt_g f @ [CHR 0x0A]) (md_funcs m))"

subsection \<open>Building keeps what was built\<close>

definition func_ok :: "ir_func \<Rightarrow> bool" where
  "func_ok f \<longleftrightarrow> length (fn_instrs f) \<le> fn_cap f \<and> 0 < fn_cap f \<and> 1 \<le> fn_next_temp f \<and> 1 \<le> fn_next_label f"

lemma ir_emit_instrs:
  "fn_instrs (ir_emit f op d a b) = fn_instrs f @
    [\<lparr>in_op = op, in_dst = d, in_src1 = a, in_src2 = b, in_label = 0, in_alloca_size = 0,
      in_alloca_align = 0, in_call_args = [], in_call_sret = False, in_call_ret_ty = None, in_line = 0\<rparr>]"
  "fn_next_temp (ir_emit f op d a b) = fn_next_temp f"
  "fn_next_label (ir_emit f op d a b) = fn_next_label f"
  by (simp_all add: ir_emit_def Let_def)

lemma ir_emit_ok: "func_ok f \<Longrightarrow> func_ok (ir_emit f op d a b)"
  by (auto simp: func_ok_def ir_emit_def Let_def)

lemma last_instr_ok: "func_ok f \<Longrightarrow> fn_instrs f \<noteq> [] \<Longrightarrow> func_ok (last_instr g f)"
  by (auto simp: func_ok_def last_instr_def Suc_le_eq)

lemma ir_emit_jumps_instrs:
  "fn_instrs (ir_emit_label f l) = fn_instrs f @ [last (fn_instrs (ir_emit_label f l))]"
  "fn_instrs (ir_emit_jmp f l) = fn_instrs f @ [last (fn_instrs (ir_emit_jmp f l))]"
  "fn_instrs (ir_emit_jz f c l) = fn_instrs f @ [last (fn_instrs (ir_emit_jz f c l))]"
  "fn_instrs (ir_emit_jnz f c l) = fn_instrs f @ [last (fn_instrs (ir_emit_jnz f c l))]"
  by (simp_all add: ir_emit_label_def ir_emit_jmp_def ir_emit_jz_def ir_emit_jnz_def last_instr_def
      ir_emit_instrs)

subsection \<open>String constants\<close>

definition str_consts_ok :: "ir_module \<Rightarrow> bool" where
  "str_consts_ok m \<longleftrightarrow>
     (\<forall>s \<in> set (md_str_consts m). \<exists>k < md_next_str_id m. sc_label s = ''.Lstr'' @ show_nat k)
     \<and> distinct (map sc_label (md_str_consts m))
     \<and> distinct (map (\<lambda>s. c_str (sc_data s)) (md_str_consts m))"

definition label_data :: "ir_module \<Rightarrow> string \<Rightarrow> string option" where
  "label_data m label = map_option (\<lambda>s. c_str (sc_data s)) (List.find (\<lambda>s. sc_label s = label) (md_str_consts m))"

lemma find_distinct:
  "distinct (map g xs) \<Longrightarrow> x \<in> set xs \<Longrightarrow> List.find (\<lambda>y. g y = g x) xs = Some x"
  by (induction xs) auto

lemma find_map_None: "List.find (\<lambda>y. g y = k) xs = None \<longleftrightarrow> k \<notin> set (map g xs)"
  by (induction xs) auto

lemma label_data_Some:
  assumes "str_consts_ok m"
  shows "label_data m l = Some d \<longleftrightarrow> (\<exists>s \<in> set (md_str_consts m). sc_label s = l \<and> c_str (sc_data s) = d)"
proof
  assume "label_data m l = Some d"
  then show "\<exists>s \<in> set (md_str_consts m). sc_label s = l \<and> c_str (sc_data s) = d"
    by (auto simp: label_data_def find_Some_iff)
next
  assume "\<exists>s \<in> set (md_str_consts m). sc_label s = l \<and> c_str (sc_data s) = d"
  then show "label_data m l = Some d"
    using assms find_distinct [of sc_label "md_str_consts m"] by (auto simp: label_data_def str_consts_ok_def)
qed

lemma add_string_cases:
  assumes "ir_add_string_const m data = (m', l)"
  obtains (old) s where "m' = m" "s \<in> set (md_str_consts m)" "c_str (sc_data s) = c_str data" "l = sc_label s"
  | (new) "md_str_consts m' = \<lparr>sc_label = l, sc_data = data\<rparr> # md_str_consts m"
      "md_next_str_id m' = Suc (md_next_str_id m)" "l = ''.Lstr'' @ show_nat (md_next_str_id m)"
      "c_str data \<notin> set (map (\<lambda>s. c_str (sc_data s)) (md_str_consts m))"
proof (cases "List.find (\<lambda>s. c_str (sc_data s) = c_str data) (md_str_consts m)")
  case None
  then have "c_str data \<notin> set (map (\<lambda>s. c_str (sc_data s)) (md_str_consts m))"
    by (auto simp: find_None_iff)
  then show ?thesis using assms None by (intro new) (auto simp: ir_add_string_const_def Let_def)
next
  case (Some s)
  then have "s \<in> set (md_str_consts m)" "c_str (sc_data s) = c_str data"
    by (auto simp: find_Some_iff)
  then show ?thesis using assms Some by (intro old) (auto simp: ir_add_string_const_def)
qed

lemma add_string_ok:
  assumes "str_consts_ok m" "ir_add_string_const m data = (m', l)"
  shows "str_consts_ok m'"
  using assms(2)
proof (cases rule: add_string_cases)
  case (old s)
  then show ?thesis using assms(1) by simp
next
  case new
  have "l \<notin> set (map sc_label (md_str_consts m))"
    using assms(1) new(3) by (force simp: str_consts_ok_def show_nat_inj)
  then show ?thesis
    using assms(1) new by (auto simp: str_consts_ok_def less_Suc_eq)
qed

interpretation str_consts: interner "\<lambda>m s. Some (ir_add_string_const m s)" label_data
  "\<lambda>s. NUL \<notin> set s" str_consts_ok
proof
  fix m m' :: ir_module and s l
  assume a: "str_consts_ok m" "NUL \<notin> set s" "Some (ir_add_string_const m s) = Some (m', l)"
  then have r: "ir_add_string_const m s = (m', l)" by simp
  show ok: "str_consts_ok m'" by (rule add_string_ok [OF a(1) r])
  show "label_data m' l = Some s"
    unfolding label_data_Some [OF ok] using r a(2) by (cases rule: add_string_cases) (auto simp: c_str_id)
  show "label_data m j = Some d \<Longrightarrow> label_data m' j = Some d" for j d
    unfolding label_data_Some [OF ok] label_data_Some [OF a(1)] using r by (cases rule: add_string_cases) auto
next
  fix m j k d
  assume a: "str_consts_ok m" "label_data m j = Some d" "label_data m k = Some d"
  then obtain s t where st: "s \<in> set (md_str_consts m)" "t \<in> set (md_str_consts m)"
    "sc_label s = j" "sc_label t = k" "c_str (sc_data s) = d" "c_str (sc_data t) = d"
    by (auto simp: label_data_Some)
  have "inj_on (\<lambda>s. c_str (sc_data s)) (set (md_str_consts m))"
    using a(1) by (simp add: str_consts_ok_def distinct_map)
  then have "s = t" using st by (auto dest: inj_onD)
  then show "j = k" using st by simp
qed

text \<open>The labels under which string literals are emitted are equal exactly when the
  literals are, for literals without an embedded NUL and in any order of registration.\<close>

theorem string_labels_decide_equality:
  assumes "list_all (\<lambda>s. NUL \<notin> set s) ss"
    and "intern_all (\<lambda>m s. Some (ir_add_string_const m s)) ir_module_new ss = Some (m', ls)"
    and "i < length ss" "j < length ss"
  shows "ls ! i = ls ! j \<longleftrightarrow> ss ! i = ss ! j"
  by (rule str_consts.keys_eq_iff [OF _ assms])
    (simp add: str_consts_ok_def ir_module_new_def)

lemma string_labels_decide_equality_witness:
  "\<exists>m' ls. intern_all (\<lambda>m s. Some (ir_add_string_const m s)) ir_module_new [''a'', ''b''] = Some (m', ls)
     \<and> ls ! 0 \<noteq> ls ! 1"
proof -
  obtain m1 l1 where 1: "ir_add_string_const ir_module_new ''a'' = (m1, l1)" by fastforce
  obtain m' l2 where 2: "ir_add_string_const m1 ''b'' = (m', l2)" by fastforce
  obtain ls where r: "intern_all (\<lambda>m s. Some (ir_add_string_const m s)) ir_module_new [''a'', ''b''] = Some (m', ls)"
    by (simp add: 1 2)
  have "list_all (\<lambda>s. NUL \<notin> set s) [''a'', ''b'']" by (simp add: NUL_def)
  from string_labels_decide_equality [OF this r, of 0 1] r show ?thesis by auto
qed

text \<open>Two different literals that agree up to an embedded NUL get the same label, and only
  the bytes of the first are kept.\<close>

theorem embedded_nul_literals_merged:
  "let (m, l1) = ir_add_string_const ir_module_new (''a'' @ [NUL] @ ''b'');
       (m, l2) = ir_add_string_const m (''a'' @ [NUL] @ ''c'')
   in l1 = l2 \<and> length (md_str_consts m) = 1"
  by code_simp

end
