(* ===== verification/Regalloc.thy ===== *)
theory Regalloc
  imports IR
begin

section \<open>Stack slots (regalloc.c, regalloc.h)\<close>

text \<open>
  Every temporary gets an 8 byte slot, and every alloca a region below the slots. The
  offsets are relative to the frame pointer. The loop over the instructions is
  \<open>alloca_loop\<close>; an alloca whose temporary is outside the two arrays would write outside
  them, which the model shows as an unchanged list.
\<close>

record reg_alloc =
  ra_slot :: "int list"
  ra_alloca_off :: "int list"
  ra_n_temps :: int
  ra_frame_size :: int

definition alloca_size_of :: "ir_instr \<Rightarrow> int" where
  "alloca_size_of i = (if in_alloca_size i > 0 then in_alloca_size i else 8)"

definition alloca_align_of :: "ir_instr \<Rightarrow> int" where
  "alloca_align_of i = (if in_alloca_align i > 0 then in_alloca_align i else 8)"

fun alloca_loop :: "ir_instr list \<Rightarrow> int \<Rightarrow> int list \<Rightarrow> int \<times> int list" where
  "alloca_loop [] cur off = (cur, off)"
| "alloca_loop (i # is) cur off =
     (case iv_op (in_dst i) of
        IRV_TEMP t \<Rightarrow>
          if in_op i = IR_ALLOCA
          then let cur = round_up cur (alloca_align_of i) + alloca_size_of i
               in alloca_loop is cur (off[nat t := - cur])
          else alloca_loop is cur off
      | _ \<Rightarrow> alloca_loop is cur off)"

definition regalloc_run :: "ir_func \<Rightarrow> reg_alloc" where
  "regalloc_run f =
     (let n = fn_next_temp f;
          slot = map (\<lambda>t. if 1 \<le> t \<and> int t < n then - 8 * int t else 0) [0..<nat (n + 1)];
          (cur, off) = alloca_loop (fn_instrs f) (8 * n) (replicate (nat (n + 1)) 0);
          size = round_up cur 16
      in \<lparr>ra_slot = slot, ra_alloca_off = off, ra_n_temps = n,
         ra_frame_size = (if size = 0 then 16 else size)\<rparr>)"

subsection \<open>The allocas of a function\<close>

text \<open>The temporaries of the allocas, in order, and the instruction of each.\<close>

definition allocas :: "ir_instr list \<Rightarrow> (nat \<times> ir_instr) list" where
  "allocas is = concat (map (\<lambda>i. case iv_op (in_dst i) of
       IRV_TEMP t \<Rightarrow> if in_op i = IR_ALLOCA then [(nat t, i)] else []
     | _ \<Rightarrow> []) is)"

text \<open>Each alloca writes a temporary of its own, one the function has created, and its
  alignment is one type_alignof gives.\<close>

definition allocas_ok :: "ir_func \<Rightarrow> bool" where
  "allocas_ok f \<longleftrightarrow> 1 \<le> fn_next_temp f \<and> distinct (map fst (allocas (fn_instrs f)))
     \<and> list_all (\<lambda>(t, i). int t < fn_next_temp f \<and> pow2 (alloca_align_of i)) (allocas (fn_instrs f))"

lemma allocas_simps:
  "allocas [] = []"
  "iv_op (in_dst i) = IRV_TEMP t \<Longrightarrow> in_op i = IR_ALLOCA \<Longrightarrow> allocas (i # is) = (nat t, i) # allocas is"
  "in_op i \<noteq> IR_ALLOCA \<Longrightarrow> allocas (i # is) = allocas is"
  "\<forall>t. iv_op (in_dst i) \<noteq> IRV_TEMP t \<Longrightarrow> allocas (i # is) = allocas is"
  by (auto simp: allocas_def split: ir_operand.splits)

lemma alloca_size_pos: "0 < alloca_size_of i"
  by (simp add: alloca_size_of_def)

lemma alloca_loop_spec:
  assumes "alloca_loop is cur off = (cur', off')" "distinct (map fst (allocas is))"
    "list_all (\<lambda>(t, i). t < length off \<and> pow2 (alloca_align_of i)) (allocas is)"
  shows "cur \<le> cur' \<and> length off' = length off
    \<and> (\<forall>t. t \<notin> fst ` set (allocas is) \<longrightarrow> off' ! t = off ! t)
    \<and> list_all (\<lambda>(t, i). - cur' \<le> off' ! t \<and> off' ! t + alloca_size_of i \<le> - cur
          \<and> alloca_align_of i dvd (off' ! t + alloca_size_of i)) (allocas is)
    \<and> sorted_wrt (\<lambda>(t, i) (u, j). off' ! u + alloca_size_of j \<le> off' ! t) (allocas is)"
  using assms
proof (induction "is" arbitrary: cur off)
  case Nil
  then show ?case by (simp add: allocas_simps)
next
  case (Cons i "is")
  show ?case
  proof (cases "\<exists>t. iv_op (in_dst i) = IRV_TEMP t \<and> in_op i = IR_ALLOCA")
    case False
    have skip: "allocas (i # is) = allocas is" "alloca_loop (i # is) cur off = alloca_loop is cur off"
      using False allocas_simps(3,4) by (auto split: ir_operand.split)
    show ?thesis using Cons.IH Cons.prems unfolding skip by blast
  next
    case True
    then obtain t where t: "iv_op (in_dst i) = IRV_TEMP t" "in_op i = IR_ALLOCA" by blast
    note al = allocas_simps(2) [OF t]
    define b where "b = round_up cur (alloca_align_of i)"
    define c where "c = b + alloca_size_of i"
    have loop: "alloca_loop is c (off[nat t := - c]) = (cur', off')"
      using Cons.prems(1) t by (simp add: b_def c_def Let_def)
    have p: "pow2 (alloca_align_of i)" "nat t < length off" using Cons.prems(3) al by auto
    have b: "cur \<le> b" "alloca_align_of i dvd b" using pow2_round_up [OF p(1), of cur] by (simp_all add: b_def)
    have d: "nat t \<notin> fst ` set (allocas is)" "distinct (map fst (allocas is))"
      using Cons.prems(2) al by auto
    note ih = Cons.IH [OF loop d(2)]
    have rest: "c \<le> cur'" "length off' = length off"
      "\<And>u. u \<notin> fst ` set (allocas is) \<Longrightarrow> off' ! u = off[nat t := - c] ! u"
      "list_all (\<lambda>(t, i). - cur' \<le> off' ! t \<and> off' ! t + alloca_size_of i \<le> - c
          \<and> alloca_align_of i dvd (off' ! t + alloca_size_of i)) (allocas is)"
      "sorted_wrt (\<lambda>(t, i) (u, j). off' ! u + alloca_size_of j \<le> off' ! t) (allocas is)"
      using ih Cons.prems(3) al by auto
    have here: "off' ! nat t = - c" using rest(3) [OF d(1)] p(2) by simp
    have "- b = off' ! nat t + alloca_size_of i" using here by (simp add: c_def)
    then have al_i: "alloca_align_of i dvd (off' ! nat t + alloca_size_of i)" using b(2) by (metis dvd_minus_iff)
    have le: "cur \<le> cur'" using b(1) rest(1) alloca_size_pos [of i] by (simp add: c_def)
    have cc: "cur \<le> c" using b(1) alloca_size_pos [of i] by (simp add: c_def)
    have "off' ! u = off ! u" if "u \<notin> fst ` set (allocas (i # is))" for u
      using rest(3) [of u] that al by auto
    moreover have "list_all (\<lambda>(t, i). - cur' \<le> off' ! t \<and> off' ! t + alloca_size_of i \<le> - cur
          \<and> alloca_align_of i dvd (off' ! t + alloca_size_of i)) (allocas (i # is))"
      using rest(1,4) here al_i b(1) cc al by (auto simp: list_all_iff c_def)
    moreover have "sorted_wrt (\<lambda>(t, i) (u, j). off' ! u + alloca_size_of j \<le> off' ! t) (allocas (i # is))"
      using rest(4,5) here al by (auto simp: list_all_iff)
    ultimately show ?thesis using le rest(2) by blast
  qed
qed

text \<open>C10: the slots of the temporaries are disjoint 8 byte cells below the frame pointer; the
  region of every alloca lies below all slots and inside the frame, in the order of the
  allocas without overlap, and is aligned as requested when the alignment divides the size; the frame is a positive multiple of 16.\<close>

theorem regalloc_disjoint:
  assumes "allocas_ok f"
  shows "let ra = regalloc_run f; n = fn_next_temp f in
    list_all (\<lambda>t. ra_slot ra ! t = - 8 * int t \<and> - ra_frame_size ra \<le> ra_slot ra ! t) [1..<nat n]
    \<and> list_all (\<lambda>(t, i). - ra_frame_size ra \<le> ra_alloca_off ra ! t
          \<and> ra_alloca_off ra ! t + alloca_size_of i \<le> - 8 * n
          \<and> (alloca_align_of i dvd alloca_size_of i \<longrightarrow> alloca_align_of i dvd ra_alloca_off ra ! t))
        (allocas (fn_instrs f))
    \<and> sorted_wrt (\<lambda>(t, i) (u, j). ra_alloca_off ra ! u + alloca_size_of j \<le> ra_alloca_off ra ! t)
        (allocas (fn_instrs f))
    \<and> 0 < ra_frame_size ra \<and> 16 dvd ra_frame_size ra"
proof -
  let ?n = "fn_next_temp f"
  obtain cur off where r: "alloca_loop (fn_instrs f) (8 * ?n) (replicate (nat (?n + 1)) 0) = (cur, off)"
    by fastforce
  have n: "1 \<le> ?n" using assms by (simp add: allocas_ok_def)
  have pre: "distinct (map fst (allocas (fn_instrs f)))"
    "list_all (\<lambda>(t, i). t < length (replicate (nat (?n + 1)) (0::int)) \<and> pow2 (alloca_align_of i)) (allocas (fn_instrs f))"
    using assms by (auto simp: allocas_ok_def list_all_iff)
  note spec = alloca_loop_spec [OF r pre]
  have p16: "pow2 16" by (simp add: pow2_def)
  note up = pow2_round_up [OF p16, of cur]
  have pos: "0 < round_up cur 16" using spec up(2) n by linarith
  have fr: "ra_frame_size (regalloc_run f) = round_up cur 16" "ra_alloca_off (regalloc_run f) = off"
    using pos by (simp_all add: regalloc_run_def r Let_def)
  have sl: "ra_slot (regalloc_run f) ! t = - 8 * int t" if "1 \<le> t" "int t < ?n" for t
    using that by (simp add: regalloc_run_def r Let_def nth_append del: upt_Suc)
  show ?thesis
    unfolding Let_def fr
    using spec up pos sl
    by (auto simp: list_all_iff intro: order_trans dest: dvd_add_left_iff [THEN iffD1, rotated])
qed

definition demo_func :: ir_func where
  "demo_func =
     last_instr (\<lambda>i. i\<lparr>in_alloca_size := 4, in_alloca_align := 4\<rparr>)
       (ir_emit (snd (ir_new_temp \<lparr>fn_name = ''f'', fn_type = 16, fn_instrs = [], fn_cap = 64, fn_next_temp = 1,
          fn_next_label = 1, fn_is_static = False, fn_sret_temp = 0\<rparr>)) IR_ALLOCA (irv_temp 1 type_int) irv_none irv_none)"

lemma regalloc_disjoint_witness:
  "ra_alloca_off (regalloc_run demo_func) = [0, - 20, 0] \<and> 0 < ra_frame_size (regalloc_run demo_func)"
proof -
  have "allocas_ok demo_func"
    by (simp add: allocas_ok_def allocas_def demo_func_def last_instr_def ir_emit_instrs ir_new_temp_def
        ir_emit_def irv_temp_def alloca_align_of_def pow2_def)
  from regalloc_disjoint [OF this] have "0 < ra_frame_size (regalloc_run demo_func)" by (simp add: Let_def)
  moreover have "ra_alloca_off (regalloc_run demo_func) = [0, - 20, 0]" by code_simp
  ultimately show ?thesis by simp
qed

end
