(* ===== verification/Abi.thy ===== *)
theory Abi
  imports CTypeProps
begin

section \<open>Argument classification (abi_classify.c, abi_classify.h)\<close>

text \<open>
  The SysV classification of a type by eightbytes. classify_range recurses through the
  fields of structs, whose types the store does not order, so it runs on fuel: None is a
  recursion deeper than the fuel. When no type contains itself by value a rank of the types
  bounds the depth, and fuel above the rank is enough (\<open>classify_range_enough\<close>); a struct
  that contains itself by value makes the code recurse for ever.
\<close>

subsection \<open>Classes\<close>

datatype ABIClass =
    ABI_CLASS_NONE | ABI_CLASS_MEMORY | ABI_CLASS_INTEGER | ABI_CLASS_SSE | ABI_CLASS_SSEUP
  | ABI_CLASS_X87 | ABI_CLASS_X87UP

definition MAX_EIGHTBYTES :: int where
  "MAX_EIGHTBYTES = 2"

definition merge_class :: "ABIClass \<Rightarrow> ABIClass \<Rightarrow> ABIClass" where
  "merge_class a b =
     (if a = b then a
      else if a = ABI_CLASS_NONE then b
      else if b = ABI_CLASS_NONE then a
      else if a = ABI_CLASS_MEMORY \<or> b = ABI_CLASS_MEMORY then ABI_CLASS_MEMORY
      else if a = ABI_CLASS_INTEGER \<or> b = ABI_CLASS_INTEGER then ABI_CLASS_INTEGER
      else if a = ABI_CLASS_X87 \<or> b = ABI_CLASS_X87 \<or> a = ABI_CLASS_X87UP \<or> b = ABI_CLASS_X87UP
        then ABI_CLASS_MEMORY
      else ABI_CLASS_SSE)"

definition merge_at :: "nat \<Rightarrow> ABIClass \<Rightarrow> ABIClass list \<Rightarrow> ABIClass list" where
  "merge_at eb c cs = cs[eb := merge_class (cs ! eb) c]"

definition all_memory :: "ABIClass list \<Rightarrow> ABIClass list" where
  "all_memory cs = replicate (length cs) ABI_CLASS_MEMORY"

fun scalar_class :: "scalar_kind \<Rightarrow> ABIClass option" where
  "scalar_class TY_VOID = None"
| "scalar_class TY_FLOAT = Some ABI_CLASS_SSE"
| "scalar_class TY_DOUBLE = Some ABI_CLASS_SSE"
| "scalar_class TY_LDOUBLE = Some ABI_CLASS_X87"
| "scalar_class _ = Some ABI_CLASS_INTEGER"

subsection \<open>The recursive classifier\<close>

text \<open>The loop after the fields: a MEMORY eightbyte, or an X87UP one not after X87, turns the
  whole range into MEMORY.\<close>

definition needs_memory :: "ABIClass list \<Rightarrow> bool" where
  "needs_memory cs \<longleftrightarrow>
     list_ex (\<lambda>i. cs ! i = ABI_CLASS_MEMORY
        \<or> cs ! i = ABI_CLASS_X87UP \<and> (i = 0 \<or> cs ! (i - 1) \<noteq> ABI_CLASS_X87)) [0..<length cs]"

definition fixup :: "ABIClass list \<Rightarrow> ABIClass list" where
  "fixup cs = (if needs_memory cs then all_memory cs else cs)"

fun classify_range :: "nat \<Rightarrow> type_node list \<Rightarrow> tid \<Rightarrow> int \<Rightarrow> ABIClass list \<Rightarrow> ABIClass list option" where
  "classify_range 0 ns t offset cs = None"
| "classify_range (Suc fuel) ns t offset cs =
     (let eb = nat (offset div 8); n_eb = length cs;
          agg = (\<lambda>a. let total = type_sizeof ns t
                in if (total + 7) div 8 > MAX_EIGHTBYTES then Some (all_memory cs)
                   else if list_ex (\<lambda>f. sf_offset f mod type_alignof ns (sf_type f) \<noteq> 0) (ag_fields a)
                     then Some (all_memory cs)
                   else map_option fixup
                          (foldl (\<lambda>r f. Option.bind r (classify_range fuel ns (sf_type f) (offset + sf_offset f)))
                             (Some cs) (ag_fields a)))
      in if eb \<ge> n_eb then Some cs
         else case body ns t of
           Scalar k \<Rightarrow>
             (case scalar_class k of
                None \<Rightarrow> Some cs
              | Some c \<Rightarrow>
                  let cs = merge_at eb c cs
                  in Some (if k = TY_LDOUBLE \<and> eb + 1 < n_eb then merge_at (eb + 1) ABI_CLASS_X87UP cs else cs))
         | Enum e \<Rightarrow> Some (merge_at eb ABI_CLASS_INTEGER cs)
         | Pointer p \<Rightarrow> Some (merge_at eb ABI_CLASS_INTEGER cs)
         | Func r ps n v \<Rightarrow> Some (merge_at eb ABI_CLASS_INTEGER cs)
         | Array e count \<Rightarrow>
             foldl (\<lambda>r i. Option.bind r (classify_range fuel ns e (offset + int i * type_sizeof ns e)))
               (Some cs) [0..<nat count]
         | Struct a \<Rightarrow> agg a
         | Union a \<Rightarrow> agg a
         | ArrayUnsized e \<Rightarrow> Some (all_memory cs))"

record ABIClassification =
  n_eightbytes :: int
  classes :: "ABIClass list"

text \<open>The classes array has two entries, NONE where nothing was classified.\<close>

definition abi_classify :: "nat \<Rightarrow> type_node list \<Rightarrow> tid \<Rightarrow> ABIClassification option" where
  "abi_classify fuel ns t =
     (let total = type_sizeof ns t; n = (total + 7) div 8
      in if total \<le> 0 then Some \<lparr>n_eightbytes = 0, classes = [ABI_CLASS_NONE, ABI_CLASS_NONE]\<rparr>
         else if n > MAX_EIGHTBYTES
           then Some \<lparr>n_eightbytes = 1, classes = [ABI_CLASS_MEMORY, ABI_CLASS_NONE]\<rparr>
         else map_option (\<lambda>cs. \<lparr>n_eightbytes = n, classes = take 2 (cs @ [ABI_CLASS_NONE])\<rparr>)
                (classify_range fuel ns t 0 (replicate (nat n) ABI_CLASS_NONE)))"

definition abi_in_memory :: "ABIClassification \<Rightarrow> bool" where
  "abi_in_memory c \<longleftrightarrow> ABI_CLASS_MEMORY \<in> set (take (nat (n_eightbytes c)) (classes c))"

subsection \<open>Merging\<close>

text \<open>Merging classes is commutative and idempotent, NONE is neutral, MEMORY wins over
  everything and INTEGER over everything else; it is not associative, so the class of an
  eightbyte can depend on the order of the members.\<close>

theorem merge_class_laws:
  "merge_class a b = merge_class b a \<and> merge_class a a = a \<and> merge_class ABI_CLASS_NONE a = a
   \<and> merge_class ABI_CLASS_MEMORY a = ABI_CLASS_MEMORY
   \<and> merge_class ABI_CLASS_INTEGER a = (if a = ABI_CLASS_MEMORY then ABI_CLASS_MEMORY else ABI_CLASS_INTEGER)
   \<and> merge_class (merge_class ABI_CLASS_SSE ABI_CLASS_X87) ABI_CLASS_INTEGER
       \<noteq> merge_class ABI_CLASS_SSE (merge_class ABI_CLASS_X87 ABI_CLASS_INTEGER)"
  by (cases a; cases b; simp add: merge_class_def)

fun class_rank :: "ABIClass \<Rightarrow> nat" where
  "class_rank ABI_CLASS_NONE = 0"
| "class_rank ABI_CLASS_INTEGER = 2"
| "class_rank ABI_CLASS_MEMORY = 3"
| "class_rank _ = 1"

lemma merge_rank: "class_rank a \<le> class_rank (merge_class a b)" "class_rank b \<le> class_rank (merge_class a b)"
  by (cases a; cases b; simp add: merge_class_def)+

text \<open>A classification only moves up.\<close>

definition above :: "ABIClass list \<Rightarrow> ABIClass list \<Rightarrow> bool" where
  "above cs cs' \<longleftrightarrow> length cs' = length cs \<and> (\<forall>i < length cs. class_rank (cs ! i) \<le> class_rank (cs' ! i))"

lemma above_refl [simp]: "above cs cs"
  by (simp add: above_def)

lemma above_trans: "above cs ds \<Longrightarrow> above ds es \<Longrightarrow> above cs es"
  by (auto simp: above_def intro: order_trans)

lemma above_length: "above cs ds \<Longrightarrow> length ds = length cs"
  by (simp add: above_def)

lemma above_merge: "above cs (merge_at eb c cs)"
proof -
  have "class_rank (cs ! i) \<le> class_rank (cs[eb := merge_class (cs ! eb) c] ! i)" for i
    by (cases "eb < length cs") (auto simp: nth_list_update merge_rank list_update_beyond)
  then show ?thesis by (simp add: above_def merge_at_def)
qed

lemma above_memory: "above cs (all_memory cs)"
proof -
  have "class_rank c \<le> 3" for c by (cases c) auto
  then show ?thesis by (simp add: above_def all_memory_def)
qed

lemma above_fixup: "above cs (fixup cs)"
  by (simp add: fixup_def above_memory)

lemma foldl_bind_above:
  assumes "foldl (\<lambda>r x. Option.bind r (g x)) (Some cs) xs = Some ds"
    "\<And>x cs ds. x \<in> set xs \<Longrightarrow> g x cs = Some ds \<Longrightarrow> above cs ds"
  shows "above cs ds"
  using assms
proof (induction xs arbitrary: cs)
  case (Cons x xs)
  have none: "foldl (\<lambda>r x. Option.bind r (g x)) None ys = None" for ys by (induction ys) auto
  obtain es where e: "g x cs = Some es" using Cons.prems(1) none by (cases "g x cs") auto
  then have "above es ds" using Cons.prems by (intro Cons.IH) auto
  then show ?case using above_trans Cons.prems(2) [of x cs es] e by auto
qed simp

lemma classify_range_above: "classify_range fuel ns t offset cs = Some ds \<Longrightarrow> above cs ds"
proof (induction fuel arbitrary: t offset cs ds)
  case (Suc fuel)
  have agg: "above cs ds"
    if m: "map_option fixup (foldl (\<lambda>r f. Option.bind r (classify_range fuel ns (sf_type f) (offset + sf_offset f)))
          (Some cs) fs) = Some ds" for fs
  proof -
    obtain es where "foldl (\<lambda>r f. Option.bind r (classify_range fuel ns (sf_type f) (offset + sf_offset f)))
          (Some cs) fs = Some es" "ds = fixup es"
      using m by auto
    note es = this
    have "above cs es" by (rule foldl_bind_above [OF es(1)]) (rule Suc.IH)
    then show ?thesis using es(2) above_trans above_fixup by blast
  qed
  have arr: "above cs ds"
    if "foldl (\<lambda>r i. Option.bind r (classify_range fuel ns e (offset + int i * type_sizeof ns e)))
          (Some cs) is = Some ds" for e "is"
    by (rule foldl_bind_above [OF that]) (rule Suc.IH)
  show ?case
    using Suc.prems agg arr
    by (auto simp: Let_def above_merge above_memory above_trans [OF above_merge above_merge]
        split: if_splits type_body.splits option.splits)
qed simp

subsection \<open>Enough fuel\<close>

text \<open>A rank that every type contained by value lowers.\<close>

definition by_value_rank :: "type_node list \<Rightarrow> (tid \<Rightarrow> nat) \<Rightarrow> bool" where
  "by_value_rank ns rank \<longleftrightarrow>
     list_all (\<lambda>t. case body ns t of
        Array e n \<Rightarrow> e < length ns \<and> rank e < rank t
      | Struct a \<Rightarrow> list_all (\<lambda>f. sf_type f < length ns \<and> rank (sf_type f) < rank t) (ag_fields a)
      | Union a \<Rightarrow> list_all (\<lambda>f. sf_type f < length ns \<and> rank (sf_type f) < rank t) (ag_fields a)
      | _ \<Rightarrow> True) [0..<length ns]"

lemma foldl_bind_Some:
  assumes "\<And>x cs. x \<in> set xs \<Longrightarrow> \<exists>ds. g x cs = Some ds"
  shows "\<exists>ds. foldl (\<lambda>r x. Option.bind r (g x)) (Some cs) xs = Some ds"
  using assms
proof (induction xs arbitrary: cs)
  case (Cons x xs)
  obtain es where "g x cs = Some es" using Cons.prems by fastforce
  then show ?case using Cons by auto
qed simp

lemma classify_range_enough:
  assumes "by_value_rank ns rank" "rank t < fuel" "t < length ns"
  shows "\<exists>ds. classify_range fuel ns t offset cs = Some ds"
  using assms(2,3)
proof (induction fuel arbitrary: t offset cs)
  case (Suc fuel)
  have agg: "\<exists>es. foldl (\<lambda>r f. Option.bind r (classify_range fuel ns (sf_type f) (offset + sf_offset f)))
          (Some cs) fs = Some es" if "list_all (\<lambda>f. sf_type f < length ns \<and> rank (sf_type f) < rank t) fs" for fs
    using that Suc by (intro foldl_bind_Some) (auto simp: list_all_iff)
  have arr: "\<exists>es. foldl (\<lambda>r i. Option.bind r (classify_range fuel ns e (offset + int i * type_sizeof ns e)))
          (Some cs) is = Some es" if "e < length ns \<and> rank e < rank t" for e "is"
    using that Suc by (intro foldl_bind_Some) auto
  have r: "case body ns t of
        Array e n \<Rightarrow> e < length ns \<and> rank e < rank t
      | Struct a \<Rightarrow> list_all (\<lambda>f. sf_type f < length ns \<and> rank (sf_type f) < rank t) (ag_fields a)
      | Union a \<Rightarrow> list_all (\<lambda>f. sf_type f < length ns \<and> rank (sf_type f) < rank t) (ag_fields a)
      | _ \<Rightarrow> True"
    using assms(1) Suc.prems(2) unfolding by_value_rank_def list_all_iff by auto
  show ?case
    using r agg arr
    by (auto simp: Let_def split: type_body.split option.split)
qed simp

subsection \<open>What a classification promises\<close>

text \<open>C31: when no type contains itself by value, classification ends: with fuel above the rank
  of the type abi_classify returns a result, and it covers the size of the type in at most
  two eightbytes.\<close>

theorem abi_classify_total:
  assumes "by_value_rank ns rank" "rank t < fuel" "t < length ns"
  shows "\<exists>c. abi_classify fuel ns t = Some c \<and> length (classes c) = 2
    \<and> (type_sizeof ns t \<le> 0 \<longrightarrow> n_eightbytes c = 0)
    \<and> (0 < type_sizeof ns t \<and> type_sizeof ns t \<le> 16 \<longrightarrow>
        8 * (n_eightbytes c - 1) < type_sizeof ns t \<and> type_sizeof ns t \<le> 8 * n_eightbytes c)
    \<and> (16 < type_sizeof ns t \<longrightarrow> abi_in_memory c)"
proof -
  let ?n = "(type_sizeof ns t + 7) div 8"
  obtain ds where d: "classify_range fuel ns t 0 (replicate (nat ?n) ABI_CLASS_NONE) = Some ds"
    using classify_range_enough [OF assms] by blast
  then have l: "length ds = nat ?n" using above_length [OF classify_range_above [OF d]] by simp
  show ?thesis
  proof (cases "type_sizeof ns t \<le> 0 \<or> 16 < type_sizeof ns t")
    case True
    then show ?thesis by (auto simp: abi_classify_def Let_def MAX_EIGHTBYTES_def abi_in_memory_def)
  next
    case False
    then have "1 \<le> ?n" "?n \<le> 2" by linarith+
    then show ?thesis
      using False l d by (auto simp: abi_classify_def Let_def MAX_EIGHTBYTES_def)
  qed
qed

lemma fixup_spec:
  "fixup cs = all_memory cs \<or>
   (ABI_CLASS_MEMORY \<notin> set (fixup cs)
    \<and> (\<forall>i < length (fixup cs). fixup cs ! i = ABI_CLASS_X87UP \<longrightarrow> 0 < i \<and> fixup cs ! (i - 1) = ABI_CLASS_X87))"
  by (auto simp: fixup_def needs_memory_def list_ex_iff in_set_conv_nth)

text \<open>The three ways a struct is classified.\<close>

lemma classify_agg_cases:
  assumes "body ns t = Struct a \<or> body ns t = Union a" "cs \<noteq> []"
    "classify_range (Suc fuel) ns t 0 cs = Some ds"
  obtains (memory) "ds = all_memory cs"
  | (fields) es where "foldl (\<lambda>r f. Option.bind r (classify_range fuel ns (sf_type f) (sf_offset f)))
      (Some cs) (ag_fields a) = Some es" "ds = fixup es"
  using assms by (auto simp: Let_def split: if_splits)

text \<open>The classes of a struct or union are either all MEMORY or contain no MEMORY at all,
  and then X87UP only follows X87, so abi_in_memory decides the whole object.\<close>

theorem abi_aggregate_uniform:
  assumes "body ns t = Struct a \<or> body ns t = Union a" "cs \<noteq> []"
    and "classify_range (Suc fuel) ns t 0 cs = Some ds"
  shows "(\<forall>c \<in> set ds. c = ABI_CLASS_MEMORY)
    \<or> (ABI_CLASS_MEMORY \<notin> set ds
       \<and> (\<forall>i < length ds. ds ! i = ABI_CLASS_X87UP \<longrightarrow> 0 < i \<and> ds ! (i - 1) = ABI_CLASS_X87))"
  using assms
proof (cases rule: classify_agg_cases)
  case memory
  then show ?thesis by (simp add: all_memory_def)
next
  case (fields es)
  then show ?thesis using fixup_spec [of es] by (auto simp: all_memory_def)
qed

text \<open>The eightbyte a scalar member starts in.\<close>

lemma classify_scalar:
  assumes "body ns t = Scalar k" "scalar_class k = Some c" "nat (offset div 8) < length cs"
    "classify_range (Suc fuel) ns t offset cs = Some ds"
  shows "class_rank c \<le> class_rank (ds ! nat (offset div 8))"
proof -
  let ?eb = "nat (offset div 8)"
  have 1: "class_rank c \<le> class_rank (merge_at ?eb c cs ! ?eb)"
    using assms(3) by (simp add: merge_at_def merge_rank)
  have "above (merge_at ?eb c cs) ds"
    using assms by (auto simp: Let_def above_merge split: if_splits)
  then have "\<forall>i < length cs. class_rank (merge_at ?eb c cs ! i) \<le> class_rank (ds ! i)"
    by (simp add: above_def merge_at_def)
  then have "class_rank (merge_at ?eb c cs ! ?eb) \<le> class_rank (ds ! ?eb)"
    using assms(3) by blast
  with 1 show ?thesis by (rule order_trans)
qed

lemma foldl_bind_step:
  assumes "foldl (\<lambda>r x. Option.bind r (g x)) (Some cs) xs = Some ds" "x \<in> set xs"
    "\<And>x cs ds. x \<in> set xs \<Longrightarrow> g x cs = Some ds \<Longrightarrow> above cs ds"
  shows "\<exists>es fs. above cs es \<and> g x es = Some fs \<and> above fs ds"
  using assms
proof (induction xs arbitrary: cs)
  case (Cons y ys)
  have none: "foldl (\<lambda>r x. Option.bind r (g x)) None zs = None" for zs by (induction zs) auto
  obtain es where e: "g y cs = Some es" using Cons.prems(1) none by (cases "g y cs") auto
  then have rest: "foldl (\<lambda>r x. Option.bind r (g x)) (Some es) ys = Some ds" using Cons.prems(1) by simp
  have ab: "above cs es" using Cons.prems(3) e by auto
  show ?case
  proof (cases "x = y")
    case True
    have "above es ds" by (rule foldl_bind_above [OF rest]) (use Cons.prems(3) in auto)
    then show ?thesis using True e above_refl by blast
  next
    case False
    then show ?thesis
      using Cons.IH [OF rest _ Cons.prems(3)] Cons.prems(2) ab above_trans by fastforce
  qed
qed simp

text \<open>An eightbyte in which an integer member of a struct or union starts is classified
  INTEGER or MEMORY, never as a vector or x87 register.\<close>

theorem abi_integer_member:
  assumes "body ns t = Struct a \<or> body ns t = Union a" "f \<in> set (ag_fields a)"
    and "body ns (sf_type f) = Scalar k" "scalar_class k = Some ABI_CLASS_INTEGER"
    and "nat (sf_offset f div 8) < length cs" "classify_range (Suc (Suc fuel)) ns t 0 cs = Some ds"
  shows "ds ! nat (sf_offset f div 8) \<in> {ABI_CLASS_INTEGER, ABI_CLASS_MEMORY}"
proof -
  let ?eb = "nat (sf_offset f div 8)"
  have rank: "d \<in> {ABI_CLASS_INTEGER, ABI_CLASS_MEMORY}" if "2 \<le> class_rank d" for d
    using that by (cases d) auto
  have ne: "cs \<noteq> []" using assms(5) by auto
  from assms(1) ne assms(6) show ?thesis
  proof (cases rule: classify_agg_cases)
    case memory
    then show ?thesis using assms(5) by (simp add: all_memory_def)
  next
    case (fields es)
    obtain xs ys where s: "above cs xs" "classify_range (Suc fuel) ns (sf_type f) (sf_offset f) xs = Some ys"
      "above ys es"
      using foldl_bind_step [OF fields(1) assms(2)] classify_range_above by blast
    have eb: "?eb < length xs" using assms(5) above_length [OF s(1)] by simp
    have "2 \<le> class_rank (ys ! ?eb)" using classify_scalar [OF assms(3,4) eb s(2)] by simp
    moreover have "?eb < length ys" using eb above_length [OF classify_range_above [OF s(2)]] by simp
    ultimately have "2 \<le> class_rank (ds ! ?eb)"
      using above_trans [OF s(3) above_fixup] fields(2) by (auto simp: above_def intro: order_trans)
    then show ?thesis by (rule rank)
  qed
qed

subsection \<open>A struct that contains itself\<close>

text \<open>The parser does not reject a member of the struct's own, still incomplete type.\<close>

definition selfref_table :: type_table where
  "selfref_table =
     (let (tt, s) = type_struct type_table_init (Some ''S'')
      in type_seal_struct tt s [plain_field ''s'' s, plain_field ''a'' type_int])"

definition selfref_agg :: agg_info where
  "selfref_agg = \<lparr>ag_tag = Some ''S'', ag_fields = [plain_field ''s'' 16, plain_field ''a'' type_int],
     ag_size = 4, ag_align = 4\<rparr>"

lemma selfref_body: "body (tt_nodes selfref_table) 16 = Struct selfref_agg"
  by code_simp

lemma selfref_facts:
  "type_sizeof (tt_nodes selfref_table) 16 = 4" "type_alignof (tt_nodes selfref_table) 16 = 4"
  "type_alignof (tt_nodes selfref_table) type_int = 4"
  by code_simp+

text \<open>C0: \<open>struct S { struct S s; int a; }\<close> is sealed with size 4, and classifying it
  never returns, whatever the depth of the recursion.\<close>

theorem abi_classify_self_containing_diverges:
  "type_sizeof (tt_nodes selfref_table) 16 = 4 \<and> abi_classify fuel (tt_nodes selfref_table) 16 = None"
proof -
  have none: "foldl (\<lambda>r f. Option.bind r (g f)) None ys = None" for g :: "struct_field \<Rightarrow> ABIClass list \<Rightarrow> ABIClass list option" and ys
    by (induction ys) auto
  have "classify_range fuel (tt_nodes selfref_table) 16 0 [c] = None" for c
    by (induction fuel arbitrary: c)
      (simp_all add: Let_def selfref_body selfref_facts MAX_EIGHTBYTES_def selfref_agg_def plain_field_def)
  then show ?thesis by (simp add: abi_classify_def selfref_facts MAX_EIGHTBYTES_def)
qed

subsection \<open>Witnesses\<close>

text \<open>\<open>struct { int c; double d; }\<close>.\<close>

definition pair_nodes :: "type_node list" where
  "pair_nodes = tt_nodes (let (tt, s) = type_struct type_table_init None
     in type_seal_struct tt s [plain_field ''c'' type_int, plain_field ''d'' type_double])"

definition pair_agg :: agg_info where
  "pair_agg = \<lparr>ag_tag = None, ag_fields = [plain_field ''c'' type_int,
     (plain_field ''d'' type_double)\<lparr>sf_offset := 8\<rparr>], ag_size = 16, ag_align = 8\<rparr>"

lemma pair_facts:
  "body pair_nodes 16 = Struct pair_agg" "16 < length pair_nodes"
  "by_value_rank pair_nodes (\<lambda>t. if t = 16 then 1 else 0)"
  "classify_range 2 pair_nodes 16 0 [ABI_CLASS_NONE, ABI_CLASS_NONE] = Some [ABI_CLASS_INTEGER, ABI_CLASS_SSE]"
  by code_simp+

lemma abi_classify_total_witness:
  "\<exists>c. abi_classify 2 pair_nodes 16 = Some c \<and> length (classes c) = 2"
  using abi_classify_total [OF pair_facts(3), of 16 2] pair_facts(2) by auto

lemma abi_aggregate_uniform_witness:
  "ABI_CLASS_MEMORY \<notin> {ABI_CLASS_INTEGER, ABI_CLASS_SSE}"
  using abi_aggregate_uniform [of pair_nodes 16 pair_agg "[ABI_CLASS_NONE, ABI_CLASS_NONE]" 1
      "[ABI_CLASS_INTEGER, ABI_CLASS_SSE]"] pair_facts(1,4) by (simp add: numeral_2_eq_2)

lemma abi_integer_member_witness:
  "[ABI_CLASS_INTEGER, ABI_CLASS_SSE] ! 0 \<in> {ABI_CLASS_INTEGER, ABI_CLASS_MEMORY}"
proof -
  have b: "body pair_nodes type_int = Scalar TY_INT" by code_simp
  show ?thesis
    using abi_integer_member [of pair_nodes 16 pair_agg "plain_field ''c'' type_int" TY_INT
        "[ABI_CLASS_NONE, ABI_CLASS_NONE]" 0 "[ABI_CLASS_INTEGER, ABI_CLASS_SSE]"] pair_facts(1,4) b
    by (simp add: numeral_2_eq_2 pair_agg_def plain_field_def)
qed

end
