(* ===== verification/X86.thy ===== *)
theory X86
  imports Prelude
begin

section \<open>The assembly code that codegen.c prints\<close>

text \<open>
  The instructions codegen.c writes, as data, with \<open>show_asm\<close> giving the line of text
  that fprintf prints for each. \<open>exec\<close> is the documented behaviour of the integer
  instructions on 64 bit registers and byte addressed little-endian memory; the other
  instructions have no semantics here (\<open>exec\<close> gives None) and are only printed.
\<close>

subsection \<open>Registers and operands\<close>

datatype (plugins only: code size) gpr =
  RAX | RCX | RDX | RBX | RSI | RDI | RBP | RSP | R8 | R9 | R10 | R11

fun reg64 :: "gpr \<Rightarrow> string" where
  "reg64 RAX = ''%rax''"
| "reg64 RCX = ''%rcx''"
| "reg64 RDX = ''%rdx''"
| "reg64 RBX = ''%rbx''"
| "reg64 RSI = ''%rsi''"
| "reg64 RDI = ''%rdi''"
| "reg64 RBP = ''%rbp''"
| "reg64 RSP = ''%rsp''"
| "reg64 R8 = ''%r8''"
| "reg64 R9 = ''%r9''"
| "reg64 R10 = ''%r10''"
| "reg64 R11 = ''%r11''"

fun to_32bit :: "gpr \<Rightarrow> string" where
  "to_32bit RAX = ''%eax''"
| "to_32bit RCX = ''%ecx''"
| "to_32bit RDX = ''%edx''"
| "to_32bit RBX = ''%ebx''"
| "to_32bit RSI = ''%esi''"
| "to_32bit RDI = ''%edi''"
| "to_32bit RBP = ''%ebp''"
| "to_32bit RSP = ''%esp''"
| "to_32bit R8 = ''%r8d''"
| "to_32bit R9 = ''%r9d''"
| "to_32bit R10 = ''%r10d''"
| "to_32bit R11 = ''%r11d''"

fun to_16bit :: "gpr \<Rightarrow> string" where
  "to_16bit RAX = ''%ax''"
| "to_16bit RCX = ''%cx''"
| "to_16bit RDX = ''%dx''"
| "to_16bit RSI = ''%si''"
| "to_16bit RDI = ''%di''"
| "to_16bit R8 = ''%r8w''"
| "to_16bit R9 = ''%r9w''"
| "to_16bit r = reg64 r"

fun to_8bit :: "gpr \<Rightarrow> string" where
  "to_8bit RAX = ''%al''"
| "to_8bit RCX = ''%cl''"
| "to_8bit RDX = ''%dl''"
| "to_8bit RSI = ''%sil''"
| "to_8bit RDI = ''%dil''"
| "to_8bit R8 = ''%r8b''"
| "to_8bit R9 = ''%r9b''"
| "to_8bit r = reg64 r"

datatype width = W8 | W16 | W32 | W64

fun wbytes :: "width \<Rightarrow> nat" where
  "wbytes W8 = 1"
| "wbytes W16 = 2"
| "wbytes W32 = 4"
| "wbytes W64 = 8"

fun reg_name :: "width \<Rightarrow> gpr \<Rightarrow> string" where
  "reg_name W8 r = to_8bit r"
| "reg_name W16 r = to_16bit r"
| "reg_name W32 r = to_32bit r"
| "reg_name W64 r = reg64 r"

text \<open>\<open>off(base)\<close> and \<open>(base)\<close>; an xmm register is its number.\<close>

datatype mem_operand = Off int gpr | Ind gpr

fun show_mem :: "mem_operand \<Rightarrow> string" where
  "show_mem (Off n r) = show_int n @ ''('' @ reg64 r @ '')''"
| "show_mem (Ind r) = ''('' @ reg64 r @ '')''"

definition show_xmm :: "nat \<Rightarrow> string" where
  "show_xmm n = ''%xmm'' @ show_nat n"

subsection \<open>Instructions\<close>

datatype (plugins only: code size) alu = Addq | Subq | Imulq | Andq | Orq | Xorq

datatype (plugins only: code size) cc = CC_E | CC_NE | CC_L | CC_LE | CC_G | CC_GE | CC_B | CC_BE | CC_A | CC_AE

datatype (plugins only: code size) asm =
    LabelDef string
  | Line string  \<comment> \<open>a directive or an empty line\<close>
  | MovLoad width mem_operand gpr
  | MovExtLoad bool width mem_operand gpr
  | MovStore width gpr mem_operand
  | MovImm int gpr
  | MovReg gpr gpr
  | ExtRax bool width  \<comment> \<open>\<open>movs/movz\<close> of \<open>%al\<close>, \<open>%ax\<close> or \<open>%eax\<close> into \<open>%rax\<close>\<close>
  | Lea int gpr gpr
  | LeaSym string gpr
  | Alu alu gpr gpr
  | Sal
  | Sar
  | Negq gpr
  | Notq gpr
  | Cqto
  | Idiv gpr
  | Cmp gpr gpr
  | Test gpr
  | SetAl cc
  | Jmp string
  | Je string
  | Jne string
  | CallSym string
  | CallReg gpr
  | Push gpr
  | Leave
  | Ret
  | SubRsp int
  | AddRsp int
  | MovAl int
  | SseLoad bool mem_operand nat  \<comment> \<open>True: double\<close>
  | SseStore bool nat mem_operand
  | MovabsRax int
  | MovRaxXmm nat
  | MovEaxImm int
  | MovEaxXmm nat
  | SseAlu string bool
  | Ucomisd
  | CvtFromRax bool nat
  | CvtToRax bool

fun wsuffix :: "width \<Rightarrow> string" where
  "wsuffix W8 = ''b''"
| "wsuffix W16 = ''w''"
| "wsuffix W32 = ''l''"
| "wsuffix W64 = ''q''"

fun alu_name :: "alu \<Rightarrow> string" where
  "alu_name Addq = ''addq''"
| "alu_name Subq = ''subq''"
| "alu_name Imulq = ''imulq''"
| "alu_name Andq = ''andq''"
| "alu_name Orq = ''orq''"
| "alu_name Xorq = ''xorq''"

fun cc_name :: "cc \<Rightarrow> string" where
  "cc_name CC_E = ''sete''"
| "cc_name CC_NE = ''setne''"
| "cc_name CC_L = ''setl''"
| "cc_name CC_LE = ''setle''"
| "cc_name CC_G = ''setg''"
| "cc_name CC_GE = ''setge''"
| "cc_name CC_B = ''setb''"
| "cc_name CC_BE = ''setbe''"
| "cc_name CC_A = ''seta''"
| "cc_name CC_AE = ''setae''"

definition ext_name :: "bool \<Rightarrow> width \<Rightarrow> string" where
  "ext_name sx w = (if sx then ''movs'' else ''movz'') @ wsuffix w @ ''q''"

definition sse_mov :: "bool \<Rightarrow> string" where
  "sse_mov dbl = (if dbl then ''movsd'' else ''movss'')"

text \<open>The text of an instruction without the leading tab and the newline.\<close>

fun asm_text :: "asm \<Rightarrow> string" where
  "asm_text (MovLoad w m r) = ''mov'' @ wsuffix w @ '' '' @ show_mem m @ '', '' @ reg_name w r"
| "asm_text (MovExtLoad sx w m r) = ext_name sx w @ '' '' @ show_mem m @ '', '' @ reg64 r"
| "asm_text (MovStore w r m) = ''mov'' @ wsuffix w @ '' '' @ reg_name w r @ '', '' @ show_mem m"
| "asm_text (MovImm n r) = ''movq $'' @ show_int n @ '', '' @ reg64 r"
| "asm_text (MovReg r s) = ''movq '' @ reg64 r @ '', '' @ reg64 s"
| "asm_text (ExtRax sx w) =
     (if w = W32 \<and> \<not> sx then ''movl %eax, %eax''
      else ext_name sx w @ '' '' @ reg_name w RAX @ '', %rax'')"
| "asm_text (Lea n b r) = ''leaq '' @ show_int n @ ''('' @ reg64 b @ ''), '' @ reg64 r"
| "asm_text (LeaSym s r) = ''leaq '' @ s @ ''(%rip), '' @ reg64 r"
| "asm_text (Alu a r s) = alu_name a @ '' '' @ reg64 r @ '', '' @ reg64 s"
| "asm_text Sal = ''salq %cl, %rax''"
| "asm_text Sar = ''sarq %cl, %rax''"
| "asm_text (Negq r) = ''negq '' @ reg64 r"
| "asm_text (Notq r) = ''notq '' @ reg64 r"
| "asm_text Cqto = ''cqto''"
| "asm_text (Idiv r) = ''idivq '' @ reg64 r"
| "asm_text (Cmp r s) = ''cmpq '' @ reg64 r @ '', '' @ reg64 s"
| "asm_text (Test r) = ''testq '' @ reg64 r @ '', '' @ reg64 r"
| "asm_text (SetAl c) = cc_name c @ '' %al''"
| "asm_text (Jmp l) = ''jmp '' @ l"
| "asm_text (Je l) = ''je '' @ l"
| "asm_text (Jne l) = ''jne '' @ l"
| "asm_text (CallSym s) = ''callq '' @ s"
| "asm_text (CallReg r) = ''callq *'' @ reg64 r"
| "asm_text (Push r) = ''pushq '' @ reg64 r"
| "asm_text Leave = ''leave''"
| "asm_text Ret = ''retq''"
| "asm_text (SubRsp n) = ''subq $'' @ show_int n @ '', %rsp''"
| "asm_text (AddRsp n) = ''addq $'' @ show_int n @ '', %rsp''"
| "asm_text (MovAl n) = ''movb $'' @ show_int n @ '', %al''"
| "asm_text (SseLoad d m x) = sse_mov d @ '' '' @ show_mem m @ '', '' @ show_xmm x"
| "asm_text (SseStore d x m) = sse_mov d @ '' '' @ show_xmm x @ '', '' @ show_mem m"
| "asm_text (MovabsRax n) = ''movabsq $'' @ show_int n @ '', %rax''"
| "asm_text (MovRaxXmm x) = ''movq %rax, '' @ show_xmm x"
| "asm_text (MovEaxImm n) = ''movl $'' @ show_int n @ '', %eax''"
| "asm_text (MovEaxXmm x) = ''movd %eax, '' @ show_xmm x"
| "asm_text (SseAlu op d) = op @ (if d then ''sd'' else ''ss'') @ '' %xmm1, %xmm0''"
| "asm_text Ucomisd = ''ucomisd %xmm1, %xmm0''"
| "asm_text (CvtFromRax d x) = (if d then ''cvtsi2sdq'' else ''cvtsi2ssq'') @ '' %rax, '' @ show_xmm x"
| "asm_text (CvtToRax d) = (if d then ''cvttsd2siq'' else ''cvttss2siq'') @ '' %xmm0, %rax''"
| "asm_text (LabelDef l) = l @ '':''"
| "asm_text (Line s) = s"

definition show_asm :: "asm \<Rightarrow> string" where
  "show_asm i =
     (case i of
        LabelDef l \<Rightarrow> asm_text i
      | Line s \<Rightarrow> asm_text i
      | _ \<Rightarrow> CHR 0x09 # asm_text i) @ [CHR 0x0A]"

definition show_code :: "asm list \<Rightarrow> string" where
  "show_code is = concat (map show_asm is)"

subsection \<open>Memory\<close>

type_synonym memory = "u64 \<Rightarrow> byte"

fun mem_read :: "nat \<Rightarrow> u64 \<Rightarrow> memory \<Rightarrow> u64" where
  "mem_read 0 a m = 0"
| "mem_read (Suc n) a m = ucast (m a) OR push_bit 8 (mem_read n (a + 1) m)"

fun mem_write :: "nat \<Rightarrow> u64 \<Rightarrow> u64 \<Rightarrow> memory \<Rightarrow> memory" where
  "mem_write 0 a v m = m"
| "mem_write (Suc n) a v m = (mem_write n (a + 1) (drop_bit 8 v) m)(a := ucast v)"

text \<open>An address of a run of \<open>n\<close> bytes.\<close>

definition in_run :: "u64 \<Rightarrow> nat \<Rightarrow> u64 \<Rightarrow> bool" where
  "in_run a n x \<longleftrightarrow> unat (x - a) < n"

subsection \<open>Execution of the integer instructions\<close>

record machine =
  regs :: "gpr \<Rightarrow> u64"
  memory :: memory
  cmp_ops :: "u64 \<times> u64"  \<comment> \<open>what the flags were set from\<close>

definition set_reg :: "gpr \<Rightarrow> u64 \<Rightarrow> machine \<Rightarrow> machine" where
  "set_reg r v s = s\<lparr>regs := (regs s)(r := v)\<rparr>"

fun mem_addr :: "mem_operand \<Rightarrow> machine \<Rightarrow> u64" where
  "mem_addr (Off n r) s = regs s r + of_int n"
| "mem_addr (Ind r) s = regs s r"

definition sext :: "nat \<Rightarrow> u64 \<Rightarrow> u64" where
  "sext n v = signed_take_bit (8 * n - 1) v"

definition zext :: "nat \<Rightarrow> u64 \<Rightarrow> u64" where
  "zext n v = take_bit (8 * n) v"

text \<open>A byte or word load keeps the rest of the register, a doubleword load clears it.\<close>

definition load_reg_part :: "width \<Rightarrow> u64 \<Rightarrow> u64 \<Rightarrow> u64" where
  "load_reg_part w old v =
     (if w = W8 \<or> w = W16 then (old AND NOT (mask (8 * wbytes w))) OR v else v)"

fun alu_op :: "alu \<Rightarrow> u64 \<Rightarrow> u64 \<Rightarrow> u64" where
  "alu_op Addq a b = a + b"
| "alu_op Subq a b = a - b"
| "alu_op Imulq a b = a * b"
| "alu_op Andq a b = a AND b"
| "alu_op Orq a b = a OR b"
| "alu_op Xorq a b = a XOR b"

fun cc_holds :: "cc \<Rightarrow> u64 \<Rightarrow> u64 \<Rightarrow> bool" where
  "cc_holds CC_E a b = (a = b)"
| "cc_holds CC_NE a b = (a \<noteq> b)"
| "cc_holds CC_L a b = (sint a < sint b)"
| "cc_holds CC_LE a b = (sint a \<le> sint b)"
| "cc_holds CC_G a b = (sint a > sint b)"
| "cc_holds CC_GE a b = (sint a \<ge> sint b)"
| "cc_holds CC_B a b = (a < b)"
| "cc_holds CC_BE a b = (a \<le> b)"
| "cc_holds CC_A a b = (a > b)"
| "cc_holds CC_AE a b = (a \<ge> b)"

text \<open>Signed division truncates towards zero; it faults on a zero divisor and on a quotient
  that does not fit. The dividend here is \<open>%rax\<close> sign-extended by cqto.\<close>

definition quot :: "int \<Rightarrow> int \<Rightarrow> int" where
  "quot a b = sgn a * sgn b * (\<bar>a\<bar> div \<bar>b\<bar>)"

fun exec :: "asm \<Rightarrow> machine \<Rightarrow> machine option" where
  "exec (MovLoad w m r) s =
     Some (set_reg r (load_reg_part w (regs s r) (mem_read (wbytes w) (mem_addr m s) (memory s))) s)"
| "exec (MovExtLoad sx w m r) s =
     (let v = mem_read (wbytes w) (mem_addr m s) (memory s)
      in Some (set_reg r (if sx then sext (wbytes w) v else zext (wbytes w) v) s))"
| "exec (MovStore w r m) s = Some (s\<lparr>memory := mem_write (wbytes w) (mem_addr m s) (regs s r) (memory s)\<rparr>)"
| "exec (MovImm n r) s = Some (set_reg r (of_int n) s)"
| "exec (MovReg r d) s = Some (set_reg d (regs s r) s)"
| "exec (ExtRax sx w) s =
     Some (set_reg RAX (if sx then sext (wbytes w) (regs s RAX) else zext (wbytes w) (regs s RAX)) s)"
| "exec (Lea n b r) s = Some (set_reg r (regs s b + of_int n) s)"
| "exec (Alu a r d) s = Some (set_reg d (alu_op a (regs s d) (regs s r)) s)"
| "exec Sal s = Some (set_reg RAX (push_bit (unat (regs s RCX) mod 64) (regs s RAX)) s)"
| "exec Sar s = Some (set_reg RAX (signed_drop_bit (unat (regs s RCX) mod 64) (regs s RAX)) s)"
| "exec (Negq r) s = Some (set_reg r (- regs s r) s)"
| "exec (Notq r) s = Some (set_reg r (NOT (regs s r)) s)"
| "exec Cqto s = Some (set_reg RDX (if sint (regs s RAX) < 0 then - 1 else 0) s)"
| "exec (Idiv r) s =
     (let a = sint (regs s RAX); b = sint (regs s r); q = quot a b
      in if regs s RDX \<noteq> (if a < 0 then - 1 else 0) then None
         else if b = 0 \<or> q \<ge> 2 ^ 63 then None
         else Some (set_reg RDX (of_int (a - q * b)) (set_reg RAX (of_int q) s)))"
| "exec (Cmp r d) s = Some (s\<lparr>cmp_ops := (regs s d, regs s r)\<rparr>)"
| "exec (Test r) s = Some (s\<lparr>cmp_ops := (regs s r, 0)\<rparr>)"
| "exec (SetAl c) s =
     Some (set_reg RAX ((regs s RAX AND NOT (mask 8))
       OR (if cc_holds c (fst (cmp_ops s)) (snd (cmp_ops s)) then 1 else 0)) s)"
| "exec (SubRsp n) s = Some (set_reg RSP (regs s RSP - of_int n) s)"
| "exec (AddRsp n) s = Some (set_reg RSP (regs s RSP + of_int n) s)"
| "exec _ s = None"

text \<open>A straight-line sequence.\<close>

fun exec_list :: "asm list \<Rightarrow> machine \<Rightarrow> machine option" where
  "exec_list [] s = Some s"
| "exec_list (i # is) s = (case exec i s of None \<Rightarrow> None | Some s' \<Rightarrow> exec_list is s')"

lemma exec_list_append:
  "exec_list (xs @ ys) s = (case exec_list xs s of None \<Rightarrow> None | Some s' \<Rightarrow> exec_list ys s')"
  by (induction xs arbitrary: s) (auto split: option.split)

lemma set_reg_sel [simp]:
  "regs (set_reg r v s) = (regs s)(r := v)" "memory (set_reg r v s) = memory s"
  "cmp_ops (set_reg r v s) = cmp_ops s"
  by (simp_all add: set_reg_def)

subsection \<open>Reading what was written\<close>

lemma in_run_Suc: "Suc n \<le> 2 ^ 63 \<Longrightarrow> in_run a (Suc n) x \<longleftrightarrow> x = a \<or> in_run (a + 1) n x"
proof -
  assume n: "Suc n \<le> 2 ^ 63"
  have "unat (x - a) < Suc n \<longleftrightarrow> x = a \<or> unat (x - (a + 1)) < n"
  proof (cases "x = a")
    case False
    then have "x - a \<noteq> 0" by simp
    then have "unat (x - a - 1) = unat (x - a) - 1" "0 < unat (x - a)"
      by (simp_all add: unat_minus_one unat_gt_0)
    then show ?thesis using False by (auto simp: diff_diff_eq)
  qed simp
  then show ?thesis by (simp add: in_run_def)
qed

lemma not_in_run_next: "n < 2 ^ 63 \<Longrightarrow> \<not> in_run (a + 1) n a"
proof -
  assume "n < 2 ^ 63"
  moreover have "unat (a - (a + 1)) = 2 ^ 64 - 1" by (simp add: unsigned_minus_1_eq_mask mask_eq_exp_minus_1)
  ultimately show ?thesis by (simp add: in_run_def)
qed

lemma mem_write_other: "n \<le> 2 ^ 63 \<Longrightarrow> \<not> in_run a n x \<Longrightarrow> mem_write n a v m x = m x"
proof (induction n arbitrary: a v)
  case (Suc n)
  then show ?case by (simp add: in_run_Suc)
qed simp

lemma mem_read_cong: "n \<le> 2 ^ 63 \<Longrightarrow> (\<And>x. in_run a n x \<Longrightarrow> m x = m' x) \<Longrightarrow> mem_read n a m = mem_read n a m'"
proof (induction n arbitrary: a)
  case (Suc n)
  then show ?case by (simp add: in_run_Suc)
qed simp

lemma mem_read_write:
  "n \<le> 8 \<Longrightarrow> mem_read n a (mem_write n a v m) = take_bit (8 * n) v"
proof (induction n arbitrary: a v)
  case (Suc n)
  have "mem_read n (a + 1) ((mem_write n (a + 1) (drop_bit 8 v) m)(a := ucast v))
      = mem_read n (a + 1) (mem_write n (a + 1) (drop_bit 8 v) m)"
    using Suc.prems not_in_run_next [of n a] by (intro mem_read_cong) auto
  then have "mem_read (Suc n) a (mem_write (Suc n) a v m)
      = ucast (ucast v :: byte) OR push_bit 8 (take_bit (8 * n) (drop_bit 8 v))"
    using Suc by simp
  also have "\<dots> = take_bit (8 * Suc n) v"
    by (rule bit_word_eqI) (auto simp: bit_simps)
  finally show ?case .
qed simp

lemma mem_read_write_8: "mem_read 8 a (mem_write 8 a v m) = v"
  by (simp add: mem_read_write take_bit_word_eq_self)

lemma mem_read_bits: "n \<le> 8 \<Longrightarrow> take_bit (8 * n) (mem_read n a m) = mem_read n a m"
proof (induction n arbitrary: a)
  case (Suc n)
  have 1: "take_bit (8 * Suc n) (push_bit 8 w) = push_bit 8 (take_bit (8 * n) w)" for w :: u64
    by (rule bit_word_eqI) (auto simp: bit_simps)
  have 2: "take_bit (8 * Suc n) (ucast b) = (ucast b :: u64)" for b :: byte
    by (rule bit_word_eqI) (auto simp: bit_simps dest: bit_imp_le_length)
  show ?case using Suc by (simp only: mem_read.simps take_bit_or 1 2)
qed simp

end
