(* ===== verification/Codegen.thy ===== *)
theory Codegen
  imports Regalloc Abi X86
begin

section \<open>Code generation (codegen.c)\<close>

text \<open>
  Each function of codegen.c that prints instructions is a function to the list of
  instructions it prints; \<open>show_code\<close> of theory X86 gives the text. The Linux variant is
  modelled (no __APPLE__). \<open>cg_env\<close> holds the type store and the two conversions of a
  floating constant to its bits, which the C library does. abi_classify runs with fuel for
  every type of the store; on a type that contains itself by value the code does not return
  and the model's result is the empty classification. A NULL type where the code reads the
  type is the type \<open>void\<close> here; irgen.c always sets it.
\<close>

record cg_env =
  cg_nodes :: "type_node list"
  cg_double_bits :: "string \<Rightarrow> int"
  cg_float_bits :: "string \<Rightarrow> int"

definition class_of :: "cg_env \<Rightarrow> tid \<Rightarrow> ABIClassification" where
  "class_of E t =
     (case abi_classify (length (cg_nodes E) + 1) (cg_nodes E) t of
        Some c \<Rightarrow> c
      | None \<Rightarrow> \<lparr>n_eightbytes = 0, classes = [ABI_CLASS_NONE, ABI_CLASS_NONE]\<rparr>)"

definition used_classes :: "ABIClassification \<Rightarrow> ABIClass list" where
  "used_classes c = take (nat (n_eightbytes c)) (classes c)"

definition val_type :: "ir_value \<Rightarrow> tid" where
  "val_type v = (case iv_type v of Some t \<Rightarrow> t | None \<Rightarrow> type_void)"

subsection \<open>Argument registers\<close>

record arg_state =
  int_regs_used :: nat
  sse_regs_used :: nat
  stack_offset :: int

text \<open>The two counting loops over the eightbytes of an argument.\<close>

definition needed_int :: "ABIClassification \<Rightarrow> nat" where
  "needed_int c = length (filter (\<lambda>k. k = ABI_CLASS_INTEGER) (used_classes c))"

definition needed_sse :: "ABIClassification \<Rightarrow> nat" where
  "needed_sse c = length (filter (\<lambda>k. k = ABI_CLASS_SSE) (used_classes c))"

text \<open>\<open>sz < 0 ? 0 : sz\<close> rounded up to eight bytes.\<close>

definition stack_size :: "cg_env \<Rightarrow> tid \<Rightarrow> int" where
  "stack_size E t = round_up (if type_sizeof (cg_nodes E) t < 0 then 0 else type_sizeof (cg_nodes E) t) 8"

definition func_ret :: "cg_env \<Rightarrow> ir_func \<Rightarrow> tid" where
  "func_ret E f = (case body (cg_nodes E) (fn_type f) of Func r ps n v \<Rightarrow> r | _ \<Rightarrow> type_int)"

definition func_params :: "cg_env \<Rightarrow> ir_func \<Rightarrow> tid list" where
  "func_params E f = (case body (cg_nodes E) (fn_type f) of Func r ps n v \<Rightarrow> map fp_type ps | _ \<Rightarrow> [])"

fun arg_state_loop :: "cg_env \<Rightarrow> tid list \<Rightarrow> arg_state \<Rightarrow> arg_state" where
  "arg_state_loop E [] st = st"
| "arg_state_loop E (t # ts) st =
     arg_state_loop E ts
      (let c = class_of E t
       in if abi_in_memory c then st\<lparr>stack_offset := stack_offset st + stack_size E t\<rparr>
          else if int_regs_used st + needed_int c \<le> 6 \<and> sse_regs_used st + needed_sse c \<le> 8
            then st\<lparr>int_regs_used := int_regs_used st + needed_int c,
                    sse_regs_used := sse_regs_used st + needed_sse c\<rparr>
          else st\<lparr>stack_offset := stack_offset st + stack_size E t\<rparr>)"

definition compute_arg_state :: "cg_env \<Rightarrow> ir_func \<Rightarrow> nat \<Rightarrow> arg_state" where
  "compute_arg_state E f up_to =
     arg_state_loop E (take up_to (func_params E f))
       \<lparr>int_regs_used = (if abi_in_memory (class_of E (func_ret E f)) then 1 else 0),
        sse_regs_used = 0, stack_offset = 16\<rparr>"

definition param_regs :: "gpr list" where
  "param_regs = [RDI, RSI, RDX, RCX, R8, R9]"

subsection \<open>Copies of eightbytes and of runs of bytes\<close>

definition emit_load_eightbyte_from_mem :: "gpr \<Rightarrow> int \<Rightarrow> int \<Rightarrow> gpr \<Rightarrow> asm list" where
  "emit_load_eightbyte_from_mem base off remaining dst =
     (if remaining \<ge> 8 then [MovLoad W64 (Off off base) dst]
      else if remaining \<ge> 4 then [MovLoad W32 (Off off base) dst]
      else if remaining \<ge> 2 then [MovExtLoad False W16 (Off off base) dst]
      else [MovExtLoad False W8 (Off off base) dst])"

definition emit_store_eightbyte_to_mem :: "gpr \<Rightarrow> int \<Rightarrow> int \<Rightarrow> gpr \<Rightarrow> asm list" where
  "emit_store_eightbyte_to_mem base off remaining src =
     (if remaining \<ge> 8 then [MovStore W64 src (Off off base)]
      else if remaining \<ge> 4 then [MovStore W32 src (Off off base)]
      else if remaining \<ge> 2 then [MovStore W16 src (Off off base)]
      else if remaining \<ge> 1 then [MovStore W8 src (Off off base)]
      else [])"

definition copy_step :: "width \<Rightarrow> gpr \<Rightarrow> gpr \<Rightarrow> int \<Rightarrow> asm list" where
  "copy_step w dst src off = [MovLoad w (Off off src) RAX, MovStore w RAX (Off off dst)]"

text \<open>The loop of quadwords, and the tail of at most seven bytes.\<close>

function copy_quads :: "gpr \<Rightarrow> gpr \<Rightarrow> int \<Rightarrow> int \<Rightarrow> asm list \<times> int" where
  "copy_quads dst src off sz =
     (if off + 8 \<le> sz
      then let (code, off') = copy_quads dst src (off + 8) sz in (copy_step W64 dst src off @ code, off')
      else ([], off))"
  by pat_completeness auto
termination by (relation "measure (\<lambda>(d, s, off, sz). nat (sz - off))") auto

declare copy_quads.simps [simp del]

definition emit_copy_bytes :: "gpr \<Rightarrow> gpr \<Rightarrow> int \<Rightarrow> asm list" where
  "emit_copy_bytes dst src sz =
     (let (c8, off) = copy_quads dst src 0 sz;
          (c4, off) = (if off + 4 \<le> sz then (copy_step W32 dst src off, off + 4) else ([], off));
          (c2, off) = (if off + 2 \<le> sz then (copy_step W16 dst src off, off + 2) else ([], off));
          c1 = (if off < sz then copy_step W8 dst src off else [])
      in c8 @ c4 @ c2 @ c1)"

subsection \<open>Operands\<close>

definition slot_of :: "reg_alloc \<Rightarrow> int \<Rightarrow> int" where
  "slot_of ra t = ra_slot ra ! nat t"

definition load_reg :: "reg_alloc \<Rightarrow> ir_value \<Rightarrow> gpr \<Rightarrow> asm list" where
  "load_reg ra v r =
     (case iv_op v of
        IRV_NONE \<Rightarrow> []
      | IRV_TEMP t \<Rightarrow> [MovLoad W64 (Off (slot_of ra t) RBP) r]
      | IRV_CONST_INT c \<Rightarrow> [MovImm c r]
      | IRV_CONST_FLOAT x \<Rightarrow> [Alu Xorq r r]
      | IRV_GLOBAL g \<Rightarrow> [LeaSym g r])"

definition store_reg :: "reg_alloc \<Rightarrow> ir_value \<Rightarrow> gpr \<Rightarrow> asm list" where
  "store_reg ra v r =
     (case iv_op v of IRV_TEMP t \<Rightarrow> [MovStore W64 r (Off (slot_of ra t) RBP)] | _ \<Rightarrow> [])"

definition ext_rax :: "bool \<Rightarrow> int \<Rightarrow> asm list" where
  "ext_rax sx sz =
     (if sz = 1 then [ExtRax sx W8] else if sz = 2 then [ExtRax sx W16]
      else if sz = 4 then [ExtRax sx W32] else [])"

definition normalize_rax_to_type :: "cg_env \<Rightarrow> tid option \<Rightarrow> asm list" where
  "normalize_rax_to_type E ty =
     (case ty of
        None \<Rightarrow> []
      | Some t \<Rightarrow> if \<not> type_is_integer (cg_nodes E) t then []
                  else ext_rax (type_is_signed (cg_nodes E) t) (type_sizeof (cg_nodes E) t))"

definition is_fp_type :: "cg_env \<Rightarrow> tid option \<Rightarrow> bool" where
  "is_fp_type E ty \<longleftrightarrow>
     (case ty of None \<Rightarrow> False
      | Some t \<Rightarrow> body (cg_nodes E) t = Scalar TY_FLOAT \<or> body (cg_nodes E) t = Scalar TY_DOUBLE)"

definition is_double_type :: "cg_env \<Rightarrow> tid option \<Rightarrow> bool" where
  "is_double_type E ty \<longleftrightarrow> (case ty of None \<Rightarrow> False | Some t \<Rightarrow> body (cg_nodes E) t = Scalar TY_DOUBLE)"

definition is_aggregate_type :: "cg_env \<Rightarrow> tid option \<Rightarrow> bool" where
  "is_aggregate_type E ty \<longleftrightarrow>
     (case ty of None \<Rightarrow> False
      | Some t \<Rightarrow> (case body (cg_nodes E) t of Struct a \<Rightarrow> True | Union a \<Rightarrow> True | _ \<Rightarrow> False))"

definition load_xmm :: "cg_env \<Rightarrow> reg_alloc \<Rightarrow> ir_value \<Rightarrow> nat \<Rightarrow> asm list" where
  "load_xmm E ra v x =
     (let dbl = is_double_type E (iv_type v)
      in case iv_op v of
           IRV_NONE \<Rightarrow> []
         | IRV_TEMP t \<Rightarrow> [SseLoad dbl (Off (slot_of ra t) RBP) x]
         | IRV_CONST_FLOAT c \<Rightarrow>
             if dbl then [MovabsRax (cg_double_bits E c), MovRaxXmm x]
             else [MovEaxImm (cg_float_bits E c), MovEaxXmm x]
         | IRV_CONST_INT c \<Rightarrow> [MovImm c RAX, CvtFromRax dbl x]
         | IRV_GLOBAL g \<Rightarrow> [LeaSym g RAX, SseLoad dbl (Ind RAX) x])"

definition store_xmm :: "cg_env \<Rightarrow> reg_alloc \<Rightarrow> ir_value \<Rightarrow> nat \<Rightarrow> asm list" where
  "store_xmm E ra v x =
     (case iv_op v of
        IRV_TEMP t \<Rightarrow> [SseStore (is_double_type E (iv_type v)) x (Off (slot_of ra t) RBP)]
      | _ \<Rightarrow> [])"

definition label_name :: "ir_func \<Rightarrow> int \<Rightarrow> string" where
  "label_name f l = ''.L'' @ fn_name f @ ''_'' @ show_int l"

text \<open>\<open>(ty && type_sizeof(ty) > 0) ? type_sizeof(ty) : 8\<close>.\<close>

definition size_or_8 :: "cg_env \<Rightarrow> tid option \<Rightarrow> int" where
  "size_or_8 E ty =
     (case ty of None \<Rightarrow> 8
      | Some t \<Rightarrow> if type_sizeof (cg_nodes E) t > 0 then type_sizeof (cg_nodes E) t else 8)"

subsection \<open>Loads, stores, parameters\<close>

definition gen_load :: "cg_env \<Rightarrow> reg_alloc \<Rightarrow> ir_instr \<Rightarrow> asm list" where
  "gen_load E ra i =
     (let ty = iv_type (in_dst i)
      in load_reg ra (in_src1 i) RAX @
         (if is_fp_type E ty
          then [SseLoad (is_double_type E ty) (Ind RAX) 0] @ store_xmm E ra (in_dst i) 0
          else let sz = size_or_8 E ty;
                   sx = (case ty of None \<Rightarrow> True | Some t \<Rightarrow> type_is_signed (cg_nodes E) t)
          in (if sz = 1 then [MovExtLoad sx W8 (Ind RAX) RDX]
              else if sz = 2 then [MovExtLoad sx W16 (Ind RAX) RDX]
              else if sz = 4 then (if sx then [MovExtLoad True W32 (Ind RAX) RDX]
                                   else [MovLoad W32 (Ind RAX) RDX])
              else [MovLoad W64 (Ind RAX) RDX])
             @ store_reg ra (in_dst i) RDX))"

text \<open>\<open>ins->dst\<close> is the address: its type is a pointer to what is stored.\<close>

definition store_type :: "cg_env \<Rightarrow> ir_instr \<Rightarrow> tid option" where
  "store_type E i =
     (case iv_type (in_dst i) of
        None \<Rightarrow> iv_type (in_src1 i)
      | Some t \<Rightarrow> (case body (cg_nodes E) t of Pointer p \<Rightarrow> Some p | _ \<Rightarrow> iv_type (in_src1 i)))"

definition gen_store :: "cg_env \<Rightarrow> reg_alloc \<Rightarrow> ir_instr \<Rightarrow> asm list" where
  "gen_store E ra i =
     (let ty = store_type E i
      in load_reg ra (in_dst i) R10 @
         (if is_fp_type E ty
          then load_xmm E ra ((in_src1 i)\<lparr>iv_type := ty\<rparr>) 0
               @ [SseStore (is_double_type E ty) 0 (Ind R10)]
          else let sz = size_or_8 E ty
          in load_reg ra (in_src1 i) RAX @
             [MovStore (if sz = 1 then W8 else if sz = 2 then W16 else if sz = 4 then W32 else W64)
                RAX (Ind R10)]))"

text \<open>The loop that moves the eightbytes of a parameter from its registers to its slot or, for
  an aggregate, to the address in the slot; \<open>j\<close> is the number of the eightbyte.\<close>

fun param_regs_loop ::
    "cg_env \<Rightarrow> int \<Rightarrow> bool \<Rightarrow> int \<Rightarrow> ABIClass list \<Rightarrow> int \<Rightarrow> nat \<Rightarrow> nat \<Rightarrow> asm list" where
  "param_regs_loop E sz to_addr slot [] j ints sses = []"
| "param_regs_loop E sz to_addr slot (c # cs) j ints sses =
     (let off = j * 8; remaining = sz - off
      in if c = ABI_CLASS_INTEGER
         then (let src = param_regs ! ints
               in if to_addr then emit_store_eightbyte_to_mem R11 off remaining src
                  else if remaining \<ge> 8 then [MovStore W64 src (Off (slot + off) RBP)]
                  else if remaining \<ge> 4 then [MovStore W32 src (Off (slot + off) RBP)]
                  else if remaining \<ge> 2 then [MovStore W16 src (Off (slot + off) RBP)]
                  else [MovStore W8 src (Off (slot + off) RBP)])
              @ param_regs_loop E sz to_addr slot cs (j + 1) (ints + 1) sses
         else if c = ABI_CLASS_SSE
         then (if to_addr then [SseStore (remaining \<ge> 8) sses (Off off R11)]
               else [SseStore (remaining \<ge> 8) sses (Off (slot + off) RBP)])
              @ param_regs_loop E sz to_addr slot cs (j + 1) ints (sses + 1)
         else param_regs_loop E sz to_addr slot cs (j + 1) ints sses)"

definition gen_param :: "cg_env \<Rightarrow> reg_alloc \<Rightarrow> ir_func \<Rightarrow> ir_instr \<Rightarrow> asm list" where
  "gen_param E ra f i =
     (if in_label i < 0 then store_reg ra (in_dst i) RDI
      else let st = compute_arg_state E f (nat (in_label i));
               to_addr = is_aggregate_type E (iv_type (in_src2 i));
               pty = (if to_addr then val_type (in_src2 i) else val_type (in_dst i));
               c = class_of E pty;
               slot = (case iv_op (in_dst i) of IRV_TEMP t \<Rightarrow> slot_of ra t | _ \<Rightarrow> slot_of ra 0);
               sz = type_sizeof (cg_nodes E) pty;
               target = (if to_addr then load_reg ra (in_dst i) R11 else [Lea slot RBP R11]);
               from_stack = target @ [Lea (stack_offset st) RBP R10]
                            @ emit_copy_bytes R11 R10 (if sz < 0 then 0 else sz)
      in if abi_in_memory c then from_stack
         else if int_regs_used st + needed_int c \<le> 6 \<and> sse_regs_used st + needed_sse c \<le> 8
           then (if to_addr then load_reg ra (in_dst i) R11 else [])
                @ param_regs_loop E sz to_addr slot (used_classes c) 0 (int_regs_used st) (sse_regs_used st)
         else from_stack)"

definition gen_copy :: "cg_env \<Rightarrow> reg_alloc \<Rightarrow> ir_func \<Rightarrow> ir_instr \<Rightarrow> asm list" where
  "gen_copy E ra f i =
     (if iv_op (in_src1 i) = IRV_NONE \<and> in_op i = IR_COPY then gen_param E ra f i
      else if is_fp_type E (iv_type (in_dst i)) \<or> is_fp_type E (iv_type (in_src1 i))
        then load_xmm E ra (in_src1 i) 0 @ store_xmm E ra (in_dst i) 0
      else load_reg ra (in_src1 i) RAX @ store_reg ra (in_dst i) RAX)"

definition gen_addr :: "reg_alloc \<Rightarrow> ir_instr \<Rightarrow> asm list" where
  "gen_addr ra i =
     (case iv_op (in_src1 i) of
        IRV_TEMP t \<Rightarrow> [Lea (slot_of ra t) RBP RAX]
      | IRV_GLOBAL g \<Rightarrow> [LeaSym g RAX]
      | _ \<Rightarrow> load_reg ra (in_src1 i) RAX)
     @ store_reg ra (in_dst i) RAX"

end
