(* ===== verification/CodegenFun.thy ===== *)
theory CodegenFun
  imports Codegen
begin

section \<open>Instruction selection, functions and modules (codegen.c)\<close>

text \<open>
  The arms of the switch of codegen_func, codegen_func itself (\<open>codegen_func\<close>) and the
  module level (\<open>codegen_module\<close>). The index of an argument register is not checked by the
  code: \<open>param_regs ! n\<close> with \<open>n\<close> at least 6 stands for a read outside of the array.
\<close>

subsection \<open>Arithmetic\<close>

definition is_alu_op :: "IROp \<Rightarrow> bool" where
  "is_alu_op op \<longleftrightarrow> op \<in> {IR_ADD, IR_SUB, IR_MUL, IR_AND, IR_OR, IR_XOR, IR_SHL, IR_SHR}"

definition alu_code :: "IROp \<Rightarrow> asm list" where
  "alu_code op =
     (if op = IR_ADD then [Alu Addq RCX RAX] else if op = IR_SUB then [Alu Subq RCX RAX]
      else if op = IR_MUL then [Alu Imulq RCX RAX] else if op = IR_AND then [Alu Andq RCX RAX]
      else if op = IR_OR then [Alu Orq RCX RAX] else if op = IR_XOR then [Alu Xorq RCX RAX]
      else if op = IR_SHL then [Sal] else if op = IR_SHR then [Sar] else [])"

definition sse_code :: "IROp \<Rightarrow> bool \<Rightarrow> asm list" where
  "sse_code op dbl =
     (if op = IR_ADD then [SseAlu ''add'' dbl] else if op = IR_SUB then [SseAlu ''sub'' dbl]
      else if op = IR_MUL then [SseAlu ''mul'' dbl] else [])"

definition gen_alu :: "cg_env \<Rightarrow> reg_alloc \<Rightarrow> ir_instr \<Rightarrow> asm list" where
  "gen_alu E ra i =
     (if is_fp_type E (iv_type (in_dst i))
      then load_xmm E ra (in_src1 i) 0 @ load_xmm E ra (in_src2 i) 1
           @ sse_code (in_op i) (is_double_type E (iv_type (in_dst i))) @ store_xmm E ra (in_dst i) 0
      else load_reg ra (in_src1 i) RAX @ load_reg ra (in_src2 i) RCX @ alu_code (in_op i)
           @ store_reg ra (in_dst i) RAX)"

definition gen_div :: "cg_env \<Rightarrow> reg_alloc \<Rightarrow> ir_instr \<Rightarrow> asm list" where
  "gen_div E ra i =
     (if is_fp_type E (iv_type (in_dst i))
      then load_xmm E ra (in_src1 i) 0 @ load_xmm E ra (in_src2 i) 1
           @ [SseAlu ''div'' (is_double_type E (iv_type (in_dst i)))] @ store_xmm E ra (in_dst i) 0
      else load_reg ra (in_src1 i) RAX @ [Cqto] @ load_reg ra (in_src2 i) RCX @ [Idiv RCX]
           @ store_reg ra (in_dst i) RAX)"

definition gen_mod :: "reg_alloc \<Rightarrow> ir_instr \<Rightarrow> asm list" where
  "gen_mod ra i =
     load_reg ra (in_src1 i) RAX @ [Cqto] @ load_reg ra (in_src2 i) RCX @ [Idiv RCX]
     @ store_reg ra (in_dst i) RDX"

definition gen_neg :: "reg_alloc \<Rightarrow> ir_instr \<Rightarrow> asm list" where
  "gen_neg ra i = load_reg ra (in_src1 i) RAX @ [Negq RAX] @ store_reg ra (in_dst i) RAX"

definition gen_not :: "reg_alloc \<Rightarrow> ir_instr \<Rightarrow> asm list" where
  "gen_not ra i = load_reg ra (in_src1 i) RAX @ [Notq RAX] @ store_reg ra (in_dst i) RAX"

subsection \<open>Comparisons and conversions\<close>

definition is_comparison :: "IROp \<Rightarrow> bool" where
  "is_comparison op \<longleftrightarrow> op \<in> {IR_EQ, IR_NE, IR_LT, IR_LE, IR_GT, IR_GE}"

definition cond_code :: "IROp \<Rightarrow> bool \<Rightarrow> asm list" where
  "cond_code op uns =
     (if op = IR_EQ then [SetAl CC_E] else if op = IR_NE then [SetAl CC_NE]
      else if op = IR_LT then [SetAl (if uns then CC_B else CC_L)]
      else if op = IR_LE then [SetAl (if uns then CC_BE else CC_LE)]
      else if op = IR_GT then [SetAl (if uns then CC_A else CC_G)]
      else if op = IR_GE then [SetAl (if uns then CC_AE else CC_GE)] else [])"

definition use_unsigned :: "cg_env \<Rightarrow> ir_instr \<Rightarrow> bool" where
  "use_unsigned E i \<longleftrightarrow>
     type_is_unsigned_integer (cg_nodes E) (val_type (in_src1 i)) \<or>
     type_is_unsigned_integer (cg_nodes E) (val_type (in_src2 i))"

definition gen_compare :: "cg_env \<Rightarrow> reg_alloc \<Rightarrow> ir_instr \<Rightarrow> asm list" where
  "gen_compare E ra i =
     (if is_fp_type E (iv_type (in_src1 i)) \<or> is_fp_type E (iv_type (in_src2 i))
      then load_xmm E ra (in_src1 i) 0 @ load_xmm E ra (in_src2 i) 1 @ [Ucomisd]
           @ cond_code (in_op i) True @ [ExtRax False W8] @ store_reg ra (in_dst i) RAX
      else load_reg ra (in_src1 i) RAX @ load_reg ra (in_src2 i) RCX @ [Cmp RCX RAX]
           @ cond_code (in_op i) (use_unsigned E i) @ [ExtRax False W8] @ store_reg ra (in_dst i) RAX)"

definition gen_sext :: "cg_env \<Rightarrow> reg_alloc \<Rightarrow> ir_instr \<Rightarrow> asm list" where
  "gen_sext E ra i =
     load_reg ra (in_src1 i) RAX @ ext_rax True (size_or_8 E (iv_type (in_src1 i)))
     @ store_reg ra (in_dst i) RAX"

text \<open>Four bytes: the code prints nothing.\<close>

definition gen_zext :: "cg_env \<Rightarrow> reg_alloc \<Rightarrow> ir_instr \<Rightarrow> asm list" where
  "gen_zext E ra i =
     (let fsz = size_or_8 E (iv_type (in_src1 i))
      in load_reg ra (in_src1 i) RAX
         @ (if fsz = 1 then [ExtRax False W8] else if fsz = 2 then [ExtRax False W16] else [])
         @ store_reg ra (in_dst i) RAX)"

definition gen_trunc :: "cg_env \<Rightarrow> reg_alloc \<Rightarrow> ir_instr \<Rightarrow> asm list" where
  "gen_trunc E ra i =
     load_reg ra (in_src1 i) RAX
     @ (case iv_type (in_dst i) of
          None \<Rightarrow> []
        | Some t \<Rightarrow> ext_rax (type_is_signed (cg_nodes E) t) (type_sizeof (cg_nodes E) t))
     @ store_reg ra (in_dst i) RAX"

definition gen_itof :: "cg_env \<Rightarrow> reg_alloc \<Rightarrow> ir_instr \<Rightarrow> asm list" where
  "gen_itof E ra i =
     load_reg ra (in_src1 i) RAX @ [CvtFromRax (is_double_type E (iv_type (in_dst i))) 0]
     @ store_xmm E ra (in_dst i) 0"

definition gen_ftoi :: "cg_env \<Rightarrow> reg_alloc \<Rightarrow> ir_instr \<Rightarrow> asm list" where
  "gen_ftoi E ra i =
     load_xmm E ra (in_src1 i) 0 @ [CvtToRax (is_double_type E (iv_type (in_src1 i)))]
     @ store_reg ra (in_dst i) RAX"

subsection \<open>Calls\<close>

definition fits :: "ABIClassification \<Rightarrow> nat \<Rightarrow> nat \<Rightarrow> bool" where
  "fits c ints sses \<longleftrightarrow> ints + needed_int c \<le> 6 \<and> sses + needed_sse c \<le> 8"

text \<open>The first pass: registers used and bytes of the arguments on the stack.\<close>

fun call_classify :: "cg_env \<Rightarrow> tid list \<Rightarrow> nat \<times> nat \<times> int \<Rightarrow> nat \<times> nat \<times> int" where
  "call_classify E [] st = st"
| "call_classify E (t # ts) (ints, sses, bytes) =
     (let c = class_of E t
      in call_classify E ts
           (if abi_in_memory c then (ints, sses, bytes + stack_size E t)
            else if fits c ints sses then (ints + needed_int c, sses + needed_sse c, bytes)
            else (ints, sses, bytes + stack_size E t)))"

text \<open>The registers the arguments before one use, simulated again for each argument.\<close>

fun sim_regs :: "cg_env \<Rightarrow> tid list \<Rightarrow> nat \<times> nat \<Rightarrow> nat \<times> nat" where
  "sim_regs E [] st = st"
| "sim_regs E (t # ts) (ints, sses) =
     (let c = class_of E t
      in sim_regs E ts
           (if \<not> abi_in_memory c \<and> fits c ints sses
            then (ints + needed_int c, sses + needed_sse c) else (ints, sses)))"

definition goes_to_stack :: "cg_env \<Rightarrow> tid list \<Rightarrow> nat \<Rightarrow> nat \<Rightarrow> bool" where
  "goes_to_stack E ts sret a \<longleftrightarrow>
     (let c = class_of E (ts ! a); (ints, sses) = sim_regs E (take a ts) (sret, 0)
      in abi_in_memory c \<or> \<not> fits c ints sses)"

definition push_arg :: "cg_env \<Rightarrow> reg_alloc \<Rightarrow> ir_value \<Rightarrow> asm list" where
  "push_arg E ra v =
     [SubRsp (stack_size E (val_type v))] @
     (if is_aggregate_type E (iv_type v)
      then load_reg ra v R11 @
           emit_copy_bytes RSP R11 (if type_sizeof (cg_nodes E) (val_type v) < 0 then 0
                                    else type_sizeof (cg_nodes E) (val_type v))
      else load_reg ra v RAX @ [MovStore W64 RAX (Ind RSP)])"

text \<open>The second pass, from the last argument to the first; \<open>a\<close> counts down.\<close>

fun push_args :: "cg_env \<Rightarrow> reg_alloc \<Rightarrow> ir_value list \<Rightarrow> nat \<Rightarrow> nat \<Rightarrow> asm list" where
  "push_args E ra args sret 0 = []"
| "push_args E ra args sret (Suc a) =
     (if goes_to_stack E (map val_type args) sret a then push_arg E ra (args ! a) else [])
     @ push_args E ra args sret a"

text \<open>Eightbytes of an aggregate at \<open>base\<close> to registers: of an argument and of a result.\<close>

fun load_agg_regs ::
    "gpr \<Rightarrow> gpr list \<Rightarrow> int \<Rightarrow> ABIClass list \<Rightarrow> int \<Rightarrow> nat \<Rightarrow> nat \<Rightarrow> asm list \<times> nat \<times> nat" where
  "load_agg_regs base rs sz [] j ints sses = ([], ints, sses)"
| "load_agg_regs base rs sz (c # cs) j ints sses =
     (let off = j * 8; remaining = sz - off
      in if c = ABI_CLASS_INTEGER
         then (let (code, st) = load_agg_regs base rs sz cs (j + 1) (ints + 1) sses
               in (emit_load_eightbyte_from_mem base off remaining (rs ! ints) @ code, st))
         else if c = ABI_CLASS_SSE
         then (let (code, st) = load_agg_regs base rs sz cs (j + 1) ints (sses + 1)
               in (SseLoad (remaining \<ge> 8) (Off off base) sses # code, st))
         else load_agg_regs base rs sz cs (j + 1) ints sses)"

text \<open>The third pass.\<close>

fun reg_args :: "cg_env \<Rightarrow> reg_alloc \<Rightarrow> ir_value list \<Rightarrow> nat \<Rightarrow> nat \<Rightarrow> asm list \<times> nat" where
  "reg_args E ra [] ints sses = ([], sses)"
| "reg_args E ra (v # vs) ints sses =
     (let c = class_of E (val_type v)
      in if abi_in_memory c \<or> \<not> fits c ints sses then reg_args E ra vs ints sses
         else if is_aggregate_type E (iv_type v)
         then (let (code, ints', sses') =
                     load_agg_regs R11 param_regs (type_sizeof (cg_nodes E) (val_type v)) (used_classes c)
                       0 ints sses;
                   (rest, n) = reg_args E ra vs ints' sses'
               in (load_reg ra v R11 @ code @ rest, n))
         else if n_eightbytes c = 1 \<and> classes c ! 0 = ABI_CLASS_SSE
         then (let (rest, n) = reg_args E ra vs ints (sses + 1)
               in (load_xmm E ra v sses @ rest, n))
         else (let (rest, n) = reg_args E ra vs (ints + 1) sses
               in (load_reg ra v (param_regs ! ints) @ rest, n)))"

text \<open>Eightbytes of a returned aggregate to the memory at \<open>%r10\<close>.\<close>

fun store_ret_regs :: "int \<Rightarrow> ABIClass list \<Rightarrow> int \<Rightarrow> nat \<Rightarrow> nat \<Rightarrow> asm list" where
  "store_ret_regs sz [] j ri rs = []"
| "store_ret_regs sz (c # cs) j ri rs =
     (let off = j * 8; remaining = sz - off
      in if c = ABI_CLASS_INTEGER
         then (let src = [RAX, RDX] ! ri
               in [MovStore (if remaining \<ge> 8 then W64 else if remaining \<ge> 4 then W32
                             else if remaining \<ge> 2 then W16 else W8) src (Off off R10)])
              @ store_ret_regs sz cs (j + 1) (ri + 1) rs
         else if c = ABI_CLASS_SSE
         then SseStore True rs (Off off R10) # store_ret_regs sz cs (j + 1) ri (rs + 1)
         else store_ret_regs sz cs (j + 1) ri rs)"

definition call_result :: "cg_env \<Rightarrow> reg_alloc \<Rightarrow> ir_instr \<Rightarrow> asm list" where
  "call_result E ra i =
     (case iv_op (in_dst i) of
        IRV_TEMP t \<Rightarrow>
          if in_call_sret i then []
          else let rty = (case in_call_ret_ty i of Some r \<Rightarrow> Some r | None \<Rightarrow> iv_type (in_dst i));
                   ty = (case rty of Some r \<Rightarrow> r | None \<Rightarrow> type_void);
                   c = class_of E ty
          in if abi_in_memory c then []
             else if is_aggregate_type E rty
             then MovLoad W64 (Off (slot_of ra t) RBP) R10
                  # store_ret_regs (type_sizeof (cg_nodes E) ty) (used_classes c) 0 0 0
             else if n_eightbytes c = 1 \<and> classes c ! 0 = ABI_CLASS_SSE then store_xmm E ra (in_dst i) 0
             else if n_eightbytes c = 1 \<and> classes c ! 0 = ABI_CLASS_INTEGER
             then normalize_rax_to_type E rty @ store_reg ra (in_dst i) RAX
             else []
      | _ \<Rightarrow> [])"

definition align_pad :: "int \<Rightarrow> int \<Rightarrow> int" where
  "align_pad frame bytes = (if (frame + bytes) mod 16 \<noteq> 0 then 16 - (frame + bytes) mod 16 else 0)"

definition gen_call :: "cg_env \<Rightarrow> reg_alloc \<Rightarrow> ir_instr \<Rightarrow> asm list" where
  "gen_call E ra i =
     (let args = in_call_args i;
          sret = (if in_call_sret i then 1 else 0);
          (ints, sses, bytes) = call_classify E (map val_type args) (sret, 0, 0);
          pad = align_pad (ra_frame_size ra) bytes;
          (reg_code, sse_used) = reg_args E ra args sret 0
      in (if pad \<noteq> 0 then [SubRsp pad] else [])
         @ push_args E ra args sret (length args)
         @ reg_code
         @ (if in_call_sret i
            then (case iv_op (in_dst i) of
                    IRV_TEMP t \<Rightarrow> [MovLoad W64 (Off (slot_of ra t) RBP) RDI] | _ \<Rightarrow> [])
            else [])
         @ [MovAl (if sse_used > 8 then 8 else int sse_used)]
         @ (case iv_op (in_src1 i) of
              IRV_GLOBAL g \<Rightarrow> [CallSym g] | _ \<Rightarrow> load_reg ra (in_src1 i) R10 @ [CallReg R10])
         @ (if bytes + pad > 0 then [AddRsp (bytes + pad)] else [])
         @ call_result E ra i)"

subsection \<open>Returns and block copies\<close>

definition ret_value :: "cg_env \<Rightarrow> reg_alloc \<Rightarrow> ir_func \<Rightarrow> ir_value \<Rightarrow> asm list" where
  "ret_value E ra f v =
     (let rty = func_ret E f; c = class_of E rty;
          sret = MovLoad W64 (Off (slot_of ra (fn_sret_temp f)) RBP)
      in if abi_in_memory c
         then [sret RDI] @ load_reg ra v RSI
              @ [MovImm (type_sizeof (cg_nodes E) rty) RDX, CallSym ''memcpy'', sret RAX]
         else if is_aggregate_type E (Some rty)
         then (case iv_op v of
                 IRV_TEMP t \<Rightarrow>
                   load_reg ra v R10 @
                   fst (load_agg_regs R10 [RAX, RDX] (type_sizeof (cg_nodes E) rty) (used_classes c) 0 0 0)
               | _ \<Rightarrow> [])
         else if n_eightbytes c = 1 \<and> classes c ! 0 = ABI_CLASS_SSE then load_xmm E ra v 0
         else if n_eightbytes c = 1 \<and> classes c ! 0 = ABI_CLASS_INTEGER
         then load_reg ra v RAX
              @ (case body (cg_nodes E) (fn_type f) of
                   Func r ps n va \<Rightarrow> normalize_rax_to_type E (Some r) | _ \<Rightarrow> [])
         else [])"

definition gen_ret :: "cg_env \<Rightarrow> reg_alloc \<Rightarrow> ir_func \<Rightarrow> ir_instr \<Rightarrow> asm list" where
  "gen_ret E ra f i =
     (if iv_op (in_src1 i) \<noteq> IRV_NONE then ret_value E ra f (in_src1 i) else []) @ [Leave, Ret]"

definition gen_memcpy :: "reg_alloc \<Rightarrow> ir_instr \<Rightarrow> asm list" where
  "gen_memcpy ra i =
     load_reg ra (in_dst i) RDI @ load_reg ra (in_src1 i) RSI @ load_reg ra (in_src2 i) RDX
     @ [CallSym ''memcpy'']"

definition gen_alloca :: "reg_alloc \<Rightarrow> ir_instr \<Rightarrow> asm list" where
  "gen_alloca ra i =
     (case iv_op (in_dst i) of
        IRV_TEMP t \<Rightarrow> Lea (ra_alloca_off ra ! nat t) RBP RAX # store_reg ra (in_dst i) RAX
      | _ \<Rightarrow> [])"

subsection \<open>The switch\<close>

definition gen_instr :: "cg_env \<Rightarrow> reg_alloc \<Rightarrow> ir_func \<Rightarrow> ir_instr \<Rightarrow> asm list" where
  "gen_instr E ra f i =
     (let op = in_op i
      in if op = IR_LABEL then [LabelDef (label_name f (in_label i))]
         else if op = IR_ALLOCA then gen_alloca ra i
         else if op = IR_LOAD then gen_load E ra i
         else if op = IR_STORE then gen_store E ra i
         else if op = IR_COPY \<or> op = IR_LOAD_IMM then gen_copy E ra f i
         else if op = IR_ADDR then gen_addr ra i
         else if is_alu_op op then gen_alu E ra i
         else if op = IR_DIV then gen_div E ra i
         else if op = IR_MOD then gen_mod ra i
         else if op = IR_NEG then gen_neg ra i
         else if op = IR_NOT then gen_not ra i
         else if is_comparison op then gen_compare E ra i
         else if op = IR_SEXT then gen_sext E ra i
         else if op = IR_ZEXT then gen_zext E ra i
         else if op = IR_TRUNC then gen_trunc E ra i
         else if op = IR_ITOF then gen_itof E ra i
         else if op = IR_FTOI then gen_ftoi E ra i
         else if op = IR_JMP then [Jmp (label_name f (in_label i))]
         else if op = IR_JZ then load_reg ra (in_src1 i) RAX @ [Test RAX, Je (label_name f (in_label i))]
         else if op = IR_JNZ then load_reg ra (in_src1 i) RAX @ [Test RAX, Jne (label_name f (in_label i))]
         else if op = IR_CALL then gen_call E ra i
         else if op = IR_RET then gen_ret E ra f i
         else if op = IR_MEMCPY then gen_memcpy ra i
         else [])"

subsection \<open>Functions\<close>

definition directive :: "string \<Rightarrow> asm" where
  "directive s = Line (CHR 0x09 # s)"

definition codegen_func :: "cg_env \<Rightarrow> ir_func \<Rightarrow> asm list" where
  "codegen_func E f =
     (let ra = regalloc_run f
      in (if \<not> fn_is_static f then [directive (''.globl '' @ fn_name f)] else [])
         @ [directive (''.type '' @ fn_name f @ '', @function''), LabelDef (fn_name f)]
         @ [Push RBP, MovReg RSP RBP, SubRsp (ra_frame_size ra)]
         @ concat (map (gen_instr E ra f) (fn_instrs f))
         @ [Leave, Ret, directive (''.size '' @ fn_name f @ '', .-'' @ fn_name f), Line []])"

subsection \<open>Data\<close>

text \<open>\<open>%03o\<close> of a byte.\<close>

definition octal3 :: "nat \<Rightarrow> string" where
  "octal3 n = [char_of (48 + n div 64 mod 8), char_of (48 + n div 8 mod 8), char_of (48 + n mod 8)]"

definition asciz_char :: "char \<Rightarrow> string" where
  "asciz_char c =
     (if c = CHR 0x0A then [CHR 0x5C, CHR ''n'']
      else if c = CHR 0x0D then [CHR 0x5C, CHR ''r'']
      else if c = CHR 0x09 then [CHR 0x5C, CHR ''t'']
      else if c = CHR 0x5C then [CHR 0x5C, CHR 0x5C]
      else if c = CHR 0x22 then [CHR 0x5C, CHR 0x22]
      else let n = of_char c :: nat in if n < 32 \<or> n > 126 then CHR 0x5C # octal3 n else [c])"

definition emit_asciz :: "string \<Rightarrow> string" where
  "emit_asciz s = CHR 0x22 # concat (map asciz_char (c_str s)) @ [CHR 0x22]"

definition emit_str_const :: "ir_str_const \<Rightarrow> string" where
  "emit_str_const s =
     sc_label s @ '':'' @ [CHR 0x0A, CHR 0x09] @ ''.asciz '' @ emit_asciz (sc_data s) @ [CHR 0x0A]"

definition init_byte :: "string \<Rightarrow> int \<Rightarrow> nat \<Rightarrow> string" where
  "init_byte d n i =
     (if i mod 12 = 0 then CHR 0x09 # ''.byte '' else '', '')
     @ show_nat (of_char (d ! i))
     @ (if i mod 12 = 11 \<or> int i = n - 1 then [CHR 0x0A] else [])"

definition scalar_init :: "ir_global_var \<Rightarrow> int \<Rightarrow> string" where
  "scalar_init g sz =
     CHR 0x09 #
     (if gv_has_init g \<and> gv_init_val g \<noteq> 0
      then (if sz = 1 then ''.byte '' else if sz = 2 then ''.short ''
            else if sz = 4 then ''.long '' else ''.quad '') @ show_int (gv_init_val g)
      else ''.zero '' @ show_int sz) @ [CHR 0x0A]"

definition emit_global_var :: "cg_env \<Rightarrow> ir_global_var \<Rightarrow> string" where
  "emit_global_var E g =
     (let sz = size_or_8 E (Some (gv_type g)); nl = [CHR 0x0A]; tab = [CHR 0x09]
      in (if \<not> gv_is_static g
          then tab @ ''.globl '' @ gv_name g @ nl @ tab @ ''.type '' @ gv_name g @ '', @object'' @ nl
          else [])
         @ gv_name g @ '':'' @ nl
         @ (case gv_init_data g of
              Some d \<Rightarrow>
                if gv_init_size g > 0
                then concat (map (init_byte d (gv_init_size g)) [0..<nat (gv_init_size g)])
                else scalar_init g sz
            | None \<Rightarrow> scalar_init g sz))"

definition codegen_module :: "cg_env \<Rightarrow> ir_module \<Rightarrow> string" where
  "codegen_module E m =
     CHR 0x09 # ''.text'' @ [CHR 0x0A, CHR 0x0A]
     @ concat (map (\<lambda>f. show_code (codegen_func E f)) (filter (\<lambda>f. fn_instrs f \<noteq> []) (md_funcs m)))
     @ (if md_str_consts m \<noteq> []
        then CHR 0x09 # ''.section .rodata'' @ [CHR 0x0A] @ concat (map emit_str_const (md_str_consts m))
        else [])
     @ (if md_global_vars m \<noteq> []
        then [CHR 0x0A, CHR 0x09] @ ''.data'' @ [CHR 0x0A] @ concat (map (emit_global_var E) (md_global_vars m))
        else [])"

end
