(* ===== verification/CodegenSem.thy ===== *)
theory CodegenSem
  imports CodegenFun
begin

section \<open>What the integer instructions of the IR mean, and that their code does it\<close>

text \<open>
  \<open>ir_exec\<close> gives the meaning of the integer, pointer and memory instructions of the IR on a
  state of temporaries and memory: it is a specification, written without reference to the
  assembly code. None stands for what is undefined or outside of the fragment (floating
  point, calls, a shift by 64 or more, a division that traps, an access to the slots of the
  temporaries through a pointer). \<open>gen_instr_correct\<close> runs the code of codegen.c for such an
  instruction on the machine of theory X86 and shows that it ends in the matching state.
\<close>

subsection \<open>The meaning of an instruction\<close>

record ir_state =
  temps :: "int \<Rightarrow> u64"
  imem :: memory

fun ir_val :: "ir_operand \<Rightarrow> ir_state \<Rightarrow> u64 option" where
  "ir_val (IRV_TEMP t) st = Some (temps st t)"
| "ir_val (IRV_CONST_INT c) st = Some (of_int c)"
| "ir_val op st = None"

definition ir_alu :: "IROp \<Rightarrow> u64 \<Rightarrow> u64 \<Rightarrow> u64 option" where
  "ir_alu op a b =
     (if op = IR_ADD then Some (a + b) else if op = IR_SUB then Some (a - b)
      else if op = IR_MUL then Some (a * b) else if op = IR_AND then Some (a AND b)
      else if op = IR_OR then Some (a OR b) else if op = IR_XOR then Some (a XOR b)
      else if op = IR_SHL \<and> b < 64 then Some (push_bit (unat b) a)
      else if op = IR_SHR \<and> b < 64 then Some (of_int (sint a div 2 ^ unat b)) else None)"

definition ir_divmod :: "IROp \<Rightarrow> u64 \<Rightarrow> u64 \<Rightarrow> u64 option" where
  "ir_divmod op a b =
     (let q = quot (sint a) (sint b)
      in if sint b = 0 \<or> q \<ge> 2 ^ 63 then None
         else if op = IR_DIV then Some (of_int q)
         else if op = IR_MOD then Some (of_int (sint a - q * sint b)) else None)"

definition ir_cmp :: "IROp \<Rightarrow> bool \<Rightarrow> u64 \<Rightarrow> u64 \<Rightarrow> bool" where
  "ir_cmp op uns a b =
     (if op = IR_EQ then a = b else if op = IR_NE then a \<noteq> b
      else if op = IR_LT then (if uns then uint a < uint b else sint a < sint b)
      else if op = IR_LE then (if uns then uint a \<le> uint b else sint a \<le> sint b)
      else if op = IR_GT then (if uns then uint a > uint b else sint a > sint b)
      else if uns then uint a \<ge> uint b else sint a \<ge> sint b)"

text \<open>The value of the low \<open>sz\<close> bytes, as a signed or an unsigned number.\<close>

definition low_bytes :: "bool \<Rightarrow> int \<Rightarrow> u64 \<Rightarrow> u64" where
  "low_bytes sx sz a =
     (if sz = 1 \<or> sz = 2 \<or> sz = 4
      then (if sx then signed_take_bit (8 * nat sz - 1) a else take_bit (8 * nat sz) a) else a)"

definition access_bytes :: "int \<Rightarrow> nat" where
  "access_bytes sz = (if sz = 1 \<or> sz = 2 \<or> sz = 4 then nat sz else 8)"

text \<open>The slots of the temporaries 1 to \<open>n - 1\<close> are the run of bytes below the frame
  pointer \<open>fp\<close>.\<close>

definition in_slots :: "u64 \<Rightarrow> int \<Rightarrow> u64 \<Rightarrow> bool" where
  "in_slots fp n x \<longleftrightarrow> in_run (fp - of_int (8 * (n - 1))) (nat (8 * (n - 1))) x"

definition access_ok :: "u64 \<Rightarrow> int \<Rightarrow> u64 \<Rightarrow> nat \<Rightarrow> bool" where
  "access_ok fp n a k \<longleftrightarrow> list_all (\<lambda>j. \<not> in_slots fp n (a + of_nat j)) [0..<k]"

record ir_frame =
  fr_ptr :: u64
  fr_temps :: int
  fr_alloca :: "int \<Rightarrow> int"

definition is_temp :: "ir_frame \<Rightarrow> ir_operand \<Rightarrow> bool" where
  "is_temp F op \<longleftrightarrow> (case op of IRV_TEMP t \<Rightarrow> 1 \<le> t \<and> t < fr_temps F | _ \<Rightarrow> False)"

definition operand_ok :: "ir_frame \<Rightarrow> ir_operand \<Rightarrow> bool" where
  "operand_ok F op \<longleftrightarrow> (case op of IRV_TEMP t \<Rightarrow> 1 \<le> t \<and> t < fr_temps F | IRV_CONST_INT c \<Rightarrow> True | _ \<Rightarrow> False)"

definition set_temp :: "ir_operand \<Rightarrow> u64 \<Rightarrow> ir_state \<Rightarrow> ir_state" where
  "set_temp op v st = (case op of IRV_TEMP t \<Rightarrow> st\<lparr>temps := (temps st)(t := v)\<rparr> | _ \<Rightarrow> st)"

text \<open>What an instruction that computes a value computes, from its operands.\<close>

definition ir_binary :: "cg_env \<Rightarrow> ir_instr \<Rightarrow> u64 \<Rightarrow> u64 \<Rightarrow> u64 option" where
  "ir_binary E i x y =
     (if is_alu_op (in_op i)
      then (if is_fp_type E (iv_type (in_dst i)) then None else ir_alu (in_op i) x y)
      else if is_comparison (in_op i)
      then (if is_fp_type E (iv_type (in_src1 i)) \<or> is_fp_type E (iv_type (in_src2 i)) then None
            else Some (if ir_cmp (in_op i) (use_unsigned E i) x y then 1 else 0))
      else if in_op i = IR_DIV \<and> is_fp_type E (iv_type (in_dst i)) then None
      else ir_divmod (in_op i) x y)"

definition ir_load_type :: "cg_env \<Rightarrow> ir_instr \<Rightarrow> bool \<times> int" where
  "ir_load_type E i =
     ((case iv_type (in_dst i) of None \<Rightarrow> True | Some t \<Rightarrow> type_is_signed (cg_nodes E) t),
      size_or_8 E (iv_type (in_dst i)))"

definition ir_unary :: "cg_env \<Rightarrow> ir_frame \<Rightarrow> ir_instr \<Rightarrow> ir_state \<Rightarrow> u64 \<Rightarrow> u64 option" where
  "ir_unary E F i st x =
     (let op = in_op i; fsz = size_or_8 E (iv_type (in_src1 i))
      in if op = IR_COPY \<or> op = IR_LOAD_IMM
         then (if is_fp_type E (iv_type (in_dst i)) \<or> is_fp_type E (iv_type (in_src1 i)) then None else Some x)
         else if op = IR_NEG then Some (- x)
         else if op = IR_NOT then Some (NOT x)
         else if op = IR_SEXT then Some (low_bytes True fsz x)
         else if op = IR_ZEXT
         then (if fsz = 4 \<and> low_bytes False 4 x \<noteq> x then None else Some (low_bytes False fsz x))
         else if op = IR_TRUNC
         then (case iv_type (in_dst i) of None \<Rightarrow> Some x
               | Some t \<Rightarrow> Some (low_bytes (type_is_signed (cg_nodes E) t) (type_sizeof (cg_nodes E) t) x))
         else if op = IR_LOAD \<and> \<not> is_fp_type E (iv_type (in_dst i))
         then (let (sx, sz) = ir_load_type E i; k = access_bytes sz
               in if access_ok (fr_ptr F) (fr_temps F) x k
                  then Some (low_bytes sx sz (mem_read k x (imem st))) else None)
         else None)"

definition ir_result :: "cg_env \<Rightarrow> ir_frame \<Rightarrow> ir_instr \<Rightarrow> ir_state \<Rightarrow> u64 option" where
  "ir_result E F i st =
     (if in_op i = IR_ALLOCA
      then (case iv_op (in_dst i) of IRV_TEMP t \<Rightarrow> Some (fr_ptr F + of_int (fr_alloca F t)) | _ \<Rightarrow> None)
      else case ir_val (iv_op (in_src1 i)) st of
             None \<Rightarrow> None
           | Some x \<Rightarrow>
               if is_alu_op (in_op i) \<or> is_comparison (in_op i) \<or> in_op i = IR_DIV \<or> in_op i = IR_MOD
               then (case ir_val (iv_op (in_src2 i)) st of None \<Rightarrow> None | Some y \<Rightarrow> ir_binary E i x y)
               else ir_unary E F i st x)"

definition ir_exec :: "cg_env \<Rightarrow> ir_frame \<Rightarrow> ir_instr \<Rightarrow> ir_state \<Rightarrow> ir_state option" where
  "ir_exec E F i st =
     (if in_op i = IR_NOP then Some st
      else if in_op i = IR_STORE
      then (case (ir_val (iv_op (in_dst i)) st, ir_val (iv_op (in_src1 i)) st) of
              (Some a, Some v) \<Rightarrow>
                let ty = store_type E i; k = access_bytes (size_or_8 E ty)
                in if \<not> is_fp_type E ty \<and> operand_ok F (iv_op (in_dst i)) \<and> operand_ok F (iv_op (in_src1 i))
                      \<and> access_ok (fr_ptr F) (fr_temps F) a k
                   then Some (st\<lparr>imem := mem_write k a v (imem st)\<rparr>) else None
            | _ \<Rightarrow> None)
      else if is_temp F (iv_op (in_dst i))
              \<and> (in_op i = IR_ALLOCA \<or> operand_ok F (iv_op (in_src1 i)))
              \<and> (iv_op (in_src2 i) = IRV_NONE \<or> operand_ok F (iv_op (in_src2 i)))
      then map_option (\<lambda>v. set_temp (iv_op (in_dst i)) v st) (ir_result E F i st)
      else None)"

subsection \<open>Frames\<close>

text \<open>The machine state \<open>s\<close> holds \<open>st\<close>: the frame pointer is in \<open>%rbp\<close>, every temporary in
  its slot, and the rest of memory is that of \<open>st\<close>.\<close>

definition frame_of :: "u64 \<Rightarrow> reg_alloc \<Rightarrow> ir_frame" where
  "frame_of fp ra = \<lparr>fr_ptr = fp, fr_temps = ra_n_temps ra, fr_alloca = (\<lambda>t. ra_alloca_off ra ! nat t)\<rparr>"

definition slots_ok :: "reg_alloc \<Rightarrow> bool" where
  "slots_ok ra \<longleftrightarrow> 1 \<le> ra_n_temps ra \<and> ra_n_temps ra < 2 ^ 60
     \<and> (\<forall>t. 1 \<le> t \<longrightarrow> t < ra_n_temps ra \<longrightarrow> slot_of ra t = - 8 * t)"

definition holds :: "u64 \<Rightarrow> reg_alloc \<Rightarrow> ir_state \<Rightarrow> machine \<Rightarrow> bool" where
  "holds fp ra st s \<longleftrightarrow> regs s RBP = fp
     \<and> (\<forall>t. 1 \<le> t \<longrightarrow> t < ra_n_temps ra \<longrightarrow> mem_read 8 (fp + of_int (- 8 * t)) (memory s) = temps st t)
     \<and> (\<forall>x. \<not> in_slots fp (ra_n_temps ra) x \<longrightarrow> memory s x = imem st x)"

lemma regalloc_slots_ok:
  assumes "1 \<le> fn_next_temp f" "fn_next_temp f < 2 ^ 60"
  shows "slots_ok (regalloc_run f)" "ra_n_temps (regalloc_run f) = fn_next_temp f"
  using assms
  by (auto simp: slots_ok_def slot_of_def regalloc_run_def Let_def nth_append nat_less_iff split: prod.split
      simp del: upt_Suc)

subsection \<open>Addresses\<close>

lemma of_int_eq_u64: "of_int i = (of_int j :: u64) \<Longrightarrow> \<bar>i - j\<bar> < 2 ^ 64 \<Longrightarrow> i = j"
proof -
  assume e: "of_int i = (of_int j :: u64)" and l: "\<bar>i - j\<bar> < 2 ^ 64"
  from e have "i mod 2 ^ 64 = j mod 2 ^ 64"
    by (simp add: word_of_int_eq_iff take_bit_eq_mod)
  then have "2 ^ 64 dvd (i - j)" by (simp add: mod_eq_dvd_iff)
  then show "i = j" using l zdvd_imp_le [of "2 ^ 64" "\<bar>i - j\<bar>"] by fastforce
qed

lemma in_run_int:
  assumes "n < 2 ^ 63"
  shows "in_run (b + of_int a) n x \<longleftrightarrow> (\<exists>k. 0 \<le> k \<and> k < int n \<and> x = b + of_int (a + k))"
proof
  assume "in_run (b + of_int a) n x"
  then have "uint (x - (b + of_int a)) < int n"
    by (simp only: in_run_def unat_eq_nat_uint nat_less_iff uint_ge_0)
  moreover have "x = b + of_int (a + uint (x - (b + of_int a)))" by simp
  ultimately show "\<exists>k. 0 \<le> k \<and> k < int n \<and> x = b + of_int (a + k)" by (metis uint_ge_0)
next
  assume "\<exists>k. 0 \<le> k \<and> k < int n \<and> x = b + of_int (a + k)"
  then obtain k where k: "0 \<le> k" "k < int n" "x = b + of_int (a + k)" by blast
  have "k < 2 ^ 64" using k(2) assms by simp
  then have "uint (of_int k :: u64) = k" using k(1) by (simp add: uint_word_of_int_eq take_bit_int_eq_self)
  moreover have "x - (b + of_int a) = of_int k" using k(3) by simp
  ultimately show "in_run (b + of_int a) n x" using k(1,2) by (simp only: in_run_def unat_eq_nat_uint nat_less_iff)
qed

lemma in_slots_int:
  assumes "1 \<le> n" "n < 2 ^ 60"
  shows "in_slots fp n x \<longleftrightarrow> (\<exists>k. - 8 * (n - 1) \<le> k \<and> k < 0 \<and> x = fp + of_int k)"
proof -
  have "in_slots fp n x = in_run (fp + of_int (- (8 * (n - 1)))) (nat (8 * (n - 1))) x"
    by (simp add: in_slots_def algebra_simps)
  also have "\<dots> \<longleftrightarrow> (\<exists>k. 0 \<le> k \<and> k < 8 * (n - 1) \<and> x = fp + of_int (- (8 * (n - 1)) + k))"
    by (subst in_run_int) (use assms in \<open>auto simp: nat_less_iff\<close>)
  also have "\<dots> \<longleftrightarrow> (\<exists>k. - 8 * (n - 1) \<le> k \<and> k < 0 \<and> x = fp + of_int k)"
  proof safe
    fix k assume "0 \<le> k" "k < 8 * (n - 1)"
    then show "\<exists>ka\<ge>- 8 * (n - 1). ka < 0 \<and> fp + of_int (- (8 * (n - 1)) + k) = fp + of_int ka"
      by (intro exI [of _ "- (8 * (n - 1)) + k"]) simp
  next
    fix k assume "- 8 * (n - 1) \<le> k" "k < 0"
    then show "\<exists>ka\<ge>0. ka < 8 * (n - 1) \<and> fp + of_int k = fp + of_int (- (8 * (n - 1)) + ka)"
      by (intro exI [of _ "k + 8 * (n - 1)"]) simp
  qed
  finally show ?thesis .
qed

text \<open>The slot of a temporary.\<close>

abbreviation slot_addr :: "u64 \<Rightarrow> int \<Rightarrow> u64" where
  "slot_addr fp t \<equiv> fp + of_int (- 8 * t)"

lemma in_slot: "in_run (slot_addr fp t) 8 x \<longleftrightarrow> (\<exists>k. 0 \<le> k \<and> k < 8 \<and> x = fp + of_int (- 8 * t + k))"
  by (subst in_run_int) auto

lemma slot_in_slots:
  "1 \<le> t \<Longrightarrow> t < n \<Longrightarrow> n < 2 ^ 60 \<Longrightarrow> in_run (slot_addr fp t) 8 x \<Longrightarrow> in_slots fp n x"
proof -
  assume t: "1 \<le> t" "t < n" "n < 2 ^ 60" and "in_run (slot_addr fp t) 8 x"
  then obtain k where k: "0 \<le> k" "k < 8" and x: "x = fp + of_int (- 8 * t + k)" unfolding in_slot by blast
  have "- 8 * (n - 1) \<le> - 8 * t + k" using t(2) k by simp
  moreover have "- 8 * t + k < 0" using t(1) k by simp
  ultimately show "in_slots fp n x" using in_slots_int [of n fp x] t x by (metis order_trans less_imp_le)
qed

lemma slots_disjoint:
  assumes "1 \<le> t" "t < n" "1 \<le> u" "u < n" "n < 2 ^ 60" "t \<noteq> u" "in_run (slot_addr fp t) 8 x"
  shows "\<not> in_run (slot_addr fp u) 8 x"
proof
  assume "in_run (slot_addr fp u) 8 x"
  then obtain k l where kl: "0 \<le> k" "k < 8" "0 \<le> l" "l < 8"
    "x = fp + of_int (- 8 * t + k)" "x = fp + of_int (- 8 * u + l)"
    using assms(7) unfolding in_slot by blast
  then have "of_int (- 8 * t + k) = (of_int (- 8 * u + l) :: u64)" by (metis add_left_cancel)
  then have "- 8 * t + k = - 8 * u + l" by (rule of_int_eq_u64) (use assms kl in auto)
  then show False using kl assms(6) by presburger
qed

lemma access_ok_run: "access_ok fp n a k \<Longrightarrow> in_run a k x \<Longrightarrow> \<not> in_slots fp n x"
proof -
  assume a: "access_ok fp n a k" and r: "in_run a k x"
  have "x = a + of_nat (unat (x - a))" by simp
  moreover have "unat (x - a) < k" using r by (simp add: in_run_def)
  moreover have "\<And>j. j < k \<Longrightarrow> \<not> in_slots fp n (a + of_nat j)" using a by (auto simp: access_ok_def list_all_iff)
  ultimately show ?thesis by metis
qed

subsection \<open>The relation is kept\<close>

lemma mem_write_cong: "m x = m' x \<Longrightarrow> mem_write n a v m x = mem_write n a v m' x"
  by (induction n arbitrary: a v) auto

lemma holds_regs [simp]: "r \<noteq> RBP \<Longrightarrow> holds fp ra st (set_reg r v s) \<longleftrightarrow> holds fp ra st s"
  by (simp add: holds_def)

lemma holds_cmp [simp]: "holds fp ra st (s\<lparr>cmp_ops := c\<rparr>) \<longleftrightarrow> holds fp ra st s"
  by (simp add: holds_def)

lemma holds_set_temp:
  assumes "holds fp ra st s" "slots_ok ra" "1 \<le> t" "t < ra_n_temps ra"
  shows "holds fp ra (st\<lparr>temps := (temps st)(t := v)\<rparr>) (s\<lparr>memory := mem_write 8 (slot_addr fp t) v (memory s)\<rparr>)"
proof -
  let ?m = "mem_write 8 (slot_addr fp t) v (memory s)"
  have n: "ra_n_temps ra < 2 ^ 60" using assms(2) by (simp add: slots_ok_def)
  have "mem_read 8 (slot_addr fp u) ?m = ((temps st)(t := v)) u" if u: "1 \<le> u" "u < ra_n_temps ra" for u
  proof (cases "u = t")
    case False
    have "mem_read 8 (slot_addr fp u) ?m = mem_read 8 (slot_addr fp u) (memory s)"
      using slots_disjoint [OF u assms(3,4) n False]
      by (intro mem_read_cong mem_write_other) auto
    then show ?thesis using False assms(1) u by (simp add: holds_def)
  qed (simp add: mem_read_write_8 del: mem_read.simps mem_write.simps)
  moreover have "?m x = imem st x" if "\<not> in_slots fp (ra_n_temps ra) x" for x
  proof -
    have "?m x = memory s x"
      using that slot_in_slots [OF assms(3,4) n] by (intro mem_write_other) auto
    then show ?thesis using assms(1) that by (simp add: holds_def)
  qed
  ultimately show ?thesis using assms(1) by (simp add: holds_def)
qed

lemma holds_read:
  assumes "holds fp ra st s" "access_ok fp (ra_n_temps ra) a k" "k \<le> 8"
  shows "mem_read k a (memory s) = mem_read k a (imem st)"
  using assms access_ok_run [OF assms(2)] by (intro mem_read_cong) (auto simp: holds_def)

lemma holds_write:
  assumes "holds fp ra st s" "access_ok fp (ra_n_temps ra) a k" "k \<le> 8" "slots_ok ra"
  shows "holds fp ra (st\<lparr>imem := mem_write k a v (imem st)\<rparr>) (s\<lparr>memory := mem_write k a v (memory s)\<rparr>)"
proof -
  have n: "ra_n_temps ra < 2 ^ 60" using assms(4) by (simp add: slots_ok_def)
  have "mem_read 8 (slot_addr fp u) (mem_write k a v (memory s)) = mem_read 8 (slot_addr fp u) (memory s)"
    if "1 \<le> u" "u < ra_n_temps ra" for u
    using slot_in_slots [OF that n] access_ok_run [OF assms(2)] assms(3)
    by (intro mem_read_cong mem_write_other) auto
  moreover have "mem_write k a v (memory s) x = mem_write k a v (imem st) x"
    if "\<not> in_slots fp (ra_n_temps ra) x" for x
    using assms(1) that by (intro mem_write_cong) (simp add: holds_def)
  ultimately show ?thesis using assms(1) by (simp add: holds_def)
qed

subsection \<open>Operands\<close>

lemma exec_load_reg:
  assumes "holds fp ra st s" "slots_ok ra" "operand_ok (frame_of fp ra) (iv_op v)" "ir_val (iv_op v) st = Some x"
  shows "exec_list (load_reg ra v r) s = Some (set_reg r x s)"
  using assms
  by (auto simp: load_reg_def operand_ok_def frame_of_def load_reg_part_def slots_ok_def holds_def
      simp del: mem_read.simps split: ir_operand.splits)

lemma exec_store_reg:
  assumes "holds fp ra st s" "slots_ok ra" "is_temp (frame_of fp ra) (iv_op v)"
  shows "\<exists>s'. exec_list (store_reg ra v r) s = Some s' \<and> holds fp ra (set_temp (iv_op v) (regs s r) st) s'"
proof -
  obtain t where t: "iv_op v = IRV_TEMP t" "1 \<le> t" "t < ra_n_temps ra"
    using assms(3) by (auto simp: is_temp_def frame_of_def split: ir_operand.splits)
  have slot: "slot_of ra t = - 8 * t" and fp: "regs s RBP = fp"
    using assms(1,2) t by (simp_all add: slots_ok_def holds_def)
  show ?thesis using holds_set_temp [OF assms(1,2) t(2,3), of "regs s r"]
    by (simp add: store_reg_def t(1) slot fp set_temp_def del: mem_write.simps)
qed

text \<open>The code leaves \<open>v\<close> in \<open>r\<close> and keeps what the frame holds.\<close>

definition computes :: "u64 \<Rightarrow> reg_alloc \<Rightarrow> ir_state \<Rightarrow> machine \<Rightarrow> asm list \<Rightarrow> gpr \<Rightarrow> u64 \<Rightarrow> bool" where
  "computes fp ra st s code r v \<longleftrightarrow> (\<exists>s'. exec_list code s = Some s' \<and> holds fp ra st s' \<and> regs s' r = v)"

lemma computes_store:
  assumes "computes fp ra st s code r v" "slots_ok ra" "is_temp (frame_of fp ra) (iv_op d)"
  shows "\<exists>s'. exec_list (code @ store_reg ra d r) s = Some s' \<and> holds fp ra (set_temp (iv_op d) v st) s'"
  using assms exec_store_reg [OF _ assms(2,3)]
  by (fastforce simp: computes_def exec_list_append)

lemma computes_unary:
  assumes "holds fp ra st s" "slots_ok ra" "operand_ok (frame_of fp ra) (iv_op v)" "ir_val (iv_op v) st = Some x"
    "r0 \<noteq> RBP" "\<And>s'. holds fp ra st s' \<Longrightarrow> regs s' r0 = x \<Longrightarrow> computes fp ra st s' code r y"
  shows "computes fp ra st s (load_reg ra v r0 @ code) r y"
  using assms(6) [of "set_reg r0 x s"] assms(1,5)
  by (simp add: computes_def exec_list_append exec_load_reg [OF assms(1-4)])

lemma computes_binary:
  assumes "holds fp ra st s" "slots_ok ra"
    "operand_ok (frame_of fp ra) (iv_op v)" "ir_val (iv_op v) st = Some x"
    "operand_ok (frame_of fp ra) (iv_op w)" "ir_val (iv_op w) st = Some y"
    "\<And>s'. holds fp ra st s' \<Longrightarrow> regs s' RAX = x \<Longrightarrow> regs s' RCX = y \<Longrightarrow> computes fp ra st s' code r z"
  shows "computes fp ra st s (load_reg ra v RAX @ load_reg ra w RCX @ code) r z"
proof (rule computes_unary [OF assms(1-4)])
  fix s' assume s': "holds fp ra st s'" "regs s' RAX = x"
  have "computes fp ra st (set_reg RCX y s') code r z" using s' assms(7) [of "set_reg RCX y s'"] by simp
  then show "computes fp ra st s' (load_reg ra w RCX @ code) r z"
    by (simp add: computes_def exec_list_append exec_load_reg [OF s'(1) assms(2,5,6)])
qed simp

subsection \<open>Operations\<close>

lemma computes_now: "holds fp ra st s \<Longrightarrow> regs s r = v \<Longrightarrow> computes fp ra st s [] r v"
  by (simp add: computes_def)

lemma u64_less_64: "b < (64 :: u64) \<Longrightarrow> unat b mod 64 = unat b"
  by (simp add: word_less_nat_alt)

lemma computes_alu:
  assumes "holds fp ra st s" "regs s RAX = x" "regs s RCX = y" "ir_alu op x y = Some v"
  shows "computes fp ra st s (alu_code op) RAX v"
proof -
  have shr: "of_int (sint x div 2 ^ n) = signed_drop_bit n x" for n
    by (simp flip: drop_bit_eq_div sint_signed_drop_bit_eq)
  show ?thesis using assms
    by (auto simp: ir_alu_def alu_code_def computes_def u64_less_64 shr split: if_splits)
qed

lemma computes_divmod:
  assumes "holds fp ra st s" "regs s RAX = x" "regs s RCX = y" "ir_divmod op x y = Some v"
    "regs s RDX = (if sint x < 0 then - 1 else 0)"
  shows "computes fp ra st s [Idiv RCX] (if op = IR_MOD then RDX else RAX) v"
  using assms by (auto simp: ir_divmod_def computes_def Let_def split: if_splits)

lemma flag_byte:
  "zext (Suc 0) ((a AND NOT (mask 8)) OR 1) = 1" "zext (Suc 0) (a AND NOT (mask 8)) = 0"
  by (rule bit_word_eqI, auto simp: zext_def bit_simps)+

lemma computes_compare:
  assumes "holds fp ra st s" "regs s RAX = x" "regs s RCX = y" "is_comparison op"
  shows "computes fp ra st s ([Cmp RCX RAX] @ cond_code op uns @ [ExtRax False W8]) RAX
     (if ir_cmp op uns x y then 1 else 0)"
proof -
  obtain c where c: "cond_code op uns = [SetAl c]" "cc_holds c x y = ir_cmp op uns x y"
    using assms(4) by (auto simp: is_comparison_def cond_code_def ir_cmp_def word_less_def word_le_def)
  show ?thesis using assms(1-3) by (simp add: c computes_def flag_byte)
qed

lemma computes_ext:
  assumes "holds fp ra st s" "regs s RAX = x"
  shows "computes fp ra st s (ext_rax sx sz) RAX (low_bytes sx sz x)"
  using assms by (auto simp: ext_rax_def low_bytes_def computes_def sext_def zext_def)

subsection \<open>The code of a value instruction\<close>

text \<open>Every value instruction is code that computes its result into a register, and the store
  of that register.\<close>

definition value_code :: "cg_env \<Rightarrow> u64 \<Rightarrow> reg_alloc \<Rightarrow> ir_func \<Rightarrow> ir_instr \<Rightarrow> ir_state \<Rightarrow> machine \<Rightarrow> bool" where
  "value_code E fp ra f i st s \<longleftrightarrow>
     (\<forall>v. ir_result E (frame_of fp ra) i st = Some v \<longrightarrow>
       (\<exists>code r. gen_instr E ra f i = code @ store_reg ra (in_dst i) r \<and> computes fp ra st s code r v))"

lemma value_code_unary:
  assumes "holds fp ra st s" "slots_ok ra" "operand_ok (frame_of fp ra) (iv_op (in_src1 i))"
    "gen_instr E ra f i = (load_reg ra (in_src1 i) r0 @ code) @ store_reg ra (in_dst i) r" "r0 \<noteq> RBP"
    "\<And>x v s'. ir_val (iv_op (in_src1 i)) st = Some x \<Longrightarrow> ir_result E (frame_of fp ra) i st = Some v \<Longrightarrow>
       holds fp ra st s' \<Longrightarrow> regs s' r0 = x \<Longrightarrow> computes fp ra st s' code r v"
  shows "value_code E fp ra f i st s"
proof -
  obtain x where x: "ir_val (iv_op (in_src1 i)) st = Some x"
    using assms(3) by (auto simp: operand_ok_def split: ir_operand.splits)
  show ?thesis unfolding value_code_def
  proof (intro allI impI)
    fix v assume "ir_result E (frame_of fp ra) i st = Some v"
    from computes_unary [OF assms(1-3) x assms(5) assms(6) [OF x this]]
    show "\<exists>code r. gen_instr E ra f i = code @ store_reg ra (in_dst i) r \<and> computes fp ra st s code r v"
      using assms(4) by blast
  qed
qed

lemma value_code_binary:
  assumes "holds fp ra st s" "slots_ok ra" "operand_ok (frame_of fp ra) (iv_op (in_src1 i))"
    "operand_ok (frame_of fp ra) (iv_op (in_src2 i))"
    "gen_instr E ra f i = (load_reg ra (in_src1 i) RAX @ load_reg ra (in_src2 i) RCX @ code) @ store_reg ra (in_dst i) r"
    "\<And>x y v s'. ir_val (iv_op (in_src1 i)) st = Some x \<Longrightarrow> ir_val (iv_op (in_src2 i)) st = Some y \<Longrightarrow>
       ir_result E (frame_of fp ra) i st = Some v \<Longrightarrow>
       holds fp ra st s' \<Longrightarrow> regs s' RAX = x \<Longrightarrow> regs s' RCX = y \<Longrightarrow> computes fp ra st s' code r v"
  shows "value_code E fp ra f i st s"
proof -
  obtain x y where x: "ir_val (iv_op (in_src1 i)) st = Some x" and y: "ir_val (iv_op (in_src2 i)) st = Some y"
    using assms(3,4) by (fastforce simp: operand_ok_def split: ir_operand.splits)
  show ?thesis unfolding value_code_def
  proof (intro allI impI)
    fix v assume "ir_result E (frame_of fp ra) i st = Some v"
    from computes_binary [OF assms(1-3) x assms(4) y assms(6) [OF x y this]]
    show "\<exists>code r. gen_instr E ra f i = code @ store_reg ra (in_dst i) r \<and> computes fp ra st s code r v"
      using assms(5) by blast
  qed
qed

lemmas gen_instr_simps = gen_instr_def Let_def is_alu_op_def is_comparison_def

lemma value_code_alloca:
  assumes "holds fp ra st s" "is_temp (frame_of fp ra) (iv_op (in_dst i))" "in_op i = IR_ALLOCA"
  shows "value_code E fp ra f i st s"
proof -
  obtain t where t: "iv_op (in_dst i) = IRV_TEMP t"
    using assms(2) by (auto simp: is_temp_def split: ir_operand.splits)
  have "computes fp ra st s [Lea (ra_alloca_off ra ! nat t) RBP RAX] RAX (fp + of_int (ra_alloca_off ra ! nat t))"
    using assms(1) by (simp add: computes_def) (simp add: holds_def)
  then show ?thesis
    by (auto simp: value_code_def ir_result_def t assms(3) frame_of_def gen_instr_simps gen_alloca_def
        intro!: exI [of _ "[Lea (ra_alloca_off ra ! nat t) RBP RAX]"])
qed

lemma ir_result_unary:
  "in_op i \<in> {IR_COPY, IR_LOAD_IMM, IR_NEG, IR_NOT, IR_SEXT, IR_ZEXT, IR_TRUNC, IR_LOAD} \<Longrightarrow>
   ir_val (iv_op (in_src1 i)) st = Some x \<Longrightarrow> ir_result E F i st = ir_unary E F i st x"
  by (auto simp: ir_result_def is_alu_op_def is_comparison_def)

lemma value_code_copy:
  assumes "holds fp ra st s" "slots_ok ra" "operand_ok (frame_of fp ra) (iv_op (in_src1 i))"
    "in_op i = IR_COPY \<or> in_op i = IR_LOAD_IMM"
  shows "value_code E fp ra f i st s"
proof -
  obtain x where x: "ir_val (iv_op (in_src1 i)) st = Some x"
    using assms(3) by (auto simp: operand_ok_def split: ir_operand.splits)
  have r: "ir_result E (frame_of fp ra) i st =
      (if is_fp_type E (iv_type (in_dst i)) \<or> is_fp_type E (iv_type (in_src1 i)) then None else Some x)"
    using assms(4) ir_result_unary [OF _ x] by (auto simp: ir_unary_def Let_def)
  show ?thesis
  proof (cases "is_fp_type E (iv_type (in_dst i)) \<or> is_fp_type E (iv_type (in_src1 i))")
    case False
    have "iv_op (in_src1 i) \<noteq> IRV_NONE" using assms(3) by (auto simp: operand_ok_def)
    then have "gen_instr E ra f i = (load_reg ra (in_src1 i) RAX @ []) @ store_reg ra (in_dst i) RAX"
      using assms(4) False by (auto simp: gen_instr_simps gen_copy_def)
    then show ?thesis
      by (rule value_code_unary [OF assms(1-3)]) (use False r x in \<open>auto intro!: computes_now\<close>)
  qed (simp add: value_code_def r)
qed

lemma computes_one: "exec c s = Some s' \<Longrightarrow> holds fp ra st s' \<Longrightarrow> regs s' r = v \<Longrightarrow> computes fp ra st s [c] r v"
  by (simp add: computes_def)

lemma ir_result_neg:
  "in_op i = IR_NEG \<Longrightarrow> ir_val (iv_op (in_src1 i)) st = Some x \<Longrightarrow> ir_result E F i st = Some (- x)"
  "in_op i = IR_NOT \<Longrightarrow> ir_val (iv_op (in_src1 i)) st = Some x \<Longrightarrow> ir_result E F i st = Some (NOT x)"
  by (simp_all add: ir_result_unary ir_unary_def)

lemma value_code_neg:
  assumes "holds fp ra st s" "slots_ok ra" "operand_ok (frame_of fp ra) (iv_op (in_src1 i))" "in_op i = IR_NEG"
  shows "value_code E fp ra f i st s"
proof (rule value_code_unary [OF assms(1-3)])
  show "gen_instr E ra f i = (load_reg ra (in_src1 i) RAX @ [Negq RAX]) @ store_reg ra (in_dst i) RAX"
    using assms(4) by (simp add: gen_instr_simps gen_neg_def)
  fix x v s' assume x: "ir_val (iv_op (in_src1 i)) st = Some x" "ir_result E (frame_of fp ra) i st = Some v"
    and s': "holds fp ra st s'" "regs s' RAX = x"
  have "v = - x" using ir_result_neg(1) [OF assms(4) x(1)] x(2) by force
  then show "computes fp ra st s' [Negq RAX] RAX v" using s' by (simp add: computes_def)
qed simp

lemma value_code_not:
  assumes "holds fp ra st s" "slots_ok ra" "operand_ok (frame_of fp ra) (iv_op (in_src1 i))" "in_op i = IR_NOT"
  shows "value_code E fp ra f i st s"
proof (rule value_code_unary [OF assms(1-3)])
  show "gen_instr E ra f i = (load_reg ra (in_src1 i) RAX @ [Notq RAX]) @ store_reg ra (in_dst i) RAX"
    using assms(4) by (simp add: gen_instr_simps gen_not_def)
  fix x v s' assume x: "ir_val (iv_op (in_src1 i)) st = Some x" "ir_result E (frame_of fp ra) i st = Some v"
    and s': "holds fp ra st s'" "regs s' RAX = x"
  have "v = NOT x" using ir_result_neg(2) [OF assms(4) x(1)] x(2) by force
  then show "computes fp ra st s' [Notq RAX] RAX v" using s' by (simp add: computes_def)
qed simp

lemma value_code_extend:
  assumes "holds fp ra st s" "slots_ok ra" "operand_ok (frame_of fp ra) (iv_op (in_src1 i))"
    "in_op i = IR_SEXT \<or> in_op i = IR_TRUNC"
  shows "value_code E fp ra f i st s"
proof (rule value_code_unary [OF assms(1-3)])
  show "gen_instr E ra f i = (load_reg ra (in_src1 i) RAX @
        (if in_op i = IR_SEXT then ext_rax True (size_or_8 E (iv_type (in_src1 i)))
         else case iv_type (in_dst i) of None \<Rightarrow> []
           | Some t \<Rightarrow> ext_rax (type_is_signed (cg_nodes E) t) (type_sizeof (cg_nodes E) t)))
      @ store_reg ra (in_dst i) RAX"
    using assms(4) by (auto simp: gen_instr_simps gen_sext_def gen_trunc_def)
qed (use assms(4) in \<open>auto simp: ir_result_unary ir_unary_def Let_def intro!: computes_ext computes_now split: option.splits\<close>)

lemma value_code_zext:
  assumes "holds fp ra st s" "slots_ok ra" "operand_ok (frame_of fp ra) (iv_op (in_src1 i))" "in_op i = IR_ZEXT"
  shows "value_code E fp ra f i st s"
proof (rule value_code_unary [OF assms(1-3)])
  show "gen_instr E ra f i = (load_reg ra (in_src1 i) RAX @
        (if size_or_8 E (iv_type (in_src1 i)) = 1 then [ExtRax False W8]
         else if size_or_8 E (iv_type (in_src1 i)) = 2 then [ExtRax False W16] else []))
      @ store_reg ra (in_dst i) RAX"
    using assms(4) by (simp add: gen_instr_simps gen_zext_def)
qed (use assms(4) in \<open>auto simp: ir_result_unary ir_unary_def Let_def low_bytes_def zext_def
       intro!: computes_one computes_now split: if_splits\<close>)

lemma op_groups [simp]:
  "is_alu_op op \<Longrightarrow> op \<noteq> IR_ALLOCA" "is_comparison op \<Longrightarrow> op \<noteq> IR_ALLOCA" "is_comparison op \<Longrightarrow> \<not> is_alu_op op"
  "\<not> is_alu_op IR_DIV" "\<not> is_alu_op IR_MOD" "\<not> is_comparison IR_DIV" "\<not> is_comparison IR_MOD"
  by (auto simp: is_alu_op_def is_comparison_def)

lemma ir_result_binary:
  assumes "ir_val (iv_op (in_src1 i)) st = Some x" "ir_val (iv_op (in_src2 i)) st = Some y"
    "is_alu_op (in_op i) \<or> is_comparison (in_op i) \<or> in_op i = IR_DIV \<or> in_op i = IR_MOD"
  shows "ir_result E F i st = ir_binary E i x y"
  using assms by (auto simp: ir_result_def)

lemma gen_instr_alu: "is_alu_op (in_op i) \<Longrightarrow> gen_instr E ra f i = gen_alu E ra i"
  unfolding is_alu_op_def insert_iff empty_iff by (elim disjE) (simp_all add: gen_instr_simps)

lemma gen_instr_compare: "is_comparison (in_op i) \<Longrightarrow> gen_instr E ra f i = gen_compare E ra i"
  unfolding is_comparison_def insert_iff empty_iff by (elim disjE) (simp_all add: gen_instr_simps)

lemma value_code_alu:
  assumes "holds fp ra st s" "slots_ok ra" "operand_ok (frame_of fp ra) (iv_op (in_src1 i))"
    "operand_ok (frame_of fp ra) (iv_op (in_src2 i))" "is_alu_op (in_op i)"
  shows "value_code E fp ra f i st s"
proof (cases "is_fp_type E (iv_type (in_dst i))")
  case True
  then show ?thesis using assms(5) by (auto simp: value_code_def ir_result_def ir_binary_def split: option.splits)
next
  case False
  show ?thesis
  proof (rule value_code_binary [OF assms(1-4)])
    show "gen_instr E ra f i = (load_reg ra (in_src1 i) RAX @ load_reg ra (in_src2 i) RCX @ alu_code (in_op i))
        @ store_reg ra (in_dst i) RAX"
      using False by (simp add: gen_instr_alu [OF assms(5)] gen_alu_def)
  qed (use computes_alu ir_result_binary assms(5) False in \<open>auto simp: ir_binary_def\<close>)
qed

lemma value_code_divmod:
  assumes "holds fp ra st s" "slots_ok ra" "operand_ok (frame_of fp ra) (iv_op (in_src1 i))"
    "operand_ok (frame_of fp ra) (iv_op (in_src2 i))" "in_op i = IR_DIV \<or> in_op i = IR_MOD"
  shows "value_code E fp ra f i st s"
proof (cases "in_op i = IR_DIV \<and> is_fp_type E (iv_type (in_dst i))")
  case True
  then show ?thesis by (auto simp: value_code_def ir_result_def ir_binary_def split: option.splits)
next
  case False
  have op: "in_op i = IR_DIV \<and> \<not> is_fp_type E (iv_type (in_dst i)) \<or> in_op i = IR_MOD"
    using False assms(5) by blast
  obtain y where y: "ir_val (iv_op (in_src2 i)) st = Some y"
    using assms(4) by (auto simp: operand_ok_def split: ir_operand.splits)
  show ?thesis
  proof (rule value_code_unary [OF assms(1-3)])
    show "gen_instr E ra f i = (load_reg ra (in_src1 i) RAX @ [Cqto] @ load_reg ra (in_src2 i) RCX @ [Idiv RCX])
        @ store_reg ra (in_dst i) (if in_op i = IR_MOD then RDX else RAX)"
      using op by (auto simp: gen_instr_simps gen_div_def gen_mod_def)
    fix x v s' assume x: "ir_val (iv_op (in_src1 i)) st = Some x" "ir_result E (frame_of fp ra) i st = Some v"
      and s': "holds fp ra st s'" "regs s' RAX = x"
    let ?s1 = "set_reg RDX (if sint x < 0 then - 1 else 0) s'"
    have h: "holds fp ra st ?s1" using s'(1) by simp
    have "computes fp ra st (set_reg RCX y ?s1) [Idiv RCX] (if in_op i = IR_MOD then RDX else RAX) v"
      by (rule computes_divmod) (use s' x op ir_result_binary [OF x(1) y] in \<open>auto simp: ir_binary_def\<close>)
    then show "computes fp ra st s' ([Cqto] @ load_reg ra (in_src2 i) RCX @ [Idiv RCX])
        (if in_op i = IR_MOD then RDX else RAX) v"
      using exec_load_reg [OF h assms(2,4) y] s'(2) by (simp add: computes_def exec_list_append)
  qed simp
qed

lemma value_code_compare:
  assumes "holds fp ra st s" "slots_ok ra" "operand_ok (frame_of fp ra) (iv_op (in_src1 i))"
    "operand_ok (frame_of fp ra) (iv_op (in_src2 i))" "is_comparison (in_op i)"
  shows "value_code E fp ra f i st s"
proof (cases "is_fp_type E (iv_type (in_src1 i)) \<or> is_fp_type E (iv_type (in_src2 i))")
  case True
  then show ?thesis using assms(5) by (auto simp: value_code_def ir_result_def ir_binary_def split: option.splits)
next
  case False
  show ?thesis
  proof (rule value_code_binary [OF assms(1-4)])
    show "gen_instr E ra f i = (load_reg ra (in_src1 i) RAX @ load_reg ra (in_src2 i) RCX
        @ ([Cmp RCX RAX] @ cond_code (in_op i) (use_unsigned E i) @ [ExtRax False W8])) @ store_reg ra (in_dst i) RAX"
      using False by (simp add: gen_instr_compare [OF assms(5)] gen_compare_def)
    fix x y v s' assume xy: "ir_val (iv_op (in_src1 i)) st = Some x" "ir_val (iv_op (in_src2 i)) st = Some y"
      "ir_result E (frame_of fp ra) i st = Some v"
      and s': "holds fp ra st s'" "regs s' RAX = x" "regs s' RCX = y"
    have "v = (if ir_cmp (in_op i) (use_unsigned E i) x y then 1 else 0)"
      using ir_result_binary [OF xy(1,2)] assms(5) False xy(3) by (auto simp: ir_binary_def)
    then show "computes fp ra st s' ([Cmp RCX RAX] @ cond_code (in_op i) (use_unsigned E i) @ [ExtRax False W8]) RAX v"
      using computes_compare [OF s' assms(5)] by blast
  qed
qed

definition load_code :: "bool \<Rightarrow> int \<Rightarrow> asm list" where
  "load_code sx sz =
     (if sz = 1 then [MovExtLoad sx W8 (Ind RAX) RDX]
      else if sz = 2 then [MovExtLoad sx W16 (Ind RAX) RDX]
      else if sz = 4 then (if sx then [MovExtLoad True W32 (Ind RAX) RDX] else [MovLoad W32 (Ind RAX) RDX])
      else [MovLoad W64 (Ind RAX) RDX])"

lemma computes_load:
  assumes "holds fp ra st s" "regs s RAX = a" "access_ok fp (ra_n_temps ra) a (access_bytes sz)"
  shows "computes fp ra st s (load_code sx sz) RDX (low_bytes sx sz (mem_read (access_bytes sz) a (imem st)))"
proof -
  have bits: "take_bit (8 * n) (mem_read n a m) = mem_read n a m" if "n \<le> 8" for n m
    using that by (rule mem_read_bits)
  have rd: "mem_read (access_bytes sz) a (memory s) = mem_read (access_bytes sz) a (imem st)"
    by (rule holds_read [OF assms(1,3)]) (auto simp: access_bytes_def)
  show ?thesis
    using assms(1,2) rd bits [of 4 "memory s"]
    by (auto simp: load_code_def low_bytes_def access_bytes_def computes_def sext_def zext_def load_reg_part_def
        simp del: mem_read.simps split: if_splits)
qed

lemma value_code_load:
  assumes "holds fp ra st s" "slots_ok ra" "operand_ok (frame_of fp ra) (iv_op (in_src1 i))" "in_op i = IR_LOAD"
  shows "value_code E fp ra f i st s"
proof (cases "is_fp_type E (iv_type (in_dst i))")
  case True
  then have "ir_result E (frame_of fp ra) i st = None"
    using assms(4) by (auto simp: ir_result_def ir_unary_def is_alu_op_def is_comparison_def split: option.split)
  then show ?thesis by (simp add: value_code_def)
next
  case False
  obtain sx sz where lt: "ir_load_type E i = (sx, sz)" by fastforce
  show ?thesis
  proof (rule value_code_unary [OF assms(1-3)])
    show "gen_instr E ra f i = (load_reg ra (in_src1 i) RAX @ load_code sx sz) @ store_reg ra (in_dst i) RDX"
      using assms(4) False lt by (simp add: gen_instr_simps gen_load_def load_code_def ir_load_type_def)
    fix x v s' assume x: "ir_val (iv_op (in_src1 i)) st = Some x" "ir_result E (frame_of fp ra) i st = Some v"
      and s': "holds fp ra st s'" "regs s' RAX = x"
    have "access_ok fp (ra_n_temps ra) x (access_bytes sz)"
      "v = low_bytes sx sz (mem_read (access_bytes sz) x (imem st))"
      using x(2) ir_result_unary [OF _ x(1)] assms(4) False lt
      by (auto simp: ir_unary_def Let_def frame_of_def split: if_splits)
    then show "computes fp ra st s' (load_code sx sz) RDX v" using computes_load [OF s'] by blast
  qed simp
qed

lemma gen_store_correct:
  assumes "holds fp ra st s" "slots_ok ra" "in_op i = IR_STORE" "ir_exec E (frame_of fp ra) i st = Some st'"
  shows "\<exists>s'. exec_list (gen_instr E ra f i) s = Some s' \<and> holds fp ra st' s'"
proof -
  let ?sz = "size_or_8 E (store_type E i)"
  let ?w = "if ?sz = 1 then W8 else if ?sz = 2 then W16 else if ?sz = 4 then W32 else W64"
  obtain a v where av: "ir_val (iv_op (in_dst i)) st = Some a" "ir_val (iv_op (in_src1 i)) st = Some v"
    using assms(3,4) by (auto simp: ir_exec_def split: option.splits)
  have ok: "\<not> is_fp_type E (store_type E i)" "operand_ok (frame_of fp ra) (iv_op (in_dst i))"
    "operand_ok (frame_of fp ra) (iv_op (in_src1 i))" "access_ok fp (ra_n_temps ra) a (access_bytes ?sz)"
    and st': "st' = st\<lparr>imem := mem_write (access_bytes ?sz) a v (imem st)\<rparr>"
    using assms(3,4) av by (auto simp: ir_exec_def Let_def frame_of_def split: if_splits)
  have k: "access_bytes ?sz \<le> 8" "wbytes ?w = access_bytes ?sz" by (auto simp: access_bytes_def)
  have code: "gen_instr E ra f i = load_reg ra (in_dst i) R10 @ load_reg ra (in_src1 i) RAX
      @ [MovStore ?w RAX (Ind R10)]"
    using assms(3) ok(1) by (simp add: gen_instr_simps gen_store_def)
  let ?s1 = "set_reg R10 a s"
  have s1: "holds fp ra st ?s1" using assms(1) by simp
  let ?s2 = "set_reg RAX v ?s1"
  have s2: "holds fp ra st ?s2" using s1 by simp
  have "exec_list (gen_instr E ra f i) s = Some (?s2\<lparr>memory := mem_write (access_bytes ?sz) a v (memory ?s2)\<rparr>)"
    unfolding code k(2) [symmetric]
    by (simp add: exec_list_append exec_load_reg [OF assms(1,2) ok(2) av(1)]
        exec_load_reg [OF s1 assms(2) ok(3) av(2)] del: wbytes.simps)
  then show ?thesis using holds_write [OF s2 ok(4) k(1) assms(2)] st' by blast
qed

subsection \<open>Instructions\<close>

lemma value_code_any:
  assumes "holds fp ra st s" "slots_ok ra" "is_temp (frame_of fp ra) (iv_op (in_dst i))"
    "in_op i = IR_ALLOCA \<or> operand_ok (frame_of fp ra) (iv_op (in_src1 i))"
    "iv_op (in_src2 i) = IRV_NONE \<or> operand_ok (frame_of fp ra) (iv_op (in_src2 i))"
    "ir_result E (frame_of fp ra) i st \<noteq> None"
  shows "value_code E fp ra f i st s"
proof (cases "in_op i = IR_ALLOCA")
  case True
  then show ?thesis by (rule value_code_alloca [OF assms(1,3)])
next
  case False
  then have ok1: "operand_ok (frame_of fp ra) (iv_op (in_src1 i))" using assms(4) by blast
  let ?two = "is_alu_op (in_op i) \<or> is_comparison (in_op i) \<or> in_op i = IR_DIV \<or> in_op i = IR_MOD"
  show ?thesis
  proof (cases ?two)
    case two: True
    then have "iv_op (in_src2 i) \<noteq> IRV_NONE" using assms(6) False by (auto simp: ir_result_def split: option.splits)
    then have ok2: "operand_ok (frame_of fp ra) (iv_op (in_src2 i))" using assms(5) by blast
    show ?thesis
      using two value_code_alu [OF assms(1,2) ok1 ok2] value_code_compare [OF assms(1,2) ok1 ok2]
        value_code_divmod [OF assms(1,2) ok1 ok2] by blast
  next
    case one: False
    then have "in_op i \<in> {IR_COPY, IR_LOAD_IMM, IR_NEG, IR_NOT, IR_SEXT, IR_ZEXT, IR_TRUNC, IR_LOAD}"
      using assms(6) False by (auto simp: ir_result_def ir_unary_def Let_def split: option.splits if_splits)
    then show ?thesis
      using value_code_copy [OF assms(1,2) ok1] value_code_neg [OF assms(1,2) ok1] value_code_not [OF assms(1,2) ok1]
        value_code_extend [OF assms(1,2) ok1] value_code_zext [OF assms(1,2) ok1] value_code_load [OF assms(1,2) ok1]
      by blast
  qed
qed

lemma gen_instr_simulates:
  assumes "holds fp ra st s" "slots_ok ra" "ir_exec E (frame_of fp ra) i st = Some st'"
  shows "\<exists>s'. exec_list (gen_instr E ra f i) s = Some s' \<and> holds fp ra st' s'"
proof -
  consider "in_op i = IR_NOP" | "in_op i = IR_STORE" | "in_op i \<noteq> IR_NOP" "in_op i \<noteq> IR_STORE" by blast
  then show ?thesis
  proof cases
    case 1
    then show ?thesis using assms(1,3) by (simp add: ir_exec_def gen_instr_simps)
  next
    case 2
    then show ?thesis using gen_store_correct assms by blast
  next
    case 3
    then obtain v where v: "ir_result E (frame_of fp ra) i st = Some v" "st' = set_temp (iv_op (in_dst i)) v st"
      and ok: "is_temp (frame_of fp ra) (iv_op (in_dst i))"
        "in_op i = IR_ALLOCA \<or> operand_ok (frame_of fp ra) (iv_op (in_src1 i))"
        "iv_op (in_src2 i) = IRV_NONE \<or> operand_ok (frame_of fp ra) (iv_op (in_src2 i))"
      using assms(3) by (auto simp: ir_exec_def split: if_splits)
    have "value_code E fp ra f i st s" using value_code_any [OF assms(1,2) ok] v(1) by simp
    then show ?thesis using v computes_store [OF _ assms(2) ok(1)] by (fastforce simp: value_code_def)
  qed
qed

end
