(* ===== verification/CodegenSim.thy ===== *)
theory CodegenSim
  imports CodegenSem
begin

section \<open>Whole functions: jumps, loops and returns\<close>

text \<open>
  The IR machine runs the instructions of a function with a program counter, the assembly
  machine runs the code of codegen_func with another. Both jump to the first matching label.
  The runs are bounded by a number of steps, and the number of steps of the assembly machine
  is found from that of the IR machine.
\<close>

subsection \<open>The two machines\<close>

fun find_index :: "('a \<Rightarrow> bool) \<Rightarrow> 'a list \<Rightarrow> nat option" where
  "find_index P [] = None"
| "find_index P (x # xs) = (if P x then Some 0 else map_option Suc (find_index P xs))"

definition ir_target :: "ir_instr list \<Rightarrow> int \<Rightarrow> nat option" where
  "ir_target is l = find_index (\<lambda>i. in_op i = IR_LABEL \<and> in_label i = l) is"

definition ir_step :: "cg_env \<Rightarrow> ir_frame \<Rightarrow> ir_instr list \<Rightarrow> nat \<times> ir_state \<Rightarrow> (nat \<times> ir_state) option" where
  "ir_step E F is c =
     (let (pc, st) = c; i = is ! pc; op = in_op i;
          jump = map_option (\<lambda>k. (k, st)) (ir_target is (in_label i))
      in if pc \<ge> length is then None
         else if op = IR_LABEL then Some (pc + 1, st)
         else if op = IR_JMP then jump
         else if op = IR_JZ \<or> op = IR_JNZ
         then (if operand_ok F (iv_op (in_src1 i))
               then (case ir_val (iv_op (in_src1 i)) st of
                       None \<Rightarrow> None
                     | Some v \<Rightarrow> if (v = 0) = (op = IR_JZ) then jump else Some (pc + 1, st))
               else None)
         else map_option (\<lambda>st'. (pc + 1, st')) (ir_exec E F i st))"

fun ir_run :: "cg_env \<Rightarrow> ir_frame \<Rightarrow> ir_instr list \<Rightarrow> nat \<Rightarrow> nat \<times> ir_state \<Rightarrow> (nat \<times> ir_state) option" where
  "ir_run E F is 0 c = Some c"
| "ir_run E F is (Suc n) c = (case ir_step E F is c of None \<Rightarrow> None | Some c' \<Rightarrow> ir_run E F is n c')"

definition asm_target :: "asm list \<Rightarrow> string \<Rightarrow> nat option" where
  "asm_target cs l = find_index (\<lambda>c. c = LabelDef l) cs"

definition asm_step :: "asm list \<Rightarrow> nat \<times> machine \<Rightarrow> (nat \<times> machine) option" where
  "asm_step cs c =
     (let (pc, s) = c;
          jump = (\<lambda>l. map_option (\<lambda>k. (k, s)) (asm_target cs l));
          zero = (fst (cmp_ops s) = snd (cmp_ops s))
      in if pc \<ge> length cs then None
         else case cs ! pc of
                LabelDef l \<Rightarrow> Some (pc + 1, s)
              | Line t \<Rightarrow> Some (pc + 1, s)
              | Jmp l \<Rightarrow> jump l
              | Je l \<Rightarrow> if zero then jump l else Some (pc + 1, s)
              | Jne l \<Rightarrow> if zero then Some (pc + 1, s) else jump l
              | i \<Rightarrow> map_option (\<lambda>s'. (pc + 1, s')) (exec i s))"

fun asm_run :: "asm list \<Rightarrow> nat \<Rightarrow> nat \<times> machine \<Rightarrow> (nat \<times> machine) option" where
  "asm_run cs 0 c = Some c"
| "asm_run cs (Suc n) c = (case asm_step cs c of None \<Rightarrow> None | Some c' \<Rightarrow> asm_run cs n c')"

lemma asm_run_add:
  "asm_run cs m c = Some c' \<Longrightarrow> asm_run cs (m + n) c = asm_run cs n c'"
  by (induction m arbitrary: c) (auto split: option.splits)

text \<open>\<open>code\<close> stands in \<open>cs\<close> from position \<open>k\<close> on.\<close>

definition code_at :: "asm list \<Rightarrow> nat \<Rightarrow> asm list \<Rightarrow> bool" where
  "code_at cs k code \<longleftrightarrow> (\<exists>pre post. cs = pre @ code @ post \<and> length pre = k)"

lemma code_at_Cons: "code_at cs k (c # code) \<Longrightarrow> k < length cs \<and> cs ! k = c \<and> code_at cs (k + 1) code"
proof -
  assume "code_at cs k (c # code)"
  then obtain pre post where "cs = pre @ (c # code) @ post" "length pre = k" by (auto simp: code_at_def)
  then have "cs = (pre @ [c]) @ code @ post" "length (pre @ [c]) = k + 1" "cs ! k = c" "k < length cs"
    by (simp_all add: nth_append)
  then show ?thesis unfolding code_at_def by blast
qed

lemma code_at_append: "code_at cs k (a @ b) \<Longrightarrow> code_at cs k a \<and> code_at cs (k + length a) b"
proof -
  assume "code_at cs k (a @ b)"
  then obtain pre post where "cs = pre @ (a @ b) @ post" "length pre = k" by (auto simp: code_at_def)
  then have "cs = pre @ a @ (b @ post)" "cs = (pre @ a) @ b @ post" "length (pre @ a) = k + length a" "length pre = k"
    by simp_all
  then show ?thesis unfolding code_at_def by blast
qed

lemma exec_step: "exec c s = Some s' \<Longrightarrow> pc < length cs \<Longrightarrow> cs ! pc = c \<Longrightarrow> asm_step cs (pc, s) = Some (pc + 1, s')"
  by (cases c) (simp_all add: asm_step_def)

lemma exec_list_run:
  "exec_list code s = Some s' \<Longrightarrow> code_at cs k code \<Longrightarrow>
   asm_run cs (length code) (k, s) = Some (k + length code, s')"
proof (induction code arbitrary: s k)
  case (Cons c code)
  then obtain s1 where s1: "exec c s = Some s1" "exec_list code s1 = Some s'" by (auto split: option.splits)
  note at = code_at_Cons [OF Cons.prems(2)]
  have "asm_step cs (k, s) = Some (k + 1, s1)" using exec_step [OF s1(1)] at by blast
  then show ?case using Cons.IH [OF s1(2)] at by simp
qed simp

subsection \<open>Labels\<close>

lemma read_show_int: "show_int a = show_int b \<Longrightarrow> a = b"
proof -
  have digit: "x \<noteq> CHR ''-''" if "x \<in> set (show_nat n)" for x n
    using show_nat_digits [OF that] by auto
  have neq: "CHR ''-'' # xs \<noteq> show_nat n" for xs n
    using digit [of "CHR ''-''" n] by (metis list.set_intros(1))
  show "show_int a = show_int b \<Longrightarrow> a = b"
    using neq by (auto simp: show_int_def show_nat_inj split: if_splits dest: sym)
qed

lemma label_name_inj: "label_name f a = label_name f b \<longleftrightarrow> a = b"
  using read_show_int by (auto simp: label_name_def)

definition no_labels :: "asm list \<Rightarrow> bool" where
  "no_labels code \<longleftrightarrow> (\<forall>l. LabelDef l \<notin> set code)"

lemma no_labels_simps [simp]:
  "no_labels []" "no_labels (a @ b) \<longleftrightarrow> no_labels a \<and> no_labels b"
  "no_labels (c # code) \<longleftrightarrow> (\<forall>l. c \<noteq> LabelDef l) \<and> no_labels code"
  by (auto simp: no_labels_def)

lemma no_labels_operands [simp]:
  "no_labels (load_reg ra v r)" "no_labels (store_reg ra v r)" "no_labels (load_xmm E ra v x)"
  "no_labels (store_xmm E ra v x)" "no_labels (ext_rax sx sz)" "no_labels (normalize_rax_to_type E ty)"
  "no_labels (emit_load_eightbyte_from_mem b off rem r)" "no_labels (emit_store_eightbyte_to_mem b off rem r)"
  "no_labels (copy_step w d s' off)"
  by (simp_all add: load_reg_def store_reg_def load_xmm_def store_xmm_def ext_rax_def normalize_rax_to_type_def
      emit_load_eightbyte_from_mem_def emit_store_eightbyte_to_mem_def copy_step_def Let_def
      split: ir_operand.split option.split)

lemma no_labels_quads [simp]: "no_labels (fst (copy_quads d s off sz))"
proof (induction d s off sz rule: copy_quads.induct)
  case (1 d s off sz)
  then show ?case by (subst copy_quads.simps) (auto split: prod.split)
qed

lemma no_labels_copy [simp]: "no_labels (emit_copy_bytes d s sz)"
proof -
  obtain c off where c: "copy_quads d s 0 sz = (c, off)" by fastforce
  then have "no_labels c" using no_labels_quads [of d s 0 sz] by simp
  then show ?thesis by (simp add: emit_copy_bytes_def c Let_def)
qed

lemma no_labels_param [simp]: "no_labels (param_regs_loop E sz b slot cs j ints sses)"
  by (induction cs arbitrary: j ints sses) (simp_all add: Let_def)

lemma no_labels_agg [simp]: "no_labels (fst (load_agg_regs base rs sz cs j ints sses))"
  by (induction cs arbitrary: j ints sses) (simp_all add: Let_def case_prod_beta)

lemma no_labels_args [simp]: "no_labels (fst (reg_args E ra vs ints sses))"
  by (induction vs arbitrary: ints sses) (simp_all add: Let_def case_prod_beta)

lemma no_labels_push [simp]: "no_labels (push_args E ra args sret n)"
  by (induction n) (simp_all add: push_arg_def)

lemma no_labels_ret [simp]: "no_labels (store_ret_regs sz cs j ri rs)"
  by (induction cs arbitrary: j ri rs) (simp_all add: Let_def)

lemma no_labels_gen:
  "in_op i \<noteq> IR_LABEL \<Longrightarrow> no_labels (gen_instr E ra f i)"
proof -
  have param: "no_labels (gen_param E ra f i)" by (simp add: gen_param_def Let_def)
  have load: "no_labels (gen_load E ra i)" "no_labels (gen_store E ra i)"
    by (simp_all add: gen_load_def gen_store_def Let_def)
  have copy: "no_labels (gen_copy E ra f i)" "no_labels (gen_addr ra i)" "no_labels (gen_alloca ra i)"
    by (simp_all add: gen_copy_def param gen_addr_def gen_alloca_def split: ir_operand.split)
  have alu: "no_labels (gen_alu E ra i)" "no_labels (gen_div E ra i)" "no_labels (gen_mod ra i)"
    "no_labels (gen_neg ra i)" "no_labels (gen_not ra i)" "no_labels (gen_compare E ra i)"
    by (simp_all add: gen_alu_def alu_code_def sse_code_def gen_div_def gen_mod_def gen_neg_def gen_not_def
        gen_compare_def cond_code_def)
  have conv: "no_labels (gen_sext E ra i)" "no_labels (gen_zext E ra i)" "no_labels (gen_trunc E ra i)"
    "no_labels (gen_itof E ra i)" "no_labels (gen_ftoi E ra i)" "no_labels (gen_memcpy ra i)"
    by (simp_all add: gen_sext_def gen_zext_def gen_trunc_def gen_itof_def gen_ftoi_def gen_memcpy_def Let_def
        split: option.split)
  have result: "no_labels (call_result E ra i)"
    by (simp add: call_result_def Let_def split: ir_operand.split)
  have call: "no_labels (gen_call E ra i)"
    using no_labels_args by (auto simp: gen_call_def result Let_def case_prod_beta split: ir_operand.split)
  have ret: "no_labels (gen_ret E ra f i)"
    by (simp add: gen_ret_def ret_value_def Let_def split: ir_operand.split type_body.split)
  show "in_op i \<noteq> IR_LABEL \<Longrightarrow> no_labels (gen_instr E ra f i)"
    by (simp add: gen_instr_def Let_def load copy alu conv call ret)
qed

subsection \<open>Positions\<close>

lemma find_index_append:
  "find_index P (xs @ ys) =
     (case find_index P xs of Some k \<Rightarrow> Some k | None \<Rightarrow> map_option ((+) (length xs)) (find_index P ys))"
  by (induction xs; cases "find_index P ys") (auto split: option.split)

lemma find_index_None: "find_index P xs = None \<longleftrightarrow> (\<forall>x \<in> set xs. \<not> P x)"
  by (induction xs) auto

definition func_header :: "ir_func \<Rightarrow> asm list" where
  "func_header f =
     (if \<not> fn_is_static f then [directive (''.globl '' @ fn_name f)] else [])
     @ [directive (''.type '' @ fn_name f @ '', @function''), LabelDef (fn_name f)]
     @ [Push RBP, MovReg RSP RBP, SubRsp (ra_frame_size (regalloc_run f))]"

definition body_code :: "cg_env \<Rightarrow> ir_func \<Rightarrow> ir_instr list \<Rightarrow> asm list" where
  "body_code E f is = concat (map (gen_instr E (regalloc_run f) f) is)"

definition func_footer :: "ir_func \<Rightarrow> asm list" where
  "func_footer f = [Leave, Ret, directive (''.size '' @ fn_name f @ '', .-'' @ fn_name f), Line []]"

lemma codegen_func_parts: "codegen_func E f = func_header f @ body_code E f (fn_instrs f) @ func_footer f"
  by (simp add: codegen_func_def func_header_def body_code_def func_footer_def Let_def)

lemma body_code_append: "body_code E f (xs @ ys) = body_code E f xs @ body_code E f ys"
  by (simp add: body_code_def)

text \<open>Where the code of the instruction number \<open>pc\<close> starts.\<close>

definition code_pos :: "cg_env \<Rightarrow> ir_func \<Rightarrow> nat \<Rightarrow> nat" where
  "code_pos E f pc = length (func_header f) + length (body_code E f (take pc (fn_instrs f)))"

lemma code_at_pos:
  assumes "pc < length (fn_instrs f)"
  shows "code_at (codegen_func E f) (code_pos E f pc) (gen_instr E (regalloc_run f) f (fn_instrs f ! pc))"
    "code_pos E f (Suc pc) = code_pos E f pc + length (gen_instr E (regalloc_run f) f (fn_instrs f ! pc))"
proof -
  have "fn_instrs f = take pc (fn_instrs f) @ [fn_instrs f ! pc] @ drop (Suc pc) (fn_instrs f)"
    using id_take_nth_drop [OF assms] by simp
  moreover have "body_code E f [i] = gen_instr E (regalloc_run f) f i" for i by (simp add: body_code_def)
  ultimately have "body_code E f (fn_instrs f) = body_code E f (take pc (fn_instrs f))
      @ gen_instr E (regalloc_run f) f (fn_instrs f ! pc) @ body_code E f (drop (Suc pc) (fn_instrs f))"
    using body_code_append by metis
  then have "codegen_func E f = (func_header f @ body_code E f (take pc (fn_instrs f)))
      @ gen_instr E (regalloc_run f) f (fn_instrs f ! pc)
      @ (body_code E f (drop (Suc pc) (fn_instrs f)) @ func_footer f)"
    by (simp add: codegen_func_parts)
  then show "code_at (codegen_func E f) (code_pos E f pc) (gen_instr E (regalloc_run f) f (fn_instrs f ! pc))"
    unfolding code_at_def code_pos_def by (metis length_append)
  show "code_pos E f (Suc pc) = code_pos E f pc + length (gen_instr E (regalloc_run f) f (fn_instrs f ! pc))"
    using assms by (simp add: code_pos_def body_code_def take_Suc_conv_app_nth)
qed

lemma body_target:
  "ir_target is l = Some k \<Longrightarrow>
   asm_target (body_code E f is @ post) (label_name f l) = Some (length (body_code E f (take k is)))"
proof (induction "is" arbitrary: k)
  case (Cons i "is")
  show ?case
  proof (cases "in_op i = IR_LABEL \<and> in_label i = l")
    case True
    then show ?thesis using Cons.prems by (simp add: ir_target_def asm_target_def body_code_def gen_instr_def)
  next
    case False
    then obtain k' where k': "ir_target is l = Some k'" "k = Suc k'"
      using Cons.prems by (auto simp: ir_target_def)
    have "LabelDef (label_name f l) \<notin> set (gen_instr E (regalloc_run f) f i)"
      using False no_labels_gen [of i E "regalloc_run f" f]
      by (cases "in_op i = IR_LABEL") (auto simp: gen_instr_def label_name_inj no_labels_def)
    then have "find_index (\<lambda>c. c = LabelDef (label_name f l)) (gen_instr E (regalloc_run f) f i) = None"
      by (auto simp: find_index_None)
    then show ?thesis using Cons.IH [OF k'(1)] k'(2)
      by (simp add: asm_target_def body_code_def find_index_append)
  qed
qed (simp add: ir_target_def)

lemma length_label_name: "length (fn_name f) < length (label_name f l)"
  by (simp add: label_name_def)

lemma func_target:
  "ir_target (fn_instrs f) l = Some k \<Longrightarrow>
   asm_target (codegen_func E f) (label_name f l) = Some (code_pos E f k)"
proof -
  have "label_name f l \<noteq> fn_name f"
    by (metis length_label_name less_not_refl)
  then have "find_index (\<lambda>c. c = LabelDef (label_name f l)) (func_header f) = None"
    by (auto simp: find_index_None func_header_def directive_def)
  then show "ir_target (fn_instrs f) l = Some k \<Longrightarrow> asm_target (codegen_func E f) (label_name f l) = Some (code_pos E f k)"
    using body_target [of "fn_instrs f" l k E f "func_footer f"]
    by (simp add: asm_target_def codegen_func_parts find_index_append code_pos_def)
qed

subsection \<open>Simulation\<close>

definition holds_in :: "u64 \<Rightarrow> ir_func \<Rightarrow> ir_state \<Rightarrow> machine \<Rightarrow> bool" where
  "holds_in fp f st s \<longleftrightarrow> holds fp (regalloc_run f) st s"

definition func_frame :: "u64 \<Rightarrow> ir_func \<Rightarrow> ir_frame" where
  "func_frame fp f = frame_of fp (regalloc_run f)"

lemma exec_list_at:
  assumes "exec_list (gen_instr E (regalloc_run f) f (fn_instrs f ! pc)) s = Some s'" "pc < length (fn_instrs f)"
  shows "asm_run (codegen_func E f) (length (gen_instr E (regalloc_run f) f (fn_instrs f ! pc)))
    (code_pos E f pc, s) = Some (code_pos E f (Suc pc), s')"
  using exec_list_run [OF assms(1) code_at_pos(1) [OF assms(2)]] code_at_pos(2) [OF assms(2)] by simp

lemma asm_step_one: "asm_step cs c = Some c' \<Longrightarrow> asm_run cs 1 c = Some c'"
  by simp

lemma label_step:
  assumes "pc < length (fn_instrs f)" "in_op (fn_instrs f ! pc) = IR_LABEL"
  shows "asm_run (codegen_func E f) 1 (code_pos E f pc, s) = Some (code_pos E f (Suc pc), s)"
proof -
  have code: "gen_instr E (regalloc_run f) f (fn_instrs f ! pc) = [LabelDef (label_name f (in_label (fn_instrs f ! pc)))]"
    using assms(2) by (simp add: gen_instr_def)
  note at = code_at_Cons [OF code_at_pos(1) [OF assms(1), of E, unfolded code]]
  show ?thesis using at code_at_pos(2) [OF assms(1), of E] code
    by (intro asm_step_one) (simp add: asm_step_def)
qed

lemma jump_step:
  assumes "pc < length (fn_instrs f)" "in_op (fn_instrs f ! pc) = IR_JMP"
    "ir_target (fn_instrs f) (in_label (fn_instrs f ! pc)) = Some k"
  shows "asm_run (codegen_func E f) 1 (code_pos E f pc, s) = Some (code_pos E f k, s)"
proof -
  have code: "gen_instr E (regalloc_run f) f (fn_instrs f ! pc) = [Jmp (label_name f (in_label (fn_instrs f ! pc)))]"
    using assms(2) by (simp add: gen_instr_simps)
  note at = code_at_Cons [OF code_at_pos(1) [OF assms(1), of E, unfolded code]]
  show ?thesis using at func_target [OF assms(3), of E]
    by (intro asm_step_one) (simp add: asm_step_def)
qed

lemma branch_step:
  assumes "pc < length (fn_instrs f)" "in_op (fn_instrs f ! pc) = IR_JZ \<or> in_op (fn_instrs f ! pc) = IR_JNZ"
    and s: "holds_in fp f st s" and ra: "slots_ok (regalloc_run f)"
    and v: "operand_ok (func_frame fp f) (iv_op (in_src1 (fn_instrs f ! pc)))"
      "ir_val (iv_op (in_src1 (fn_instrs f ! pc))) st = Some v"
    and go: "(if (v = 0) = (in_op (fn_instrs f ! pc) = IR_JZ)
       then ir_target (fn_instrs f) (in_label (fn_instrs f ! pc)) else Some (Suc pc)) = Some k"
  shows "\<exists>m s'. asm_run (codegen_func E f) m (code_pos E f pc, s) = Some (code_pos E f k, s') \<and> holds_in fp f st s'"
proof -
  let ?i = "fn_instrs f ! pc" and ?cs = "codegen_func E f" and ?p = "code_pos E f pc"
  let ?l = "label_name f (in_label ?i)" and ?ld = "load_reg (regalloc_run f) (in_src1 (fn_instrs f ! pc)) RAX"
  define j where "j = (if in_op ?i = IR_JZ then Je ?l else Jne ?l)"
  have code: "gen_instr E (regalloc_run f) f ?i = ?ld @ [Test RAX] @ [j]"
    using assms(2) by (auto simp: gen_instr_simps j_def)
  note at = code_at_append [OF code_at_pos(1) [OF assms(1), of E, unfolded code]]
  note at2 = code_at_append [OF at [THEN conjunct2]]
  note j = code_at_Cons [OF at2 [THEN conjunct2]]
  let ?s1 = "set_reg RAX v s" let ?s2 = "?s1\<lparr>cmp_ops := (v, 0)\<rparr>"
  have ld: "exec_list ?ld s = Some ?s1"
    using exec_load_reg [of fp "regalloc_run f" st s "in_src1 ?i" v RAX] s ra v
    by (simp add: holds_in_def func_frame_def)
  have "exec_list (?ld @ [Test RAX]) s = Some ?s2"
    by (simp add: exec_list_append ld)
  moreover have "code_at ?cs ?p (?ld @ [Test RAX])"
    using code_at_pos(1) [OF assms(1), of E, unfolded code] code_at_append [of ?cs ?p "?ld @ [Test RAX]" "[j]"] by simp
  ultimately have run: "asm_run ?cs (length ?ld + 1) (?p, s) = Some (?p + length ?ld + 1, ?s2)"
    using exec_list_run by fastforce
  have next_pos: "code_pos E f (Suc pc) = ?p + length ?ld + 1 + 1" using code_at_pos(2) [OF assms(1), of E] code by simp
  have "asm_step ?cs (?p + length ?ld + 1, ?s2) = Some (code_pos E f k, ?s2)"
    using j go assms(2) func_target [of f "in_label ?i" k E] next_pos
    by (auto simp: asm_step_def j_def split: if_splits)
  then have "asm_run ?cs (length ?ld + 1 + 1) (?p, s) = Some (code_pos E f k, ?s2)"
    using asm_run_add [OF run, of 1] asm_step_one by metis
  moreover have "holds_in fp f st ?s2" using s by (simp add: holds_in_def)
  ultimately show ?thesis by blast
qed

lemma ir_step_simulated:
  assumes "ir_step E (func_frame fp f) (fn_instrs f) (pc, st) = Some (k, st')"
    and "slots_ok (regalloc_run f)" "holds_in fp f st s"
  shows "\<exists>m s'. asm_run (codegen_func E f) m (code_pos E f pc, s) = Some (code_pos E f k, s') \<and> holds_in fp f st' s'"
proof -
  let ?i = "fn_instrs f ! pc"
  have pc: "pc < length (fn_instrs f)" using assms(1) by (auto simp: ir_step_def Let_def split: if_splits)
  consider "in_op ?i = IR_LABEL" | "in_op ?i = IR_JMP" | "in_op ?i = IR_JZ \<or> in_op ?i = IR_JNZ"
    | "in_op ?i \<notin> {IR_LABEL, IR_JMP, IR_JZ, IR_JNZ}" by blast
  then show ?thesis
  proof cases
    case 1
    then have "k = Suc pc" "st' = st" using assms(1) pc by (auto simp: ir_step_def Let_def)
    then show ?thesis using label_step [OF pc 1] assms(3) by blast
  next
    case 2
    then have "ir_target (fn_instrs f) (in_label ?i) = Some k" "st' = st" using assms(1) pc by (auto simp: ir_step_def Let_def)
    then show ?thesis using jump_step [OF pc 2] assms(3) by blast
  next
    case 3
    then have v: "operand_ok (func_frame fp f) (iv_op (in_src1 ?i))"
      using assms(1) pc by (auto simp: ir_step_def Let_def split: if_splits)
    obtain v where w: "ir_val (iv_op (in_src1 ?i)) st = Some v"
      using assms(1) pc 3 v by (auto simp: ir_step_def Let_def split: option.splits)
    have "(if (v = 0) = (in_op ?i = IR_JZ) then ir_target (fn_instrs f) (in_label ?i) else Some (Suc pc)) = Some k"
      "st' = st"
      using assms(1) pc 3 v w by (auto simp: ir_step_def Let_def split: if_splits)
    then show ?thesis using branch_step [OF pc 3 assms(3,2) v w] by blast
  next
    case 4
    then have "ir_exec E (func_frame fp f) ?i st = Some st'" "k = Suc pc"
      using assms(1) pc by (auto simp: ir_step_def Let_def)
    then obtain s' where s': "exec_list (gen_instr E (regalloc_run f) f ?i) s = Some s'" "holds_in fp f st' s'"
      using gen_instr_simulates assms(2,3) unfolding holds_in_def func_frame_def by blast
    then show ?thesis using exec_list_at [OF s'(1) pc] \<open>k = Suc pc\<close> by blast
  qed
qed

lemma ir_run_simulated:
  assumes "ir_run E (func_frame fp f) (fn_instrs f) n (pc, st) = Some (k, st')"
    and "slots_ok (regalloc_run f)" "holds_in fp f st s"
  shows "\<exists>m s'. asm_run (codegen_func E f) m (code_pos E f pc, s) = Some (code_pos E f k, s') \<and> holds_in fp f st' s'"
  using assms(1,3)
proof (induction n arbitrary: pc st s)
  case 0
  then show ?case by (intro exI [of _ 0]) simp
next
  case (Suc n)
  then obtain pc1 st1 where one: "ir_step E (func_frame fp f) (fn_instrs f) (pc, st) = Some (pc1, st1)"
    and rest: "ir_run E (func_frame fp f) (fn_instrs f) n (pc1, st1) = Some (k, st')"
    by (auto split: option.splits)
  obtain m s1 where m: "asm_run (codegen_func E f) m (code_pos E f pc, s) = Some (code_pos E f pc1, s1)"
    and s1: "holds_in fp f st1 s1" using ir_step_simulated [OF one assms(2) Suc.prems(2)] by blast
  obtain m' s' where "asm_run (codegen_func E f) m' (code_pos E f pc1, s1) = Some (code_pos E f k, s')"
    "holds_in fp f st' s'" using Suc.IH [OF rest s1] by blast
  then show ?case using asm_run_add [OF m] by metis
qed

text \<open>C1: the code of a function runs like its instructions: whenever the IR machine, started
  at the first instruction, gets to some instruction after any number of steps (loops and
  jumps included), the assembly machine gets from the start of the body to the code of that
  instruction, with every temporary in its slot and the rest of memory as in the IR state.\<close>

theorem codegen_func_simulates:
  assumes "1 \<le> fn_next_temp f" "fn_next_temp f < 2 ^ 60" "holds_in fp f st s"
    and "ir_run E (func_frame fp f) (fn_instrs f) n (0, st) = Some (k, st')"
  shows "\<exists>m s'. asm_run (codegen_func E f) m (code_pos E f 0, s) = Some (code_pos E f k, s')
    \<and> regs s' RBP = fp
    \<and> (\<forall>t. 1 \<le> t \<longrightarrow> t < fn_next_temp f \<longrightarrow> mem_read 8 (fp + of_int (- 8 * t)) (memory s') = temps st' t)
    \<and> (\<forall>x. \<not> in_slots fp (fn_next_temp f) x \<longrightarrow> memory s' x = imem st' x)"
  using ir_run_simulated [OF assms(4) regalloc_slots_ok(1) [OF assms(1,2)] assms(3)]
    regalloc_slots_ok(2) [OF assms(1,2)]
  by (auto simp: holds_in_def holds_def)

subsection \<open>Returning\<close>

lemma class_of_integer:
  assumes "type_is_integer (cg_nodes E) t"
  shows "class_of E t = \<lparr>n_eightbytes = 1, classes = [ABI_CLASS_INTEGER, ABI_CLASS_NONE]\<rparr>"
proof (cases "body (cg_nodes E) t")
  case (Scalar k)
  then show ?thesis using assms
    by (auto simp: type_is_integer_def class_of_def abi_classify_def type_sizeof.simps MAX_EIGHTBYTES_def
        merge_at_def merge_class_def)
qed (use assms in \<open>auto simp: type_is_integer_def class_of_def abi_classify_def type_sizeof.simps MAX_EIGHTBYTES_def
        merge_at_def merge_class_def\<close>)

text \<open>C7: a function with an integer return type whose IR run gets to a return with a value
  leaves that value in the return register, cut to the size of the return type and extended
  by its signedness, and is then at the two instructions that leave the frame and return.\<close>

theorem codegen_func_returns:
  assumes "1 \<le> fn_next_temp f" "fn_next_temp f < 2 ^ 60" "holds_in fp f st s"
    and "ir_run E (func_frame fp f) (fn_instrs f) n (0, st) = Some (k, st')" "k < length (fn_instrs f)"
    and "in_op (fn_instrs f ! k) = IR_RET" "operand_ok (func_frame fp f) (iv_op (in_src1 (fn_instrs f ! k)))"
    and "ir_val (iv_op (in_src1 (fn_instrs f ! k))) st' = Some v"
    and "body (cg_nodes E) (fn_type f) = Func r ps np va" "type_is_integer (cg_nodes E) r"
  shows "\<exists>m q s'. asm_run (codegen_func E f) m (code_pos E f 0, s) = Some (q, s')
    \<and> take 2 (drop q (codegen_func E f)) = [Leave, Ret]
    \<and> regs s' RAX = low_bytes (type_is_signed (cg_nodes E) r) (type_sizeof (cg_nodes E) r) v
    \<and> regs s' RBP = fp"
proof -
  let ?cs = "codegen_func E f" and ?ra = "regalloc_run f" and ?i = "fn_instrs f ! k"
  let ?ld = "load_reg (regalloc_run f) (in_src1 (fn_instrs f ! k)) RAX"
  let ?x = "ext_rax (type_is_signed (cg_nodes E) r) (type_sizeof (cg_nodes E) r)"
  note ra = regalloc_slots_ok(1) [OF assms(1,2)]
  obtain m s1 where m: "asm_run ?cs m (code_pos E f 0, s) = Some (code_pos E f k, s1)" and s1: "holds fp ?ra st' s1"
    using ir_run_simulated [OF assms(4) ra assms(3)] unfolding holds_in_def by blast
  have some: "iv_op (in_src1 ?i) \<noteq> IRV_NONE" using assms(7) by (auto simp: operand_ok_def)
  have "\<not> is_aggregate_type E (Some r)" using assms(10)
    by (auto simp: is_aggregate_type_def type_is_integer_def split: type_body.splits)
  then have code: "gen_instr E ?ra f ?i = (?ld @ ?x) @ [Leave, Ret]"
    using assms(6,9,10) some
    by (simp add: gen_instr_simps gen_ret_def ret_value_def func_ret_def class_of_integer abi_in_memory_def
        normalize_rax_to_type_def)
  have ok: "operand_ok (frame_of fp ?ra) (iv_op (in_src1 ?i))" using assms(7) by (simp add: func_frame_def)
  have "computes fp ?ra st' s1 (?ld @ ?x) RAX (low_bytes (type_is_signed (cg_nodes E) r) (type_sizeof (cg_nodes E) r) v)"
    using computes_unary [OF s1 ra ok assms(8)] computes_ext by blast
  then obtain s' where s': "exec_list (?ld @ ?x) s1 = Some s'" "regs s' RBP = fp"
    "regs s' RAX = low_bytes (type_is_signed (cg_nodes E) r) (type_sizeof (cg_nodes E) r) v"
    by (auto simp: computes_def holds_def)
  note at = code_at_append [OF code_at_pos(1) [OF assms(5), of E, unfolded code]]
  have run: "asm_run ?cs (m + length (?ld @ ?x)) (code_pos E f 0, s) = Some (code_pos E f k + length (?ld @ ?x), s')"
    using asm_run_add [OF m] exec_list_run [OF s'(1) at [THEN conjunct1]] by simp
  obtain pre post where "?cs = pre @ [Leave, Ret] @ post" "length pre = code_pos E f k + length (?ld @ ?x)"
    using at [THEN conjunct2] unfolding code_at_def by blast
  then have "take 2 (drop (code_pos E f k + length (?ld @ ?x)) ?cs) = [Leave, Ret]" by simp
  then show ?thesis using run s' by blast
qed

subsection \<open>A loop\<close>

definition mk_instr :: "IROp \<Rightarrow> ir_operand \<Rightarrow> ir_operand \<Rightarrow> ir_operand \<Rightarrow> int \<Rightarrow> ir_instr" where
  "mk_instr op d a b l =
     \<lparr>in_op = op, in_dst = \<lparr>iv_op = d, iv_type = Some type_int\<rparr>, in_src1 = \<lparr>iv_op = a, iv_type = Some type_int\<rparr>,
      in_src2 = \<lparr>iv_op = b, iv_type = Some type_int\<rparr>, in_label = l, in_alloca_size = 0, in_alloca_align = 0,
      in_call_args = [], in_call_sret = False, in_call_ret_ty = None, in_line = 0\<rparr>"

text \<open>3 + 2 + 1, by a loop.\<close>

definition sum_instrs :: "ir_instr list" where
  "sum_instrs =
     [mk_instr IR_LOAD_IMM (IRV_TEMP 1) (IRV_CONST_INT 3) IRV_NONE 0,
      mk_instr IR_LOAD_IMM (IRV_TEMP 2) (IRV_CONST_INT 0) IRV_NONE 0,
      mk_instr IR_LABEL IRV_NONE IRV_NONE IRV_NONE 1,
      mk_instr IR_JZ IRV_NONE (IRV_TEMP 1) IRV_NONE 2,
      mk_instr IR_ADD (IRV_TEMP 2) (IRV_TEMP 2) (IRV_TEMP 1) 0,
      mk_instr IR_SUB (IRV_TEMP 1) (IRV_TEMP 1) (IRV_CONST_INT 1) 0,
      mk_instr IR_JMP IRV_NONE IRV_NONE IRV_NONE 1,
      mk_instr IR_LABEL IRV_NONE IRV_NONE IRV_NONE 2,
      mk_instr IR_RET IRV_NONE (IRV_TEMP 2) IRV_NONE 0]"

definition sum_func :: ir_func where
  "sum_func = \<lparr>fn_name = ''sum'', fn_type = 16, fn_instrs = sum_instrs, fn_cap = 64, fn_next_temp = 3,
     fn_next_label = 3, fn_is_static = False, fn_sret_temp = 0\<rparr>"

definition sum_env :: cg_env where
  "sum_env = \<lparr>cg_nodes = tt_nodes type_table_init @ [\<lparr>tn_qual = QUAL_NONE, tn_body = Func type_int [] 0 0\<rparr>],
     cg_double_bits = (\<lambda>s. 0), cg_float_bits = (\<lambda>s. 0)\<rparr>"

definition zero_state :: ir_state where
  "zero_state = \<lparr>temps = (\<lambda>t. 0), imem = (\<lambda>a. 0)\<rparr>"

definition zero_machine :: machine where
  "zero_machine = \<lparr>regs = (\<lambda>r. 0), memory = (\<lambda>a. 0), cmp_ops = (0, 0)\<rparr>"

lemma zero_read: "mem_read n a (\<lambda>a. 0) = 0"
  by (induction n arbitrary: a) simp_all

lemma zero_holds: "holds_in 0 f zero_state zero_machine"
  by (simp add: holds_in_def holds_def zero_state_def zero_machine_def zero_read del: mem_read.simps)

lemma sum_run:
  "case ir_run sum_env (func_frame 0 sum_func) sum_instrs 20 (0, zero_state) of
     None \<Rightarrow> False | Some (k, st') \<Rightarrow> k = 8 \<and> temps st' 2 = 6"
  by code_simp

lemma sum_run_state:
  "\<exists>st'. ir_run sum_env (func_frame 0 sum_func) (fn_instrs sum_func) 20 (0, zero_state) = Some (8, st')
     \<and> temps st' 2 = 6"
  using sum_run by (auto simp: sum_func_def split: option.splits)

lemma sum_facts:
  "1 \<le> fn_next_temp sum_func" "fn_next_temp sum_func < 2 ^ 60" "8 < length (fn_instrs sum_func)"
  "fn_instrs sum_func ! 8 = mk_instr IR_RET IRV_NONE (IRV_TEMP 2) IRV_NONE 0"
  "body (cg_nodes sum_env) (fn_type sum_func) = Func type_int [] 0 0"
  "type_is_integer (cg_nodes sum_env) type_int" "type_is_signed (cg_nodes sum_env) type_int"
  "type_sizeof (cg_nodes sum_env) type_int = 4"
  by code_simp+

lemma codegen_func_simulates_witness:
  "\<exists>m s'. asm_run (codegen_func sum_env sum_func) m (code_pos sum_env sum_func 0, zero_machine)
       = Some (code_pos sum_env sum_func 8, s') \<and> mem_read 8 (0 + of_int (- 8 * 2)) (memory s') = 6"
proof -
  obtain st' where st': "ir_run sum_env (func_frame 0 sum_func) (fn_instrs sum_func) 20 (0, zero_state) = Some (8, st')"
    "temps st' 2 = 6" using sum_run_state by blast
  have "1 \<le> (2::int)" "2 < fn_next_temp sum_func" by (simp_all add: sum_func_def)
  then show ?thesis
    using codegen_func_simulates [OF sum_facts(1,2) zero_holds st'(1)] st'(2) by metis
qed

lemma codegen_func_returns_witness:
  "\<exists>m q s'. asm_run (codegen_func sum_env sum_func) m (code_pos sum_env sum_func 0, zero_machine) = Some (q, s')
    \<and> regs s' RAX = 6"
proof -
  obtain st' where st': "ir_run sum_env (func_frame 0 sum_func) (fn_instrs sum_func) 20 (0, zero_state) = Some (8, st')"
    "temps st' 2 = 6" using sum_run_state by blast
  have i: "in_op (fn_instrs sum_func ! 8) = IR_RET" "iv_op (in_src1 (fn_instrs sum_func ! 8)) = IRV_TEMP 2"
    unfolding sum_facts(4) by (simp_all add: mk_instr_def)
  have ok: "operand_ok (func_frame 0 sum_func) (iv_op (in_src1 (fn_instrs sum_func ! 8)))"
    using regalloc_slots_ok(2) [OF sum_facts(1,2)]
    by (simp add: i operand_ok_def func_frame_def frame_of_def) (simp add: sum_func_def)
  have v: "ir_val (iv_op (in_src1 (fn_instrs sum_func ! 8))) st' = Some 6" using i st'(2) by simp
  have "low_bytes True 4 6 = 6" by code_simp
  then show ?thesis
    using codegen_func_returns [OF sum_facts(1,2) zero_holds st'(1) sum_facts(3) i(1) ok v sum_facts(5,6)] sum_facts(7,8)
    by auto
qed

end
