(* ===== verification/CodegenCall.thy ===== *)
theory CodegenCall
  imports CodegenSem
begin

section \<open>Passing arguments\<close>

text \<open>
  The caller of a function and its body compute independently where an argument is: the
  caller in three passes over the arguments, the body by compute_arg_state over the
  parameters. The two agree, and the pushed arguments lie where the body looks for them.
\<close>

subsection \<open>Where an argument is\<close>

definition stack_before :: "cg_env \<Rightarrow> tid list \<Rightarrow> nat \<Rightarrow> nat \<Rightarrow> int" where
  "stack_before E ts sret a =
     sum_list (map (\<lambda>k. stack_size E (ts ! k)) (filter (goes_to_stack E ts sret) [0..<a]))"

lemma stack_before_Suc:
  "stack_before E ts sret (Suc a) =
   stack_before E ts sret a + (if goes_to_stack E ts sret a then stack_size E (ts ! a) else 0)"
  by (simp add: stack_before_def)

lemma sim_regs_snoc:
  "sim_regs E (ts @ [t]) st =
     (let (ints, sses) = sim_regs E ts st; c = class_of E t
      in if \<not> abi_in_memory c \<and> fits c ints sses then (ints + needed_int c, sses + needed_sse c) else (ints, sses))"
  by (induction ts arbitrary: st) (auto simp: Let_def split: prod.splits)

lemma arg_state_loop_snoc:
  "arg_state_loop E (ts @ [t]) st = arg_state_loop E [t] (arg_state_loop E ts st)"
  by (induction ts arbitrary: st) (simp_all add: Let_def)

lemma arg_state_sim:
  assumes "a \<le> length ts"
  shows "arg_state_loop E (take a ts) \<lparr>int_regs_used = sret, sse_regs_used = 0, stack_offset = 16\<rparr> =
    \<lparr>int_regs_used = fst (sim_regs E (take a ts) (sret, 0)), sse_regs_used = snd (sim_regs E (take a ts) (sret, 0)),
     stack_offset = 16 + stack_before E ts sret a\<rparr>"
  using assms
proof (induction a)
  case 0
  then show ?case by (simp add: stack_before_def)
next
  case (Suc a)
  have t: "take (Suc a) ts = take a ts @ [ts ! a]" using Suc.prems by (simp add: take_Suc_conv_app_nth)
  show ?case
    unfolding t arg_state_loop_snoc sim_regs_snoc stack_before_Suc
    using Suc by (auto simp: Let_def goes_to_stack_def fits_def split: prod.split)
qed

lemma call_classify_snoc:
  "call_classify E (ts @ [t]) st = call_classify E [t] (call_classify E ts st)"
  by (induction ts arbitrary: st) (auto simp: Let_def split: prod.split)

lemma call_classify_bytes:
  assumes "a \<le> length ts"
  shows "call_classify E (take a ts) (sret, 0, 0) =
    (fst (sim_regs E (take a ts) (sret, 0)), snd (sim_regs E (take a ts) (sret, 0)), stack_before E ts sret a)"
  using assms
proof (induction a)
  case 0
  then show ?case by (simp add: stack_before_def)
next
  case (Suc a)
  have t: "take (Suc a) ts = take a ts @ [ts ! a]" using Suc.prems by (simp add: take_Suc_conv_app_nth)
  show ?case
    unfolding t call_classify_snoc sim_regs_snoc stack_before_Suc
    using Suc by (auto simp: Let_def goes_to_stack_def split: prod.split)
qed

text \<open>The code of the third pass for one argument, with the registers it may use from.\<close>

definition load_arg :: "cg_env \<Rightarrow> reg_alloc \<Rightarrow> ir_value \<Rightarrow> nat \<times> nat \<Rightarrow> asm list" where
  "load_arg E ra v st =
     (let c = class_of E (val_type v); (ints, sses) = st
      in if is_aggregate_type E (iv_type v)
         then load_reg ra v R11 @
              fst (load_agg_regs R11 param_regs (type_sizeof (cg_nodes E) (val_type v)) (used_classes c) 0 ints sses)
         else if n_eightbytes c = 1 \<and> classes c ! 0 = ABI_CLASS_SSE then load_xmm E ra v sses
         else load_reg ra v (param_regs ! ints))"

text \<open>An argument the third pass counts as the first does: its eightbytes are integer or
  vector ones, and a scalar has one.\<close>

definition counted :: "cg_env \<Rightarrow> ir_value \<Rightarrow> bool" where
  "counted E v \<longleftrightarrow>
     (let c = class_of E (val_type v)
      in abi_in_memory c \<or> is_aggregate_type E (iv_type v)
         \<or> n_eightbytes c = 1 \<and> length (classes c) = 2 \<and> classes c ! 0 \<in> {ABI_CLASS_INTEGER, ABI_CLASS_SSE})"

lemma load_agg_regs_state:
  "snd (load_agg_regs base rs sz cs j ints sses) =
     (ints + length (filter (\<lambda>k. k = ABI_CLASS_INTEGER) cs), sses + length (filter (\<lambda>k. k = ABI_CLASS_SSE) cs))"
  by (induction cs arbitrary: j ints sses) (simp_all add: Let_def case_prod_beta)

lemma counted_one:
  "n_eightbytes c = 1 \<Longrightarrow> length (classes c) = 2 \<Longrightarrow> used_classes c = [classes c ! 0]"
  by (cases "classes c") (simp_all add: used_classes_def)

definition arg_code :: "cg_env \<Rightarrow> reg_alloc \<Rightarrow> ir_value list \<Rightarrow> nat \<times> nat \<Rightarrow> nat \<Rightarrow> asm list" where
  "arg_code E ra vs st a =
     (let st' = sim_regs E (take a (map val_type vs)) st; c = class_of E (val_type (vs ! a))
      in if abi_in_memory c \<or> \<not> fits c (fst st') (snd st') then [] else load_arg E ra (vs ! a) st')"

lemma arg_code_Cons:
  "arg_code E ra (v # vs) st 0 =
     (let c = class_of E (val_type v)
      in if abi_in_memory c \<or> \<not> fits c (fst st) (snd st) then [] else load_arg E ra v st)"
  "arg_code E ra (v # vs) st (Suc a) = arg_code E ra vs (sim_regs E [val_type v] st) a"
  by (cases st; simp add: arg_code_def Let_def)+

lemma reg_args_load:
  assumes "list_all (counted E) vs"
  shows "fst (reg_args E ra vs ints sses) = concat (map (arg_code E ra vs (ints, sses)) [0..<length vs])"
  using assms
proof (induction vs arbitrary: ints sses)
  case (Cons v vs)
  let ?c = "class_of E (val_type v)"
  have split: "concat (map g [0..<Suc (length vs)]) = g 0 @ concat (map (\<lambda>a. g (Suc a)) [0..<length vs])"
    for g :: "nat \<Rightarrow> asm list"
    by (simp add: upt_conv_Cons comp_def flip: map_Suc_upt del: upt_Suc)
  have cv: "counted E v" using Cons.prems by simp
  have ih: "fst (reg_args E ra vs i s) = concat (map (arg_code E ra vs (i, s)) [0..<length vs])" for i s
    using Cons by simp
  note simps = split arg_code_Cons Let_def load_arg_def needed_int_def needed_sse_def
  consider (mem) "abi_in_memory ?c" | (full) "\<not> fits ?c ints sses"
    | (agg) "\<not> abi_in_memory ?c" "fits ?c ints sses" "is_aggregate_type E (iv_type v)"
    | (scalar) "\<not> abi_in_memory ?c" "fits ?c ints sses" "\<not> is_aggregate_type E (iv_type v)" by blast
  then show ?case
  proof cases
    case agg
    obtain code st where l: "load_agg_regs R11 param_regs (type_sizeof (cg_nodes E) (val_type v)) (used_classes ?c)
        0 ints sses = (code, st)" by (metis surj_pair)
    then have "st = (ints + needed_int ?c, sses + needed_sse ?c)"
      using load_agg_regs_state by (metis snd_conv needed_int_def needed_sse_def)
    then show ?thesis using agg ih l by (simp add: simps case_prod_beta del: upt_Suc)
  next
    case scalar
    have one: "n_eightbytes ?c = 1" "used_classes ?c = [classes ?c ! 0]" "classes ?c ! 0 \<in> {ABI_CLASS_INTEGER, ABI_CLASS_SSE}"
      using cv scalar counted_one by (auto simp: counted_def Let_def)
    then show ?thesis using scalar ih by (auto simp: simps case_prod_beta simp del: upt_Suc)
  qed (use ih in \<open>simp_all add: simps del: upt_Suc\<close>)
qed simp


subsection \<open>The pushed arguments\<close>

lemma stack_size_nonneg: "0 \<le> stack_size E t"
  by (simp add: stack_size_def round_up_def)

lemma stack_before_nonneg: "0 \<le> stack_before E ts sret a"
  unfolding stack_before_def by (intro sum_list_nonneg) (auto simp: stack_size_nonneg)

definition pushable :: "cg_env \<Rightarrow> ir_frame \<Rightarrow> ir_value \<Rightarrow> bool" where
  "pushable E F v \<longleftrightarrow> \<not> is_aggregate_type E (iv_type v) \<and> operand_ok F (iv_op v) \<and> 8 \<le> stack_size E (val_type v)"

text \<open>The bytes below \<open>sp\<close> that \<open>n\<close> bytes of pushes write.\<close>

definition below :: "u64 \<Rightarrow> int \<Rightarrow> u64 \<Rightarrow> bool" where
  "below sp n x \<longleftrightarrow> (\<exists>j. 1 \<le> j \<and> j \<le> n \<and> x = sp - of_int j)"

lemma below_mono: "below sp m x \<Longrightarrow> m \<le> n \<Longrightarrow> below sp n x"
  by (auto simp: below_def)

lemma below_shift: "0 \<le> k \<Longrightarrow> below (sp - of_int k) n x \<Longrightarrow> below sp (n + k) x"
  unfolding below_def by (metis add.commute add_increasing2 add_right_mono diff_diff_eq of_int_add)

lemma run_below:
  assumes "in_run (sp - of_int k) 8 x" "8 \<le> k"
  shows "below sp k x"
proof -
  have "in_run (sp + of_int (- k)) 8 x" using assms(1) by simp
  then obtain i where i: "0 \<le> i" "i < 8" "x = sp + of_int (- k + i)" by (subst (asm) in_run_int) auto
  then have "x = sp - of_int (k - i)" by simp
  moreover have "1 \<le> k - i" "k - i \<le> k" using i assms(2) by auto
  ultimately show ?thesis unfolding below_def by blast
qed

lemma run_not_below:
  assumes "in_run sp 8 x" "n < 2 ^ 63"
  shows "\<not> below sp n x"
proof
  assume "below sp n x"
  then obtain j where j: "1 \<le> j" "j \<le> n" "x = sp - of_int j" unfolding below_def by blast
  have "in_run (sp + of_int 0) 8 x" using assms(1) by simp
  then obtain i where i: "0 \<le> i" "i < 8" "x = sp + of_int (0 + i)" by (subst (asm) in_run_int) auto
  then have "of_int i = (of_int (- j) :: u64)" using j by simp
  then have "i = - j" by (rule of_int_eq_u64) (use i j assms(2) in auto)
  then show False using i j by simp
qed

lemma push_arg_exec:
  assumes "holds fp ra st s" "slots_ok ra" "pushable E (frame_of fp ra) v" "ir_val (iv_op v) st = Some x"
    and "\<And>y. below (regs s RSP) (stack_size E (val_type v)) y \<Longrightarrow> \<not> in_slots fp (ra_n_temps ra) y"
  shows "\<exists>s' st'. exec_list (push_arg E ra v) s = Some s' \<and> holds fp ra st' s' \<and> temps st' = temps st
    \<and> regs s' RSP = regs s RSP - of_int (stack_size E (val_type v)) \<and> mem_read 8 (regs s' RSP) (memory s') = x
    \<and> (\<forall>y. \<not> below (regs s RSP) (stack_size E (val_type v)) y \<longrightarrow> memory s' y = memory s y)"
proof -
  let ?sz = "stack_size E (val_type v)"
  let ?p = "regs s RSP - of_int ?sz"
  have v: "\<not> is_aggregate_type E (iv_type v)" "operand_ok (frame_of fp ra) (iv_op v)" "8 \<le> ?sz"
    using assms(3) by (simp_all add: pushable_def)
  let ?s1 = "set_reg RSP ?p s"
  have h1: "holds fp ra st ?s1" using assms(1) by simp
  let ?s2 = "set_reg RAX x ?s1"
  have h2: "holds fp ra st ?s2" using h1 by simp
  let ?s3 = "?s2\<lparr>memory := mem_write 8 ?p x (memory ?s2)\<rparr>"
  have code: "exec_list (push_arg E ra v) s = Some ?s3"
    using v(1) by (simp add: push_arg_def exec_list_append exec_load_reg [OF h1 assms(2) v(2) assms(4)] del: mem_write.simps)
  have run: "below (regs s RSP) ?sz y" if "in_run ?p 8 y" for y using run_below [OF that v(3)] .
  have "access_ok fp (ra_n_temps ra) ?p 8"
    unfolding access_ok_def list_all_iff
  proof
    fix j assume "j \<in> set [0..<8]"
    then have "in_run ?p 8 (?p + of_nat j)" by (auto simp: in_run_def unsigned_of_nat intro: le_less_trans [OF take_bit_nat_less_eq_self])
    then show "\<not> in_slots fp (ra_n_temps ra) (?p + of_nat j)" using run assms(5) by blast
  qed
  then have h3: "holds fp ra (st\<lparr>imem := mem_write 8 ?p x (imem st)\<rparr>) ?s3"
    using holds_write [OF h2 _ _ assms(2), of ?p 8 x] by simp
  have keep: "memory ?s3 y = memory s y" if "\<not> below (regs s RSP) ?sz y" for y
  proof -
    have "\<not> in_run ?p 8 y" using that run by blast
    then have "mem_write 8 ?p x (memory ?s2) y = memory ?s2 y" by (intro mem_write_other) auto
    then show ?thesis by simp
  qed
  have "mem_read 8 (regs ?s3 RSP) (memory ?s3) = x"
    by (simp add: mem_read_write_8 del: mem_read.simps mem_write.simps)
  then show ?thesis using code h3 keep
    by (intro exI [of _ ?s3] exI [of _ "st\<lparr>imem := mem_write 8 ?p x (imem st)\<rparr>"]) simp
qed

lemma ir_val_temps: "temps st = temps st' \<Longrightarrow> ir_val op st = ir_val op st'"
  by (cases op) simp_all

lemma push_args_exec:
  assumes "slots_ok ra" "holds fp ra st s" "n \<le> length vs"
    and "\<And>a. a < n \<Longrightarrow> goes_to_stack E (map val_type vs) sret a \<Longrightarrow>
           pushable E (frame_of fp ra) (vs ! a) \<and> ir_val (iv_op (vs ! a)) st = Some (x a)"
    and "stack_before E (map val_type vs) sret n < 2 ^ 63"
    and "\<And>y. below (regs s RSP) (stack_before E (map val_type vs) sret n) y \<Longrightarrow> \<not> in_slots fp (ra_n_temps ra) y"
  shows "\<exists>s' st'. exec_list (push_args E ra vs sret n) s = Some s' \<and> holds fp ra st' s' \<and> temps st' = temps st
    \<and> regs s' RSP = regs s RSP - of_int (stack_before E (map val_type vs) sret n)
    \<and> (\<forall>a<n. goes_to_stack E (map val_type vs) sret a \<longrightarrow>
          mem_read 8 (regs s' RSP + of_int (stack_before E (map val_type vs) sret a)) (memory s') = x a)
    \<and> (\<forall>y. \<not> below (regs s RSP) (stack_before E (map val_type vs) sret n) y \<longrightarrow> memory s' y = memory s y)"
  using assms(2-)
proof (induction n arbitrary: s st)
  case 0
  then show ?case by (auto simp: stack_before_def)
next
  case (Suc n)
  let ?ts = "map val_type vs"
  let ?b = "stack_before E ?ts sret"
  show ?case
  proof (cases "goes_to_stack E ?ts sret n")
    case False
    then have b: "?b (Suc n) = ?b n" by (simp add: stack_before_Suc)
    show ?thesis using Suc.IH [of st s] Suc.prems False unfolding b
      by (simp add: less_Suc_eq)
  next
    case True
    let ?sz = "stack_size E (val_type (vs ! n))"
    have b: "?b (Suc n) = ?b n + ?sz" using True Suc.prems(2) by (simp add: stack_before_Suc)
    have v: "pushable E (frame_of fp ra) (vs ! n)" "ir_val (iv_op (vs ! n)) st = Some (x n)"
      using Suc.prems(3) True by blast+
    have area: "\<not> in_slots fp (ra_n_temps ra) y" if "below (regs s RSP) ?sz y" for y
      using Suc.prems(5) below_mono [OF that] stack_before_nonneg [of E ?ts sret n] b by simp
    obtain s1 st1 where s1: "exec_list (push_arg E ra (vs ! n)) s = Some s1" "holds fp ra st1 s1" "temps st1 = temps st"
      "regs s1 RSP = regs s RSP - of_int ?sz" "mem_read 8 (regs s1 RSP) (memory s1) = x n"
      "\<forall>y. \<not> below (regs s RSP) ?sz y \<longrightarrow> memory s1 y = memory s y"
      using push_arg_exec [OF Suc.prems(1) assms(1) v area] by blast
    have sz: "0 \<le> ?sz" by (rule stack_size_nonneg)
    have low: "below (regs s RSP) (?b (Suc n)) y" if "below (regs s1 RSP) (?b n) y" for y
      using below_shift [OF sz, of "regs s RSP" "?b n" y] that s1(4) b by simp
    obtain s' st' where s': "exec_list (push_args E ra vs sret n) s1 = Some s'" "holds fp ra st' s'" "temps st' = temps st1"
      "regs s' RSP = regs s1 RSP - of_int (?b n)"
      "\<forall>a<n. goes_to_stack E ?ts sret a \<longrightarrow> mem_read 8 (regs s' RSP + of_int (?b a)) (memory s') = x a"
      "\<forall>y. \<not> below (regs s1 RSP) (?b n) y \<longrightarrow> memory s' y = memory s1 y"
      using Suc.IH [OF s1(2)] Suc.prems low b sz ir_val_temps [OF s1(3)] by (auto simp: less_Suc_eq)
    have n63: "?b n < 2 ^ 63" using Suc.prems(4) b sz by simp
    have "mem_read 8 (regs s1 RSP) (memory s') = mem_read 8 (regs s1 RSP) (memory s1)"
      using s'(6) run_not_below [OF _ n63] by (intro mem_read_cong) auto
    then have last: "mem_read 8 (regs s' RSP + of_int (?b n)) (memory s') = x n"
      using s'(4) s1(5) by simp
    have keep: "memory s' y = memory s y" if "\<not> below (regs s RSP) (?b (Suc n)) y" for y
    proof -
      have "\<not> below (regs s1 RSP) (?b n) y" "\<not> below (regs s RSP) ?sz y"
        using that low below_mono [of "regs s RSP" ?sz y "?b (Suc n)"] b stack_before_nonneg [of E ?ts sret n] by auto
      then show ?thesis using s'(6) s1(6) by simp
    qed
    have "exec_list (push_args E ra vs sret (Suc n)) s = Some s'"
      using True s1(1) s'(1) by (simp add: exec_list_append)
    moreover have "regs s' RSP = regs s RSP - of_int (?b (Suc n))" using s'(4) s1(4) b by simp
    moreover have "\<forall>a<Suc n. goes_to_stack E ?ts sret a \<longrightarrow>
        mem_read 8 (regs s' RSP + of_int (?b a)) (memory s') = x a"
      using s'(5) last by (simp add: less_Suc_eq)
    ultimately show ?thesis using s'(2,3) s1(3) keep by metis
  qed
qed


text \<open>At the call the stack pointer is a multiple of 16 below the frame.\<close>

lemma align_pad_16: "(frame + bytes + align_pad frame bytes) mod 16 = 0" "0 \<le> align_pad frame bytes"
    "align_pad frame bytes < 16"
proof -
  have "(frame + bytes) mod 16 < 16" "0 \<le> (frame + bytes) mod 16" by simp_all
  then show "0 \<le> align_pad frame bytes" "align_pad frame bytes < 16" by (auto simp: align_pad_def)
  have "frame + bytes + align_pad frame bytes = 16 * ((frame + bytes) div 16 + (if (frame + bytes) mod 16 = 0 then 0 else 1))"
    using minus_mod_eq_mult_div [of "frame + bytes" 16] by (simp add: align_pad_def)
  then show "(frame + bytes + align_pad frame bytes) mod 16 = 0" by simp
qed

definition ld_vals :: "ir_value list" where
  "ld_vals = [\<lparr>iv_op = IRV_TEMP 1, iv_type = Some type_ldouble\<rparr>, \<lparr>iv_op = IRV_CONST_INT 7, iv_type = Some type_int\<rparr>]"

definition ld_env :: cg_env where
  "ld_env = \<lparr>cg_nodes = tt_nodes type_table_init
       @ [\<lparr>tn_qual = QUAL_NONE, tn_body = Func type_int [\<lparr>fp_name = None, fp_type = type_ldouble\<rparr>,
            \<lparr>fp_name = None, fp_type = type_int\<rparr>] 2 0\<rparr>],
     cg_double_bits = (\<lambda>s. 0), cg_float_bits = (\<lambda>s. 0)\<rparr>"

definition ld_func :: ir_func where
  "ld_func = \<lparr>fn_name = ''f'', fn_type = 16, fn_instrs = [], fn_cap = 64, fn_next_temp = 3,
     fn_next_label = 1, fn_is_static = False, fn_sret_temp = 0\<rparr>"

definition ld_ra :: reg_alloc where
  "ld_ra = regalloc_run ld_func"



text \<open>Seven int arguments: the last one is pushed.\<close>

definition seven_vals :: "ir_value list" where
  "seven_vals = map (\<lambda>c. \<lparr>iv_op = IRV_CONST_INT c, iv_type = Some type_int\<rparr>) [1, 2, 3, 4, 5, 6, 7]"

definition push_machine :: machine where
  "push_machine = \<lparr>regs = (\<lambda>r. if r = RSP then - 32 else 0), memory = (\<lambda>a. 0), cmp_ops = (0, 0)\<rparr>"

definition push_state :: ir_state where
  "push_state = \<lparr>temps = (\<lambda>t. 0), imem = (\<lambda>a. 0)\<rparr>"

lemma seven_facts:
  "filter (goes_to_stack ld_env (map val_type seven_vals) 0) [0..<7] = [6]"
  "stack_before ld_env (map val_type seven_vals) 0 7 = 8" "stack_before ld_env (map val_type seven_vals) 0 6 = 0"
  "goes_to_stack ld_env (map val_type seven_vals) 0 6" "length seven_vals = 7"
  "pushable ld_env \<lparr>fr_ptr = 0, fr_temps = 3, fr_alloca = a\<rparr> (seven_vals ! 6)"
  "iv_op (seven_vals ! 6) = IRV_CONST_INT 7"
  by code_simp+


end
