(* ===== verification/CodegenData.thy ===== *)
theory CodegenData
  imports CodegenSem
begin

section \<open>Copied bytes and printed strings\<close>

text \<open>
  emit_copy_bytes copies exactly the bytes of an object, and the text emit_asciz prints is
  read back by an assembler as the bytes of the string constant.
\<close>

subsection \<open>Copying a run of bytes\<close>

text \<open>Memory after the first \<open>k\<close> bytes at \<open>r\<close> have been copied to \<open>d\<close>.\<close>

definition copied :: "u64 \<Rightarrow> u64 \<Rightarrow> nat \<Rightarrow> memory \<Rightarrow> memory" where
  "copied d r k m x = (if in_run d k x then m (r + (x - d)) else m x)"

definition runs_apart :: "u64 \<Rightarrow> u64 \<Rightarrow> nat \<Rightarrow> bool" where
  "runs_apart d r k \<longleftrightarrow> (\<forall>x. in_run d k x \<longrightarrow> \<not> in_run r k x)"

lemma in_run_nat: "n < 2 ^ 63 \<Longrightarrow> in_run b n x \<longleftrightarrow> (\<exists>k < n. x = b + of_nat k)"
proof
  assume "in_run b n x"
  then show "\<exists>k < n. x = b + of_nat k" unfolding in_run_def by (intro exI [of _ "unat (x - b)"]) simp
next
  assume "n < 2 ^ 63" "\<exists>k < n. x = b + of_nat k"
  then show "in_run b n x" by (auto simp: in_run_def unsigned_of_nat intro: le_less_trans [OF take_bit_nat_less_eq_self])
qed

lemma in_run_split:
  assumes "k + n < 2 ^ 63"
  shows "in_run d (k + n) x \<longleftrightarrow> in_run d k x \<or> in_run (d + of_nat k) n x"
proof -
  have b: "k < 2 ^ 63" "n < 2 ^ 63" using assms by auto
  have "(\<exists>j < k + n. x = d + of_nat j) \<longleftrightarrow> (\<exists>j < k. x = d + of_nat j) \<or> (\<exists>j < n. x = d + of_nat k + of_nat j)"
  proof
    assume "\<exists>j < k + n. x = d + of_nat j"
    then obtain j where j: "j < k + n" "x = d + of_nat j" by blast
    show "(\<exists>j < k. x = d + of_nat j) \<or> (\<exists>j < n. x = d + of_nat k + of_nat j)"
    proof (cases "j < k")
      case False
      then have "j - k < n" "x = d + of_nat k + of_nat (j - k)" using j by (simp_all add: of_nat_diff)
      then show ?thesis by blast
    qed (use j in blast)
  next
    assume "(\<exists>j < k. x = d + of_nat j) \<or> (\<exists>j < n. x = d + of_nat k + of_nat j)"
    then show "\<exists>j < k + n. x = d + of_nat j"
    proof
      assume "\<exists>j < n. x = d + of_nat k + of_nat j"
      then obtain j where "j < n" "x = d + of_nat k + of_nat j" by blast
      then show ?thesis by (intro exI [of _ "k + j"]) simp
    qed (use trans_less_add1 in blast)
  qed
  then show ?thesis using in_run_nat assms b by simp
qed

lemma in_run_mono: "in_run d k x \<Longrightarrow> k \<le> n \<Longrightarrow> in_run d n x"
  by (simp add: in_run_def)

lemma mem_write_read:
  "n \<le> 8 \<Longrightarrow> mem_write n a (mem_read n b m) m' x = (if in_run a n x then m (b + (x - a)) else m' x)"
proof (induction n arbitrary: a b m')
  case 0
  then show ?case by (simp add: in_run_def)
next
  case (Suc n)
  let ?w = "mem_read n (b + 1) m"
  have w: "i < 56" if "bit ?w i" for i
  proof -
    have "take_bit (8 * n) ?w = ?w" using Suc.prems by (intro mem_read_bits) simp
    then have "bit (take_bit (8 * n) ?w) i" using that by simp
    then show ?thesis using Suc.prems by (simp add: bit_take_bit_iff)
  qed
  have d: "drop_bit 8 (ucast (m b) OR push_bit 8 ?w) = ?w"
    by (rule bit_word_eqI) (auto simp: bit_simps dest: bit_imp_le_length w)
  have l: "ucast (ucast (m b) OR push_bit 8 ?w) = m b"
    by (rule bit_word_eqI) (auto simp: bit_simps)
  have "mem_write (Suc n) a (mem_read (Suc n) b m) m' x = (if x = a then m b else mem_write n (a + 1) ?w m' x)"
    by (simp only: mem_read.simps mem_write.simps d l fun_upd_apply)
  also have "\<dots> = (if x = a then m b else if in_run (a + 1) n x then m (b + 1 + (x - (a + 1))) else m' x)"
    using Suc by simp
  also have "\<dots> = (if in_run a (Suc n) x then m (b + (x - a)) else m' x)"
    using Suc.prems by (simp add: in_run_Suc)
  finally show ?case .
qed

lemma copied_more:
  assumes "runs_apart d r sz" "k + n \<le> sz" "sz < 2 ^ 62" "n \<le> 8"
  shows "mem_write n (d + of_nat k) (mem_read n (r + of_nat k) (copied d r k m)) (copied d r k m) = copied d r (k + n) m"
proof
  fix x
  have b: "k + n < 2 ^ 63" using assms(2,3) by simp
  have far: "\<not> in_run d k y" if "in_run (r + of_nat k) n y" for y
  proof
    assume "in_run d k y"
    then have "in_run d sz y" using assms(2) in_run_mono by force
    moreover have "in_run r sz y" using that in_run_split [OF b, of r y] in_run_mono [of r "k + n" y sz] assms(2) by blast
    ultimately show False using assms(1) unfolding runs_apart_def by blast
  qed
  have rd: "mem_read n (r + of_nat k) (copied d r k m) = mem_read n (r + of_nat k) m"
    using far assms(4) by (intro mem_read_cong) (auto simp: copied_def)
  show "mem_write n (d + of_nat k) (mem_read n (r + of_nat k) (copied d r k m)) (copied d r k m) x
      = copied d r (k + n) m x"
    unfolding rd mem_write_read [OF assms(4)]
    by (auto simp: copied_def in_run_split [OF b])
qed

lemma mem_write_low:
  "n \<le> 8 \<Longrightarrow> take_bit (8 * n) v = take_bit (8 * n) w \<Longrightarrow> mem_write n a v m = mem_write n a w m"
proof (induction n arbitrary: a v w)
  case (Suc n)
  have bits: "bit v i = bit w i" if "i < 8 * Suc n" for i
    using Suc.prems(2) that by (metis bit_take_bit_iff)
  have "take_bit (8 * n) (drop_bit 8 v) = take_bit (8 * n) (drop_bit 8 w)"
    by (rule bit_word_eqI) (auto simp: bit_simps bits)
  then have "mem_write n (a + 1) (drop_bit 8 v) m = mem_write n (a + 1) (drop_bit 8 w) m"
    using Suc.prems(1) by (intro Suc.IH) linarith
  moreover have "(ucast v :: byte) = ucast w"
    by (rule bit_word_eqI) (auto simp: bit_simps bits)
  ultimately show ?case by (simp only: mem_write.simps)
qed simp

lemma take_bit_load_part:
  assumes "take_bit (8 * wbytes w) v = v"
  shows "take_bit (8 * wbytes w) (load_reg_part w old v) = v"
proof -
  have "take_bit k ((old AND NOT (mask k)) OR v) = take_bit k v" for k
    by (rule bit_word_eqI) (auto simp: bit_simps)
  then show ?thesis using assms unfolding load_reg_part_def by presburger
qed

lemma copy_step_exec:
  assumes "dst \<noteq> RAX" "src \<noteq> RAX"
  shows "\<exists>s'. exec_list (copy_step w dst src off) s = Some s'
    \<and> memory s' = mem_write (wbytes w) (regs s dst + of_int off) (mem_read (wbytes w) (regs s src + of_int off) (memory s)) (memory s)
    \<and> (\<forall>q. q \<noteq> RAX \<longrightarrow> regs s' q = regs s q)"
proof -
  let ?v = "mem_read (wbytes w) (regs s src + of_int off) (memory s)"
  have n: "wbytes w \<le> 8" by (cases w) simp_all
  have v: "take_bit (8 * wbytes w) ?v = ?v" using n by (rule mem_read_bits)
  have "mem_write (wbytes w) a (load_reg_part w old ?v) m = mem_write (wbytes w) a ?v m" for a old m
    using n take_bit_load_part [OF v] v by (intro mem_write_low) simp_all
  then show ?thesis using assms by (simp add: copy_step_def del: mem_read.simps mem_write.simps wbytes.simps)
qed

text \<open>One step of the copy, over memory in which \<open>off\<close> bytes are copied already.\<close>

lemma copy_step_copied:
  assumes "dst \<noteq> RAX" "src \<noteq> RAX" "runs_apart (regs s dst) (regs s src) (nat sz)" "sz < 2 ^ 62"
    and "0 \<le> off" "off + int (wbytes w) \<le> sz" "memory s = copied (regs s dst) (regs s src) (nat off) m"
  shows "\<exists>s'. exec_list (copy_step w dst src off) s = Some s'
    \<and> memory s' = copied (regs s dst) (regs s src) (nat (off + int (wbytes w))) m
    \<and> (\<forall>q. q \<noteq> RAX \<longrightarrow> regs s' q = regs s q)"
proof -
  have n: "wbytes w \<le> 8" by (cases w) simp_all
  have k: "of_int off = (of_nat (nat off) :: u64)" using assms(5) by simp
  have sum: "nat (off + int (wbytes w)) = nat off + wbytes w" using assms(5) by (simp add: nat_add_distrib)
  have "nat off + wbytes w \<le> nat sz" using assms(5,6) by linarith
  moreover have "nat sz < 2 ^ 62" using assms(4) by (simp add: nat_less_iff)
  ultimately have "mem_write (wbytes w) (regs s dst + of_int off) (mem_read (wbytes w) (regs s src + of_int off) (memory s)) (memory s)
      = copied (regs s dst) (regs s src) (nat off + wbytes w) m"
    unfolding k assms(7) using copied_more [OF assms(3) _ _ n] by blast
  then show ?thesis using copy_step_exec [OF assms(1,2), of w off s] sum by metis
qed

lemma copy_quads_copied:
  assumes "dst \<noteq> RAX" "src \<noteq> RAX" "runs_apart (regs s dst) (regs s src) (nat sz)" "sz < 2 ^ 62"
    and "0 \<le> off" "off \<le> sz" "memory s = copied (regs s dst) (regs s src) (nat off) m"
    and "copy_quads dst src off sz = (code, off')"
  shows "\<exists>s'. exec_list code s = Some s' \<and> memory s' = copied (regs s dst) (regs s src) (nat off') m
    \<and> (\<forall>q. q \<noteq> RAX \<longrightarrow> regs s' q = regs s q) \<and> 0 \<le> off' \<and> off' \<le> sz \<and> sz < off' + 8"
  using assms
proof (induction dst src off sz arbitrary: s code off' rule: copy_quads.induct)
  case (1 dst src off sz)
  show ?case
  proof (cases "off + 8 \<le> sz")
    case False
    then show ?thesis using "1.prems" by (subst (asm) copy_quads.simps) auto
  next
    case True
    obtain rest where rest: "copy_quads dst src (off + 8) sz = (rest, off')" "code = copy_step W64 dst src off @ rest"
      using "1.prems"(8) True by (subst (asm) copy_quads.simps) (auto split: prod.splits)
    obtain s1 where s1: "exec_list (copy_step W64 dst src off) s = Some s1"
      "memory s1 = copied (regs s dst) (regs s src) (nat (off + 8)) m" "\<forall>q. q \<noteq> RAX \<longrightarrow> regs s1 q = regs s q"
      using copy_step_copied [OF "1.prems"(1-5), of W64 m] True "1.prems"(7) by auto
    have r: "regs s1 dst = regs s dst" "regs s1 src = regs s src" using s1(3) "1.prems"(1,2) by simp_all
    have "\<exists>s'. exec_list rest s1 = Some s' \<and> memory s' = copied (regs s1 dst) (regs s1 src) (nat off') m
      \<and> (\<forall>q. q \<noteq> RAX \<longrightarrow> regs s' q = regs s1 q) \<and> 0 \<le> off' \<and> off' \<le> sz \<and> sz < off' + 8"
      by (rule "1.IH" [OF True]) (use "1.prems" True s1(2) rest(1) r in simp_all)
    then show ?thesis using s1 rest(2) r by (auto simp: exec_list_append)
  qed
qed

text \<open>What is left of a copy after \<open>off\<close> bytes.\<close>

definition copy_rest :: "gpr \<Rightarrow> gpr \<Rightarrow> int \<Rightarrow> int \<Rightarrow> (width \<times> int) list \<Rightarrow> asm list" where
  "copy_rest dst src sz off steps = concat (map (\<lambda>(w, p). copy_step w dst src p) steps)"

fun steps_ok :: "int \<Rightarrow> int \<Rightarrow> (width \<times> int) list \<Rightarrow> bool" where
  "steps_ok sz off [] \<longleftrightarrow> off = sz"
| "steps_ok sz off ((w, p) # steps) \<longleftrightarrow> p = off \<and> off + int (wbytes w) \<le> sz \<and> steps_ok sz (off + int (wbytes w)) steps"

lemma copy_rest_copied:
  assumes "dst \<noteq> RAX" "src \<noteq> RAX" "runs_apart (regs s dst) (regs s src) (nat sz)" "sz < 2 ^ 62"
    and "0 \<le> off" "steps_ok sz off steps" "memory s = copied (regs s dst) (regs s src) (nat off) m"
  shows "\<exists>s'. exec_list (copy_rest dst src sz off steps) s = Some s'
    \<and> memory s' = copied (regs s dst) (regs s src) (nat sz) m \<and> (\<forall>q. q \<noteq> RAX \<longrightarrow> regs s' q = regs s q)"
  using assms
proof (induction steps arbitrary: s off)
  case Nil
  then show ?case by (simp add: copy_rest_def)
next
  case (Cons st steps)
  obtain w p where st: "st = (w, p)" by fastforce
  have w: "p = off" "off + int (wbytes w) \<le> sz" "steps_ok sz (off + int (wbytes w)) steps"
    using Cons.prems(6) st by simp_all
  obtain s1 where s1: "exec_list (copy_step w dst src off) s = Some s1"
    "memory s1 = copied (regs s dst) (regs s src) (nat (off + int (wbytes w))) m" "\<forall>q. q \<noteq> RAX \<longrightarrow> regs s1 q = regs s q"
    using copy_step_copied [OF Cons.prems(1-5) w(2) Cons.prems(7)] by blast
  have r: "regs s1 dst = regs s dst" "regs s1 src = regs s src" using s1(3) Cons.prems(1,2) by simp_all
  have "\<exists>s'. exec_list (copy_rest dst src sz (off + int (wbytes w)) steps) s1 = Some s'
      \<and> memory s' = copied (regs s1 dst) (regs s1 src) (nat sz) m \<and> (\<forall>q. q \<noteq> RAX \<longrightarrow> regs s' q = regs s1 q)"
    by (rule Cons.IH) (use Cons.prems s1(2) w r in simp_all)
  then show ?case using s1 st w(1) r by (auto simp: copy_rest_def exec_list_append)
qed

lemma emit_copy_bytes_rest:
  assumes "copy_quads dst src 0 sz = (code, off)" "off \<le> sz" "sz < off + 8"
  shows "\<exists>steps. emit_copy_bytes dst src sz = code @ copy_rest dst src sz off steps \<and> steps_ok sz off steps"
proof -
  define c4 where "c4 = (if off + 4 \<le> sz then [(W32, off)] else [])"
  define o4 where "o4 = (if off + 4 \<le> sz then off + 4 else off)"
  define c2 where "c2 = (if o4 + 2 \<le> sz then [(W16, o4)] else [])"
  define o2 where "o2 = (if o4 + 2 \<le> sz then o4 + 2 else o4)"
  define c1 where "c1 = (if o2 < sz then [(W8, o2)] else [])"
  have "emit_copy_bytes dst src sz = code @ copy_rest dst src sz off (c4 @ c2 @ c1)"
    by (simp add: emit_copy_bytes_def assms(1) Let_def copy_rest_def c4_def o4_def c2_def o2_def c1_def)
  moreover have "steps_ok sz off (c4 @ c2 @ c1)"
    using assms(2,3) by (auto simp: c4_def o4_def c2_def o2_def c1_def)
  ultimately show ?thesis by blast
qed

text \<open>C24: emit_copy_bytes copies an object. For two runs of \<open>sz\<close> bytes that do not overlap, at
  the addresses in the two registers, the code ends with the bytes of the source in the
  destination, every other byte of memory as it was, and no register changed but \<open>%rax\<close>.\<close>

theorem emit_copy_bytes_copies:
  assumes "dst \<noteq> RAX" "src \<noteq> RAX" "0 \<le> sz" "sz < 2 ^ 62" "runs_apart (regs s dst) (regs s src) (nat sz)"
  shows "\<exists>s'. exec_list (emit_copy_bytes dst src sz) s = Some s'
    \<and> (\<forall>k < nat sz. memory s' (regs s dst + of_nat k) = memory s (regs s src + of_nat k))
    \<and> (\<forall>x. \<not> in_run (regs s dst) (nat sz) x \<longrightarrow> memory s' x = memory s x)
    \<and> (\<forall>q. q \<noteq> RAX \<longrightarrow> regs s' q = regs s q)"
proof -
  obtain code off where q: "copy_quads dst src 0 sz = (code, off)" by fastforce
  have "memory s = copied (regs s dst) (regs s src) (nat 0) (memory s)"
    by (rule ext) (simp add: copied_def in_run_def)
  then obtain s1 where s1: "exec_list code s = Some s1"
    "memory s1 = copied (regs s dst) (regs s src) (nat off) (memory s)" "\<forall>q. q \<noteq> RAX \<longrightarrow> regs s1 q = regs s q"
    and off: "0 \<le> off" "off \<le> sz" "sz < off + 8"
    using copy_quads_copied [OF assms(1,2,5,4) _ assms(3) _ q, of "memory s"] by auto
  obtain steps where steps: "emit_copy_bytes dst src sz = code @ copy_rest dst src sz off steps" "steps_ok sz off steps"
    using emit_copy_bytes_rest [OF q off(2,3)] by blast
  have r: "regs s1 dst = regs s dst" "regs s1 src = regs s src" using s1(3) assms(1,2) by simp_all
  have "\<exists>s'. exec_list (copy_rest dst src sz off steps) s1 = Some s'
      \<and> memory s' = copied (regs s1 dst) (regs s1 src) (nat sz) (memory s) \<and> (\<forall>q. q \<noteq> RAX \<longrightarrow> regs s' q = regs s1 q)"
    by (rule copy_rest_copied) (use assms off(1) steps(2) s1(2) r in simp_all)
  then obtain s' where s': "exec_list (copy_rest dst src sz off steps) s1 = Some s'"
    "memory s' = copied (regs s dst) (regs s src) (nat sz) (memory s)" "\<forall>q. q \<noteq> RAX \<longrightarrow> regs s' q = regs s1 q"
    using r by auto
  have "nat sz < 2 ^ 63" using assms(3,4) by (simp add: nat_less_iff)
  then have "memory s' (regs s dst + of_nat k) = memory s (regs s src + of_nat k)" if "k < nat sz" for k
    using that in_run_nat [of "nat sz" "regs s dst"] by (auto simp: s'(2) copied_def)
  then show ?thesis using s1(1,3) s' steps(1) by (auto simp: exec_list_append copied_def)
qed

text \<open>Eleven bytes from address 32 to address 0.\<close>

lemma emit_copy_bytes_copies_witness:
  "\<exists>s'. exec_list (emit_copy_bytes RSP R11 11)
       \<lparr>regs = (\<lambda>r. if r = R11 then 32 else 0), memory = (\<lambda>a. ucast a), cmp_ops = (0, 0)\<rparr> = Some s'
     \<and> memory s' 10 = 42"
proof -
  let ?s = "\<lparr>regs = (\<lambda>r. if r = R11 then 32 else 0), memory = (\<lambda>a. ucast a), cmp_ops = (0, 0)\<rparr> :: machine"
  have "runs_apart 0 32 11"
    unfolding runs_apart_def
  proof (intro allI impI notI)
    fix x :: u64 assume "in_run 0 11 x" "in_run 32 11 x"
    then obtain j k where "j < 11" "x = of_nat j" "k < 11" "x = 32 + of_nat k" by (auto simp: in_run_nat)
    then have "of_int (int j) = (of_int (32 + int k) :: u64)" by simp
    then have "int j = 32 + int k" by (rule of_int_eq_u64) (use \<open>j < 11\<close> \<open>k < 11\<close> in auto)
    then show False using \<open>j < 11\<close> by simp
  qed
  then have "\<exists>s'. exec_list (emit_copy_bytes RSP R11 11) ?s = Some s'
      \<and> (\<forall>k < nat 11. memory s' (regs ?s RSP + of_nat k) = memory ?s (regs ?s R11 + of_nat k))
      \<and> (\<forall>x. \<not> in_run (regs ?s RSP) (nat 11) x \<longrightarrow> memory s' x = memory ?s x)
      \<and> (\<forall>q. q \<noteq> RAX \<longrightarrow> regs s' q = regs ?s q)"
    by (intro emit_copy_bytes_copies) simp_all
  then obtain s' where "exec_list (emit_copy_bytes RSP R11 11) ?s = Some s'"
    "\<forall>k < nat 11. memory s' (regs ?s RSP + of_nat k) = memory ?s (regs ?s R11 + of_nat k)" by blast
  then show ?thesis by (auto dest: spec [of _ 10])
qed

subsection \<open>String constants\<close>

text \<open>What an assembler reads up to the closing quote: an escaped letter, three octal digits, or
  the character itself.\<close>

definition oct_digit :: "char \<Rightarrow> bool" where
  "oct_digit c \<longleftrightarrow> 48 \<le> (of_char c :: nat) \<and> (of_char c :: nat) < 56"

definition escaped_letter :: "char \<Rightarrow> char" where
  "escaped_letter a =
     (if a = CHR ''n'' then CHR 0x0A else if a = CHR ''r'' then CHR 0x0D else if a = CHR ''t'' then CHR 0x09 else a)"

fun read_asciz :: "string \<Rightarrow> string" where
  "read_asciz [] = []"
| "read_asciz (c # cs) =
     (if c = CHR 0x22 then []
      else if c \<noteq> CHR 0x5C then c # read_asciz cs
      else case cs of
             [] \<Rightarrow> []
           | a # rest \<Rightarrow>
               if oct_digit a
               then (case rest of
                       b # d # rest' \<Rightarrow>
                         char_of (((of_char a - 48) * 8 + (of_char b - 48)) * 8 + (of_char d - 48 :: nat)) # read_asciz rest'
                     | _ \<Rightarrow> [])
               else escaped_letter a # read_asciz rest)"

lemma octal3_value: "n < 256 \<Longrightarrow> (n div 64 mod 8 * 8 + n div 8 mod 8) * 8 + n mod 8 = (n :: nat)"
proof -
  assume "n < 256"
  then have "n div 64 mod 8 = n div 8 div 8" by (simp add: div_mult2_eq [of n 8 8, simplified])
  then show ?thesis by simp
qed

lemma read_octal:
  assumes "a < 8" "b < 8" "d < 8"
  shows "read_asciz (CHR 0x5C # char_of (48 + a) # char_of (48 + b) # char_of (48 + d) # rest)
    = char_of ((a * 8 + b) * 8 + d :: nat) # read_asciz rest"
proof -
  have digit: "(of_char (char_of (48 + k) :: char) :: nat) = 48 + k" if "k < 8" for k
    using that by simp
  have oct: "oct_digit (char_of (48 + a))" unfolding oct_digit_def digit [OF assms(1)] using assms(1) by simp
  show ?thesis
    unfolding read_asciz.simps list.case digit [OF assms(1)] digit [OF assms(2)] digit [OF assms(3)]
    using oct by simp
qed

lemma read_octal3:
  assumes "n < 256"
  shows "read_asciz (CHR 0x5C # octal3 n @ rest) = char_of n # read_asciz rest"
proof -
  have "n div 64 mod 8 < 8" "n div 8 mod 8 < 8" "n mod 8 < 8" by simp_all
  from read_octal [OF this, of rest] show ?thesis
    unfolding octal3_value [OF assms] by (simp only: octal3_def append.simps)
qed

lemma read_asciz_char: "read_asciz (asciz_char c @ rest) = c # read_asciz rest"
proof -
  have "(of_char c :: nat) < 256" by simp
  then have oct: "read_asciz (CHR 0x5C # octal3 (of_char c) @ rest) = c # read_asciz rest"
    using read_octal3 by (metis char_of_char)
  show ?thesis
    using oct by (auto simp: asciz_char_def Let_def oct_digit_def escaped_letter_def)
qed

text \<open>C25: the text printed for a string constant, read as an assembler reads it, is the string
  up to its first NUL: every byte comes back, the first quote that is not escaped is the
  closing one, whatever follows it.\<close>

theorem emit_asciz_roundtrip:
  "hd (emit_asciz s) = CHR 0x22 \<and> read_asciz (tl (emit_asciz s) @ rest) = c_str s"
proof -
  have "read_asciz (concat (map asciz_char t) @ CHR 0x22 # rest) = t" for t
    by (induction t) (simp_all add: read_asciz_char)
  then show ?thesis by (simp add: emit_asciz_def)
qed

subsection \<open>Short members\<close>

text \<open>A member of three bytes is passed without its last byte: the code that loads an
  eightbyte of which three bytes remain reads two bytes, whatever the third is, and the code
  that stores one writes two.\<close>

theorem three_byte_eightbyte_truncated:
  "exec_list (emit_load_eightbyte_from_mem base off 3 dst) s
     = Some (set_reg dst (mem_read 2 (regs s base + of_int off) (memory s)) s)
   \<and> exec_list (emit_store_eightbyte_to_mem base off 3 src) s
     = Some (s\<lparr>memory := mem_write 2 (regs s base + of_int off) (regs s src) (memory s)\<rparr>)"
proof -
  have "take_bit 16 (mem_read 2 a m) = mem_read 2 a m" for a m
    using mem_read_bits [of 2 a m] by simp
  then show ?thesis
    by (simp add: emit_load_eightbyte_from_mem_def emit_store_eightbyte_to_mem_def zext_def
        del: mem_read.simps mem_write.simps)
qed

end
