(* ===== verification/Ast.thy ===== *)
theory Ast
  imports CType Token
begin

section \<open>Syntax trees (ast.h, parser.c 1-285)\<close>

text \<open>
  The tagged union of ast.h, one constructor per node kind, under a node with its position
  and its type (\<open>None\<close> for the NULL the parser leaves). A list linked by \<open>next\<close> is a list. A
  child is an option where the parser stores NULL; every other child is always set. A
  floating literal is its spelling, as in its token; names are strings, equal exactly when
  the interned pointers of the code are. The nodes of a tree are not shared, so an update
  in place of the code is an update of the subtree.
\<close>

datatype (plugins only: code size) storage_class = SC_NONE | SC_AUTO | SC_STATIC | SC_EXTERN | SC_REGISTER | SC_TYPEDEF
datatype (plugins only: code size) func_spec = FS_NONE | FS_INLINE

datatype (plugins only: code size) ast =
  Ast (ast_line: int) (ast_col: int) (ast_type: "tid option") (ast_body: ast_body)
and ast_body =
    TranslationUnit "ast list"
  | FuncDef string tid "ast list" ast storage_class func_spec
  | VarDecl string tid "ast option" storage_class
  | TypedefDecl string tid
  | StructDecl tid
  | EnumDecl tid
  | ParamDecl "string option" tid
  | Compound "ast list"
  | ExprStmt ast
  | DeclStmt "ast list"
  | If ast ast "ast option"
  | While ast ast
  | DoWhile ast ast
  | For "ast option" "ast option" "ast option" ast
  | Return "ast option"
  | Break
  | Continue
  | Goto string
  | Label string ast
  | Switch ast ast
  | Case ast ast
  | Default ast
  | IntLit u64 int bool
  | CharLit u64 int bool
  | FloatLit string char
  | StrLit string bool
  | Ident string
  | Unop TokenKind ast
  | Postfix TokenKind ast
  | Binop TokenKind ast ast
  | Assign TokenKind ast ast
  | Ternary ast ast ast
  | Call ast "ast list"
  | Subscript ast ast
  | Member ast string
  | MemberPtr ast string
  | Cast tid ast
  | SizeofExpr ast
  | SizeofType tid
  | Comma ast ast
  | InitList "ast list" int
  | Designator bool string "ast option" ast
  | CompoundLit tid ast

declare ast_body.case_cong [fundef_cong] ast.case_cong [fundef_cong]

text \<open>A fresh node: everything but the kind and the position is zero.\<close>

definition ast_alloc :: "ast_body \<Rightarrow> int \<Rightarrow> int \<Rightarrow> ast" where
  "ast_alloc kind line col = Ast line col None kind"

definition ast_list_append :: "ast list \<Rightarrow> ast \<Rightarrow> ast list" where
  "ast_list_append xs n = xs @ [n]"

definition ast_list_len :: "ast list \<Rightarrow> int" where
  "ast_list_len xs = fold (\<lambda>_ n. n + 1) xs 0"

subsection \<open>The tree printer\<close>

fun ast_kind_name :: "ast_body \<Rightarrow> string" where
  "ast_kind_name (TranslationUnit ds) = ''TRANSLATION_UNIT''"
| "ast_kind_name (FuncDef n t ps b sc fs) = ''FUNC_DEF''"
| "ast_kind_name (VarDecl n t i sc) = ''VAR_DECL''"
| "ast_kind_name (TypedefDecl n t) = ''TYPEDEF_DECL''"
| "ast_kind_name (StructDecl t) = ''STRUCT_DECL''"
| "ast_kind_name (EnumDecl t) = ''ENUM_DECL''"
| "ast_kind_name (ParamDecl n t) = ''PARAM_DECL''"
| "ast_kind_name (Compound ss) = ''COMPOUND''"
| "ast_kind_name (ExprStmt e) = ''EXPR_STMT''"
| "ast_kind_name (DeclStmt ds) = ''DECL_STMT''"
| "ast_kind_name (If c t e) = ''IF''"
| "ast_kind_name (While c b) = ''WHILE''"
| "ast_kind_name (DoWhile c b) = ''DO_WHILE''"
| "ast_kind_name (For i c n b) = ''FOR''"
| "ast_kind_name (Return e) = ''RETURN''"
| "ast_kind_name Break = ''BREAK''"
| "ast_kind_name Continue = ''CONTINUE''"
| "ast_kind_name (Goto l) = ''GOTO''"
| "ast_kind_name (Label l s) = ''LABEL''"
| "ast_kind_name (Switch e b) = ''SWITCH''"
| "ast_kind_name (Case e s) = ''CASE''"
| "ast_kind_name (Default s) = ''DEFAULT''"
| "ast_kind_name (IntLit v s w) = ''INT_LIT''"
| "ast_kind_name (FloatLit x s) = ''FLOAT_LIT''"
| "ast_kind_name (CharLit v s w) = ''CHAR_LIT''"
| "ast_kind_name (StrLit s w) = ''STR_LIT''"
| "ast_kind_name (Ident n) = ''IDENT''"
| "ast_kind_name (Unop op e) = ''UNOP''"
| "ast_kind_name (Postfix op e) = ''POSTFIX''"
| "ast_kind_name (Binop op l r) = ''BINOP''"
| "ast_kind_name (Assign op l r) = ''ASSIGN''"
| "ast_kind_name (Ternary c t e) = ''TERNARY''"
| "ast_kind_name (Call f as) = ''CALL''"
| "ast_kind_name (Subscript b i) = ''SUBSCRIPT''"
| "ast_kind_name (Member b f) = ''MEMBER''"
| "ast_kind_name (MemberPtr b f) = ''MEMBER_PTR''"
| "ast_kind_name (Cast t e) = ''CAST''"
| "ast_kind_name (SizeofExpr e) = ''SIZEOF_EXPR''"
| "ast_kind_name (SizeofType t) = ''SIZEOF_TYPE''"
| "ast_kind_name (Comma l r) = ''COMMA''"
| "ast_kind_name (InitList is n) = ''INIT_LIST''"
| "ast_kind_name (Designator f n i v) = ''DESIGNATOR''"
| "ast_kind_name (CompoundLit t i) = ''COMPOUND_LIT''"

definition print_indent :: "nat \<Rightarrow> string" where
  "print_indent indent = replicate (indent * 2) (CHR '' '')"

text \<open>The buffer \<open>char tbuf[128]\<close> filled by type_print, printed with \<open>%s\<close>. Its bytes before the
  call are the parameter \<open>garbage\<close> of the printer; \<open>fmt_g\<close> is \<open>%g\<close>.\<close>

record print_env =
  pe_nodes :: "type_node list"
  pe_garbage :: string
  pe_fmt_g :: "string \<Rightarrow> string"

definition type_text :: "print_env \<Rightarrow> tid \<Rightarrow> string" where
  "type_text E t = c_str (type_print (pe_nodes E) t (pe_garbage E))"

definition line_text :: "string \<Rightarrow> string" where
  "line_text s = s @ [CHR 0x0A]"

fun ast_print :: "print_env \<Rightarrow> ast \<Rightarrow> nat \<Rightarrow> string"
and print_rest :: "print_env \<Rightarrow> ast_body \<Rightarrow> nat \<Rightarrow> string"
and print_all :: "print_env \<Rightarrow> ast list \<Rightarrow> nat \<Rightarrow> string"
and print_opt :: "print_env \<Rightarrow> ast option \<Rightarrow> nat \<Rightarrow> string" where
  "ast_print E (Ast l c t b) i = print_indent i @ ast_kind_name b @ print_rest E b (i + 1)"
| "print_rest E (FuncDef n t ps b sc fs) i =
     line_text ('' '' @ n @ '' : '' @ type_text E t) @ print_all E ps i @ ast_print E b i"
| "print_rest E (VarDecl n t v sc) i = line_text ('' '' @ n @ '' : '' @ type_text E t) @ print_opt E v i"
| "print_rest E (TypedefDecl n t) i = line_text ('' '' @ n @ '' = '' @ type_text E t)"
| "print_rest E (ParamDecl n t) i =
     line_text ('' '' @ (case n of Some n \<Rightarrow> n | None \<Rightarrow> ''<abstract>'') @ '' : '' @ type_text E t)"
| "print_rest E (StructDecl t) i = line_text ('' '' @ type_text E t)"
| "print_rest E (EnumDecl t) i = line_text ('' '' @ type_text E t)"
| "print_rest E (IntLit v s w) i = line_text ('' '' @ show_nat (unat v))"
| "print_rest E (CharLit v s w) i =
     line_text ('' '' @ [CHR 0x27, char_of (unat v), CHR 0x27] @ '' ('' @ show_nat (unat v) @ '')'')"
| "print_rest E (FloatLit x s) i = line_text ('' '' @ pe_fmt_g E x)"
| "print_rest E (StrLit s w) i = line_text ('' '' @ [CHR 0x22] @ c_str s @ [CHR 0x22])"
| "print_rest E (Ident n) i = line_text ('' '' @ n)"
| "print_rest E (Binop op l r) i = line_text ('' '' @ token_kind_name op) @ ast_print E l i @ ast_print E r i"
| "print_rest E (Assign op l r) i = line_text ('' '' @ token_kind_name op) @ ast_print E l i @ ast_print E r i"
| "print_rest E (Unop op e) i = line_text ('' '' @ token_kind_name op) @ ast_print E e i"
| "print_rest E (Postfix op e) i = line_text ('' '' @ token_kind_name op) @ ast_print E e i"
| "print_rest E (Member b f) i = line_text ('' .'' @ f) @ ast_print E b i"
| "print_rest E (MemberPtr b f) i = line_text ('' .'' @ f) @ ast_print E b i"
| "print_rest E (Goto l) i = line_text ('' '' @ l)"
| "print_rest E (Label l s) i = line_text ('' '' @ l) @ ast_print E s i"
| "print_rest E (Cast t e) i = line_text ('' ('' @ type_text E t @ '')'') @ ast_print E e i"
| "print_rest E (SizeofType t) i = line_text ('' ('' @ type_text E t @ '')'')"
| "print_rest E (CompoundLit t e) i = line_text ('' ('' @ type_text E t @ '')'') @ ast_print E e i"
| "print_rest E (Designator f n ix v) i =
     (if f then line_text ('' .'' @ n) else line_text '' [idx]'' @ print_opt E ix i) @ ast_print E v i"
| "print_rest E (Compound ss) i = line_text [] @ print_all E ss i"
| "print_rest E (ExprStmt e) i = line_text [] @ ast_print E e i"
| "print_rest E (DeclStmt []) i = line_text []"
| "print_rest E (DeclStmt (d # ds)) i = line_text [] @ ast_print E d i"
| "print_rest E (If c t e) i = line_text [] @ ast_print E c i @ ast_print E t i @ print_opt E e i"
| "print_rest E (While c b) i = line_text [] @ ast_print E c i @ ast_print E b i"
| "print_rest E (DoWhile c b) i = line_text [] @ ast_print E c i @ ast_print E b i"
| "print_rest E (For a c n b) i =
     line_text [] @ print_opt E a i @ print_opt E c i @ print_opt E n i @ ast_print E b i"
| "print_rest E (Return e) i = line_text [] @ print_opt E e i"
| "print_rest E (Switch e b) i = line_text [] @ ast_print E e i @ ast_print E b i"
| "print_rest E (Case e s) i = line_text [] @ ast_print E e i @ ast_print E s i"
| "print_rest E (Default s) i = line_text [] @ ast_print E s i"
| "print_rest E (Ternary c t e) i = line_text [] @ ast_print E c i @ ast_print E t i @ ast_print E e i"
| "print_rest E (Call f as) i = line_text [] @ ast_print E f i @ print_all E as i"
| "print_rest E (Subscript b x) i = line_text [] @ ast_print E b i @ ast_print E x i"
| "print_rest E (SizeofExpr e) i = line_text [] @ ast_print E e i"
| "print_rest E (Comma l r) i = line_text [] @ ast_print E l i @ ast_print E r i"
| "print_rest E (InitList is n) i = line_text [] @ print_all E is i"
| "print_rest E (TranslationUnit ds) i = line_text [] @ print_all E ds i"
| "print_rest E Break i = line_text []"
| "print_rest E Continue i = line_text []"
| "print_all E [] i = []"
| "print_all E (x # xs) i = ast_print E x i @ print_all E xs i"
| "print_opt E None i = []"
| "print_opt E (Some x) i = ast_print E x i"

end
