(* ===== verification/Sema.thy ===== *)
theory Sema
  imports Ast Diagnostic
begin

section \<open>Semantic analysis (sema.c)\<close>

text \<open>
  check_expr, check_stmt and check_decl walk the tree, set the type of every node and
  insert casts; the code updates the nodes in place, the model returns the new tree. The
  state is the \<open>Sema\<close> of sema.h with the type store and the diagnostics it changes. The scope
  chain is a list, innermost scope first, so leaving a scope is dropping the head. Type
  pointers that the parser always sets are positions of the store.
\<close>

subsection \<open>Scopes\<close>

datatype SSym_kind = SSYM_VAR | SSYM_FUNC | SSYM_TYPEDEF | SSYM_ENUM_CONST

record ssymbol =
  sy_name :: string
  sy_kind :: SSym_kind
  sy_type :: "tid option"
  sy_offset :: int
  sy_is_global :: bool
  sy_enum_val :: int

text \<open>The buckets of one scope; a chain is a list, the newest symbol first.\<close>

type_synonym sscope = "ssymbol list list"

definition SSCOPE_BUCKETS :: nat where
  "SSCOPE_BUCKETS = 64"

definition sscope_new :: "sscope list \<Rightarrow> sscope list" where
  "sscope_new parent = replicate SSCOPE_BUCKETS [] # parent"

definition ssym_hash :: "string \<Rightarrow> nat" where
  "ssym_hash name = unat (foldl (\<lambda>h c. (h XOR of_char c) * 16777619) (2166136261 :: u32) name AND 63)"

record sema =
  sm_types :: type_table
  sm_scope :: "sscope list"
  sm_ret :: "tid option"
  sm_body :: "ast option"
  sm_errors :: int
  sm_loop :: int
  sm_switch :: int
  sm_diag :: diag

definition sscope_define ::
    "sema \<Rightarrow> string \<Rightarrow> SSym_kind \<Rightarrow> tid option \<Rightarrow> int \<Rightarrow> bool \<Rightarrow> int \<Rightarrow> sema" where
  "sscope_define s name kind ty off is_global enum_val =
     (let slot = ssym_hash name;
          sy = \<lparr>sy_name = name, sy_kind = kind, sy_type = ty, sy_offset = off,
                 sy_is_global = is_global, sy_enum_val = enum_val\<rparr>
      in case sm_scope s of
           sc # scs \<Rightarrow> s\<lparr>sm_scope := sc[slot := sy # sc ! slot] # scs\<rparr>
         | [] \<Rightarrow> s)"

fun scopes_find :: "nat \<Rightarrow> string \<Rightarrow> sscope list \<Rightarrow> ssymbol option" where
  "scopes_find slot name [] = None"
| "scopes_find slot name (sc # scs) =
     (case List.find (\<lambda>sy. sy_name sy = name) (sc ! slot) of
        Some sy \<Rightarrow> Some sy
      | None \<Rightarrow> scopes_find slot name scs)"

definition sscope_lookup :: "sema \<Rightarrow> string \<Rightarrow> ssymbol option" where
  "sscope_lookup s name = scopes_find (ssym_hash name) name (sm_scope s)"

subsection \<open>Members\<close>

definition agg_of :: "type_body \<Rightarrow> agg_info option" where
  "agg_of b = (case b of Struct a \<Rightarrow> Some a | Union a \<Rightarrow> Some a | _ \<Rightarrow> None)"

text \<open>The recursion into anonymous members has fuel: \<open>None\<close> is a recursion deeper than it,
  \<open>Some None\<close> is NULL. check_expr gives it fuel for every type of the store; what it does
  with a type that contains itself as an anonymous member, where the code does not return,
  is what it does with NULL.\<close>

fun find_member :: "nat \<Rightarrow> type_node list \<Rightarrow> string \<Rightarrow> struct_field list \<Rightarrow> struct_field option option"
and lookup_member :: "nat \<Rightarrow> type_node list \<Rightarrow> tid \<Rightarrow> string \<Rightarrow> struct_field option option" where
  "find_member fuel ns name [] = Some None"
| "find_member fuel ns name (f # fs) =
     (if sf_name f = Some name then Some (Some f)
      else if sf_name f = None \<and> agg_of (body ns (sf_type f)) \<noteq> None
        then (case lookup_member fuel ns (sf_type f) name of
                None \<Rightarrow> None
              | Some (Some found) \<Rightarrow> Some (Some found)
              | Some None \<Rightarrow> find_member fuel ns name fs)
      else find_member fuel ns name fs)"
| "lookup_member 0 ns t name = None"
| "lookup_member (Suc fuel) ns t name =
     (case agg_of (body ns t) of None \<Rightarrow> Some None | Some a \<Rightarrow> find_member fuel ns name (ag_fields a))"

definition member_of :: "type_node list \<Rightarrow> tid \<Rightarrow> string \<Rightarrow> struct_field option" where
  "member_of ns t name =
     (case lookup_member (length ns + 1) ns t name of Some r \<Rightarrow> r | None \<Rightarrow> None)"

subsection \<open>Conversions\<close>

definition make_cast :: "ast \<Rightarrow> tid \<Rightarrow> ast" where
  "make_cast e to =
     (if ast_type e = Some to then e else Ast (ast_line e) (ast_col e) (Some to) (Cast to e))"

definition integer_promote :: "type_node list \<Rightarrow> tid \<Rightarrow> tid" where
  "integer_promote ns t =
     (case body ns t of
        Scalar k \<Rightarrow>
          if k \<in> {TY_BOOL, TY_CHAR, TY_SCHAR, TY_UCHAR, TY_SHORT, TY_USHORT} then type_int else t
      | _ \<Rightarrow> t)"

definition conv_rank :: "type_node list \<Rightarrow> tid \<Rightarrow> int" where
  "conv_rank ns t =
     (case body ns t of
        Scalar TY_INT \<Rightarrow> 1
      | Scalar TY_UINT \<Rightarrow> 2
      | Scalar TY_LONG \<Rightarrow> 3
      | Scalar TY_ULONG \<Rightarrow> 4
      | Scalar TY_LLONG \<Rightarrow> 5
      | Scalar TY_ULLONG \<Rightarrow> 6
      | _ \<Rightarrow> 1)"

definition usual_arithmetic :: "type_node list \<Rightarrow> tid \<Rightarrow> tid \<Rightarrow> tid" where
  "usual_arithmetic ns a b =
     (let is = (\<lambda>k. body ns a = Scalar k \<or> body ns b = Scalar k)
      in if is TY_LDOUBLE then type_ldouble
         else if is TY_DOUBLE then type_double
         else if is TY_FLOAT then type_float
         else let a = integer_promote ns a; b = integer_promote ns b
              in if a = b then a
                 else if conv_rank ns a \<ge> conv_rank ns b then a else b)"

definition decay :: "(tid \<Rightarrow> u64) \<Rightarrow> type_table \<Rightarrow> tid \<Rightarrow> type_table \<times> tid" where
  "decay adr tt t =
     (case body (tt_nodes tt) t of
        Array e n \<Rightarrow> type_pointer adr tt e QUAL_NONE
      | ArrayUnsized e \<Rightarrow> type_pointer adr tt e QUAL_NONE
      | Func r ps n v \<Rightarrow> type_pointer adr tt t QUAL_NONE
      | _ \<Rightarrow> (tt, t))"

subsection \<open>Errors\<close>

definition sema_error :: "sema \<Rightarrow> int \<Rightarrow> int \<Rightarrow> string \<Rightarrow> sema" where
  "sema_error s line col msg =
     s\<lparr>sm_diag := diag_emit DIAG_ERROR line col msg (sm_diag s), sm_errors := sm_errors s + 1\<rparr>"

definition sema_expr_error :: "sema \<Rightarrow> int \<Rightarrow> int \<Rightarrow> string \<Rightarrow> sema" where
  "sema_expr_error s line col msg =
     s\<lparr>sm_diag := diag_emit DIAG_ERROR line col msg (sm_diag s), sm_errors := sm_errors s + 1\<rparr>"

definition is_const_lvalue :: "type_node list \<Rightarrow> ast \<Rightarrow> bool" where
  "is_const_lvalue ns e =
     (case ast_type e of None \<Rightarrow> False | Some t \<Rightarrow> tn_qual (node ns t) AND QUAL_CONST \<noteq> 0)"

subsection \<open>Expressions\<close>

text \<open>The type of a literal by its suffix flags.\<close>

definition int_lit_type :: "int \<Rightarrow> tid" where
  "int_lit_type suf =
     (if suf AND INT_SUFFIX_LL \<noteq> 0
        then (if suf AND INT_SUFFIX_U \<noteq> 0 then type_ullong else type_llong)
      else if suf AND INT_SUFFIX_L \<noteq> 0
        then (if suf AND INT_SUFFIX_U \<noteq> 0 then type_ulong else type_long)
      else if suf AND INT_SUFFIX_U \<noteq> 0 then type_uint
      else type_int)"

definition float_lit_type :: "char \<Rightarrow> tid" where
  "float_lit_type suf =
     (if suf = CHR ''f'' then type_float else if suf = CHR ''l'' then type_ldouble else type_double)"

text \<open>\<open>e->type ? decay(s->types, e->type) : type_int()\<close>.\<close>

definition decayed :: "(tid \<Rightarrow> u64) \<Rightarrow> sema \<Rightarrow> ast \<Rightarrow> sema \<times> tid" where
  "decayed adr s e =
     (case ast_type e of
        None \<Rightarrow> (s, type_int)
      | Some t \<Rightarrow> let (tt, t) = decay adr (sm_types s) t in (s\<lparr>sm_types := tt\<rparr>, t))"

definition nodes :: "sema \<Rightarrow> type_node list" where
  "nodes s = tt_nodes (sm_types s)"

definition type_or_int :: "ast \<Rightarrow> tid" where
  "type_or_int e = (case ast_type e of Some t \<Rightarrow> t | None \<Rightarrow> type_int)"

definition const_msg :: string where
  "const_msg = ''assignment to const-qualified object''"

definition check_ident :: "sema \<Rightarrow> int \<Rightarrow> int \<Rightarrow> string \<Rightarrow> ast" where
  "check_ident s l c name =
     (case sscope_lookup s name of
        None \<Rightarrow> Ast l c (Some type_int) (Ident name)
      | Some sy \<Rightarrow>
          if sy_kind sy = SSYM_ENUM_CONST
          then Ast l c (Some type_int) (IntLit (of_int (sy_enum_val sy)) 0 False)
          else Ast l c (Some (case sy_type sy of Some t \<Rightarrow> t | None \<Rightarrow> type_int)) (Ident name))"

definition unop_type :: "(tid \<Rightarrow> u64) \<Rightarrow> sema \<Rightarrow> int \<Rightarrow> int \<Rightarrow> TokenKind \<Rightarrow> ast \<Rightarrow> sema \<times> tid" where
  "unop_type adr s l c op e =
     (let (s, t) = decayed adr s e
      in if op = TOK_MINUS \<or> op = TOK_PLUS then (s, integer_promote (nodes s) t)
         else if op = TOK_BANG then (s, type_int)
         else if op = TOK_TILDE then (s, integer_promote (nodes s) t)
         else if op = TOK_AMP
           then (let (tt, t) = type_pointer adr (sm_types s) (type_or_int e) QUAL_NONE
                 in (s\<lparr>sm_types := tt\<rparr>, t))
         else if op = TOK_STAR
           then (s, case body (nodes s) t of Pointer p \<Rightarrow> p | _ \<Rightarrow> type_int)
         else if op = TOK_PLUSPLUS \<or> op = TOK_MINUSMINUS
           then (if is_const_lvalue (nodes s) e then sema_expr_error s l c const_msg else s, t)
         else (s, type_int))"

definition postfix_type :: "(tid \<Rightarrow> u64) \<Rightarrow> sema \<Rightarrow> int \<Rightarrow> int \<Rightarrow> ast \<Rightarrow> sema \<times> tid" where
  "postfix_type adr s l c e =
     (let (s, t) = decayed adr s e
      in (if is_const_lvalue (nodes s) e then sema_expr_error s l c const_msg else s, t))"

text \<open>The type of the node and the common type of its operands, if they are converted.\<close>

definition binop_type :: "type_node list \<Rightarrow> TokenKind \<Rightarrow> tid \<Rightarrow> tid \<Rightarrow> tid \<times> tid option" where
  "binop_type ns op lt rt =
     (let is_ptr = (\<lambda>t. type_is_pointer ns t); common = usual_arithmetic ns lt rt
      in if op \<in> {TOK_EQ, TOK_NEQ, TOK_LT, TOK_LE, TOK_GT, TOK_GE} then (type_int, Some common)
         else if op = TOK_AND \<or> op = TOK_OR then (type_int, None)
         else if op = TOK_PLUS
           then (if is_ptr lt then (lt, None) else if is_ptr rt then (rt, None)
                 else (common, Some common))
         else if op = TOK_MINUS
           then (if is_ptr lt \<and> is_ptr rt then (type_long, None)
                 else if is_ptr lt then (lt, None)
                 else (common, Some common))
         else (common, Some common))"

definition convert_operand :: "type_node list \<Rightarrow> tid option \<Rightarrow> tid \<Rightarrow> ast \<Rightarrow> ast" where
  "convert_operand ns common t e =
     (case common of
        None \<Rightarrow> e
      | Some ct \<Rightarrow>
          if ct \<noteq> t \<and> type_is_arithmetic ns t \<and> type_is_arithmetic ns ct then make_cast e ct else e)"

definition finish_binop ::
    "(tid \<Rightarrow> u64) \<Rightarrow> sema \<Rightarrow> int \<Rightarrow> int \<Rightarrow> TokenKind \<Rightarrow> ast \<Rightarrow> ast \<Rightarrow> sema \<times> ast" where
  "finish_binop adr s l c op a b =
     (let (s, lt) = decayed adr s a; (s, rt) = decayed adr s b;
          (t, common) = binop_type (nodes s) op lt rt
      in (s, Ast l c (Some t) (Binop op (convert_operand (nodes s) common lt a)
                                       (convert_operand (nodes s) common rt b))))"

definition finish_assign :: "sema \<Rightarrow> int \<Rightarrow> int \<Rightarrow> TokenKind \<Rightarrow> ast \<Rightarrow> ast \<Rightarrow> sema \<times> ast" where
  "finish_assign s l c op a b =
     (let lt = type_or_int a; rt = type_or_int b; ns = nodes s;
          s = (if is_const_lvalue ns a then sema_expr_error s l c const_msg else s);
          b = (if op \<noteq> TOK_ASSIGN \<and> type_is_arithmetic ns lt \<and> type_is_arithmetic ns rt
                 then make_cast b (usual_arithmetic ns lt rt)
               else if lt \<noteq> rt then make_cast b lt
               else b)
      in (s, Ast l c (Some lt) (Assign op a b)))"

definition ternary_type :: "(tid \<Rightarrow> u64) \<Rightarrow> sema \<Rightarrow> ast \<Rightarrow> ast \<Rightarrow> sema \<times> tid" where
  "ternary_type adr s a b =
     (let (s, tt2) = decayed adr s a; (s, et) = decayed adr s b
      in (s, if type_is_arithmetic (nodes s) tt2 \<and> type_is_arithmetic (nodes s) et
               then usual_arithmetic (nodes s) tt2 et
             else tt2))"

text \<open>An expression always has a type after check_expr, so \<open>decayed\<close> is also the type
  \<open>fn->type ? decay(...) : NULL\<close> of a callee and of a base here: for \<open>int\<close> and NULL the result
  is \<open>int\<close>.\<close>

definition call_type :: "(tid \<Rightarrow> u64) \<Rightarrow> sema \<Rightarrow> ast \<Rightarrow> sema \<times> tid" where
  "call_type adr s f =
     (let (s, ft) = decayed adr s f;
          ft = (case body (nodes s) ft of
                  Pointer p \<Rightarrow> (case body (nodes s) p of Func r ps n v \<Rightarrow> p | _ \<Rightarrow> ft)
                | _ \<Rightarrow> ft)
      in (s, case body (nodes s) ft of Func r ps n v \<Rightarrow> r | _ \<Rightarrow> type_int))"

definition subscript_type :: "(tid \<Rightarrow> u64) \<Rightarrow> sema \<Rightarrow> ast \<Rightarrow> sema \<times> tid" where
  "subscript_type adr s b =
     (let (s, bt) = decayed adr s b
      in (s, case body (nodes s) bt of Pointer p \<Rightarrow> p | _ \<Rightarrow> type_int))"

text \<open>\<open>old\<close> is the type the node has before, which stays when the member is not found.\<close>

definition member_type :: "type_node list \<Rightarrow> tid option \<Rightarrow> tid option \<Rightarrow> string \<Rightarrow> tid" where
  "member_type ns old t field =
     (case Option.bind t (\<lambda>t. member_of ns t field) of
        Some f \<Rightarrow> sf_type f
      | None \<Rightarrow> (case old of Some t \<Rightarrow> t | None \<Rightarrow> type_int))"

definition member_ptr_type ::
    "(tid \<Rightarrow> u64) \<Rightarrow> sema \<Rightarrow> tid option \<Rightarrow> ast \<Rightarrow> string \<Rightarrow> sema \<times> tid" where
  "member_ptr_type adr s old b field =
     (let (s, bt) = decayed adr s b
      in (s, member_type (nodes s) old
               (case body (nodes s) bt of Pointer p \<Rightarrow> Some p | _ \<Rightarrow> None) field))"

function check_expr :: "(tid \<Rightarrow> u64) \<Rightarrow> sema \<Rightarrow> ast \<Rightarrow> sema \<times> ast"
and check_exprs :: "(tid \<Rightarrow> u64) \<Rightarrow> sema \<Rightarrow> ast list \<Rightarrow> sema \<times> ast list"
and check_items :: "(tid \<Rightarrow> u64) \<Rightarrow> sema \<Rightarrow> ast list \<Rightarrow> sema \<times> ast list" where
  "check_expr adr s (Ast l c old b) =
     (case b of
        IntLit v suf w \<Rightarrow> (s, Ast l c (Some (int_lit_type suf)) b)
      | CharLit v suf w \<Rightarrow> (s, Ast l c (Some (int_lit_type suf)) b)
      | FloatLit x suf \<Rightarrow> (s, Ast l c (Some (float_lit_type suf)) b)
      | StrLit x w \<Rightarrow>
          (let (tt, t) = type_pointer adr (sm_types s) type_char QUAL_CONST
           in (s\<lparr>sm_types := tt\<rparr>, Ast l c (Some t) b))
      | Ident name \<Rightarrow> (s, check_ident s l c name)
      | Unop op e \<Rightarrow>
          (let (s, e) = check_expr adr s e; (s, t) = unop_type adr s l c op e
           in (s, Ast l c (Some t) (Unop op e)))
      | Postfix op e \<Rightarrow>
          (let (s, e) = check_expr adr s e; (s, t) = postfix_type adr s l c e
           in (s, Ast l c (Some t) (Postfix op e)))
      | Binop op x y \<Rightarrow>
          (let (s, x) = check_expr adr s x; (s, y) = check_expr adr s y
           in finish_binop adr s l c op x y)
      | Assign op x y \<Rightarrow>
          (let (s, x) = check_expr adr s x; (s, y) = check_expr adr s y
           in finish_assign s l c op x y)
      | Ternary x y z \<Rightarrow>
          (let (s, x) = check_expr adr s x; (s, y) = check_expr adr s y; (s, z) = check_expr adr s z;
               (s, t) = ternary_type adr s y z
           in (s, Ast l c (Some t) (Ternary x y z)))
      | Call f as \<Rightarrow>
          (let (s, f) = check_expr adr s f; (s, t) = call_type adr s f; (s, as) = check_exprs adr s as
           in (s, Ast l c (Some t) (Call f as)))
      | Subscript x y \<Rightarrow>
          (let (s, x) = check_expr adr s x; (s, y) = check_expr adr s y; (s, t) = subscript_type adr s x
           in (s, Ast l c (Some t) (Subscript x y)))
      | Member e field \<Rightarrow>
          (let (s, e) = check_expr adr s e
           in (s, Ast l c (Some (member_type (nodes s) old (ast_type e) field)) (Member e field)))
      | MemberPtr e field \<Rightarrow>
          (let (s, e) = check_expr adr s e; (s, t) = member_ptr_type adr s old e field
           in (s, Ast l c (Some t) (MemberPtr e field)))
      | Cast t e \<Rightarrow>
          (let (s, e) = check_expr adr s e in (s, Ast l c (Some t) (Cast t e)))
      | SizeofExpr e \<Rightarrow>
          (let (s, e) = check_expr adr s e in (s, Ast l c (Some type_ulong) (SizeofExpr e)))
      | SizeofType t \<Rightarrow> (s, Ast l c (Some type_ulong) b)
      | Comma x y \<Rightarrow>
          (let (s, x) = check_expr adr s x; (s, y) = check_expr adr s y
           in (s, Ast l c (ast_type y) (Comma x y)))
      | InitList is n \<Rightarrow>
          (let (s, is) = check_items adr s is in (s, Ast l c (Some type_void) (InitList is n)))
      | Designator f n ix v \<Rightarrow>
          (let (s, v) = check_expr adr s v in (s, Ast l c (ast_type v) (Designator f n ix v)))
      | CompoundLit t e \<Rightarrow>
          (let (s, e) = check_expr adr s e in (s, Ast l c (Some t) (CompoundLit t e)))
      | _ \<Rightarrow> (s, Ast l c (Some type_int) b))"
| "check_exprs adr s [] = (s, [])"
| "check_exprs adr s (x # xs) =
     (let (s, x) = check_expr adr s x; (s, xs) = check_exprs adr s xs in (s, x # xs))"
| "check_items adr s [] = (s, [])"
| "check_items adr s (x # xs) =
     (let (s, x) =
            (case x of
               Ast l c old b \<Rightarrow>
                 (case b of
                    Designator f n ix v \<Rightarrow>
                      (let (s, v) = check_expr adr s v in (s, Ast l c old (Designator f n ix v)))
                  | _ \<Rightarrow> check_expr adr s (Ast l c old b)));
          (s, xs) = check_items adr s xs
      in (s, x # xs))"
  by pat_completeness auto
termination
  by (relation "measure (\<lambda>x. case x of Inl (_, _, e) \<Rightarrow> size e | Inr (Inl (_, _, es)) \<Rightarrow> size_list size es
        | Inr (Inr (_, _, es)) \<Rightarrow> size_list size es)") auto

subsection \<open>Statements and declarations\<close>

fun label_exists :: "ast list \<Rightarrow> string \<Rightarrow> bool"
and label_in :: "ast \<Rightarrow> string \<Rightarrow> bool" where
  "label_exists [] l = False"
| "label_exists (n # ns) l = (label_in n l \<or> label_exists ns l)"
| "label_in (Ast li c t b) l =
     (case b of
        Label l' st \<Rightarrow> l' = l \<or> label_in st l
      | Compound ss \<Rightarrow> label_exists ss l
      | If e th el \<Rightarrow> label_in th l \<or> (case el of Some el \<Rightarrow> label_in el l | None \<Rightarrow> False)
      | While e bd \<Rightarrow> label_in bd l
      | DoWhile e bd \<Rightarrow> label_in bd l
      | For i e n bd \<Rightarrow> label_in bd l
      | Switch e bd \<Rightarrow> label_in bd l
      | Case e st \<Rightarrow> label_in st l
      | Default st \<Rightarrow> label_in st l
      | _ \<Rightarrow> False)"

definition enter_loop :: "sema \<Rightarrow> sema" where
  "enter_loop s = s\<lparr>sm_loop := sm_loop s + 1\<rparr>"

definition leave_loop :: "sema \<Rightarrow> sema" where
  "leave_loop s = s\<lparr>sm_loop := sm_loop s - 1\<rparr>"

definition check_return :: "sema \<Rightarrow> ast \<Rightarrow> ast" where
  "check_return s e =
     (case (sm_ret s, ast_type e) of
        (Some r, Some t) \<Rightarrow>
          if t \<noteq> r \<and> type_is_arithmetic (nodes s) t \<and> type_is_arithmetic (nodes s) r
          then make_cast e r else e
      | _ \<Rightarrow> e)"

definition define_enum :: "bool \<Rightarrow> enum_const \<Rightarrow> sema \<Rightarrow> sema" where
  "define_enum is_global ec s =
     sscope_define s (ec_name ec) SSYM_ENUM_CONST (Some type_int) 0 is_global (ec_value ec)"

definition define_param :: "ast \<Rightarrow> sema \<Rightarrow> sema" where
  "define_param p s =
     (case ast_body p of
        ParamDecl (Some name) t \<Rightarrow> sscope_define s name SSYM_VAR (Some t) 0 False 0
      | _ \<Rightarrow> s)"

text \<open>The function context that a function body is checked in: its return type, its body for
  the labels and a scope with its parameters.\<close>

definition enter_func :: "sema \<Rightarrow> tid \<Rightarrow> ast \<Rightarrow> ast list \<Rightarrow> sema" where
  "enter_func s ft bd ps =
     fold define_param ps
       (s\<lparr>sm_ret := (case body (nodes s) ft of Func r qs n v \<Rightarrow> Some r | _ \<Rightarrow> sm_ret s),
          sm_body := Some bd, sm_scope := sscope_new (sm_scope s)\<rparr>)"

definition leave_func :: "sema \<Rightarrow> sema \<Rightarrow> sema" where
  "leave_func saved s =
     s\<lparr>sm_scope := sm_scope saved, sm_ret := sm_ret saved, sm_body := sm_body saved\<rparr>"

definition check_opt :: "(tid \<Rightarrow> u64) \<Rightarrow> sema \<Rightarrow> ast option \<Rightarrow> sema \<times> ast option" where
  "check_opt adr s e =
     (case e of None \<Rightarrow> (s, None) | Some e \<Rightarrow> let (s, e) = check_expr adr s e in (s, Some e))"

function check_stmt :: "(tid \<Rightarrow> u64) \<Rightarrow> sema \<Rightarrow> ast \<Rightarrow> sema \<times> ast"
and check_stmts :: "(tid \<Rightarrow> u64) \<Rightarrow> sema \<Rightarrow> ast list \<Rightarrow> sema \<times> ast list"
and check_decl :: "(tid \<Rightarrow> u64) \<Rightarrow> sema \<Rightarrow> ast list \<Rightarrow> bool \<Rightarrow> sema \<times> ast list" where
  "check_stmt adr s (Ast l c t b) =
     (case b of
        Compound ss \<Rightarrow>
          (let (s', ss) = check_stmts adr (s\<lparr>sm_scope := sscope_new (sm_scope s)\<rparr>) ss
           in (s'\<lparr>sm_scope := sm_scope s\<rparr>, Ast l c t (Compound ss)))
      | ExprStmt e \<Rightarrow>
          (let (s, e) = check_expr adr s e in (s, Ast l c t (ExprStmt e)))
      | DeclStmt ds \<Rightarrow>
          (let (s, ds) = check_decl adr s ds False in (s, Ast l c t (DeclStmt ds)))
      | If e th el \<Rightarrow>
          (let (s, e) = check_expr adr s e; (s, th) = check_stmt adr s th;
               (s, el) = (case el of None \<Rightarrow> (s, None)
                          | Some el \<Rightarrow> let (s, el) = check_stmt adr s el in (s, Some el))
           in (s, Ast l c t (If e th el)))
      | While e bd \<Rightarrow>
          (let (s, e) = check_expr adr s e; (s, bd) = check_stmt adr (enter_loop s) bd
           in (leave_loop s, Ast l c t (While e bd)))
      | DoWhile e bd \<Rightarrow>
          (let (s, bd) = check_stmt adr (enter_loop s) bd; (s, e) = check_expr adr (leave_loop s) e
           in (s, Ast l c t (DoWhile e bd)))
      | For i e n bd \<Rightarrow>
          (let (s, i) = (case i of None \<Rightarrow> (s, None)
                         | Some i \<Rightarrow> let (s, i) = check_stmt adr s i in (s, Some i));
               (s, e) = check_opt adr s e; (s, n) = check_opt adr s n;
               (s, bd) = check_stmt adr (enter_loop s) bd
           in (leave_loop s, Ast l c t (For i e n bd)))
      | Return e \<Rightarrow>
          (case e of
             None \<Rightarrow> (s, Ast l c t (Return None))
           | Some e \<Rightarrow>
               let (s, e) = check_expr adr s e in (s, Ast l c t (Return (Some (check_return s e)))))
      | Switch e bd \<Rightarrow>
          (let (s, e) = check_expr adr s e;
               (s, bd) = check_stmt adr (s\<lparr>sm_switch := sm_switch s + 1\<rparr>) bd
           in (s\<lparr>sm_switch := sm_switch s - 1\<rparr>, Ast l c t (Switch e bd)))
      | Case e st \<Rightarrow>
          (let s = (if sm_switch s = 0 then sema_error s l c (CHR 0x27 # ''case'' @ CHR 0x27 # '' outside switch'')
                    else s);
               (s, e) = check_expr adr s e; (s, st) = check_stmt adr s st
           in (s, Ast l c t (Case e st)))
      | Default st \<Rightarrow>
          (let s = (if sm_switch s = 0 then sema_error s l c (CHR 0x27 # ''default'' @ CHR 0x27 # '' outside switch'')
                    else s);
               (s, st) = check_stmt adr s st
           in (s, Ast l c t (Default st)))
      | Label lb st \<Rightarrow>
          (let (s, st) = check_stmt adr s st in (s, Ast l c t (Label lb st)))
      | Break \<Rightarrow>
          (if sm_loop s = 0 \<and> sm_switch s = 0
             then sema_error s l c (CHR 0x27 # ''break'' @ CHR 0x27 # '' outside loop or switch'') else s,
           Ast l c t b)
      | Continue \<Rightarrow>
          (if sm_loop s = 0 then sema_error s l c (CHR 0x27 # ''continue'' @ CHR 0x27 # '' outside loop'') else s,
           Ast l c t b)
      | Goto lb \<Rightarrow>
          (if \<not> (case sm_body s of None \<Rightarrow> False | Some bd \<Rightarrow> label_in bd lb)
             then sema_error s l c ''goto target label not found'' else s,
           Ast l c t b)
      | _ \<Rightarrow> (s, Ast l c t b))"
| "check_stmts adr s [] = (s, [])"
| "check_stmts adr s (x # xs) =
     (let (s, x) = check_stmt adr s x; (s, xs) = check_stmts adr s xs in (s, x # xs))"
| "check_decl adr s [] g = (s, [])"
| "check_decl adr s (Ast l c t b # ds) g =
     (let (s, b) =
            (case b of
               VarDecl name ty init sc \<Rightarrow>
                 (let (s, init) = check_opt adr s init
                  in (sscope_define s name SSYM_VAR (Some ty) 0 g 0, VarDecl name ty init sc))
             | TypedefDecl name ty \<Rightarrow> (sscope_define s name SSYM_TYPEDEF (Some ty) 0 False 0, b)
             | FuncDef name ft ps bd sc fs \<Rightarrow>
                 (let s0 = sscope_define s name SSYM_FUNC (Some ft) 0 True 0;
                      (s, bd) = check_stmt adr (enter_func s0 ft bd ps) bd
                  in (leave_func s0 s, FuncDef name ft ps bd sc fs))
             | EnumDecl ty \<Rightarrow>
                 ((case body (nodes s) ty of
                     Enum e \<Rightarrow> fold (define_enum g) (en_consts e) s
                   | _ \<Rightarrow> s), b)
             | _ \<Rightarrow> (s, b));
          (s, ds) = check_decl adr s ds g
      in (s, Ast l c t b # ds))"
  by pat_completeness auto
termination
  by (relation "measure (\<lambda>x. case x of Inl (_, _, e) \<Rightarrow> size e | Inr (Inl (_, _, es)) \<Rightarrow> size_list size es
        | Inr (Inr (_, _, es, _)) \<Rightarrow> size_list size es)") auto

subsection \<open>Entry points\<close>

definition sema_init :: "type_table \<Rightarrow> diag \<Rightarrow> sema" where
  "sema_init types d =
     \<lparr>sm_types = types, sm_scope = sscope_new [], sm_ret = None, sm_body = None,
      sm_errors = 0, sm_loop = 0, sm_switch = 0, sm_diag = d\<rparr>"

text \<open>check_decl follows the \<open>next\<close> links itself, and sema_check calls it for every
  declaration of the same list: the call for declaration \<open>i\<close> checks declarations \<open>i, i+1, ...\<close>.\<close>

definition check_from :: "(tid \<Rightarrow> u64) \<Rightarrow> nat \<Rightarrow> sema \<times> ast list \<Rightarrow> sema \<times> ast list" where
  "check_from adr i r =
     (let (s, ds) = r; (s, ds') = check_decl adr s (drop i ds) True in (s, take i ds @ ds'))"

definition sema_check :: "(tid \<Rightarrow> u64) \<Rightarrow> sema \<Rightarrow> ast \<Rightarrow> sema \<times> ast \<times> int" where
  "sema_check adr s root =
     (case root of
        Ast l c t (TranslationUnit ds) \<Rightarrow>
          let (s, ds) = fold (check_from adr) [0..<length ds] (s, ds)
          in (s, Ast l c t (TranslationUnit ds), sm_errors s)
      | _ \<Rightarrow> (s, root, 0))"

end
