(* ===== verification/SemaProps.thy ===== *)
theory SemaProps
  imports Sema CTypeProps
begin

section \<open>Correctness of the expression checker\<close>

text \<open>
  check_expr gives every expression it visits a type of the store, changes the context of
  the checker in nothing but the store and the diagnostics, and reports exactly the
  modifications of const objects.
\<close>

subsection \<open>Stores that only grow\<close>

definition fields_ok :: "type_node list \<Rightarrow> bool" where
  "fields_ok ns \<longleftrightarrow>
     (\<forall>t < length ns. \<forall>a. agg_of (body ns t) = Some a \<longrightarrow> list_all (\<lambda>f. sf_type f < length ns) (ag_fields a))"

definition store_ok :: "(tid \<Rightarrow> u64) \<Rightarrow> type_table \<Rightarrow> bool" where
  "store_ok adr tt \<longleftrightarrow> table_inv adr tt \<and> nodes_ok (tt_nodes tt) \<and> fields_ok (tt_nodes tt)
     \<and> take 16 (tt_nodes tt) = scalar_nodes"

definition grows :: "type_node list \<Rightarrow> type_node list \<Rightarrow> bool" where
  "grows ns ns' \<longleftrightarrow> (\<exists>more. ns' = ns @ more)"

lemma grows_refl [simp, intro]: "grows ns ns"
  by (simp add: grows_def)

lemma grows_trans: "grows a b \<Longrightarrow> grows b c \<Longrightarrow> grows a c"
  by (auto simp: grows_def)

lemma grows_length: "grows ns ns' \<Longrightarrow> length ns \<le> length ns'"
  by (auto simp: grows_def)

lemma grows_node: "grows ns ns' \<Longrightarrow> t < length ns \<Longrightarrow> node ns' t = node ns t"
  by (auto simp: grows_def nth_append)

lemmas scalar_type_defs = type_void_def type_bool_def type_char_def type_schar_def type_uchar_def
  type_short_def type_ushort_def type_int_def type_uint_def type_long_def type_ulong_def
  type_llong_def type_ullong_def type_float_def type_double_def type_ldouble_def

lemma store_length:
  assumes "store_ok adr tt"
  shows "16 \<le> length (tt_nodes tt)"
proof -
  have "length (take 16 (tt_nodes tt)) = 16"
    using assms unfolding store_ok_def by (simp add: scalar_nodes_def scalar_kinds_def)
  then show ?thesis by simp
qed

lemma scalar_less:
  assumes "store_ok adr tt"
  shows "type_void < length (tt_nodes tt)" "type_char < length (tt_nodes tt)" "type_int < length (tt_nodes tt)"
    "type_uint < length (tt_nodes tt)" "type_long < length (tt_nodes tt)" "type_ulong < length (tt_nodes tt)"
    "type_llong < length (tt_nodes tt)" "type_ullong < length (tt_nodes tt)" "type_float < length (tt_nodes tt)"
    "type_double < length (tt_nodes tt)" "type_ldouble < length (tt_nodes tt)"
  using store_length [OF assms] by (auto simp: scalar_type_defs)

lemma scalar_node:
  assumes "store_ok adr tt" "t < 16"
  shows "node (tt_nodes tt) t = scalar_nodes ! t"
  using assms by (metis nth_take store_ok_def)

lemma derive_store_ok:
  assumes "store_ok adr tt" "body_ok (tn_body (key_node k)) (length (tt_nodes tt))" "derive adr tt k = (tt', t)"
  shows "store_ok adr tt' \<and> grows (tt_nodes tt) (tt_nodes tt') \<and> t < length (tt_nodes tt')
    \<and> node_key (node (tt_nodes tt') t) = Some k"
proof -
  have i: "table_inv adr tt" using assms(1) by (simp add: store_ok_def)
  show ?thesis
    using i assms(3)
  proof (cases rule: derive_cases)
    case found
    then show ?thesis using assms(1) table_inv_interned(1) [OF i] by simp
  next
    case fresh
    have n: "tt_nodes tt' = tt_nodes tt @ [key_node k]" using fresh(1) by simp
    have "nodes_ok (tt_nodes tt')"
      unfolding n using assms(1,2) by (intro nodes_ok_append) (simp_all add: store_ok_def)
    moreover have "fields_ok (tt_nodes tt')"
      using assms(1) unfolding n store_ok_def fields_ok_def
      by (cases k) (auto simp: key_node_def nth_append agg_of_def list_all_iff less_Suc_eq)
    moreover have "take 16 (tt_nodes tt') = scalar_nodes"
      using assms(1) store_length [OF assms(1)] unfolding n by (simp add: store_ok_def)
    ultimately show ?thesis
      using derive_inv [OF i assms(3)] fresh(2) by (simp add: store_ok_def n grows_def)
  qed
qed

lemma pointer_spec:
  assumes "store_ok adr tt" "p < length (tt_nodes tt)" "type_pointer adr tt p q = (tt', t)"
  shows "store_ok adr tt'" "grows (tt_nodes tt) (tt_nodes tt')" "t < length (tt_nodes tt')"
    "body (tt_nodes tt') t = Pointer p"
  using derive_store_ok [OF assms(1), of "KPointer p q" tt' t] assms(2,3)
  by (auto simp: derive_def key_node_def body_ok_def node_key_def split: type_body.splits)

lemma node_refs:
  assumes "store_ok adr tt" "t < length (tt_nodes tt)"
  shows "body (tt_nodes tt) t = Pointer p \<Longrightarrow> p < length (tt_nodes tt)"
    "body (tt_nodes tt) t = Array e n \<Longrightarrow> e < length (tt_nodes tt)"
    "body (tt_nodes tt) t = ArrayUnsized e \<Longrightarrow> e < length (tt_nodes tt)"
    "body (tt_nodes tt) t = Func r ps k v \<Longrightarrow> r < length (tt_nodes tt)"
  using assms by (auto simp: store_ok_def nodes_ok_def node_ok_def dest!: spec [of _ t])

lemma decay_spec:
  assumes "store_ok adr tt" "t < length (tt_nodes tt)" "decay adr tt t = (tt', u)"
  shows "store_ok adr tt' \<and> grows (tt_nodes tt) (tt_nodes tt') \<and> u < length (tt_nodes tt')"
proof -
  have ptr: ?thesis if "type_pointer adr tt p QUAL_NONE = (tt', u)" "p < length (tt_nodes tt)" for p
    using pointer_spec [OF assms(1) that(2,1)] by simp
  have same: ?thesis if "(tt', u) = (tt, t)" using that assms(1,2) by simp
  note refs = node_refs [OF assms(1,2)]
  show ?thesis
    using assms(3) ptr [OF _ refs(2)] ptr [OF _ refs(3)] ptr [OF _ assms(2)] same
    by (cases "body (tt_nodes tt) t") (simp_all add: decay_def)
qed

subsection \<open>Steps of the checker\<close>

definition scopes_ok :: "nat \<Rightarrow> sscope list \<Rightarrow> bool" where
  "scopes_ok n scs \<longleftrightarrow>
     list_all (\<lambda>sc. length sc = SSCOPE_BUCKETS
       \<and> list_all (list_all (\<lambda>sy. pred_option (\<lambda>t. t < n) (sy_type sy))) sc) scs"

definition sema_ok :: "(tid \<Rightarrow> u64) \<Rightarrow> sema \<Rightarrow> bool" where
  "sema_ok adr s \<longleftrightarrow> store_ok adr (sm_types s) \<and> scopes_ok (length (nodes s)) (sm_scope s)
     \<and> pred_option (\<lambda>r. r < length (nodes s)) (sm_ret s)"

text \<open>\<open>s'\<close> is \<open>s\<close> with more types and \<open>k\<close> more errors reported.\<close>

definition advances :: "(tid \<Rightarrow> u64) \<Rightarrow> sema \<Rightarrow> int \<Rightarrow> sema \<Rightarrow> bool" where
  "advances adr s k s' \<longleftrightarrow> sema_ok adr s' \<and> grows (nodes s) (nodes s')
     \<and> sm_scope s' = sm_scope s \<and> sm_ret s' = sm_ret s \<and> sm_body s' = sm_body s
     \<and> sm_loop s' = sm_loop s \<and> sm_switch s' = sm_switch s
     \<and> sm_errors s' = sm_errors s + k \<and> int (dg_errors (sm_diag s')) = int (dg_errors (sm_diag s)) + k"

lemma scopes_ok_mono: "scopes_ok n scs \<Longrightarrow> n \<le> m \<Longrightarrow> scopes_ok m scs"
  unfolding scopes_ok_def list_all_iff by (fastforce elim: option.pred_mono_strong)

lemma advances_refl: "sema_ok adr s \<Longrightarrow> advances adr s 0 s"
  by (simp add: advances_def)

lemma advances_trans:
  "advances adr s j s1 \<Longrightarrow> advances adr s1 k s2 \<Longrightarrow> advances adr s (j + k) s2"
  unfolding advances_def by (auto intro: grows_trans)

lemma advances_ok: "advances adr s k s' \<Longrightarrow> sema_ok adr s'"
  by (simp add: advances_def)

lemma advances_ext: "advances adr s k s' \<Longrightarrow> grows (nodes s) (nodes s')"
  by (simp add: advances_def)

lemma advances_types:
  assumes "sema_ok adr s" "store_ok adr tt" "grows (nodes s) (tt_nodes tt)"
  shows "advances adr s 0 (s\<lparr>sm_types := tt\<rparr>)"
  using assms grows_length [OF assms(3)] scopes_ok_mono
  by (fastforce simp: advances_def sema_ok_def nodes_def elim: option.pred_mono_strong)

lemma advances_error:
  assumes "sema_ok adr s"
  shows "advances adr s 1 (sema_error s l c m)" "advances adr s 1 (sema_expr_error s l c m)"
  using assms by (simp_all add: advances_def sema_ok_def nodes_def sema_error_def sema_expr_error_def
      diag_emit_def Let_def)

lemma nodes_error [simp]:
  "nodes (sema_error s l c m) = nodes s" "nodes (sema_expr_error s l c m) = nodes s"
  by (simp_all add: nodes_def sema_error_def sema_expr_error_def)

lemma sema_ok_store: "sema_ok adr s \<Longrightarrow> store_ok adr (sm_types s)"
  by (simp add: sema_ok_def)

definition typed_as :: "type_node list \<Rightarrow> ast \<Rightarrow> bool" where
  "typed_as ns e \<longleftrightarrow> (\<exists>t < length ns. ast_type e = Some t)"

lemma typed_as_mono: "typed_as ns e \<Longrightarrow> grows ns ns' \<Longrightarrow> typed_as ns' e"
  using grows_length by (fastforce simp: typed_as_def)

lemma type_or_int_less: "typed_as ns e \<Longrightarrow> type_or_int e < length ns"
  by (auto simp: typed_as_def type_or_int_def)

lemma decayed_step:
  assumes "sema_ok adr s" "typed_as (nodes s) e" "decayed adr s e = (s', t)"
  shows "advances adr s 0 s'" "t < length (nodes s')"
proof -
  obtain u where u: "ast_type e = Some u" "u < length (tt_nodes (sm_types s))"
    using assms(2) by (auto simp: typed_as_def nodes_def)
  obtain tt v where d: "decay adr (sm_types s) u = (tt, v)" by fastforce
  have r: "s' = s\<lparr>sm_types := tt\<rparr>" "t = v" using assms(3) u d by (simp_all add: decayed_def)
  note sp = decay_spec [OF sema_ok_store [OF assms(1)] u(2) d]
  show "advances adr s 0 s'" unfolding r using assms(1) sp by (intro advances_types) (simp_all add: nodes_def)
  show "t < length (nodes s')" using sp by (simp add: r nodes_def)
qed

lemma promote_less:
  "sema_ok adr s \<Longrightarrow> t < length (nodes s) \<Longrightarrow> integer_promote (nodes s) t < length (nodes s)"
  using scalar_less [OF sema_ok_store] by (auto simp: integer_promote_def nodes_def split: type_body.split)

lemma usual_less:
  assumes "sema_ok adr s" "a < length (nodes s)" "b < length (nodes s)"
  shows "usual_arithmetic (nodes s) a b < length (nodes s)"
  using scalar_less [OF sema_ok_store [OF assms(1)]] promote_less [OF assms(1)] assms(2,3)
  by (auto simp: usual_arithmetic_def Let_def nodes_def)

lemma body_refs:
  assumes "sema_ok adr s" "t < length (nodes s)"
  shows "body (nodes s) t = Pointer p \<Longrightarrow> p < length (nodes s)"
    "body (nodes s) t = Func r ps k v \<Longrightarrow> r < length (nodes s)"
  using node_refs [OF sema_ok_store [OF assms(1)], of t] assms(2) unfolding nodes_def by blast+

lemma int_less: "sema_ok adr s \<Longrightarrow> type_int < length (nodes s)" "sema_ok adr s \<Longrightarrow> type_long < length (nodes s)"
  "sema_ok adr s \<Longrightarrow> type_ulong < length (nodes s)" "sema_ok adr s \<Longrightarrow> type_void < length (nodes s)"
  using scalar_less [OF sema_ok_store] by (auto simp: nodes_def)

subsection \<open>Each operator\<close>

text \<open>Reporting the modification of a const object.\<close>

definition const_error :: "type_node list \<Rightarrow> ast \<Rightarrow> int" where
  "const_error ns e = (if is_const_lvalue ns e then 1 else 0)"

lemma const_error_mono:
  "typed_as ns e \<Longrightarrow> grows ns ns' \<Longrightarrow> const_error ns' e = const_error ns e"
  by (auto simp: const_error_def is_const_lvalue_def typed_as_def grows_node)

lemma report_const:
  "sema_ok adr s \<Longrightarrow>
   advances adr s (const_error (nodes s) e)
     (if is_const_lvalue (nodes s) e then sema_expr_error s l c m else s)"
  by (simp add: const_error_def advances_error advances_refl)

definition unop_errors :: "type_node list \<Rightarrow> TokenKind \<Rightarrow> ast \<Rightarrow> int" where
  "unop_errors ns op e = (if op = TOK_PLUSPLUS \<or> op = TOK_MINUSMINUS then const_error ns e else 0)"

lemma unop_type_step:
  assumes "sema_ok adr s" "typed_as (nodes s) e" "unop_type adr s l c op e = (s', t)"
  shows "advances adr s (unop_errors (nodes s) op e) s'" "t < length (nodes s')"
proof -
  obtain s1 u where d: "decayed adr s e = (s1, u)" by fastforce
  note st = decayed_step [OF assms(1,2) d]
  have ok: "sema_ok adr s1" and ext: "grows (nodes s) (nodes s1)"
    using st(1) by (simp_all add: advances_def)
  have e1: "typed_as (nodes s1) e" using typed_as_mono [OF assms(2) ext] .
  have ce: "const_error (nodes s1) e = const_error (nodes s) e" using const_error_mono [OF assms(2) ext] .
  have "advances adr s1 (unop_errors (nodes s) op e) s' \<and> t < length (nodes s')"
  proof (cases "op = TOK_AMP")
    case True
    obtain tt v where p: "type_pointer adr (sm_types s1) (type_or_int e) QUAL_NONE = (tt, v)" by fastforce
    have r: "s' = s1\<lparr>sm_types := tt\<rparr>" "t = v" using assms(3) True by (simp_all add: unop_type_def d p)
    note sp = pointer_spec [OF sema_ok_store [OF ok] type_or_int_less [OF e1, unfolded nodes_def] p]
    show ?thesis
      using True advances_types [OF ok sp(1)] sp(2,3) by (simp add: r unop_errors_def nodes_def)
  next
    case False
    show ?thesis
    proof (cases "op = TOK_PLUSPLUS \<or> op = TOK_MINUSMINUS")
      case True
      then have r: "s' = (if is_const_lvalue (nodes s1) e then sema_expr_error s1 l c const_msg else s1)" "t = u"
        using assms(3) by (auto simp: unop_type_def d)
      show ?thesis
        using report_const [OF ok, of e l c const_msg] True st(2) unfolding r ce
        by (auto simp: unop_errors_def)
    next
      case False
      then have "s' = s1" using assms(3) \<open>op \<noteq> TOK_AMP\<close> by (simp add: unop_type_def d split: if_splits)
      moreover have "t < length (nodes s1)"
        using assms(3) False \<open>op \<noteq> TOK_AMP\<close> promote_less [OF ok st(2)] int_less(1) [OF ok] body_refs(1) [OF ok st(2)]
        by (auto simp: unop_type_def d split: if_splits type_body.splits)
      ultimately show ?thesis using False advances_refl [OF ok] by (simp add: unop_errors_def)
    qed
  qed
  then show "advances adr s (unop_errors (nodes s) op e) s'" "t < length (nodes s')"
    using advances_trans [OF st(1)] by auto
qed

lemma postfix_type_step:
  assumes "sema_ok adr s" "typed_as (nodes s) e" "postfix_type adr s l c e = (s', t)"
  shows "advances adr s (const_error (nodes s) e) s'" "t < length (nodes s')"
proof -
  obtain s1 u where d: "decayed adr s e = (s1, u)" by fastforce
  note st = decayed_step [OF assms(1,2) d]
  have ce: "const_error (nodes s1) e = const_error (nodes s) e"
    using const_error_mono [OF assms(2) advances_ext [OF st(1)]] .
  have r: "s' = (if is_const_lvalue (nodes s1) e then sema_expr_error s1 l c const_msg else s1)" "t = u"
    using assms(3) by (auto simp: postfix_type_def d)
  show "advances adr s (const_error (nodes s) e) s'" "t < length (nodes s')"
    using advances_trans [OF st(1) report_const [OF advances_ok [OF st(1)], of e l c const_msg]] st(2)
    unfolding r ce by auto
qed

lemma binop_type_less:
  assumes "sema_ok adr s" "a < length (nodes s)" "b < length (nodes s)"
  shows "fst (binop_type (nodes s) op a b) < length (nodes s)"
    "pred_option (\<lambda>t. t < length (nodes s)) (snd (binop_type (nodes s) op a b))"
  using usual_less [OF assms] int_less [OF assms(1)] assms(2,3)
  by (auto simp: binop_type_def Let_def)

subsection \<open>The expressions of a tree\<close>

text \<open>The expressions check_expr visits: all but the designators and their indices.\<close>

function subexprs :: "ast \<Rightarrow> ast list"
and item_exprs :: "ast \<Rightarrow> ast list"
and list_exprs :: "ast list \<Rightarrow> ast list"
and items_exprs :: "ast list \<Rightarrow> ast list" where
  "subexprs (Ast l c t b) =
     Ast l c t b #
     (case b of
        Unop op e \<Rightarrow> subexprs e
      | Postfix op e \<Rightarrow> subexprs e
      | Binop op x y \<Rightarrow> subexprs x @ subexprs y
      | Assign op x y \<Rightarrow> subexprs x @ subexprs y
      | Ternary x y z \<Rightarrow> subexprs x @ subexprs y @ subexprs z
      | Call f as \<Rightarrow> subexprs f @ list_exprs as
      | Subscript x y \<Rightarrow> subexprs x @ subexprs y
      | Member e f \<Rightarrow> subexprs e
      | MemberPtr e f \<Rightarrow> subexprs e
      | Cast t e \<Rightarrow> subexprs e
      | SizeofExpr e \<Rightarrow> subexprs e
      | Comma x y \<Rightarrow> subexprs x @ subexprs y
      | InitList is n \<Rightarrow> items_exprs is
      | Designator f n ix v \<Rightarrow> subexprs v
      | CompoundLit t e \<Rightarrow> subexprs e
      | _ \<Rightarrow> [])"
| "item_exprs (Ast l c t b) =
     (case b of Designator f n ix v \<Rightarrow> subexprs v | _ \<Rightarrow> subexprs (Ast l c t b))"
| "list_exprs [] = []"
| "list_exprs (x # xs) = subexprs x @ list_exprs xs"
| "items_exprs [] = []"
| "items_exprs (x # xs) = item_exprs x @ items_exprs xs"
  by pat_completeness auto
termination
  by (relation "measure (\<lambda>x. case x of Inl (Inl e) \<Rightarrow> 2 * size e | Inl (Inr e) \<Rightarrow> 2 * size e + 1
        | Inr (Inl es) \<Rightarrow> 2 * size_list size es | Inr (Inr es) \<Rightarrow> 2 * size_list size es)") auto

text \<open>The types a tree names before it is checked exist.\<close>

definition named_types_ok :: "nat \<Rightarrow> ast \<Rightarrow> bool" where
  "named_types_ok n e \<longleftrightarrow>
     (case ast_body e of
        Cast t x \<Rightarrow> t < n
      | CompoundLit t x \<Rightarrow> t < n
      | Member x f \<Rightarrow> pred_option (\<lambda>t. t < n) (ast_type e)
      | MemberPtr x f \<Rightarrow> pred_option (\<lambda>t. t < n) (ast_type e)
      | _ \<Rightarrow> True)"

text \<open>The errors an expression is due, given the types of its parts.\<close>

definition node_errors :: "type_node list \<Rightarrow> ast \<Rightarrow> int" where
  "node_errors ns e =
     (case ast_body e of
        Assign op a b \<Rightarrow> const_error ns a
      | Unop op a \<Rightarrow> unop_errors ns op a
      | Postfix op a \<Rightarrow> const_error ns a
      | _ \<Rightarrow> 0)"

definition const_errors :: "type_node list \<Rightarrow> ast list \<Rightarrow> int" where
  "const_errors ns es = sum_list (map (node_errors ns) es)"

lemma subexprs_self: "e \<in> set (subexprs e)"
  by (cases e) simp

lemma const_errors_simps [simp]:
  "const_errors ns [] = 0" "const_errors ns (e # es) = node_errors ns e + const_errors ns es"
  "const_errors ns (es @ es') = const_errors ns es + const_errors ns es'"
  by (simp_all add: const_errors_def)

text \<open>A checked node has a type, and so have the operands its errors depend on; the types it names
  exist.\<close>

definition checked :: "type_node list \<Rightarrow> ast \<Rightarrow> bool" where
  "checked ns e \<longleftrightarrow> typed_as ns e \<and> named_types_ok (length ns) e
     \<and> (case ast_body e of
          Assign op a b \<Rightarrow> typed_as ns a
        | Unop op a \<Rightarrow> typed_as ns a
        | Postfix op a \<Rightarrow> typed_as ns a
        | _ \<Rightarrow> True)"

definition all_checked :: "type_node list \<Rightarrow> ast list \<Rightarrow> bool" where
  "all_checked ns es \<longleftrightarrow> list_all (checked ns) es"

lemma all_checked_simps [simp]:
  "all_checked ns []" "all_checked ns (e # es) \<longleftrightarrow> checked ns e \<and> all_checked ns es"
  "all_checked ns (es @ es') \<longleftrightarrow> all_checked ns es \<and> all_checked ns es'"
  by (simp_all add: all_checked_def)

lemma named_types_mono: "named_types_ok n e \<Longrightarrow> n \<le> m \<Longrightarrow> named_types_ok m e"
  by (cases "ast_body e") (auto simp: named_types_ok_def elim: option.pred_mono_strong)

lemma checked_mono:
  assumes "checked ns e" "grows ns ns'"
  shows "checked ns' e \<and> node_errors ns' e = node_errors ns e"
proof -
  note mono = typed_as_mono [OF _ assms(2)] const_error_mono [OF _ assms(2)]
    named_types_mono [OF _ grows_length [OF assms(2)]]
  show ?thesis
    using assms(1) by (cases "ast_body e") (simp_all add: checked_def node_errors_def unop_errors_def mono)
qed

lemma all_checked_mono:
  "all_checked ns es \<Longrightarrow> grows ns ns' \<Longrightarrow> all_checked ns' es \<and> const_errors ns' es = const_errors ns es"
  by (induction es) (auto dest: checked_mono)

lemma all_checked_self: "all_checked ns (subexprs e) \<Longrightarrow> typed_as ns e"
  using subexprs_self [of e] unfolding all_checked_def list_all_iff checked_def by blast

text \<open>From \<open>s\<close> to \<open>s'\<close> the expressions \<open>es\<close> have been checked.\<close>

definition expr_step :: "(tid \<Rightarrow> u64) \<Rightarrow> sema \<Rightarrow> sema \<Rightarrow> ast list \<Rightarrow> bool" where
  "expr_step adr s s' es \<longleftrightarrow>
     advances adr s (const_errors (nodes s') es) s' \<and> all_checked (nodes s') es"

lemma expr_step_refl: "sema_ok adr s \<Longrightarrow> expr_step adr s s []"
  by (simp add: expr_step_def advances_refl)

lemma expr_step_ok: "expr_step adr s s' es \<Longrightarrow> sema_ok adr s'"
  by (simp add: expr_step_def advances_def)

lemma expr_step_grows: "expr_step adr s s' es \<Longrightarrow> grows (nodes s) (nodes s')"
  by (simp add: expr_step_def advances_def)

lemma expr_step_typed: "expr_step adr s s' (subexprs e) \<Longrightarrow> typed_as (nodes s') e"
  by (simp add: expr_step_def all_checked_self)

lemma expr_step_advances:
  assumes "expr_step adr s s1 es" "advances adr s1 k s2"
  shows "advances adr s (const_errors (nodes s2) es + k) s2" "all_checked (nodes s2) es"
  using assms all_checked_mono [OF _ advances_ext [OF assms(2)]] advances_trans
  by (auto simp: expr_step_def)

lemma expr_step_trans:
  assumes "expr_step adr s s1 es1" "expr_step adr s1 s2 es2"
  shows "expr_step adr s s2 (es1 @ es2)"
  using expr_step_advances [OF assms(1)] assms(2) by (auto simp: expr_step_def)

lemma expr_step_node:
  assumes "expr_step adr s s1 es" "advances adr s1 (node_errors (nodes s2) n) s2" "checked (nodes s2) n"
  shows "expr_step adr s s2 (n # es)"
  using expr_step_advances [OF assms(1,2)] assms(3) by (simp add: expr_step_def add.commute)

lemma make_cast_checked:
  assumes "all_checked ns (subexprs e)" "to < length ns"
  shows "all_checked ns (subexprs (make_cast e to))"
    "const_errors ns (subexprs (make_cast e to)) = const_errors ns (subexprs e)"
  using assms by (auto simp: make_cast_def checked_def typed_as_def node_errors_def named_types_ok_def)

lemma convert_checked:
  assumes "all_checked ns (subexprs e)" "pred_option (\<lambda>t. t < length ns) common"
  shows "all_checked ns (subexprs (convert_operand ns common t e))"
    "const_errors ns (subexprs (convert_operand ns common t e)) = const_errors ns (subexprs e)"
  using assms make_cast_checked [OF assms(1)] by (cases common; simp add: convert_operand_def)+

lemma finish_binop_step:
  assumes "expr_step adr s0 s (subexprs a @ subexprs b)" "finish_binop adr s l c op a b = (s', n)"
  shows "expr_step adr s0 s' (subexprs n)"
proof -
  obtain s1 lt s2 rt where d: "decayed adr s a = (s1, lt)" "decayed adr s1 b = (s2, rt)" by fastforce
  obtain t common where t: "binop_type (nodes s2) op lt rt = (t, common)" by fastforce
  have ok: "sema_ok adr s" and ab: "typed_as (nodes s) a" "typed_as (nodes s) b"
    using assms(1) expr_step_ok [OF assms(1)] by (simp_all add: expr_step_def all_checked_self)
  note s1 = decayed_step [OF ok ab(1) d(1)]
  note s2 = decayed_step [OF advances_ok [OF s1(1)] typed_as_mono [OF ab(2) advances_ext [OF s1(1)]] d(2)]
  have lt: "lt < length (nodes s2)"
    using s1(2) grows_length [OF advances_ext [OF s2(1)]] by simp
  note bt = binop_type_less [OF advances_ok [OF s2(1)] lt s2(2), of op, unfolded t, simplified]
  have st: "expr_step adr s0 s2 (subexprs a @ subexprs b)"
    using expr_step_advances [OF assms(1) advances_trans [OF s1(1) s2(1)]] by (simp add: expr_step_def)
  then have ck: "all_checked (nodes s2) (subexprs a)" "all_checked (nodes s2) (subexprs b)"
    by (simp_all add: expr_step_def)
  have r: "s' = s2" "n = Ast l c (Some t) (Binop op (convert_operand (nodes s2) common lt a)
      (convert_operand (nodes s2) common rt b))"
    using assms(2) by (auto simp: finish_binop_def d t)
  show ?thesis
    using st convert_checked [OF ck(1) bt(2)] convert_checked [OF ck(2) bt(2)] bt(1)
    by (simp add: r expr_step_def checked_def typed_as_def node_errors_def named_types_ok_def)
qed

lemma finish_assign_step:
  assumes "expr_step adr s0 s (subexprs a @ subexprs b)" "finish_assign s l c op a b = (s', n)"
  shows "expr_step adr s0 s' (subexprs n)"
proof -
  have ok: "sema_ok adr s" and ab: "typed_as (nodes s) a" "typed_as (nodes s) b"
    using assms(1) expr_step_ok [OF assms(1)] by (simp_all add: expr_step_def all_checked_self)
  note less = type_or_int_less [OF ab(1)] type_or_int_less [OF ab(2)]
  have r: "s' = (if is_const_lvalue (nodes s) a then sema_expr_error s l c const_msg else s)"
    using assms(2) by (simp add: finish_assign_def Let_def)
  have ns: "nodes s' = nodes s" by (simp add: r)
  note st = expr_step_advances [OF assms(1) report_const [OF ok, of a l c const_msg], folded r, unfolded ns]
  define b' where "b' = (if op \<noteq> TOK_ASSIGN \<and> type_is_arithmetic (nodes s) (type_or_int a)
        \<and> type_is_arithmetic (nodes s) (type_or_int b)
      then make_cast b (usual_arithmetic (nodes s) (type_or_int a) (type_or_int b))
      else if type_or_int a \<noteq> type_or_int b then make_cast b (type_or_int a) else b)"
  have b: "all_checked (nodes s) (subexprs b')" "const_errors (nodes s) (subexprs b') = const_errors (nodes s) (subexprs b)"
    using st(2) make_cast_checked [OF _ usual_less [OF ok less]] make_cast_checked [OF _ less(1)]
    by (simp_all add: b'_def)
  have "n = Ast l c (Some (type_or_int a)) (Assign op a b')"
    using assms(2) by (simp add: finish_assign_def Let_def b'_def)
  then show ?thesis
    using st b ab(1) less(1) by (simp add: expr_step_def ns checked_def typed_as_def [of _ "Ast _ _ _ _"] node_errors_def
        named_types_ok_def add.commute add.left_commute)
qed

lemma ternary_type_step:
  assumes "expr_step adr s0 s es" "typed_as (nodes s) a" "typed_as (nodes s) b" "ternary_type adr s a b = (s', t)"
  shows "advances adr s 0 s'" "t < length (nodes s')"
proof -
  obtain s1 lt s2 rt where d: "decayed adr s a = (s1, lt)" "decayed adr s1 b = (s2, rt)" by fastforce
  note s1 = decayed_step [OF expr_step_ok [OF assms(1)] assms(2) d(1)]
  note s2 = decayed_step [OF advances_ok [OF s1(1)] typed_as_mono [OF assms(3) advances_ext [OF s1(1)]] d(2)]
  have lt: "lt < length (nodes s2)"
    using s1(2) grows_length [OF advances_ext [OF s2(1)]] by simp
  have r: "s' = s2" "t = lt \<or> t = usual_arithmetic (nodes s2) lt rt"
    using assms(4) by (auto simp: ternary_type_def d)
  show "advances adr s 0 s'" using advances_trans [OF s1(1) s2(1)] by (simp add: r)
  show "t < length (nodes s')" using r lt usual_less [OF advances_ok [OF s2(1)] lt s2(2)] by auto
qed

lemma call_type_step:
  assumes "sema_ok adr s" "typed_as (nodes s) e" "call_type adr s e = (s', t)"
  shows "advances adr s 0 s'" "t < length (nodes s')"
proof -
  obtain s1 u where d: "decayed adr s e = (s1, u)" by fastforce
  note s1 = decayed_step [OF assms(1,2) d]
  note ok = advances_ok [OF s1(1)]
  have r: "s' = s1" using assms(3) by (simp add: call_type_def d Let_def)
  show "advances adr s 0 s'" using s1(1) by (simp add: r)
  have t: "(case body (nodes s1) w of Func r ps n v \<Rightarrow> r | _ \<Rightarrow> type_int) < length (nodes s1)"
    if "w < length (nodes s1)" for w
    using body_refs(2) [OF ok that] int_less(1) [OF ok] by (auto split: type_body.split)
  have "(case body (nodes s1) u of Pointer p \<Rightarrow> (case body (nodes s1) p of Func r ps n v \<Rightarrow> p | _ \<Rightarrow> u)
      | _ \<Rightarrow> u) < length (nodes s1)"
    using s1(2) body_refs(1) [OF ok s1(2)] by (auto split: type_body.split)
  then show "t < length (nodes s')" using assms(3) t by (auto simp: call_type_def d Let_def r)
qed

lemma subscript_type_step:
  assumes "sema_ok adr s" "typed_as (nodes s) e" "subscript_type adr s e = (s', t)"
  shows "advances adr s 0 s'" "t < length (nodes s')"
proof -
  obtain s1 u where d: "decayed adr s e = (s1, u)" by fastforce
  note s1 = decayed_step [OF assms(1,2) d]
  note ok = advances_ok [OF s1(1)]
  show "advances adr s 0 s'" "t < length (nodes s')"
    using assms(3) s1(1) body_refs(1) [OF ok s1(2)] int_less(1) [OF ok]
    by (auto simp: subscript_type_def d split: type_body.split)
qed

lemma find_member_in:
  "fields_ok ns \<Longrightarrow> find_member fuel ns name fs = Some (Some f) \<Longrightarrow>
     list_all (\<lambda>f. sf_type f < length ns) fs \<Longrightarrow> sf_type f < length ns"
  "fields_ok ns \<Longrightarrow> lookup_member fuel ns t name = Some (Some f) \<Longrightarrow> t < length ns \<Longrightarrow>
     sf_type f < length ns"
proof (induction fuel ns name fs and fuel ns t name arbitrary: f and f rule: find_member_lookup_member.induct)
  case (2 fuel ns name g fs)
  then show ?case by (auto split: if_splits option.splits)
next
  case (4 fuel ns t name)
  then obtain a where a: "agg_of (body ns t) = Some a" "find_member fuel ns name (ag_fields a) = Some (Some f)"
    by (auto split: option.splits)
  then have "list_all (\<lambda>f. sf_type f < length ns) (ag_fields a)"
    using 4(2,4) by (simp add: fields_ok_def)
  then show ?case using 4(1,2) a by blast
qed simp_all

lemma member_type_less:
  assumes "sema_ok adr s" "pred_option (\<lambda>t. t < length (nodes s)) old" "pred_option (\<lambda>t. t < length (nodes s)) t"
  shows "member_type (nodes s) old t field < length (nodes s)"
proof -
  have f: "fields_ok (nodes s)" using assms(1) by (simp add: sema_ok_def store_ok_def nodes_def)
  have "sf_type g < length (nodes s)" if "t = Some u" "member_of (nodes s) u field = Some g" for u g
    using find_member_in(2) [OF f, of "length (nodes s) + 1" u field g] that assms(3)
    by (auto simp: member_of_def split: option.splits)
  then show ?thesis
    using assms(2) int_less(1) [OF assms(1)]
    by (cases t; cases old) (auto simp: member_type_def split: option.split)
qed

lemma member_ptr_type_step:
  assumes "sema_ok adr s" "typed_as (nodes s) e" "pred_option (\<lambda>t. t < length (nodes s)) old"
    "member_ptr_type adr s old e field = (s', t)"
  shows "advances adr s 0 s'" "t < length (nodes s')"
proof -
  obtain s1 u where d: "decayed adr s e = (s1, u)" by fastforce
  note s1 = decayed_step [OF assms(1,2) d]
  note ok = advances_ok [OF s1(1)]
  have old: "pred_option (\<lambda>t. t < length (nodes s1)) old"
    using assms(3) grows_length [OF advances_ext [OF s1(1)]] by (cases old) auto
  have p: "pred_option (\<lambda>t. t < length (nodes s1)) (case body (nodes s1) u of Pointer p \<Rightarrow> Some p | _ \<Rightarrow> None)"
    using body_refs(1) [OF ok s1(2)] by (auto split: type_body.split)
  show "advances adr s 0 s'" "t < length (nodes s')"
    using assms(4) s1(1) member_type_less [OF ok old p] by (auto simp: member_ptr_type_def d)
qed

lemma ssym_hash_less: "ssym_hash name < SSCOPE_BUCKETS"
proof -
  have "unat (x AND 63) \<le> unat (63 :: u32)" for x :: u32
    by (metis word_and_le1 word_le_nat_alt)
  from this [of "foldl (\<lambda>h c. (h XOR of_char c) * 16777619) 2166136261 name"] show ?thesis
    by (simp add: ssym_hash_def SSCOPE_BUCKETS_def)
qed

lemma scopes_find_ok:
  "scopes_ok n scs \<Longrightarrow> scopes_find (ssym_hash name) name scs = Some y \<Longrightarrow> pred_option (\<lambda>t. t < n) (sy_type y)"
proof (induction scs)
  case (Cons sc scs)
  have "sc ! ssym_hash name \<in> set sc" using Cons.prems(1) ssym_hash_less by (simp add: scopes_ok_def)
  then have "pred_option (\<lambda>t. t < n) (sy_type z)"
    if "List.find (\<lambda>sy. sy_name sy = name) (sc ! ssym_hash name) = Some z" for z
    using Cons.prems(1) that unfolding scopes_ok_def list_all_iff find_Some_iff
    by (metis list.set_intros(1) nth_mem)
  then show ?case using Cons by (auto simp: scopes_ok_def split: option.splits)
qed simp

lemma check_ident_step:
  assumes "sema_ok adr s"
  shows "expr_step adr s s (subexprs (check_ident s l c name))"
proof -
  have "pred_option (\<lambda>t. t < length (nodes s)) (sy_type y)" if "sscope_lookup s name = Some y" for y
    using scopes_find_ok [OF _ that [unfolded sscope_lookup_def]] assms by (simp add: sema_ok_def)
  then show ?thesis
    using int_less(1) [OF assms] advances_refl [OF assms]
    by (auto simp: check_ident_def expr_step_def checked_def typed_as_def node_errors_def named_types_ok_def
        split: option.split)
qed

subsection \<open>The whole expression\<close>

definition names_ok :: "sema \<Rightarrow> ast list \<Rightarrow> bool" where
  "names_ok s es \<longleftrightarrow> list_all (named_types_ok (length (nodes s))) es"

lemma names_ok_simps [simp]:
  "names_ok s []" "names_ok s (e # es) \<longleftrightarrow> named_types_ok (length (nodes s)) e \<and> names_ok s es"
  "names_ok s (es @ es') \<longleftrightarrow> names_ok s es \<and> names_ok s es'"
  by (simp_all add: names_ok_def)

lemma names_ok_step: "names_ok s es \<Longrightarrow> expr_step adr s s' fs \<Longrightarrow> names_ok s' es"
  using named_types_mono grows_length [OF expr_step_grows] unfolding names_ok_def list_all_iff by blast

lemma item_exprs_checked:
  "(\<nexists>f n ix v. b = Designator f n ix v) \<Longrightarrow> check_expr adr s (Ast l c t b) = (s', e) \<Longrightarrow>
   item_exprs e = subexprs e"
  by (cases b) (auto simp: check_ident_def finish_binop_def finish_assign_def Let_def split: prod.splits option.splits)

lemma node_checked:
  "t < length ns \<Longrightarrow> \<nexists>op a b. bd = Assign op a b \<Longrightarrow> \<nexists>op a. bd = Unop op a \<Longrightarrow> \<nexists>op a. bd = Postfix op a \<Longrightarrow>
   \<forall>u x. bd = Cast u x \<or> bd = CompoundLit u x \<longrightarrow> u < length ns \<Longrightarrow>
   checked ns (Ast l c (Some t) bd) \<and> node_errors ns (Ast l c (Some t) bd) = 0"
  by (cases bd) (simp_all add: checked_def typed_as_def node_errors_def named_types_ok_def)

lemma step_plain:
  assumes "expr_step adr s s1 es" "advances adr s1 0 s2" "t < length (nodes s2)"
    "\<nexists>op a b. bd = Assign op a b" "\<nexists>op a. bd = Unop op a" "\<nexists>op a. bd = Postfix op a"
    "\<forall>u x. bd = Cast u x \<or> bd = CompoundLit u x \<longrightarrow> u < length (nodes s2)"
  shows "expr_step adr s s2 (Ast l c (Some t) bd # es)"
  using expr_step_node [OF assms(1), of s2 "Ast l c (Some t) bd"] node_checked [OF assms(3-7)] assms(2) by simp

lemma step_same:
  assumes "expr_step adr s s1 es" "t < length (nodes s1)"
    "\<nexists>op a b. bd = Assign op a b" "\<nexists>op a. bd = Unop op a" "\<nexists>op a. bd = Postfix op a"
    "\<forall>u x. bd = Cast u x \<or> bd = CompoundLit u x \<longrightarrow> u < length (nodes s1)"
  shows "expr_step adr s s1 (Ast l c (Some t) bd # es)"
  by (rule step_plain [OF assms(1) advances_refl [OF expr_step_ok [OF assms(1)]] assms(2-)])

lemma leaf_step:
  assumes "sema_ok adr s" "t < length (nodes s)"
    "\<nexists>op a b. bd = Assign op a b" "\<nexists>op a. bd = Unop op a" "\<nexists>op a. bd = Postfix op a"
    "\<forall>u x. bd = Cast u x \<or> bd = CompoundLit u x \<longrightarrow> u < length (nodes s)"
  shows "expr_step adr s s [Ast l c (Some t) bd]"
  by (rule step_same [OF expr_step_refl [OF assms(1)] assms(2-)])

lemma unop_step:
  assumes "expr_step adr s s1 (subexprs e)" "unop_type adr s1 l c op e = (s2, t)"
  shows "expr_step adr s s2 (Ast l c (Some t) (Unop op e) # subexprs e)"
proof (rule expr_step_node [OF assms(1)])
  note ty = expr_step_typed [OF assms(1)]
  note st = unop_type_step [OF expr_step_ok [OF assms(1)] ty assms(2)]
  have "unop_errors (nodes s2) op e = unop_errors (nodes s1) op e"
    using const_error_mono [OF ty advances_ext [OF st(1)]] by (simp add: unop_errors_def)
  then show "advances adr s1 (node_errors (nodes s2) (Ast l c (Some t) (Unop op e))) s2"
    using st(1) by (simp add: node_errors_def)
  show "checked (nodes s2) (Ast l c (Some t) (Unop op e))"
    using st(2) typed_as_mono [OF ty advances_ext [OF st(1)]]
    by (simp add: checked_def typed_as_def named_types_ok_def)
qed

lemma postfix_step:
  assumes "expr_step adr s s1 (subexprs e)" "postfix_type adr s1 l c e = (s2, t)"
  shows "expr_step adr s s2 (Ast l c (Some t) (Postfix op e) # subexprs e)"
proof (rule expr_step_node [OF assms(1)])
  note ty = expr_step_typed [OF assms(1)]
  note st = postfix_type_step [OF expr_step_ok [OF assms(1)] ty assms(2)]
  show "advances adr s1 (node_errors (nodes s2) (Ast l c (Some t) (Postfix op e))) s2"
    using st(1) const_error_mono [OF ty advances_ext [OF st(1)]] by (simp add: node_errors_def)
  show "checked (nodes s2) (Ast l c (Some t) (Postfix op e))"
    using st(2) typed_as_mono [OF ty advances_ext [OF st(1)]]
    by (simp add: checked_def typed_as_def named_types_ok_def)
qed

lemma lit_type_less: "sema_ok adr s \<Longrightarrow> int_lit_type suf < length (nodes s)"
  "sema_ok adr s \<Longrightarrow> float_lit_type suf' < length (nodes s)"
  using scalar_less [OF sema_ok_store] by (auto simp: int_lit_type_def float_lit_type_def nodes_def)

lemma str_lit_step:
  assumes "sema_ok adr s" "type_pointer adr (sm_types s) type_char QUAL_CONST = (tt, t)"
  shows "expr_step adr s (s\<lparr>sm_types := tt\<rparr>) [Ast l c (Some t) (StrLit x w)]"
proof (rule step_plain [OF expr_step_refl [OF assms(1)]])
  note sp = pointer_spec [OF sema_ok_store [OF assms(1)] scalar_less(2) [OF sema_ok_store [OF assms(1)]] assms(2)]
  show "advances adr s 0 (s\<lparr>sm_types := tt\<rparr>)"
    by (rule advances_types [OF assms(1) sp(1)]) (simp add: nodes_def sp(2))
  show "t < length (nodes (s\<lparr>sm_types := tt\<rparr>))" using sp(3) by (simp add: nodes_def)
qed simp_all

text \<open>What the induction shows for an expression and, given its elements, for a list.\<close>

definition expr_spec :: "(tid \<Rightarrow> u64) \<Rightarrow> ast \<Rightarrow> bool" where
  "expr_spec adr e \<longleftrightarrow>
     (\<forall>s s' e'. check_expr adr s e = (s', e') \<longrightarrow> sema_ok adr s \<longrightarrow> names_ok s (subexprs e) \<longrightarrow>
        expr_step adr s s' (subexprs e'))"

lemma expr_specD:
  "expr_spec adr e \<Longrightarrow> check_expr adr s e = (s', e') \<Longrightarrow> sema_ok adr s \<Longrightarrow> names_ok s (subexprs e) \<Longrightarrow>
   expr_step adr s s' (subexprs e')"
  by (simp add: expr_spec_def)

lemma expr_spec_next:
  assumes "expr_spec adr e" "check_expr adr s1 e = (s2, e')" "expr_step adr s s1 es" "names_ok s (subexprs e)"
  shows "expr_step adr s s2 (es @ subexprs e')"
  using expr_step_trans [OF assms(3) expr_specD [OF assms(1,2) expr_step_ok [OF assms(3)] names_ok_step [OF assms(4,3)]]] .

lemma check_exprs_spec:
  assumes "\<And>x. x \<in> set es \<Longrightarrow> expr_spec adr x" "check_exprs adr s es = (s', es')" "sema_ok adr s"
    "names_ok s (list_exprs es)"
  shows "expr_step adr s s' (list_exprs es')"
  using assms
proof (induction es arbitrary: s s' es')
  case (Cons x xs)
  obtain s1 x1 where a: "check_expr adr s x = (s1, x1)" by fastforce
  obtain s2 xs1 where b: "check_exprs adr s1 xs = (s2, xs1)" by fastforce
  have i: "expr_step adr s s1 (subexprs x1)"
    by (rule expr_specD [OF Cons.prems(1) a Cons.prems(3)]) (use Cons.prems(4) in simp_all)
  have "expr_step adr s1 s2 (list_exprs xs1)"
    by (rule Cons.IH [OF Cons.prems(1) b expr_step_ok [OF i] names_ok_step [OF _ i]]) (use Cons.prems(4) in simp_all)
  then show ?case using expr_step_trans [OF i] Cons.prems(2) by (auto simp: a b)
qed (simp add: expr_step_refl)

lemma check_item_spec:
  assumes "expr_spec adr x" "\<And>l c t f n ix v. x = Ast l c t (Designator f n ix v) \<Longrightarrow> expr_spec adr v"
    "check_items adr s [x] = (s', [x'])" "sema_ok adr s" "names_ok s (item_exprs x)"
  shows "expr_step adr s s' (item_exprs x')"
proof -
  obtain l c t b where x: "x = Ast l c t b" by (cases x)
  show ?thesis
  proof (cases "\<exists>f n ix v. b = Designator f n ix v")
    case True
    then obtain f n ix v where b: "b = Designator f n ix v" by blast
    obtain s1 v1 where a: "check_expr adr s v = (s1, v1)" by fastforce
    have "expr_step adr s s1 (subexprs v1)"
      by (rule expr_specD [OF assms(2) a assms(4)]) (use assms(5) x b in simp_all)
    then show ?thesis using assms(3) by (auto simp: x b a)
  next
    case False
    then have r: "check_expr adr s x = (s', x')"
      using assms(3) by (cases b) (auto simp: x simp del: check_expr.simps split: prod.splits)
    have "item_exprs x = subexprs x" using False by (cases b) (simp_all add: x)
    then show ?thesis
      using expr_specD [OF assms(1) r assms(4)] assms(5) item_exprs_checked [OF False r [unfolded x]] by simp
  qed
qed

lemma check_items_Cons:
  "check_items adr s (x # xs) =
     (case check_items adr s [x] of (s, x) \<Rightarrow> case check_items adr s xs of (s, xs) \<Rightarrow> (s, hd x # xs))"
  by (simp split: prod.split)

lemma check_items_one: "\<exists>s' x'. check_items adr s [x] = (s', [x'])"
  by (simp split: prod.split)

lemma check_items_spec:
  assumes "\<And>x. x \<in> set es \<Longrightarrow> expr_spec adr x"
    "\<And>l c t f n ix v. Ast l c t (Designator f n ix v) \<in> set es \<Longrightarrow> expr_spec adr v"
    "check_items adr s es = (s', es')" "sema_ok adr s" "names_ok s (items_exprs es)"
  shows "expr_step adr s s' (items_exprs es')"
  using assms
proof (induction es arbitrary: s s' es')
  case (Cons x xs)
  obtain s1 x1 where a: "check_items adr s [x] = (s1, [x1])" using check_items_one by blast
  obtain s2 xs1 where b: "check_items adr s1 xs = (s2, xs1)" by fastforce
  have d: "expr_spec adr v" if "Ast l c t (Designator f n ix v) \<in> set (x # xs)" for l c t f n ix v
    using Cons.prems(2) that by blast
  have dx: "expr_spec adr v" if "x = Ast l c t (Designator f n ix v)" for l c t f n ix v
    using d [of l c t f n ix v] that by simp
  have dxs: "expr_spec adr v" if "Ast l c t (Designator f n ix v) \<in> set xs" for l c t f n ix v
    using d [of l c t f n ix v] that by simp
  have i: "expr_step adr s s1 (item_exprs x1)"
    by (rule check_item_spec [OF Cons.prems(1) dx a Cons.prems(4)]) (use Cons.prems(5) in simp_all)
  have "expr_step adr s1 s2 (items_exprs xs1)"
    by (rule Cons.IH [OF Cons.prems(1) dxs b expr_step_ok [OF i] names_ok_step [OF _ i]])
      (use Cons.prems(5) in simp_all)
  moreover have "check_items adr s (x # xs) = (s2, x1 # xs1)"
    by (subst check_items_Cons) (simp only: a b prod.case list.sel)
  ultimately show ?case using expr_step_trans [OF i] Cons.prems(3) by (auto simp del: check_items.simps)
qed (simp add: expr_step_refl)

lemma ternary_step:
  assumes "expr_step adr s s1 (subexprs x @ subexprs y @ subexprs z)" "ternary_type adr s1 y z = (s2, t)"
  shows "expr_step adr s s2 (subexprs (Ast l c (Some t) (Ternary x y z)))"
proof -
  have "typed_as (nodes s1) y" "typed_as (nodes s1) z"
    using assms(1) by (simp_all add: expr_step_def all_checked_self)
  note st = ternary_type_step [OF assms(1) this assms(2)]
  show ?thesis using step_plain [OF assms(1) st] by simp
qed

lemma comma_step:
  assumes "expr_step adr s s1 (subexprs x @ subexprs y)"
  shows "expr_step adr s s1 (subexprs (Ast l c (ast_type y) (Comma x y)))"
proof -
  have "typed_as (nodes s1) y" using assms by (simp add: expr_step_def all_checked_self)
  then obtain t where t: "t < length (nodes s1)" "ast_type y = Some t" by (auto simp: typed_as_def)
  show ?thesis using step_same [OF assms t(1)] by (simp add: t(2))
qed

lemma all_specs: "expr_spec adr e"
proof (induction "size e" arbitrary: e rule: less_induct)
  case less
  obtain l c old b where e: "e = Ast l c old b" by (cases e)
  have IH: "expr_spec adr x" if "size x \<le> size b" for x
    using less that by (simp add: e)
  have IHs: "expr_spec adr x" if "x \<in> set xs" "size_list size xs \<le> size b" for x xs
    using IH [of x] size_list_estimation' [OF that(1), of "size x" size] that(2) by simp
  show ?case
    unfolding expr_spec_def
  proof (intro allI impI)
    fix s s' e'
    assume r: "check_expr adr s e = (s', e')" and ok: "sema_ok adr s" and nm: "names_ok s (subexprs e)"
    note first = expr_specD [OF IH _ ok]
    show "expr_step adr s s' (subexprs e')"
    proof (cases b)
      case (Unop op x)
      obtain s1 x1 where a: "check_expr adr s x = (s1, x1)" by fastforce
      obtain s2 t where t: "unop_type adr s1 l c op x1 = (s2, t)" by fastforce
      have "expr_step adr s s1 (subexprs x1)" by (rule first [OF _ a]) (use nm in \<open>simp_all add: e Unop\<close>)
      then show ?thesis using unop_step [OF _ t] r by (auto simp: e Unop a t)
    next
      case (Postfix op x)
      obtain s1 x1 where a: "check_expr adr s x = (s1, x1)" by fastforce
      obtain s2 t where t: "postfix_type adr s1 l c x1 = (s2, t)" by fastforce
      have "expr_step adr s s1 (subexprs x1)" by (rule first [OF _ a]) (use nm in \<open>simp_all add: e Postfix\<close>)
      then show ?thesis using postfix_step [OF _ t] r by (auto simp: e Postfix a t)
    next
      case (Binop op x y)
      obtain s1 x1 where a: "check_expr adr s x = (s1, x1)" by fastforce
      obtain s2 y1 where b: "check_expr adr s1 y = (s2, y1)" by fastforce
      have "expr_step adr s s1 (subexprs x1)" by (rule first [OF _ a]) (use nm in \<open>simp_all add: e Binop\<close>)
      then have "expr_step adr s s2 (subexprs x1 @ subexprs y1)"
        by (intro expr_spec_next [OF IH b]) (use nm in \<open>simp_all add: e Binop\<close>)
      then show ?thesis using finish_binop_step r by (simp add: e Binop a b)
    next
      case (Assign op x y)
      obtain s1 x1 where a: "check_expr adr s x = (s1, x1)" by fastforce
      obtain s2 y1 where b: "check_expr adr s1 y = (s2, y1)" by fastforce
      have "expr_step adr s s1 (subexprs x1)" by (rule first [OF _ a]) (use nm in \<open>simp_all add: e Assign\<close>)
      then have "expr_step adr s s2 (subexprs x1 @ subexprs y1)"
        by (intro expr_spec_next [OF IH b]) (use nm in \<open>simp_all add: e Assign\<close>)
      then show ?thesis using finish_assign_step r by (simp add: e Assign a b)
    next
      case (Ternary x y z)
      obtain s1 x1 where a: "check_expr adr s x = (s1, x1)" by fastforce
      obtain s2 y1 where b: "check_expr adr s1 y = (s2, y1)" by fastforce
      obtain s3 z1 where d: "check_expr adr s2 z = (s3, z1)" by fastforce
      obtain s4 t where t: "ternary_type adr s3 y1 z1 = (s4, t)" by fastforce
      have "expr_step adr s s1 (subexprs x1)" by (rule first [OF _ a]) (use nm in \<open>simp_all add: e Ternary\<close>)
      then have "expr_step adr s s2 (subexprs x1 @ subexprs y1)"
        by (intro expr_spec_next [OF IH b]) (use nm in \<open>simp_all add: e Ternary\<close>)
      then have "expr_step adr s s3 ((subexprs x1 @ subexprs y1) @ subexprs z1)"
        by (intro expr_spec_next [OF IH d]) (use nm in \<open>simp_all add: e Ternary\<close>)
      then show ?thesis using ternary_step [OF _ t] r by (auto simp: e Ternary a b d t)
    next
      case (Call x as)
      obtain s1 x1 where a: "check_expr adr s x = (s1, x1)" by fastforce
      obtain s2 t where t: "call_type adr s1 x1 = (s2, t)" by fastforce
      obtain s3 as1 where b: "check_exprs adr s2 as = (s3, as1)" by fastforce
      have i: "expr_step adr s s1 (subexprs x1)" by (rule first [OF _ a]) (use nm in \<open>simp_all add: e Call\<close>)
      note st = call_type_step [OF expr_step_ok [OF i] expr_step_typed [OF i] t]
      have j: "expr_step adr s s2 (subexprs x1)"
        using expr_step_advances [OF i st(1)] by (simp add: expr_step_def)
      have as: "expr_spec adr x" if "x \<in> set as" for x
        by (rule IHs [OF that]) (simp add: Call)
      have k: "expr_step adr s2 s3 (list_exprs as1)"
        by (rule check_exprs_spec [OF as b expr_step_ok [OF j] names_ok_step [OF _ j]])
          (use nm in \<open>simp_all add: e Call\<close>)
      have "t < length (nodes s3)" using st(2) grows_length [OF expr_step_grows [OF k]] by simp
      then show ?thesis
        using step_same [OF expr_step_trans [OF j k], of t] r by (auto simp: e Call a b t)
    next
      case (Subscript x y)
      obtain s1 x1 where a: "check_expr adr s x = (s1, x1)" by fastforce
      obtain s2 y1 where b: "check_expr adr s1 y = (s2, y1)" by fastforce
      obtain s3 t where t: "subscript_type adr s2 x1 = (s3, t)" by fastforce
      have "expr_step adr s s1 (subexprs x1)" by (rule first [OF _ a]) (use nm in \<open>simp_all add: e Subscript\<close>)
      then have i: "expr_step adr s s2 (subexprs x1 @ subexprs y1)"
        by (intro expr_spec_next [OF IH b]) (use nm in \<open>simp_all add: e Subscript\<close>)
      then have "typed_as (nodes s2) x1" by (simp add: expr_step_def all_checked_self)
      from step_plain [OF i subscript_type_step [OF expr_step_ok [OF i] this t]] show ?thesis
        using r by (auto simp: e Subscript a b t)
    next
      case (Member x field)
      obtain s1 x1 where a: "check_expr adr s x = (s1, x1)" by fastforce
      have i: "expr_step adr s s1 (subexprs x1)" by (rule first [OF _ a]) (use nm in \<open>simp_all add: e Member\<close>)
      have "named_types_ok (length (nodes s1)) e"
        using nm named_types_mono grows_length [OF expr_step_grows [OF i]] by (auto simp: e)
      then have "pred_option (\<lambda>t. t < length (nodes s1)) old" by (simp add: named_types_ok_def e Member)
      moreover have "pred_option (\<lambda>t. t < length (nodes s1)) (ast_type x1)"
        using expr_step_typed [OF i] by (auto simp: typed_as_def)
      ultimately show ?thesis
        using step_same [OF i member_type_less [OF expr_step_ok [OF i]]] r by (auto simp: e Member a)
    next
      case (MemberPtr x field)
      obtain s1 x1 where a: "check_expr adr s x = (s1, x1)" by fastforce
      obtain s2 t where t: "member_ptr_type adr s1 old x1 field = (s2, t)" by fastforce
      have i: "expr_step adr s s1 (subexprs x1)" by (rule first [OF _ a]) (use nm in \<open>simp_all add: e MemberPtr\<close>)
      have "named_types_ok (length (nodes s1)) e"
        using nm named_types_mono grows_length [OF expr_step_grows [OF i]] by (auto simp: e)
      then have "pred_option (\<lambda>t. t < length (nodes s1)) old" by (simp add: named_types_ok_def e MemberPtr)
      from step_plain [OF i member_ptr_type_step [OF expr_step_ok [OF i] expr_step_typed [OF i] this t]]
      show ?thesis using r by (auto simp: e MemberPtr a t)
    next
      case (Cast t x)
      obtain s1 x1 where a: "check_expr adr s x = (s1, x1)" by fastforce
      have i: "expr_step adr s s1 (subexprs x1)" by (rule first [OF _ a]) (use nm in \<open>simp_all add: e Cast\<close>)
      have "t < length (nodes s1)"
        using nm grows_length [OF expr_step_grows [OF i]] by (simp add: e Cast named_types_ok_def)
      then show ?thesis using step_same [OF i] r by (auto simp: e Cast a)
    next
      case (SizeofExpr x)
      obtain s1 x1 where a: "check_expr adr s x = (s1, x1)" by fastforce
      have i: "expr_step adr s s1 (subexprs x1)" by (rule first [OF _ a]) (use nm in \<open>simp_all add: e SizeofExpr\<close>)
      from step_same [OF i int_less(3) [OF expr_step_ok [OF i]]] show ?thesis
        using r by (auto simp: e SizeofExpr a)
    next
      case (Comma x y)
      obtain s1 x1 where a: "check_expr adr s x = (s1, x1)" by fastforce
      obtain s2 y1 where b: "check_expr adr s1 y = (s2, y1)" by fastforce
      have "expr_step adr s s1 (subexprs x1)" by (rule first [OF _ a]) (use nm in \<open>simp_all add: e Comma\<close>)
      then have "expr_step adr s s2 (subexprs x1 @ subexprs y1)"
        by (intro expr_spec_next [OF IH b]) (use nm in \<open>simp_all add: e Comma\<close>)
      then show ?thesis using comma_step r by (auto simp: e Comma a b)
    next
      case (InitList items n)
      obtain s1 is1 where a: "check_items adr s items = (s1, is1)" by fastforce
      have "expr_spec adr v" if "Ast l c t (Designator f n ix v) \<in> set items" for l c t f n ix v
      proof (rule IH)
        show "size v \<le> size b"
          using size_list_estimation' [OF that, of "size v" size] by (simp add: InitList)
      qed
      moreover have "expr_spec adr x" if "x \<in> set items" for x
        by (rule IHs [OF that]) (simp add: InitList)
      ultimately have i: "expr_step adr s s1 (items_exprs is1)"
        by (intro check_items_spec [OF _ _ a ok]) (use nm in \<open>simp_all add: e InitList\<close>)
      from step_same [OF i int_less(4) [OF expr_step_ok [OF i]]] show ?thesis
        using r by (auto simp: e InitList a)
    next
      case (Designator f n ix x)
      obtain s1 x1 where a: "check_expr adr s x = (s1, x1)" by fastforce
      have i: "expr_step adr s s1 (subexprs x1)" by (rule first [OF _ a]) (use nm in \<open>simp_all add: e Designator\<close>)
      obtain t where t: "t < length (nodes s1)" "ast_type x1 = Some t"
        using expr_step_typed [OF i] by (auto simp: typed_as_def)
      from step_same [OF i t(1)] show ?thesis using r by (auto simp: e Designator a t(2))
    next
      case (CompoundLit t x)
      obtain s1 x1 where a: "check_expr adr s x = (s1, x1)" by fastforce
      have i: "expr_step adr s s1 (subexprs x1)" by (rule first [OF _ a]) (use nm in \<open>simp_all add: e CompoundLit\<close>)
      have "t < length (nodes s1)"
        using nm grows_length [OF expr_step_grows [OF i]] by (simp add: e CompoundLit named_types_ok_def)
      then show ?thesis using step_same [OF i] r by (auto simp: e CompoundLit a)
    next
      case (StrLit x w)
      obtain tt t where t: "type_pointer adr (sm_types s) type_char QUAL_CONST = (tt, t)" by fastforce
      show ?thesis using str_lit_step [OF ok t] r by (auto simp: e StrLit t)
    next
      case (Ident name)
      then show ?thesis using check_ident_step [OF ok] r by (auto simp: e)
    qed (use r leaf_step [OF ok int_less(1) [OF ok]] leaf_step [OF ok int_less(3) [OF ok]]
        leaf_step [OF ok lit_type_less(1) [OF ok]] leaf_step [OF ok lit_type_less(2) [OF ok]] in \<open>auto simp: e\<close>)
  qed
qed

end
