(* ===== verification/SemaStmt.thy ===== *)
theory SemaStmt
  imports SemaProps
begin

section \<open>Correctness of the statement checker\<close>

text \<open>
  check_stmt and check_decl restore the context they are called in, leave every expression
  typed, and report exactly the misplaced \<open>break\<close>, \<open>continue\<close>, \<open>case\<close> and \<open>default\<close>, the
  jumps to missing labels and the modifications of const objects.
\<close>

subsection \<open>What a statement contains\<close>

definition opt_exprs :: "ast option \<Rightarrow> ast list" where
  "opt_exprs e = (case e of Some e \<Rightarrow> subexprs e | None \<Rightarrow> [])"

text \<open>The expressions below a statement and below declarations.\<close>

function stmt_exprs :: "ast \<Rightarrow> ast list"
and stmts_exprs :: "ast list \<Rightarrow> ast list"
and decls_exprs :: "ast list \<Rightarrow> ast list" where
  "stmt_exprs (Ast l c t b) =
     (case b of
        Compound ss \<Rightarrow> stmts_exprs ss
      | ExprStmt e \<Rightarrow> subexprs e
      | DeclStmt ds \<Rightarrow> decls_exprs ds
      | If e th el \<Rightarrow> subexprs e @ stmt_exprs th @ (case el of Some el \<Rightarrow> stmt_exprs el | None \<Rightarrow> [])
      | While e bd \<Rightarrow> subexprs e @ stmt_exprs bd
      | DoWhile e bd \<Rightarrow> stmt_exprs bd @ subexprs e
      | For i e n bd \<Rightarrow>
          (case i of Some i \<Rightarrow> stmt_exprs i | None \<Rightarrow> []) @ opt_exprs e @ opt_exprs n @ stmt_exprs bd
      | Return e \<Rightarrow> opt_exprs e
      | Switch e bd \<Rightarrow> subexprs e @ stmt_exprs bd
      | Case e st \<Rightarrow> subexprs e @ stmt_exprs st
      | Default st \<Rightarrow> stmt_exprs st
      | Label lb st \<Rightarrow> stmt_exprs st
      | _ \<Rightarrow> [])"
| "stmts_exprs [] = []"
| "stmts_exprs (x # xs) = stmt_exprs x @ stmts_exprs xs"
| "decls_exprs [] = []"
| "decls_exprs (Ast l c t b # ds) =
     (case b of
        VarDecl n ty i sc \<Rightarrow> opt_exprs i
      | FuncDef n ft ps bd sc fs \<Rightarrow> stmt_exprs bd
      | _ \<Rightarrow> []) @ decls_exprs ds"
  by pat_completeness auto
termination
  by (relation "measure (\<lambda>x. case x of Inl e \<Rightarrow> size e | Inr (Inl es) \<Rightarrow> size_list size es
        | Inr (Inr es) \<Rightarrow> size_list size es)") auto

text \<open>The types its declarations give to names.\<close>

definition param_types :: "ast list \<Rightarrow> tid list" where
  "param_types ps = concat (map (\<lambda>p. case ast_body p of ParamDecl n t \<Rightarrow> [t] | _ \<Rightarrow> []) ps)"

function stmt_types :: "ast \<Rightarrow> tid list"
and stmts_types :: "ast list \<Rightarrow> tid list"
and decls_types :: "ast list \<Rightarrow> tid list" where
  "stmt_types (Ast l c t b) =
     (case b of
        Compound ss \<Rightarrow> stmts_types ss
      | DeclStmt ds \<Rightarrow> decls_types ds
      | If e th el \<Rightarrow> stmt_types th @ (case el of Some el \<Rightarrow> stmt_types el | None \<Rightarrow> [])
      | While e bd \<Rightarrow> stmt_types bd
      | DoWhile e bd \<Rightarrow> stmt_types bd
      | For i e n bd \<Rightarrow> (case i of Some i \<Rightarrow> stmt_types i | None \<Rightarrow> []) @ stmt_types bd
      | Switch e bd \<Rightarrow> stmt_types bd
      | Case e st \<Rightarrow> stmt_types st
      | Default st \<Rightarrow> stmt_types st
      | Label lb st \<Rightarrow> stmt_types st
      | _ \<Rightarrow> [])"
| "stmts_types [] = []"
| "stmts_types (x # xs) = stmt_types x @ stmts_types xs"
| "decls_types [] = []"
| "decls_types (Ast l c t b # ds) =
     (case b of
        VarDecl n ty i sc \<Rightarrow> [ty]
      | TypedefDecl n ty \<Rightarrow> [ty]
      | FuncDef n ft ps bd sc fs \<Rightarrow> ft # param_types ps @ stmt_types bd
      | _ \<Rightarrow> []) @ decls_types ds"
  by pat_completeness auto
termination
  by (relation "measure (\<lambda>x. case x of Inl e \<Rightarrow> size e | Inr (Inl es) \<Rightarrow> size_list size es
        | Inr (Inr es) \<Rightarrow> size_list size es)") auto

text \<open>The misplaced statements in a statement, in or outside a loop and a switch, in a function
  with the labels \<open>G\<close>.\<close>

definition one_if :: "bool \<Rightarrow> int" where
  "one_if b = (if b then 1 else 0)"

function misuses :: "bool \<Rightarrow> bool \<Rightarrow> (string \<Rightarrow> bool) \<Rightarrow> ast \<Rightarrow> int"
and stmts_misuses :: "bool \<Rightarrow> bool \<Rightarrow> (string \<Rightarrow> bool) \<Rightarrow> ast list \<Rightarrow> int"
and decls_misuses :: "bool \<Rightarrow> bool \<Rightarrow> ast list \<Rightarrow> int" where
  "misuses loop sw G (Ast l c t b) =
     (case b of
        Compound ss \<Rightarrow> stmts_misuses loop sw G ss
      | DeclStmt ds \<Rightarrow> decls_misuses loop sw ds
      | If e th el \<Rightarrow> misuses loop sw G th + (case el of Some el \<Rightarrow> misuses loop sw G el | None \<Rightarrow> 0)
      | While e bd \<Rightarrow> misuses True sw G bd
      | DoWhile e bd \<Rightarrow> misuses True sw G bd
      | For i e n bd \<Rightarrow> (case i of Some i \<Rightarrow> misuses loop sw G i | None \<Rightarrow> 0) + misuses True sw G bd
      | Switch e bd \<Rightarrow> misuses loop True G bd
      | Case e st \<Rightarrow> one_if (\<not> sw) + misuses loop sw G st
      | Default st \<Rightarrow> one_if (\<not> sw) + misuses loop sw G st
      | Label lb st \<Rightarrow> misuses loop sw G st
      | Break \<Rightarrow> one_if (\<not> loop \<and> \<not> sw)
      | Continue \<Rightarrow> one_if (\<not> loop)
      | Goto lb \<Rightarrow> one_if (\<not> G lb)
      | _ \<Rightarrow> 0)"
| "stmts_misuses loop sw G [] = 0"
| "stmts_misuses loop sw G (x # xs) = misuses loop sw G x + stmts_misuses loop sw G xs"
| "decls_misuses loop sw [] = 0"
| "decls_misuses loop sw (Ast l c t b # ds) =
     (case b of FuncDef n ft ps bd sc fs \<Rightarrow> misuses loop sw (label_in bd) bd | _ \<Rightarrow> 0)
     + decls_misuses loop sw ds"
  by pat_completeness auto
termination
  by (relation "measure (\<lambda>x. case x of Inl (_, _, _, e) \<Rightarrow> size e | Inr (Inl (_, _, _, es)) \<Rightarrow> size_list size es
        | Inr (Inr (_, _, es)) \<Rightarrow> size_list size es)") auto

subsection \<open>Steps of the statement checker\<close>

definition ctx_ok :: "(tid \<Rightarrow> u64) \<Rightarrow> sema \<Rightarrow> bool" where
  "ctx_ok adr s \<longleftrightarrow> sema_ok adr s \<and> sm_scope s \<noteq> [] \<and> 0 \<le> sm_loop s \<and> 0 \<le> sm_switch s"

definition labels :: "sema \<Rightarrow> string \<Rightarrow> bool" where
  "labels s lb = (case sm_body s of None \<Rightarrow> False | Some bd \<Rightarrow> label_in bd lb)"

lemma labels_update [simp]:
  "labels (s\<lparr>sm_scope := x\<rparr>) = labels s" "labels (s\<lparr>sm_loop := i\<rparr>) = labels s"
  "labels (s\<lparr>sm_switch := i\<rparr>) = labels s"
  by (simp_all add: labels_def fun_eq_iff)

definition same_context :: "sema \<Rightarrow> sema \<Rightarrow> bool" where
  "same_context s s' \<longleftrightarrow> sm_ret s' = sm_ret s \<and> sm_body s' = sm_body s \<and> sm_loop s' = sm_loop s
     \<and> sm_switch s' = sm_switch s \<and> tl (sm_scope s') = tl (sm_scope s)"

text \<open>From \<open>s\<close> to \<open>s'\<close> the expressions \<open>es\<close> have been checked, \<open>k\<close> misplaced statements were
  reported, and names may have been added to the innermost scope.\<close>

definition stmt_step :: "(tid \<Rightarrow> u64) \<Rightarrow> sema \<Rightarrow> sema \<Rightarrow> int \<Rightarrow> ast list \<Rightarrow> bool" where
  "stmt_step adr s s' k es \<longleftrightarrow> ctx_ok adr s' \<and> grows (nodes s) (nodes s') \<and> same_context s s'
     \<and> all_checked (nodes s') es
     \<and> sm_errors s' = sm_errors s + (k + const_errors (nodes s') es)
     \<and> int (dg_errors (sm_diag s')) = int (dg_errors (sm_diag s)) + (k + const_errors (nodes s') es)"

lemma stmt_step_refl: "ctx_ok adr s \<Longrightarrow> stmt_step adr s s 0 []"
  by (simp add: stmt_step_def same_context_def)

lemma stmt_step_ctx: "stmt_step adr s s' k es \<Longrightarrow> ctx_ok adr s'"
  by (simp add: stmt_step_def)

lemma stmt_step_grows: "stmt_step adr s s' k es \<Longrightarrow> grows (nodes s) (nodes s')"
  by (simp add: stmt_step_def)

lemma stmt_step_context: "stmt_step adr s s' k es \<Longrightarrow> same_context s s'"
  by (simp add: stmt_step_def)

lemma same_context_labels: "same_context s s' \<Longrightarrow> labels s' = labels s"
  by (simp add: same_context_def labels_def fun_eq_iff)

lemma stmt_step_trans:
  assumes "stmt_step adr s s1 j es1" "stmt_step adr s1 s2 k es2"
  shows "stmt_step adr s s2 (j + k) (es1 @ es2)"
proof -
  have "all_checked (nodes s2) es1 \<and> const_errors (nodes s2) es1 = const_errors (nodes s1) es1"
    using assms all_checked_mono unfolding stmt_step_def by blast
  then show ?thesis
    using assms grows_trans unfolding stmt_step_def same_context_def by auto
qed

lemma expr_to_stmt: "expr_step adr s s' es \<Longrightarrow> ctx_ok adr s \<Longrightarrow> stmt_step adr s s' 0 es"
  by (simp add: expr_step_def stmt_step_def ctx_ok_def advances_def same_context_def)

text \<open>Leaving a loop, a switch, a block or a function.\<close>

definition body_context :: "sema \<Rightarrow> sema \<Rightarrow> bool" where
  "body_context s s1 \<longleftrightarrow> sm_types s1 = sm_types s \<and> sm_errors s1 = sm_errors s \<and> sm_diag s1 = sm_diag s"

definition restored :: "sema \<Rightarrow> sscope list \<Rightarrow> sema \<Rightarrow> sema" where
  "restored s scs s2 = s2\<lparr>sm_scope := scs, sm_ret := sm_ret s, sm_body := sm_body s, sm_loop := sm_loop s,
     sm_switch := sm_switch s\<rparr>"

lemma restored_step:
  assumes "stmt_step adr s1 s2 k es" "ctx_ok adr s" "body_context s s1"
    "scs = sm_scope s \<or> scs = sm_scope s2 \<and> tl (sm_scope s1) = tl (sm_scope s)"
  shows "stmt_step adr s (restored s scs s2) k es"
proof -
  have n: "nodes (restored s scs s2) = nodes s2" "nodes s1 = nodes s"
    using assms(3) by (simp_all add: restored_def body_context_def nodes_def)
  have g: "grows (nodes s) (nodes s2)" using assms(1) n by (simp add: stmt_step_def)
  have "pred_option (\<lambda>r. r < length (nodes s2)) (sm_ret s)"
    using assms(2) grows_length [OF g] by (auto simp: ctx_ok_def sema_ok_def elim: option.pred_mono_strong)
  moreover have "scopes_ok (length (nodes s2)) scs" "scs \<noteq> []" "tl scs = tl (sm_scope s)"
    using assms(1,2,4) scopes_ok_mono grows_length [OF g]
    by (auto simp: ctx_ok_def sema_ok_def stmt_step_def same_context_def)
  moreover have "store_ok adr (sm_types s2)" using assms(1) by (simp add: stmt_step_def ctx_ok_def sema_ok_def)
  ultimately have "ctx_ok adr (restored s scs s2)" "tl scs = tl (sm_scope s)"
    using assms(2) n(1) by (simp_all add: ctx_ok_def sema_ok_def) (simp_all add: restored_def)
  then show ?thesis
    using assms(1,3) g by (simp add: stmt_step_def n same_context_def) (simp add: restored_def body_context_def)
qed

lemma error_step:
  assumes "ctx_ok adr s" "b \<longleftrightarrow> c"
  shows "stmt_step adr s (if b then sema_error s l col m else s) (one_if c) []"
  using assms advances_error(1) [of adr s l col m] stmt_step_refl [OF assms(1)]
  by (auto simp: one_if_def stmt_step_def ctx_ok_def advances_def same_context_def)

lemma scopes_define_ok:
  assumes "scopes_ok n (sc # scs)" "pred_option (\<lambda>t. t < n) (sy_type y)"
  shows "scopes_ok n (sc[k := y # sc ! k] # scs)"
proof (cases "k < length sc")
  case True
  then have m: "sc ! k \<in> set sc" by simp
  show ?thesis
    unfolding scopes_ok_def list.pred_inject(2)
  proof (intro conjI)
    have "list_all (\<lambda>y. pred_option (\<lambda>t. t < n) (sy_type y)) b" if "b \<in> set (sc[k := y # sc ! k])" for b
    proof -
      have "b = y # sc ! k \<or> b \<in> set sc" using that set_update_subset_insert by fastforce
      then show ?thesis using assms m by (auto simp: scopes_ok_def list_all_iff)
    qed
    then show "list_all (list_all (\<lambda>y. pred_option (\<lambda>t. t < n) (sy_type y))) (sc[k := y # sc ! k])"
      by (simp add: list_all_iff)
  qed (use assms(1) in \<open>simp_all add: scopes_ok_def\<close>)
next
  case False
  then have "sc[k := y # sc ! k] = sc" by (simp add: list_update_beyond)
  then show ?thesis using assms(1) by simp
qed

lemma define_step:
  assumes "ctx_ok adr s" "pred_option (\<lambda>t. t < length (nodes s)) ty"
  shows "stmt_step adr s (sscope_define s name kind ty off g v) 0 []"
proof -
  obtain sc scs where sc: "sm_scope s = sc # scs" using assms(1) by (cases "sm_scope s") (auto simp: ctx_ok_def)
  show ?thesis
    using assms scopes_define_ok [of "length (nodes s)" sc scs]
    by (simp add: sscope_define_def Let_def sc stmt_step_def ctx_ok_def sema_ok_def same_context_def nodes_def)
qed

lemma all_checked_named: "all_checked (nodes s) es \<Longrightarrow> names_ok s es"
  by (auto simp: all_checked_def names_ok_def list_all_iff checked_def)

lemma check_expr_step:
  assumes "check_expr adr s e = (s', e')" "ctx_ok adr s" "names_ok s (subexprs e)"
  shows "stmt_step adr s s' 0 (subexprs e')"
  using expr_to_stmt [OF expr_specD [OF all_specs assms(1) _ assms(3)] assms(2)] assms(2)
  by (simp add: ctx_ok_def)

lemma check_opt_step:
  assumes "check_opt adr s e = (s', e')" "ctx_ok adr s" "names_ok s (opt_exprs e)"
  shows "stmt_step adr s s' 0 (opt_exprs e')"
proof (cases e)
  case (Some x)
  obtain s1 x1 where a: "check_expr adr s x = (s1, x1)" by fastforce
  show ?thesis using check_expr_step [OF a assms(2)] assms(1,3) by (auto simp: Some a check_opt_def opt_exprs_def)
qed (use assms stmt_step_refl in \<open>auto simp: check_opt_def opt_exprs_def\<close>)

lemma check_return_checked:
  assumes "all_checked (nodes s) (subexprs e)" "sema_ok adr s"
  shows "all_checked (nodes s) (subexprs (check_return s e))"
    "const_errors (nodes s) (subexprs (check_return s e)) = const_errors (nodes s) (subexprs e)"
  using make_cast_checked [OF assms(1)] assms
  by (auto simp: check_return_def sema_ok_def split: option.split)

text \<open>What a statement, a list of them or a list of declarations keeps of its shape.\<close>

definition types_ok :: "sema \<Rightarrow> tid list \<Rightarrow> bool" where
  "types_ok s ts \<longleftrightarrow> list_all (\<lambda>t. t < length (nodes s)) ts"

lemma types_ok_simps [simp]:
  "types_ok s []" "types_ok s (t # ts) \<longleftrightarrow> t < length (nodes s) \<and> types_ok s ts"
  "types_ok s (ts @ us) \<longleftrightarrow> types_ok s ts \<and> types_ok s us"
  by (simp_all add: types_ok_def)

lemma types_ok_grows: "types_ok s ts \<Longrightarrow> grows (nodes s) (nodes s') \<Longrightarrow> types_ok s' ts"
  using grows_length by (fastforce simp: types_ok_def list_all_iff)

lemma names_ok_grows: "names_ok s es \<Longrightarrow> grows (nodes s) (nodes s') \<Longrightarrow> names_ok s' es"
  using named_types_mono grows_length unfolding names_ok_def list_all_iff by blast

definition same_shape :: "ast \<Rightarrow> ast \<Rightarrow> bool" where
  "same_shape st st' \<longleftrightarrow> (\<forall>loop sw G. misuses loop sw G st' = misuses loop sw G st)
     \<and> label_in st' = label_in st \<and> stmt_types st' = stmt_types st"

definition same_shapes :: "ast list \<Rightarrow> ast list \<Rightarrow> bool" where
  "same_shapes ss ss' \<longleftrightarrow> (\<forall>loop sw G. stmts_misuses loop sw G ss' = stmts_misuses loop sw G ss)
     \<and> label_exists ss' = label_exists ss \<and> stmts_types ss' = stmts_types ss"

definition same_decl :: "ast \<Rightarrow> ast \<Rightarrow> bool" where
  "same_decl d d' \<longleftrightarrow> (\<forall>loop sw. decls_misuses loop sw [d'] = decls_misuses loop sw [d])
     \<and> decls_types [d'] = decls_types [d]"

lemma same_decl_refl [simp]: "same_decl d d"
  by (simp add: same_decl_def)

definition same_decls :: "ast list \<Rightarrow> ast list \<Rightarrow> bool" where
  "same_decls ds ds' \<longleftrightarrow> list_all2 same_decl ds ds'"

lemma decls_append:
  "decls_exprs (xs @ ys) = decls_exprs xs @ decls_exprs ys"
  "decls_types (xs @ ys) = decls_types xs @ decls_types ys"
  "decls_misuses loop sw (xs @ ys) = decls_misuses loop sw xs + decls_misuses loop sw ys"
proof -
  have "decls_exprs (x # xs) = decls_exprs [x] @ decls_exprs xs" "decls_types (x # xs) = decls_types [x] @ decls_types xs"
    "decls_misuses loop sw (x # xs) = decls_misuses loop sw [x] + decls_misuses loop sw xs" for x xs
    by (cases x; simp)+
  note cons = this
  show "decls_exprs (xs @ ys) = decls_exprs xs @ decls_exprs ys"
  proof (induction xs)
    case (Cons x xs)
    then show ?case using cons(1) [of x "xs @ ys"] cons(1) [of x xs] by simp
  qed simp
  show "decls_types (xs @ ys) = decls_types xs @ decls_types ys"
  proof (induction xs)
    case (Cons x xs)
    then show ?case using cons(2) [of x "xs @ ys"] cons(2) [of x xs] by simp
  qed simp
  show "decls_misuses loop sw (xs @ ys) = decls_misuses loop sw xs + decls_misuses loop sw ys"
  proof (induction xs)
    case (Cons x xs)
    then show ?case using cons(3) [of x "xs @ ys"] cons(3) [of x xs] by simp
  qed simp
qed

lemma same_decls_sums:
  assumes "same_decls ds ds'"
  shows "decls_misuses loop sw ds' = decls_misuses loop sw ds" "decls_types ds' = decls_types ds"
proof -
  have "decls_misuses loop sw ds' = decls_misuses loop sw ds \<and> decls_types ds' = decls_types ds"
    using assms unfolding same_decls_def
  proof (induction rule: list_all2_induct)
    case (Cons d ds d' ds')
    then show ?case
      using decls_append(2) [of "[d]" ds] decls_append(2) [of "[d']" ds']
        decls_append(3) [of loop sw "[d]" ds] decls_append(3) [of loop sw "[d']" ds']
      by (simp add: same_decl_def)
  qed simp
  then show "decls_misuses loop sw ds' = decls_misuses loop sw ds" "decls_types ds' = decls_types ds" by simp_all
qed

definition miscount :: "sema \<Rightarrow> ast \<Rightarrow> int" where
  "miscount s st = misuses (0 < sm_loop s) (0 < sm_switch s) (labels s) st"

definition stmt_spec :: "(tid \<Rightarrow> u64) \<Rightarrow> ast \<Rightarrow> bool" where
  "stmt_spec adr st \<longleftrightarrow>
     (\<forall>s s' st'. check_stmt adr s st = (s', st') \<longrightarrow> ctx_ok adr s \<longrightarrow> names_ok s (stmt_exprs st) \<longrightarrow>
        types_ok s (stmt_types st) \<longrightarrow>
        stmt_step adr s s' (miscount s st) (stmt_exprs st') \<and> same_shape st st')"

lemma stmt_specD:
  assumes "stmt_spec adr st" "check_stmt adr s st = (s', st')" "ctx_ok adr s" "names_ok s (stmt_exprs st)"
    "types_ok s (stmt_types st)"
  shows "stmt_step adr s s' (miscount s st) (stmt_exprs st')" "same_shape st st'"
  using assms by (simp_all add: stmt_spec_def)

lemma miscount_context: "same_context s s' \<Longrightarrow> miscount s' st = miscount s st"
  by (simp add: miscount_def same_context_labels) (simp add: same_context_def)

text \<open>A statement checked after others.\<close>

lemma stmt_spec_next:
  assumes "stmt_spec adr st" "check_stmt adr s1 st = (s2, st')" "stmt_step adr s s1 k es"
    "names_ok s (stmt_exprs st)" "types_ok s (stmt_types st)"
  shows "stmt_step adr s s2 (k + miscount s st) (es @ stmt_exprs st')" "same_shape st st'"
  using stmt_specD [OF assms(1,2) stmt_step_ctx [OF assms(3)] names_ok_grows [OF assms(4) stmt_step_grows [OF assms(3)]]
      types_ok_grows [OF assms(5) stmt_step_grows [OF assms(3)]]]
    stmt_step_trans [OF assms(3)] miscount_context [OF stmt_step_context [OF assms(3)]]
  by auto

lemma check_expr_next:
  assumes "check_expr adr s1 e = (s2, e')" "stmt_step adr s s1 k es" "names_ok s (subexprs e)"
  shows "stmt_step adr s s2 k (es @ subexprs e')"
  using stmt_step_trans [OF assms(2) check_expr_step [OF assms(1) stmt_step_ctx [OF assms(2)]
      names_ok_grows [OF assms(3) stmt_step_grows [OF assms(2)]]]] by simp

lemma check_opt_next:
  assumes "check_opt adr s1 e = (s2, e')" "stmt_step adr s s1 k es" "names_ok s (opt_exprs e)"
  shows "stmt_step adr s s2 k (es @ opt_exprs e')"
  using stmt_step_trans [OF assms(2) check_opt_step [OF assms(1) stmt_step_ctx [OF assms(2)]
      names_ok_grows [OF assms(3) stmt_step_grows [OF assms(2)]]]] by simp

lemma check_stmts_spec:
  assumes "\<And>x. x \<in> set ss \<Longrightarrow> stmt_spec adr x" "check_stmts adr s ss = (s', ss')" "ctx_ok adr s"
    "names_ok s (stmts_exprs ss)" "types_ok s (stmts_types ss)"
  shows "stmt_step adr s s' (stmts_misuses (0 < sm_loop s) (0 < sm_switch s) (labels s) ss) (stmts_exprs ss')
    \<and> same_shapes ss ss'"
  using assms
proof (induction ss arbitrary: s s' ss')
  case (Cons x xs)
  obtain s1 x1 where a: "check_stmt adr s x = (s1, x1)" by fastforce
  obtain s2 xs1 where b: "check_stmts adr s1 xs = (s2, xs1)" by fastforce
  have i: "stmt_step adr s s1 (miscount s x) (stmt_exprs x1)" "same_shape x x1"
    using stmt_specD [OF Cons.prems(1) a Cons.prems(3)] Cons.prems(4,5) by simp_all
  note g = stmt_step_grows [OF i(1)]
  have "stmt_step adr s1 s2 (stmts_misuses (0 < sm_loop s1) (0 < sm_switch s1) (labels s1) xs) (stmts_exprs xs1)
      \<and> same_shapes xs xs1"
    by (rule Cons.IH [OF Cons.prems(1) b stmt_step_ctx [OF i(1)] names_ok_grows [OF _ g] types_ok_grows [OF _ g]])
      (use Cons.prems(4,5) in simp_all)
  then show ?case
    using stmt_step_trans [OF i(1), of s2] i(2) Cons.prems(2) stmt_step_context [OF i(1)]
      same_context_labels [OF stmt_step_context [OF i(1)]]
    by (auto simp: a b miscount_def same_shape_def same_shapes_def same_context_def)
qed (auto simp: stmt_step_refl same_shapes_def)

lemma body_ctx_names:
  "body_context s s1 \<Longrightarrow> names_ok s1 es = names_ok s es" "body_context s s1 \<Longrightarrow> types_ok s1 ts = types_ok s ts"
  by (simp_all add: body_context_def names_ok_def types_ok_def nodes_def)

lemma body_spec:
  assumes "stmt_spec adr bd" "check_stmt adr s1 bd = (s2, bd')" "ctx_ok adr s" "ctx_ok adr s1" "body_context s s1"
    "names_ok s (stmt_exprs bd)" "types_ok s (stmt_types bd)"
  shows "stmt_step adr s1 s2 (miscount s1 bd) (stmt_exprs bd')" "same_shape bd bd'"
  using stmt_specD [OF assms(1,2,4)] assms(6,7) by (simp_all add: body_ctx_names [OF assms(5)])

text \<open>A body in a loop or a switch after \<open>es\<close>.\<close>

lemma loop_body_step:
  assumes "stmt_step adr s s1 k es" "stmt_spec adr bd" "check_stmt adr (enter_loop s1) bd = (s2, bd')"
    "names_ok s (stmt_exprs bd)" "types_ok s (stmt_types bd)"
  shows "stmt_step adr s (leave_loop s2) (k + misuses True (0 < sm_switch s) (labels s) bd) (es @ stmt_exprs bd')"
    "same_shape bd bd'"
proof -
  note ctx = stmt_step_ctx [OF assms(1)] and g = stmt_step_grows [OF assms(1)]
  note sc = stmt_step_context [OF assms(1)]
  have b: "body_context s1 (enter_loop s1)" "ctx_ok adr (enter_loop s1)"
    using ctx by (simp_all add: body_context_def enter_loop_def ctx_ok_def sema_ok_def nodes_def)
  note sp = body_spec [OF assms(2,3) ctx b(2,1) names_ok_grows [OF assms(4) g] types_ok_grows [OF assms(5) g]]
  have c: "same_context (enter_loop s1) s2" by (rule stmt_step_context [OF sp(1)])
  then have r: "restored s1 (sm_scope s2) s2 = leave_loop s2"
    by (simp add: restored_def leave_loop_def enter_loop_def same_context_def)
  have "stmt_step adr s1 (leave_loop s2) (miscount (enter_loop s1) bd) (stmt_exprs bd')"
    using restored_step [OF sp(1) ctx b(1), of "sm_scope s2"] by (simp add: r) (simp add: enter_loop_def)
  moreover have "miscount (enter_loop s1) bd = misuses True (0 < sm_switch s) (labels s) bd"
    using ctx sc same_context_labels [OF sc]
    by (simp add: miscount_def enter_loop_def ctx_ok_def same_context_def)
  ultimately show "stmt_step adr s (leave_loop s2) (k + misuses True (0 < sm_switch s) (labels s) bd) (es @ stmt_exprs bd')"
    using stmt_step_trans [OF assms(1)] by simp
  show "same_shape bd bd'" by (rule sp(2))
qed

lemma switch_body_step:
  assumes "stmt_step adr s s1 k es" "stmt_spec adr bd" "check_stmt adr (s1\<lparr>sm_switch := sm_switch s1 + 1\<rparr>) bd = (s2, bd')"
    "names_ok s (stmt_exprs bd)" "types_ok s (stmt_types bd)"
  shows "stmt_step adr s (s2\<lparr>sm_switch := sm_switch s2 - 1\<rparr>) (k + misuses (0 < sm_loop s) True (labels s) bd)
      (es @ stmt_exprs bd')" "same_shape bd bd'"
proof -
  note ctx = stmt_step_ctx [OF assms(1)] and g = stmt_step_grows [OF assms(1)]
  note sc = stmt_step_context [OF assms(1)]
  let ?s = "s1\<lparr>sm_switch := sm_switch s1 + 1\<rparr>"
  have b: "body_context s1 ?s" "ctx_ok adr ?s"
    using ctx by (simp_all add: body_context_def ctx_ok_def sema_ok_def nodes_def)
  note sp = body_spec [OF assms(2,3) ctx b(2,1) names_ok_grows [OF assms(4) g] types_ok_grows [OF assms(5) g]]
  have c: "same_context ?s s2" by (rule stmt_step_context [OF sp(1)])
  then have r: "restored s1 (sm_scope s2) s2 = s2\<lparr>sm_switch := sm_switch s2 - 1\<rparr>"
    by (simp add: restored_def same_context_def)
  have "stmt_step adr s1 (s2\<lparr>sm_switch := sm_switch s2 - 1\<rparr>) (miscount ?s bd) (stmt_exprs bd')"
    using restored_step [OF sp(1) ctx b(1), of "sm_scope s2"] by (simp add: r)
  moreover have "miscount ?s bd = misuses (0 < sm_loop s) True (labels s) bd"
    using ctx sc same_context_labels [OF sc] by (simp add: miscount_def ctx_ok_def same_context_def)
  ultimately show "stmt_step adr s (s2\<lparr>sm_switch := sm_switch s2 - 1\<rparr>)
      (k + misuses (0 < sm_loop s) True (labels s) bd) (es @ stmt_exprs bd')"
    using stmt_step_trans [OF assms(1)] by simp
  show "same_shape bd bd'" by (rule sp(2))
qed

text \<open>A block.\<close>

lemma block_step:
  assumes "\<And>x. x \<in> set ss \<Longrightarrow> stmt_spec adr x"
    "check_stmts adr (s\<lparr>sm_scope := sscope_new (sm_scope s)\<rparr>) ss = (s', ss')" "ctx_ok adr s"
    "names_ok s (stmts_exprs ss)" "types_ok s (stmts_types ss)"
  shows "stmt_step adr s (s'\<lparr>sm_scope := sm_scope s\<rparr>)
      (stmts_misuses (0 < sm_loop s) (0 < sm_switch s) (labels s) ss) (stmts_exprs ss')" "same_shapes ss ss'"
proof -
  let ?s = "s\<lparr>sm_scope := sscope_new (sm_scope s)\<rparr>"
  have b: "body_context s ?s" "ctx_ok adr ?s"
    using assms(3)
    by (simp_all add: body_context_def ctx_ok_def sema_ok_def nodes_def sscope_new_def scopes_ok_def list_all_iff)
  note sp = check_stmts_spec [OF assms(1,2) b(2), unfolded body_ctx_names [OF b(1)], OF _ assms(4,5)]
  have st: "stmt_step adr ?s s' (stmts_misuses (0 < sm_loop s) (0 < sm_switch s) (labels s) ss) (stmts_exprs ss')"
    and sh: "same_shapes ss ss'"
    using sp by simp_all
  have r: "restored s (sm_scope s) s' = s'\<lparr>sm_scope := sm_scope s\<rparr>"
    using stmt_step_context [OF st] by (simp add: restored_def same_context_def)
  show "stmt_step adr s (s'\<lparr>sm_scope := sm_scope s\<rparr>)
      (stmts_misuses (0 < sm_loop s) (0 < sm_switch s) (labels s) ss) (stmts_exprs ss')"
    using restored_step [OF st assms(3) b(1), of "sm_scope s"] by (simp add: r)
  show "same_shapes ss ss'" by (rule sh)
qed

subsection \<open>Declarations\<close>

lemma define_body_context: "body_context s (sscope_define s name kind ty off g v)"
  by (simp add: body_context_def sscope_define_def Let_def split: list.split)

lemma define_params_step:
  assumes "ctx_ok adr s" "types_ok s (param_types ps)"
  shows "ctx_ok adr (fold define_param ps s) \<and> same_context s (fold define_param ps s)
    \<and> body_context s (fold define_param ps s)"
  using assms
proof (induction ps arbitrary: s)
  case (Cons p ps)
  have step: "stmt_step adr s (define_param p s) 0 []" "body_context s (define_param p s)"
    using Cons.prems define_step [OF Cons.prems(1)] stmt_step_refl [OF Cons.prems(1)] define_body_context
    by (auto simp: define_param_def param_types_def body_context_def [of s s] split: ast_body.split option.split)
  have "ctx_ok adr (fold define_param ps (define_param p s)) \<and> same_context (define_param p s) (fold define_param ps (define_param p s))
      \<and> body_context (define_param p s) (fold define_param ps (define_param p s))"
    by (rule Cons.IH [OF stmt_step_ctx [OF step(1)] types_ok_grows [OF _ stmt_step_grows [OF step(1)]]])
      (use Cons.prems(2) in \<open>simp add: param_types_def\<close>)
  then show ?case using step stmt_step_context [OF step(1)] by (auto simp: same_context_def body_context_def)
qed (simp add: same_context_def body_context_def)

lemma define_enums_step:
  assumes "ctx_ok adr s"
  shows "stmt_step adr s (fold (define_enum g) es s) 0 []"
  using assms
proof (induction es arbitrary: s)
  case (Cons e es)
  have "stmt_step adr s (define_enum g e s) 0 []"
    unfolding define_enum_def
    by (rule define_step [OF Cons.prems])
      (use Cons.prems int_less(1) [of adr s] in \<open>simp add: ctx_ok_def\<close>)
  from stmt_step_trans [OF this Cons.IH [OF stmt_step_ctx [OF this]]] show ?case by simp
qed (simp add: stmt_step_refl)

lemma func_step:
  assumes "ctx_ok adr s" "stmt_spec adr bd" "check_stmt adr (enter_func s ft bd ps) bd = (s2, bd')"
    "names_ok s (stmt_exprs bd)" "types_ok s (stmt_types bd)" "ft < length (nodes s)" "types_ok s (param_types ps)"
  shows "stmt_step adr s (leave_func s s2) (misuses (0 < sm_loop s) (0 < sm_switch s) (label_in bd) bd) (stmt_exprs bd')"
    "same_shape bd bd'"
proof -
  define s0 where "s0 = s\<lparr>sm_ret := (case body (nodes s) ft of Func r qs n v \<Rightarrow> Some r | _ \<Rightarrow> sm_ret s),
      sm_body := Some bd, sm_scope := sscope_new (sm_scope s)\<rparr>"
  have r: "pred_option (\<lambda>r. r < length (nodes s)) (case body (nodes s) ft of Func r qs n v \<Rightarrow> Some r | _ \<Rightarrow> sm_ret s)"
    using assms(1) body_refs(2) [OF _ assms(6)] by (auto simp: ctx_ok_def sema_ok_def split: type_body.split)
  have ns: "nodes s0 = nodes s" by (simp add: s0_def nodes_def)
  have "sema_ok adr s0"
    using assms(1) r by (simp add: ctx_ok_def sema_ok_def ns)
      (simp add: s0_def sscope_new_def scopes_ok_def list_all_iff)
  then have c0: "ctx_ok adr s0" "types_ok s0 (param_types ps)"
    using assms(1,7) by (simp_all add: ctx_ok_def s0_def sscope_new_def types_ok_def nodes_def)
  let ?s = "enter_func s ft bd ps"
  have e: "?s = fold define_param ps s0" by (simp add: enter_func_def s0_def)
  note p = define_params_step [OF c0, folded e]
  have b: "body_context s ?s" using p by (simp add: body_context_def s0_def)
  note sp = body_spec [OF assms(2,3,1) _ b assms(4,5)]
  have st: "stmt_step adr ?s s2 (miscount ?s bd) (stmt_exprs bd')" and sh: "same_shape bd bd'"
    using sp p by blast+
  have c: "same_context s0 s2"
    using p stmt_step_context [OF st] by (simp add: same_context_def)
  have m: "miscount ?s bd = misuses (0 < sm_loop s) (0 < sm_switch s) (label_in bd) bd"
  proof -
    have "miscount ?s bd = miscount s0 bd" using p miscount_context by blast
    moreover have "labels s0 = label_in bd" by (simp add: labels_def s0_def fun_eq_iff)
    ultimately show ?thesis by (simp add: miscount_def s0_def)
  qed
  have "restored s (sm_scope s) s2 = leave_func s s2"
    using c by (simp add: restored_def leave_func_def same_context_def s0_def)
  then show "stmt_step adr s (leave_func s s2) (misuses (0 < sm_loop s) (0 < sm_switch s) (label_in bd) bd) (stmt_exprs bd')"
    using restored_step [OF st assms(1) b, of "sm_scope s"] by (simp add: m)
  show "same_shape bd bd'" by (rule sh)
qed

lemma check_decl_one: "\<exists>s' b'. check_decl adr s [Ast l c t b] g = (s', [Ast l c t b'])"
  by (simp add: case_prod_beta)

lemma check_decl_spec:
  assumes "\<And>l c t n ft ps bd sc fs. Ast l c t (FuncDef n ft ps bd sc fs) \<in> set ds \<Longrightarrow> stmt_spec adr bd"
    "check_decl adr s ds g = (s', ds')" "ctx_ok adr s" "names_ok s (decls_exprs ds)" "types_ok s (decls_types ds)"
  shows "stmt_step adr s s' (decls_misuses (0 < sm_loop s) (0 < sm_switch s) ds) (decls_exprs ds')
    \<and> same_decls ds ds'"
  using assms
proof (induction ds arbitrary: s s' ds')
  case (Cons d ds)
  obtain l c t b where d: "d = Ast l c t b" by (cases d)
  obtain s1 b1 where one: "check_decl adr s [d] g = (s1, [Ast l c t b1])" using check_decl_one d by blast
  obtain s2 ds1 where rest: "check_decl adr s1 ds g = (s2, ds1)" by fastforce
  have whole: "check_decl adr s (d # ds) g = (s2, Ast l c t b1 # ds1)"
    using one rest by (auto simp: d split: prod.splits)
  have i: "stmt_step adr s s1 (decls_misuses (0 < sm_loop s) (0 < sm_switch s) [d]) (decls_exprs [Ast l c t b1])
      \<and> same_decls [d] [Ast l c t b1]"
  proof (cases b)
    case (VarDecl n ty i sc)
    obtain s0 i0 where a: "check_opt adr s i = (s0, i0)" by fastforce
    have st: "stmt_step adr s s0 0 (opt_exprs i0)"
      using check_opt_step [OF a Cons.prems(3)] Cons.prems(4) by (simp add: d VarDecl)
    have "stmt_step adr s0 (sscope_define s0 n SSYM_VAR (Some ty) 0 g 0) 0 []"
      by (rule define_step [OF stmt_step_ctx [OF st]])
        (use Cons.prems(5) grows_length [OF stmt_step_grows [OF st]] in \<open>simp add: d VarDecl\<close>)
    from stmt_step_trans [OF st this] show ?thesis
      using one by (auto simp: d VarDecl a same_decls_def same_decl_def)
  next
    case (TypedefDecl n ty)
    have "stmt_step adr s (sscope_define s n SSYM_TYPEDEF (Some ty) 0 False 0) 0 []"
      by (rule define_step [OF Cons.prems(3)]) (use Cons.prems(5) in \<open>simp add: d TypedefDecl\<close>)
    then show ?thesis using one by (auto simp: d TypedefDecl same_decls_def same_decl_def)
  next
    case (FuncDef n ft ps bd sc fs)
    define s0 where "s0 = sscope_define s n SSYM_FUNC (Some ft) 0 True 0"
    obtain s3 bd1 where a: "check_stmt adr (enter_func s0 ft bd ps) bd = (s3, bd1)" by fastforce
    have st: "stmt_step adr s s0 0 []"
      unfolding s0_def by (rule define_step [OF Cons.prems(3)]) (use Cons.prems(5) in \<open>simp add: d FuncDef\<close>)
    note g = stmt_step_grows [OF st]
    have sp: "stmt_spec adr bd" using Cons.prems(1) [of l c t n ft ps bd sc fs] by (simp add: d FuncDef)
    have fs: "stmt_step adr s0 (leave_func s0 s3) (misuses (0 < sm_loop s0) (0 < sm_switch s0) (label_in bd) bd) (stmt_exprs bd1)"
        "same_shape bd bd1"
      using func_step [OF stmt_step_ctx [OF st] sp a names_ok_grows [OF _ g] types_ok_grows [OF _ g]]
        types_ok_grows [OF _ g] Cons.prems(4,5) grows_length [OF g]
      by (simp_all add: d FuncDef)
    have "sm_loop s0 = sm_loop s" "sm_switch s0 = sm_switch s"
      using stmt_step_context [OF st] by (simp_all add: same_context_def)
    then show ?thesis
      using stmt_step_trans [OF st fs(1)] fs(2) one
      by (auto simp: d FuncDef a s0_def [symmetric] same_decls_def same_decl_def same_shape_def)
  next
    case (EnumDecl ty)
    then show ?thesis
      using one define_enums_step [OF Cons.prems(3)] stmt_step_refl [OF Cons.prems(3)]
      by (auto simp: d same_decls_def same_decl_def split: type_body.splits)
  qed (use one stmt_step_refl [OF Cons.prems(3)] in \<open>auto simp: d same_decls_def\<close>)
  have fd: "stmt_spec adr bd" if "Ast l c t (FuncDef n ft ps bd sc fs) \<in> set ds" for l c t n ft ps bd sc fs
    using Cons.prems(1) [of l c t n ft ps bd sc fs] that by simp
  note g = stmt_step_grows [OF conjunct1 [OF i]] and cx = stmt_step_context [OF conjunct1 [OF i]]
  have "stmt_step adr s1 s2 (decls_misuses (0 < sm_loop s1) (0 < sm_switch s1) ds) (decls_exprs ds1) \<and> same_decls ds ds1"
    by (rule Cons.IH [OF fd rest stmt_step_ctx [OF conjunct1 [OF i]] names_ok_grows [OF _ g] types_ok_grows [OF _ g]])
      (use Cons.prems(4,5) in \<open>simp_all add: d\<close>)
  moreover have "s' = s2" "ds' = Ast l c t b1 # ds1"
    using Cons.prems(2) by (simp_all add: whole del: check_decl.simps)
  ultimately show ?case
    using stmt_step_trans [OF conjunct1 [OF i], of s2] i cx
    by (auto simp: d same_decls_def same_decl_def same_context_def)
qed (simp add: stmt_step_refl same_decls_def same_decl_def)

subsection \<open>The whole statement\<close>

lemma all_stmt_specs: "stmt_spec adr st"
proof (induction "size st" arbitrary: st rule: less_induct)
  case less
  obtain l c t b where e: "st = Ast l c t b" by (cases st)
  have IH: "stmt_spec adr x" if "size x \<le> size b" for x
    using less that by (simp add: e)
  have inlist: "size x \<le> size_list size xs" if "x \<in> set xs" for x :: ast and xs
    using size_list_estimation' [OF that, of "size x" size] by simp
  show ?case
    unfolding stmt_spec_def
  proof (intro allI impI)
    fix s s' st'
    assume r: "check_stmt adr s st = (s', st')" and ctx: "ctx_ok adr s"
      and nm: "names_ok s (stmt_exprs st)" and ty: "types_ok s (stmt_types st)"
    note refl = stmt_step_refl [OF ctx]
    show "stmt_step adr s s' (miscount s st) (stmt_exprs st') \<and> same_shape st st'"
    proof (cases b)
      case (Compound ss)
      obtain s1 ss1 where a: "check_stmts adr (s\<lparr>sm_scope := sscope_new (sm_scope s)\<rparr>) ss = (s1, ss1)" by fastforce
      have "stmt_spec adr x" if "x \<in> set ss" for x
        by (rule IH) (use inlist [OF that] in \<open>simp add: Compound\<close>)
      from block_step [OF this a ctx] show ?thesis
        using r nm ty by (auto simp: e Compound a miscount_def same_shape_def same_shapes_def fun_eq_iff)
    next
      case (ExprStmt x)
      obtain s1 x1 where a: "check_expr adr s x = (s1, x1)" by fastforce
      show ?thesis
        using check_expr_step [OF a ctx] r nm by (auto simp: e ExprStmt a miscount_def same_shape_def fun_eq_iff)
    next
      case (DeclStmt ds)
      obtain s1 ds1 where a: "check_decl adr s ds False = (s1, ds1)" by fastforce
      have "stmt_spec adr bd" if "Ast l c t (FuncDef n ft ps bd sc fs) \<in> set ds" for l c t n ft ps bd sc fs
        by (rule IH) (use inlist [OF that] in \<open>simp add: DeclStmt\<close>)
      from check_decl_spec [OF this a ctx] show ?thesis
        using r nm ty same_decls_sums [of ds ds1]
        by (auto simp: e DeclStmt a miscount_def same_shape_def fun_eq_iff)
    next
      case (If x th el)
      obtain s1 x1 where a: "check_expr adr s x = (s1, x1)" by fastforce
      obtain s2 th1 where d: "check_stmt adr s1 th = (s2, th1)" by fastforce
      have i: "stmt_step adr s s1 0 (subexprs x1)"
        by (rule check_expr_step [OF a ctx]) (use nm in \<open>simp add: e If\<close>)
      have j: "stmt_step adr s s2 (0 + miscount s th) (subexprs x1 @ stmt_exprs th1)" "same_shape th th1"
        by (rule stmt_spec_next [OF IH d i]; use nm ty in \<open>simp add: e If\<close>)+
      show ?thesis
      proof (cases el)
        case None
        then show ?thesis using j r by (auto simp: e If a d miscount_def same_shape_def fun_eq_iff)
      next
        case (Some y)
        obtain s3 y1 where f: "check_stmt adr s2 y = (s3, y1)" by fastforce
        have "stmt_step adr s s3 (0 + miscount s th + miscount s y) ((subexprs x1 @ stmt_exprs th1) @ stmt_exprs y1)"
            "same_shape y y1"
          by (rule stmt_spec_next [OF IH f j(1)]; use nm ty in \<open>simp add: e If Some\<close>)+
        then show ?thesis
          using j(2) r by (auto simp: e If Some a d f miscount_def same_shape_def fun_eq_iff)
      qed
    next
      case (While x bd)
      obtain s1 x1 where a: "check_expr adr s x = (s1, x1)" by fastforce
      obtain s2 bd1 where d: "check_stmt adr (enter_loop s1) bd = (s2, bd1)" by fastforce
      have i: "stmt_step adr s s1 0 (subexprs x1)"
        by (rule check_expr_step [OF a ctx]) (use nm in \<open>simp add: e While\<close>)
      have "stmt_step adr s (leave_loop s2) (0 + misuses True (0 < sm_switch s) (labels s) bd)
          (subexprs x1 @ stmt_exprs bd1)" "same_shape bd bd1"
        by (rule loop_body_step [OF i IH d]; use nm ty in \<open>simp add: e While\<close>)+
      then show ?thesis using r by (auto simp: e While a d miscount_def same_shape_def fun_eq_iff)
    next
      case (DoWhile x bd)
      obtain s2 bd1 where d: "check_stmt adr (enter_loop s) bd = (s2, bd1)" by fastforce
      obtain s3 x1 where a: "check_expr adr (leave_loop s2) x = (s3, x1)" by fastforce
      have i: "stmt_step adr s (leave_loop s2) (0 + misuses True (0 < sm_switch s) (labels s) bd) ([] @ stmt_exprs bd1)"
          "same_shape bd bd1"
        by (rule loop_body_step [OF refl IH d]; use nm ty in \<open>simp add: e DoWhile\<close>)+
      have "stmt_step adr s s3 (0 + misuses True (0 < sm_switch s) (labels s) bd) (([] @ stmt_exprs bd1) @ subexprs x1)"
        by (rule check_expr_next [OF a i(1)]) (use nm in \<open>simp add: e DoWhile\<close>)
      then show ?thesis using i(2) r by (auto simp: e DoWhile a d miscount_def same_shape_def fun_eq_iff)
    next
      case (For init x n bd)
      obtain s1 init1 where a: "(case init of None \<Rightarrow> (s, None)
          | Some i \<Rightarrow> let (s, i) = check_stmt adr s i in (s, Some i)) = (s1, init1)" by fastforce
      obtain s2 x1 where d: "check_opt adr s1 x = (s2, x1)" by fastforce
      obtain s3 n1 where f: "check_opt adr s2 n = (s3, n1)" by fastforce
      obtain s4 bd1 where g: "check_stmt adr (enter_loop s3) bd = (s4, bd1)" by fastforce
      let ?ie = "case init1 of Some i \<Rightarrow> stmt_exprs i | None \<Rightarrow> []"
      let ?ik = "case init of Some i \<Rightarrow> miscount s i | None \<Rightarrow> 0"
      have i: "stmt_step adr s s1 ?ik ?ie \<and> rel_option same_shape init init1"
      proof (cases init)
        case (Some y)
        obtain s5 y1 where h: "check_stmt adr s y = (s5, y1)" by fastforce
        have "stmt_step adr s s5 (miscount s y) (stmt_exprs y1)" "same_shape y y1"
          by (rule stmt_specD [OF IH h ctx]; use nm ty in \<open>simp add: e For Some\<close>)+
        then show ?thesis using a by (auto simp: Some h)
      qed (use a refl in auto)
      have j: "stmt_step adr s s2 ?ik (?ie @ opt_exprs x1)"
        by (rule check_opt_next [OF d conjunct1 [OF i]]) (use nm in \<open>simp add: e For\<close>)
      have k: "stmt_step adr s s3 ?ik ((?ie @ opt_exprs x1) @ opt_exprs n1)"
        by (rule check_opt_next [OF f j]) (use nm in \<open>simp add: e For\<close>)
      have "stmt_step adr s (leave_loop s4) (?ik + misuses True (0 < sm_switch s) (labels s) bd)
          (((?ie @ opt_exprs x1) @ opt_exprs n1) @ stmt_exprs bd1)" "same_shape bd bd1"
        by (rule loop_body_step [OF k IH g]; use nm ty in \<open>simp add: e For\<close>)+
      moreover have "s' = leave_loop s4" "st' = Ast l c t (For init1 x1 n1 bd1)"
        using r [unfolded e For check_stmt.simps ast_body.case a] by (auto simp: d f g)
      ultimately show ?thesis
        using i by (cases init; cases init1) (auto simp: e For miscount_def same_shape_def fun_eq_iff)
    next
      case (Return x)
      show ?thesis
      proof (cases x)
        case (Some y)
        obtain s1 y1 where a: "check_expr adr s y = (s1, y1)" by fastforce
        have i: "stmt_step adr s s1 0 (subexprs y1)"
          by (rule check_expr_step [OF a ctx]) (use nm in \<open>simp add: e Return Some opt_exprs_def\<close>)
        then have "stmt_step adr s s1 0 (subexprs (check_return s1 y1))"
          using check_return_checked [of s1 y1 adr] by (simp add: stmt_step_def ctx_ok_def)
        then show ?thesis
          using r by (auto simp: e Return Some a opt_exprs_def miscount_def same_shape_def fun_eq_iff)
      qed (use r refl in \<open>auto simp: e Return opt_exprs_def miscount_def same_shape_def fun_eq_iff\<close>)
    next
      case (Switch x bd)
      obtain s1 x1 where a: "check_expr adr s x = (s1, x1)" by fastforce
      obtain s2 bd1 where d: "check_stmt adr (s1\<lparr>sm_switch := sm_switch s1 + 1\<rparr>) bd = (s2, bd1)" by fastforce
      have i: "stmt_step adr s s1 0 (subexprs x1)"
        by (rule check_expr_step [OF a ctx]) (use nm in \<open>simp add: e Switch\<close>)
      have "stmt_step adr s (s2\<lparr>sm_switch := sm_switch s2 - 1\<rparr>) (0 + misuses (0 < sm_loop s) True (labels s) bd)
          (subexprs x1 @ stmt_exprs bd1)" "same_shape bd bd1"
        by (rule switch_body_step [OF i IH d]; use nm ty in \<open>simp add: e Switch\<close>)+
      then show ?thesis using r by (auto simp: e Switch a d miscount_def same_shape_def fun_eq_iff)
    next
      case (Case x y)
      define s0 where "s0 = (if sm_switch s = 0
        then sema_error s l c (CHR 0x27 # ''case'' @ CHR 0x27 # '' outside switch'') else s)"
      have i: "stmt_step adr s s0 (one_if (\<not> 0 < sm_switch s)) []"
        unfolding s0_def by (rule error_step [OF ctx]) (use ctx in \<open>auto simp: ctx_ok_def\<close>)
      obtain s1 x1 where a: "check_expr adr s0 x = (s1, x1)" by fastforce
      obtain s2 y1 where d: "check_stmt adr s1 y = (s2, y1)" by fastforce
      have j: "stmt_step adr s s1 (one_if (\<not> 0 < sm_switch s)) ([] @ subexprs x1)"
        by (rule check_expr_next [OF a i]) (use nm in \<open>simp add: e Case\<close>)
      have "stmt_step adr s s2 (one_if (\<not> 0 < sm_switch s) + miscount s y) (([] @ subexprs x1) @ stmt_exprs y1)"
          "same_shape y y1"
        by (rule stmt_spec_next [OF IH d j]; use nm ty in \<open>simp add: e Case\<close>)+
      then show ?thesis
        using r by (auto simp: e Case s0_def [symmetric] a d miscount_def same_shape_def fun_eq_iff)
    next
      case (Default y)
      define s0 where "s0 = (if sm_switch s = 0
        then sema_error s l c (CHR 0x27 # ''default'' @ CHR 0x27 # '' outside switch'') else s)"
      have i: "stmt_step adr s s0 (one_if (\<not> 0 < sm_switch s)) []"
        unfolding s0_def by (rule error_step [OF ctx]) (use ctx in \<open>auto simp: ctx_ok_def\<close>)
      obtain s2 y1 where d: "check_stmt adr s0 y = (s2, y1)" by fastforce
      have "stmt_step adr s s2 (one_if (\<not> 0 < sm_switch s) + miscount s y) ([] @ stmt_exprs y1)"
          "same_shape y y1"
        by (rule stmt_spec_next [OF IH d i]; use nm ty in \<open>simp add: e Default\<close>)+
      then show ?thesis
        using r by (auto simp: e Default s0_def [symmetric] d miscount_def same_shape_def fun_eq_iff)
    next
      case (Label lb y)
      obtain s2 y1 where d: "check_stmt adr s y = (s2, y1)" by fastforce
      have "stmt_step adr s s2 (miscount s y) (stmt_exprs y1)" "same_shape y y1"
        by (rule stmt_specD [OF IH d ctx]; use nm ty in \<open>simp add: e Label\<close>)+
      then show ?thesis using r by (auto simp: e Label d miscount_def same_shape_def fun_eq_iff)
    next
      case Break
      show ?thesis
        using error_step [OF ctx, of "sm_loop s = 0 \<and> sm_switch s = 0" "\<not> 0 < sm_loop s \<and> \<not> 0 < sm_switch s"] r ctx
        by (auto simp: e Break miscount_def same_shape_def ctx_ok_def)
    next
      case Continue
      show ?thesis
        using error_step [OF ctx, of "sm_loop s = 0" "\<not> 0 < sm_loop s"] r ctx
        by (auto simp: e Continue miscount_def same_shape_def ctx_ok_def)
    next
      case (Goto lb)
      show ?thesis
        using error_step [OF ctx, of "\<not> labels s lb" "\<not> labels s lb"] r
        by (auto simp: e Goto miscount_def same_shape_def labels_def)
    qed (use r refl in \<open>auto simp: e miscount_def same_shape_def\<close>)
  qed
qed

end
