(* ===== verification/Scope.thy ===== *)
theory Scope
  imports Prelude
begin

section \<open>Nested scopes as an interface\<close>

text \<open>
  What the parser and the semantic analysis need of their symbol tables: a table can be
  entered, left, extended and searched. A client that brackets its declarations in blocks
  sees the latest declaration of a name in the innermost open block, and leaving a block
  gives back the table it was entered with.
\<close>

text \<open>The declarations of a piece of program and its blocks, run on a table, and the
  declaration they leave visible for a name.\<close>

datatype (plugins only: code size) 'v scope_op = Define 'v | Block "'v scope_op list"

fun scope_run ::
    "('e \<Rightarrow> 'e) \<Rightarrow> ('e \<Rightarrow> 'e) \<Rightarrow> ('v \<Rightarrow> 'e \<Rightarrow> 'e) \<Rightarrow> 'v scope_op list \<Rightarrow> 'e \<Rightarrow> 'e" where
  "scope_run enter leave add [] e = e"
| "scope_run enter leave add (Define v # ops) e = scope_run enter leave add ops (add v e)"
| "scope_run enter leave add (Block bs # ops) e =
     scope_run enter leave add ops (leave (scope_run enter leave add bs (enter e)))"

fun visible :: "('v \<Rightarrow> string) \<Rightarrow> 'v scope_op list \<Rightarrow> string \<Rightarrow> 'v option \<Rightarrow> 'v option" where
  "visible name_of [] n outer = outer"
| "visible name_of (Define v # ops) n outer = visible name_of ops n (if n = name_of v then Some v else outer)"
| "visible name_of (Block bs # ops) n outer = visible name_of ops n outer"

lemma scope_ops_induct [case_names Nil Define Block]:
  assumes "P []" "\<And>v ops. P ops \<Longrightarrow> P (Define v # ops)"
    "\<And>bs ops. P bs \<Longrightarrow> P ops \<Longrightarrow> P (Block bs # ops)"
  shows "P ops"
proof (induction "size_list size ops" arbitrary: ops rule: less_induct)
  case less
  show ?case
  proof (cases ops)
    case (Cons op rest)
    then show ?thesis using assms(2,3) less by (cases op) simp_all
  qed (simp add: assms(1))
qed

locale scopes =
  fixes inv :: "'e \<Rightarrow> bool"
    and enter :: "'e \<Rightarrow> 'e"
    and leave :: "'e \<Rightarrow> 'e"
    and add :: "'v \<Rightarrow> 'e \<Rightarrow> 'e"
    and lookup :: "'e \<Rightarrow> string \<Rightarrow> 'v option"
    and name_of :: "'v \<Rightarrow> string"
  assumes inv_enter: "inv e \<Longrightarrow> inv (enter e)"
    and inv_add: "inv e \<Longrightarrow> inv (add v e)"
    and leave_enter: "inv e \<Longrightarrow> leave (enter e) = e"
    and leave_add: "inv e \<Longrightarrow> leave (add v e) = leave e"
    and lookup_enter: "inv e \<Longrightarrow> lookup (enter e) n = lookup e n"
    and lookup_add: "inv e \<Longrightarrow> lookup (add v e) n = (if n = name_of v then Some v else lookup e n)"
begin

abbreviation run :: "'v scope_op list \<Rightarrow> 'e \<Rightarrow> 'e" where
  "run \<equiv> scope_run enter leave add"

lemma run_inv: "inv e \<Longrightarrow> inv (run ops e) \<and> leave (run ops e) = leave e"
  by (induction ops arbitrary: e rule: scope_ops_induct) (simp_all add: inv_add leave_add inv_enter leave_enter)

lemma block_restores: "inv e \<Longrightarrow> leave (run bs (enter e)) = e"
  using run_inv [OF inv_enter] leave_enter by metis

lemma run_lookup: "inv e \<Longrightarrow> lookup (run ops e) n = visible name_of ops n (lookup e n)"
  by (induction ops arbitrary: e rule: scope_ops_induct) (simp_all add: inv_add lookup_add block_restores)

lemma block_lookup: "inv e \<Longrightarrow> lookup (run bs (enter e)) n = visible name_of bs n (lookup e n)"
  using run_lookup [OF inv_enter] lookup_enter by metis

end

end
