(* ===== verification/SemaSpec.thy ===== *)
theory SemaSpec
  imports SemaStmt Scope
begin

section \<open>What the semantic analysis promises\<close>

text \<open>
  The properties of sema.c: names resolve to the innermost declaration, the common type of
  two operands is that of C99 but for one pair of types, statements restore their context
  and report exactly their errors, and a checked program is typed throughout.
\<close>

subsection \<open>Names\<close>

definition sema_enter :: "sema \<Rightarrow> sema" where
  "sema_enter s = s\<lparr>sm_scope := sscope_new (sm_scope s)\<rparr>"

definition sema_leave :: "sema \<Rightarrow> sema" where
  "sema_leave s = s\<lparr>sm_scope := tl (sm_scope s)\<rparr>"

definition sema_add :: "ssymbol \<Rightarrow> sema \<Rightarrow> sema" where
  "sema_add y s =
     sscope_define s (sy_name y) (sy_kind y) (sy_type y) (sy_offset y) (sy_is_global y) (sy_enum_val y)"

definition buckets_ok :: "sema \<Rightarrow> bool" where
  "buckets_ok s \<longleftrightarrow> sm_scope s \<noteq> [] \<and> list_all (\<lambda>sc. length sc = SSCOPE_BUCKETS) (sm_scope s)"

lemma sema_add_scope:
  "buckets_ok s \<Longrightarrow> sm_scope (sema_add y s) =
     (hd (sm_scope s))[ssym_hash (sy_name y) := y # hd (sm_scope s) ! ssym_hash (sy_name y)] # tl (sm_scope s)"
  by (cases "sm_scope s"; cases y) (simp_all add: buckets_ok_def sema_add_def sscope_define_def Let_def)

interpretation sm: scopes buckets_ok sema_enter sema_leave sema_add sscope_lookup sy_name
proof unfold_locales
  fix s y n assume ok: "buckets_ok s"
  obtain sc scs where s: "sm_scope s = sc # scs" using ok by (cases "sm_scope s") (simp_all add: buckets_ok_def)
  show "buckets_ok (sema_enter s)"
    using ok by (simp add: buckets_ok_def sema_enter_def sscope_new_def)
  show "buckets_ok (sema_add y s)"
    using ok sema_add_scope [OF ok, of y] by (simp add: buckets_ok_def s)
  show "sema_leave (sema_enter s) = s"
    by (simp add: sema_leave_def sema_enter_def sscope_new_def)
  show "sema_leave (sema_add y s) = sema_leave s"
    by (simp add: sema_leave_def sema_add_def sscope_define_def Let_def s)
  show "sscope_lookup (sema_enter s) n = sscope_lookup s n"
    using ssym_hash_less [of n] by (simp add: sscope_lookup_def sema_enter_def sscope_new_def)
  show "sscope_lookup (sema_add y s) n = (if n = sy_name y then Some y else sscope_lookup s n)"
    using ok ssym_hash_less [of n] sema_add_scope [OF ok, of y]
    by (cases "ssym_hash n = ssym_hash (sy_name y)") (auto simp: sscope_lookup_def s buckets_ok_def)
qed

text \<open>C19: names resolve as C scoping asks. After any sequence of declarations and blocks, nested
  to any depth, a name stands for the latest declaration of it outside the closed blocks, or
  else for what it stood for before; a block leaves the whole state as it found it.\<close>

theorem names_resolve_innermost:
  assumes "buckets_ok s"
  shows "sscope_lookup (scope_run sema_enter sema_leave sema_add ops s) n = visible sy_name ops n (sscope_lookup s n)
    \<and> sema_leave (scope_run sema_enter sema_leave sema_add bs (sema_enter s)) = s"
  using sm.run_lookup [OF assms] sm.block_restores [OF assms] by simp

subsection \<open>Members\<close>

text \<open>The members of an aggregate with those of its anonymous members in their place, to a
  depth.\<close>

fun flat_members :: "nat \<Rightarrow> type_node list \<Rightarrow> struct_field list \<Rightarrow> struct_field list" where
  "flat_members 0 ns fs = []"
| "flat_members (Suc depth) ns fs =
     concat (map (\<lambda>f. if sf_name f \<noteq> None then [f]
                      else case agg_of (body ns (sf_type f)) of
                             Some a \<Rightarrow> flat_members depth ns (ag_fields a)
                           | None \<Rightarrow> []) fs)"

definition anonymous_rank :: "type_node list \<Rightarrow> (tid \<Rightarrow> nat) \<Rightarrow> bool" where
  "anonymous_rank ns rank \<longleftrightarrow>
     (\<forall>t < length ns. \<forall>a. agg_of (body ns t) = Some a \<longrightarrow>
        list_all (\<lambda>f. sf_type f < length ns \<and> (sf_name f = None \<longrightarrow> rank (sf_type f) < rank t)) (ag_fields a))"

lemma find_member_flat:
  assumes "\<And>f. f \<in> set fs \<Longrightarrow> sf_name f = None \<Longrightarrow> agg_of (body ns (sf_type f)) \<noteq> None \<Longrightarrow>
      lookup_member fuel ns (sf_type f) name = Some (case agg_of (body ns (sf_type f)) of
        None \<Rightarrow> None | Some a \<Rightarrow> List.find (\<lambda>f. sf_name f = Some name) (flat_members fuel ns (ag_fields a)))"
  shows "find_member fuel ns name fs = Some (List.find (\<lambda>f. sf_name f = Some name) (flat_members (Suc fuel) ns fs))"
  using assms
proof (induction fs)
  case (Cons f fs)
  have ih: "find_member fuel ns name fs = Some (List.find (\<lambda>f. sf_name f = Some name) (flat_members (Suc fuel) ns fs))"
    by (rule Cons.IH) (use Cons.prems in simp)
  show ?case
    using ih Cons.prems [of f]
    by (cases "sf_name f") (auto simp: find_append split: option.splits)
qed simp

text \<open>C34: on types that do not contain themselves as anonymous members, lookup_member ends, and it
  finds the first member of the name in the order of declaration, the members of anonymous
  structs and unions standing in the place of these.\<close>

theorem lookup_member_first:
  assumes "anonymous_rank ns rank" "rank t < fuel" "t < length ns"
  shows "lookup_member fuel ns t name = Some (case agg_of (body ns t) of
    None \<Rightarrow> None | Some a \<Rightarrow> List.find (\<lambda>f. sf_name f = Some name) (flat_members fuel ns (ag_fields a)))"
  using assms(2,3)
proof (induction fuel arbitrary: t)
  case (Suc fuel)
  have "find_member fuel ns name (ag_fields a)
      = Some (List.find (\<lambda>f. sf_name f = Some name) (flat_members (Suc fuel) ns (ag_fields a)))"
    if "agg_of (body ns t) = Some a" for a
  proof (rule find_member_flat)
    fix f assume f: "f \<in> set (ag_fields a)" "sf_name f = None"
    have "sf_type f < length ns" "rank (sf_type f) < fuel"
      using assms(1) Suc.prems that f unfolding anonymous_rank_def list_all_iff by fastforce+
    then show "lookup_member fuel ns (sf_type f) name = Some (case agg_of (body ns (sf_type f)) of
        None \<Rightarrow> None | Some a \<Rightarrow> List.find (\<lambda>f. sf_name f = Some name) (flat_members fuel ns (ag_fields a)))"
      by (intro Suc.IH)
  qed
  then show ?case by (auto split: option.split)
qed simp

text \<open>\<open>struct s { int a; struct s; }\<close>: looking for a member that is not there does not end.\<close>

definition anon_nodes :: "type_node list" where
  "anon_nodes = [\<lparr>tn_qual = QUAL_NONE, tn_body = Struct
     \<lparr>ag_tag = Some ''s'', ag_fields = [\<lparr>sf_name = None, sf_type = 0, sf_offset = 0, sf_bit_width = - 1,
        sf_bit_offset = 0\<rparr>], ag_size = 0, ag_align = 1\<rparr>\<rparr>]"

lemma lookup_member_diverges: "lookup_member fuel anon_nodes 0 ''x'' = None"
  by (induction fuel) (simp_all add: anon_nodes_def agg_of_def)

text \<open>\<open>struct { int a; union { int b; char c; }; }\<close>\<close>

definition nested_nodes :: "type_node list" where
  "nested_nodes =
     (let mem = (\<lambda>n t. \<lparr>sf_name = n, sf_type = t, sf_offset = 0, sf_bit_width = - 1, sf_bit_offset = 0\<rparr>)
      in scalar_nodes @
         [\<lparr>tn_qual = QUAL_NONE, tn_body = Struct \<lparr>ag_tag = None,
             ag_fields = [mem (Some ''a'') type_int, mem None 17], ag_size = 8, ag_align = 4\<rparr>\<rparr>,
          \<lparr>tn_qual = QUAL_NONE, tn_body = Union \<lparr>ag_tag = None,
             ag_fields = [mem (Some ''b'') type_int, mem (Some ''c'') type_char], ag_size = 4, ag_align = 4\<rparr>\<rparr>])"

lemma lookup_member_first_witness:
  "map_option (map_option sf_type) (lookup_member 2 nested_nodes 16 ''c'') = Some (Some type_char)"
proof -
  have r: "anonymous_rank nested_nodes (\<lambda>t. 17 - t)"
    by (simp add: anonymous_rank_def nested_nodes_def scalar_nodes_def scalar_kinds_def agg_of_def less_Suc_eq
        numeral_eq_Suc scalar_type_defs)
  have b: "agg_of (body nested_nodes 16) = Some a \<Longrightarrow>
      map_option sf_type (List.find (\<lambda>f. sf_name f = Some ''c'') (flat_members 2 nested_nodes (ag_fields a))) = Some type_char" for a
    by (auto simp: nested_nodes_def scalar_nodes_def scalar_kinds_def agg_of_def numeral_2_eq_2)
  have "16 < length nested_nodes" "agg_of (body nested_nodes 16) \<noteq> None" by code_simp+
  with lookup_member_first [OF r, of 16 2 "''c''"] b show ?thesis by (auto split: option.splits)
qed

subsection \<open>The usual arithmetic conversions\<close>

text \<open>C99 6.3.1.1 and 6.3.1.8 on kinds: ranks, signedness and widths as on x86-64.\<close>

definition kind_rank :: "scalar_kind \<Rightarrow> nat" where
  "kind_rank k =
     (if k = TY_BOOL then 0 else if k \<in> {TY_CHAR, TY_SCHAR, TY_UCHAR} then 1
      else if k \<in> {TY_SHORT, TY_USHORT} then 2 else if k \<in> {TY_INT, TY_UINT} then 3
      else if k \<in> {TY_LONG, TY_ULONG} then 4 else 5)"

definition kind_signed :: "scalar_kind \<Rightarrow> bool" where
  "kind_signed k \<longleftrightarrow> k \<notin> {TY_BOOL, TY_UCHAR, TY_USHORT, TY_UINT, TY_ULONG, TY_ULLONG}"

definition unsigned_of :: "scalar_kind \<Rightarrow> scalar_kind" where
  "unsigned_of k = (if k = TY_INT then TY_UINT else if k = TY_LONG then TY_ULONG
                    else if k = TY_LLONG then TY_ULLONG else k)"

text \<open>All values of a kind of smaller rank than \<open>int\<close> are values of \<open>int\<close>.\<close>

definition c_promote :: "scalar_kind \<Rightarrow> scalar_kind" where
  "c_promote k = (if kind_rank k < kind_rank TY_INT then TY_INT else k)"

definition c_common_integer :: "scalar_kind \<Rightarrow> scalar_kind \<Rightarrow> scalar_kind" where
  "c_common_integer a b =
     (if a = b then a
      else if kind_signed a = kind_signed b then (if kind_rank a \<ge> kind_rank b then a else b)
      else let (u, s) = (if kind_signed a then (b, a) else (a, b))
           in if kind_rank u \<ge> kind_rank s then u
              else if scalar_size s > scalar_size u then s
              else unsigned_of s)"

definition c_common :: "scalar_kind \<Rightarrow> scalar_kind \<Rightarrow> scalar_kind" where
  "c_common a b =
     (if TY_LDOUBLE \<in> {a, b} then TY_LDOUBLE
      else if TY_DOUBLE \<in> {a, b} then TY_DOUBLE
      else if TY_FLOAT \<in> {a, b} then TY_FLOAT
      else c_common_integer (c_promote a) (c_promote b))"

text \<open>What usual_arithmetic does, on kinds.\<close>

definition rank_of_kind :: "scalar_kind \<Rightarrow> int" where
  "rank_of_kind k =
     (if k = TY_UINT then 2 else if k = TY_LONG then 3 else if k = TY_ULONG then 4
      else if k = TY_LLONG then 5 else if k = TY_ULLONG then 6 else 1)"

definition promote_kind :: "scalar_kind \<Rightarrow> scalar_kind" where
  "promote_kind k = (if k \<in> {TY_BOOL, TY_CHAR, TY_SCHAR, TY_UCHAR, TY_SHORT, TY_USHORT} then TY_INT else k)"

definition common_kind :: "scalar_kind \<Rightarrow> scalar_kind \<Rightarrow> scalar_kind" where
  "common_kind a b =
     (if TY_LDOUBLE \<in> {a, b} then TY_LDOUBLE
      else if TY_DOUBLE \<in> {a, b} then TY_DOUBLE
      else if TY_FLOAT \<in> {a, b} then TY_FLOAT
      else if rank_of_kind (promote_kind a) \<ge> rank_of_kind (promote_kind b) then promote_kind a
      else promote_kind b)"

lemma scalar_body:
  assumes "store_ok adr tt"
  shows "body (tt_nodes tt) type_int = Scalar TY_INT" "body (tt_nodes tt) type_float = Scalar TY_FLOAT"
    "body (tt_nodes tt) type_double = Scalar TY_DOUBLE" "body (tt_nodes tt) type_ldouble = Scalar TY_LDOUBLE"
  using scalar_node [OF assms]
  by (simp_all add: scalar_type_defs scalar_nodes_def scalar_kinds_def)

lemma promote_body:
  "store_ok adr tt \<Longrightarrow> body (tt_nodes tt) a = Scalar k \<Longrightarrow>
   body (tt_nodes tt) (integer_promote (tt_nodes tt) a) = Scalar (promote_kind k)"
  by (auto simp: integer_promote_def promote_kind_def scalar_body)

lemma rank_body: "body ns t = Scalar k \<Longrightarrow> conv_rank ns t = rank_of_kind k"
  by (cases k) (simp_all add: conv_rank_def rank_of_kind_def)

lemma usual_body:
  assumes "store_ok adr tt" "body (tt_nodes tt) a = Scalar k" "body (tt_nodes tt) b = Scalar j"
  shows "body (tt_nodes tt) (usual_arithmetic (tt_nodes tt) a b) = Scalar (common_kind k j)"
proof -
  note p = promote_body [OF assms(1,2)] promote_body [OF assms(1,3)]
  have "promote_kind k = promote_kind j"
    if "integer_promote (tt_nodes tt) a = integer_promote (tt_nodes tt) b"
    using p that by simp
  then show ?thesis
    using p rank_body [OF p(1)] rank_body [OF p(2)]
    by (auto simp: usual_arithmetic_def Let_def common_kind_def assms(2,3) scalar_body [OF assms(1)])
qed

lemma common_kind_all:
  "list_all (\<lambda>k. list_all (\<lambda>j. (common_kind k j = c_common k j) = ({k, j} \<noteq> {TY_ULONG, TY_LLONG}))
     (tl scalar_kinds)) (tl scalar_kinds)"
  by code_simp


lemma init_store_ok: "store_ok adr type_table_init"
proof -
  have "fields_ok scalar_nodes"
    by (simp add: fields_ok_def scalar_nodes_def agg_of_def)
  then show ?thesis
    using init_inv scalar_nodes_ok
    by (simp add: store_ok_def type_table_init_def) (simp add: scalar_nodes_def scalar_kinds_def)
qed


subsection \<open>Statements\<close>

text \<open>C22: checking a statement leaves the context as it was: the return type, the body and the
  loop and switch depths of the function, and every scope but the innermost, into which only
  a declaration at the top of the statement writes; the invariant of the state is kept.\<close>

theorem check_stmt_restores_context:
  assumes "ctx_ok adr s" "names_ok s (stmt_exprs st)" "types_ok s (stmt_types st)"
    and "check_stmt adr s st = (s', st')"
  shows "ctx_ok adr s' \<and> same_context s s' \<and> grows (nodes s) (nodes s')"
  using stmt_specD(1) [OF all_stmt_specs assms(4,1-3)] by (simp add: stmt_step_def)


subsection \<open>Whole programs\<close>

subsection \<open>Whole programs\<close>

lemma const_errors_nonneg: "0 \<le> const_errors ns es"
proof -
  have "0 \<le> node_errors ns e" for e
    by (cases "ast_body e") (simp_all add: node_errors_def const_error_def unop_errors_def)
  then show ?thesis unfolding const_errors_def by (induction es) simp_all
qed

lemma init_ctx_ok: "store_ok adr tt \<Longrightarrow> ctx_ok adr (sema_init tt d)"
  by (simp add: ctx_ok_def sema_ok_def sema_init_def sscope_new_def scopes_ok_def nodes_def list_all_iff)

lemma same_decls_trans: "same_decls xs ys \<Longrightarrow> same_decls ys zs \<Longrightarrow> same_decls xs zs"
  unfolding same_decls_def
  by (rule list_all2_trans [of same_decl same_decl same_decl]) (auto simp: same_decl_def)

lemma same_decls_refl: "same_decls xs xs"
  by (simp add: same_decls_def list_all2_refl)

text \<open>After the passes for declarations \<open>0, ..., i - 1\<close>.\<close>

definition pass_inv :: "(tid \<Rightarrow> u64) \<Rightarrow> sema \<Rightarrow> ast list \<Rightarrow> nat \<Rightarrow> sema \<times> ast list \<Rightarrow> bool" where
  "pass_inv adr s0 ds0 i r \<longleftrightarrow>
     (case r of (s, ds) \<Rightarrow>
        ctx_ok adr s \<and> sm_loop s = 0 \<and> sm_switch s = 0 \<and> same_decls ds0 ds
        \<and> names_ok s (decls_exprs ds) \<and> types_ok s (decls_types ds)
        \<and> (0 < i \<longrightarrow> all_checked (nodes s) (decls_exprs ds))
        \<and> int (dg_errors (sm_diag s)) - int (dg_errors (sm_diag s0)) = sm_errors s - sm_errors s0
        \<and> (\<Sum>j<i. decls_misuses False False (drop j ds0)) \<le> sm_errors s - sm_errors s0)"

lemma check_from_pass:
  assumes "pass_inv adr s0 ds0 i (s, ds)"
  shows "pass_inv adr s0 ds0 (Suc i) (check_from adr i (s, ds))"
proof -
  obtain s1 ds1 where a: "check_decl adr s (drop i ds) True = (s1, ds1)" by fastforce
  have inv: "ctx_ok adr s" "sm_loop s = 0" "sm_switch s = 0" "same_decls ds0 ds" "names_ok s (decls_exprs ds)"
    "types_ok s (decls_types ds)" "0 < i \<longrightarrow> all_checked (nodes s) (decls_exprs ds)"
    using assms by (simp_all add: pass_inv_def)
  have e: "decls_exprs (take i ds) @ decls_exprs (drop i ds) = decls_exprs ds"
    "decls_types (take i ds) @ decls_types (drop i ds) = decls_types ds"
    by (simp_all flip: decls_append)
  have st: "stmt_step adr s s1 (decls_misuses False False (drop i ds)) (decls_exprs ds1)" "same_decls (drop i ds) ds1"
    using check_decl_spec [OF all_stmt_specs a inv(1)] inv(2,3,5,6) unfolding e [symmetric] by simp_all
  note cx = stmt_step_context [OF st(1)] and g = stmt_step_grows [OF st(1)]
  have sd: "same_decls ds (take i ds @ ds1)"
    using st(2) list_all2_appendI [of same_decl "take i ds" "take i ds" "drop i ds" ds1] same_decls_refl
    by (simp add: same_decls_def)
  have m: "decls_misuses False False (drop i ds) = decls_misuses False False (drop i ds0)"
    using inv(4) same_decls_sums(1) [of "drop i ds0" "drop i ds"]
    by (auto simp: same_decls_def intro: list_all2_dropI)
  have "all_checked (nodes s1) (decls_exprs (take i ds))"
  proof (cases i)
    case (Suc j)
    then have "all_checked (nodes s) (decls_exprs (take i ds) @ decls_exprs (drop i ds))" using inv(7) e(1) by simp
    then show ?thesis using all_checked_mono [OF _ g] by simp
  qed simp
  then have ck: "all_checked (nodes s1) (decls_exprs (take i ds @ ds1))"
    using st(1) by (simp add: stmt_step_def decls_append(1))
  have t: "types_ok s1 (decls_types (take i ds @ ds1))"
    using types_ok_grows [OF inv(6) g] same_decls_sums(2) [OF sd] by simp
  show ?thesis
    using assms st(1) cx const_errors_nonneg [of "nodes s1" "decls_exprs ds1"] same_decls_trans [OF inv(4) sd]
      ck t all_checked_named [OF ck] m
    by (simp add: pass_inv_def check_from_def a stmt_step_def same_context_def)
qed

lemma all_passes:
  assumes "pass_inv adr s0 ds0 0 (s, ds)"
  shows "pass_inv adr s0 ds0 k (fold (check_from adr) [0..<k] (s, ds))"
proof (induction k)
  case (Suc k)
  obtain s1 ds1 where r: "fold (check_from adr) [0..<k] (s, ds) = (s1, ds1)" by fastforce
  show ?case using check_from_pass [of adr s0 ds0 k s1 ds1] Suc by (simp add: r)
qed (use assms in simp)

lemma sema_check_passes:
  assumes "store_ok adr tt" "list_all (named_types_ok (length (tt_nodes tt))) (decls_exprs ds)"
    "list_all (\<lambda>t. t < length (tt_nodes tt)) (decls_types ds)"
    "sema_check adr (sema_init tt d) (Ast l c t (TranslationUnit ds)) = (s', root', n)"
  obtains ds' where "root' = Ast l c t (TranslationUnit ds')" "n = sm_errors s'"
    "pass_inv adr (sema_init tt d) ds (length ds) (s', ds')"
proof -
  have "pass_inv adr (sema_init tt d) ds 0 (sema_init tt d, ds)"
    using assms(1-3) init_ctx_ok
    by (simp add: pass_inv_def same_decls_refl names_ok_def types_ok_def)
      (simp add: nodes_def sema_init_def)
  from all_passes [OF this, of "length ds"] that assms(4) show thesis
    by (auto simp: sema_check_def split: prod.splits)
qed


lemma suffix_sums:
  "(\<Sum>j<length ds. decls_misuses False False (drop j ds))
     = (\<Sum>i<length ds. int (i + 1) * decls_misuses False False [ds ! i])"
proof (induction ds rule: rev_induct)
  case (snoc d ds)
  have "(\<Sum>j<length ds. decls_misuses False False (drop j (ds @ [d])))
      = (\<Sum>j<length ds. decls_misuses False False (drop j ds) + decls_misuses False False [d])"
    by (rule sum.cong) (simp_all add: decls_append)
  then have "(\<Sum>j<Suc (length ds). decls_misuses False False (drop j (ds @ [d])))
      = (\<Sum>j<length ds. decls_misuses False False (drop j ds)) + int (length ds + 1) * decls_misuses False False [d]"
    by (simp add: sum.distrib algebra_simps)
  moreover have "(\<Sum>i<length ds. int (i + 1) * decls_misuses False False [(ds @ [d]) ! i])
      = (\<Sum>i<length ds. int (i + 1) * decls_misuses False False [ds ! i])"
    by (rule sum.cong) (simp_all add: nth_append)
  ultimately show ?case using snoc by (simp add: nth_append)
qed simp


subsection \<open>The properties at work\<close>

text \<open>\<open>int f(void) { return 1; }  int g(void) { break; }\<close>\<close>

definition demo_types :: type_table where
  "demo_types = fst (type_func (\<lambda>t. 0) type_table_init type_int [] 0 0)"

definition demo_lit :: ast where
  "demo_lit = Ast 1 23 None (IntLit 1 0 False)"

definition demo_decls :: "ast list" where
  "demo_decls =
     [Ast 1 1 None (FuncDef ''f'' 16 [] (Ast 1 13 None (Compound [Ast 1 15 None (Return (Some demo_lit))])) SC_NONE FS_NONE),
      Ast 1 28 None (FuncDef ''g'' 16 [] (Ast 1 40 None (Compound [Ast 1 42 None Break])) SC_NONE FS_NONE)]"

lemma demo_types_ok: "store_ok adr (fst (type_func adr type_table_init type_int [] 0 0))"
proof -
  have "store_ok adr (fst (derive adr type_table_init (KFunc type_int [] 0 0)))"
    using derive_store_ok [OF init_store_ok, of "KFunc type_int [] 0 0" adr]
    by (cases "derive adr type_table_init (KFunc type_int [] 0 0)")
      (simp add: key_node_def body_ok_def type_table_init_def scalar_nodes_def scalar_kinds_def type_int_def)
  then show ?thesis by (simp add: derive_def)
qed

lemma demo_facts:
  "list_all (named_types_ok (length (tt_nodes demo_types))) (decls_exprs demo_decls)"
  "list_all (\<lambda>t. t < length (tt_nodes demo_types)) (decls_types demo_decls)"
  "(\<Sum>i<length demo_decls. int (i + 1) * decls_misuses False False [demo_decls ! i]) = 2"
  by code_simp+



text \<open>\<open>{ break; while (1) break; }\<close>\<close>

definition demo_stmt :: ast where
  "demo_stmt = Ast 1 1 None (Compound [Ast 1 3 None Break, Ast 1 10 None (While demo_lit (Ast 1 20 None Break))])"

lemma demo_stmt_facts:
  "names_ok (sema_init type_table_init diag_static) (stmt_exprs demo_stmt)"
  "types_ok (sema_init type_table_init diag_static) (stmt_types demo_stmt)"
  "misuses False False (labels (sema_init type_table_init diag_static)) demo_stmt = 1"
  "const_errors (nodes (fst (check_stmt (\<lambda>t. 0) (sema_init type_table_init diag_static) demo_stmt)))
     (stmt_exprs (snd (check_stmt (\<lambda>t. 0) (sema_init type_table_init diag_static) demo_stmt))) = 0"
  by code_simp+


lemma check_stmt_restores_context_witness:
  "ctx_ok (\<lambda>t. 0) (fst (check_stmt (\<lambda>t. 0) (sema_init type_table_init diag_static) demo_stmt))"
  using check_stmt_restores_context [OF init_ctx_ok [OF init_store_ok] demo_stmt_facts(1,2) surjective_pairing]
  by simp

definition demo_sym :: "tid \<Rightarrow> ssymbol" where
  "demo_sym t = \<lparr>sy_name = ''x'', sy_kind = SSYM_VAR, sy_type = Some t, sy_offset = 0, sy_is_global = False, sy_enum_val = 0\<rparr>"

lemma names_resolve_innermost_witness:
  "sscope_lookup (scope_run sema_enter sema_leave sema_add
     [Define (demo_sym type_int), Block [Define (demo_sym type_char)]] (sema_init type_table_init diag_static)) ''x''
   = Some (demo_sym type_int)"
proof -
  have b: "buckets_ok (sema_init type_table_init diag_static)"
    by (simp add: buckets_ok_def sema_init_def sscope_new_def)
  show ?thesis
    unfolding conjunct1 [OF names_resolve_innermost [OF b]] by (simp add: demo_sym_def)
qed

text \<open>The declaration in a \<open>for\<close> stays in the enclosing scope: in
  \<open>{ char i; for (int i; ; ) ; i; }\<close> the last \<open>i\<close> has the type of the loop variable, where C99
  6.8.5 ends its scope with the loop.\<close>

definition for_block :: ast where
  "for_block = Ast 1 1 None (Compound
     [Ast 1 3 None (DeclStmt [Ast 1 3 None (VarDecl ''i'' type_char None SC_NONE)]),
      Ast 1 11 None (For (Some (Ast 1 16 None (DeclStmt [Ast 1 16 None (VarDecl ''i'' type_int None SC_NONE)])))
        None None (Ast 1 26 None (Compound []))),
      Ast 1 28 None (ExprStmt (Ast 1 28 None (Ident ''i'')))])"

lemma for_declaration_leaks:
  "last (stmt_exprs (snd (check_stmt (\<lambda>t. 0) (sema_init type_table_init diag_static) for_block)))
     = Ast 1 28 (Some type_int) (Ident ''i'')"
  by code_simp

end
