(* ===== verification/Irgen.thy ===== *)
theory Irgen
  imports IR Abi Sema
begin

section \<open>IR generation: state, scopes, addresses and constants (irgen.c 1-525, 540-560)\<close>

text \<open>
  The state of irgen.c. The function under construction is a copy of its entry in the
  module, which gen_func writes back when it is done: only irgen changes that entry in
  between. The scope chain is a list, as in theory Sema. The identity of a case or default
  node is its position in the source, which no two labels of a program share. A
  \<open>long long\<close> that irgen computes with is a 64-bit word; negating the least one wraps here
  and is undefined in C. The writes of fill_global_initializer into its buffer are a list
  of offsets and bytes, so that their bounds can be stated.
\<close>

subsection \<open>State\<close>

record var_entry =
  ve_name :: string
  ve_addr :: ir_value
  ve_is_global :: bool

record case_entry =
  ce_node :: "int \<times> int"
  ce_val :: int
  ce_is_default :: bool
  ce_label :: int

record goto_label =
  gl_name :: string
  gl_label :: int

type_synonym vscope = "var_entry list list"

record ir_gen =
  ig_module :: ir_module
  ig_func :: ir_func
  ig_types :: type_table
  ig_scope :: "vscope list"
  ig_break :: int
  ig_cont :: int
  ig_cases :: "case_entry list"
  ig_default :: int
  ig_gotos :: "goto_label list"

definition VTAB_BUCKETS :: nat where
  "VTAB_BUCKETS = 64"

definition ig_nodes :: "ir_gen \<Rightarrow> type_node list" where
  "ig_nodes g = tt_nodes (ig_types g)"

subsection \<open>Scopes\<close>

definition vscope_new :: "vscope list \<Rightarrow> vscope list" where
  "vscope_new parent = replicate VTAB_BUCKETS [] # parent"

definition vhash :: "string \<Rightarrow> nat" where
  "vhash name = unat (foldl (\<lambda>h c. (h XOR of_char c) * 16777619) (2166136261 :: u32) name AND 63)"

definition vscope_define :: "ir_gen \<Rightarrow> string \<Rightarrow> ir_value \<Rightarrow> bool \<Rightarrow> ir_gen" where
  "vscope_define g name addr is_global =
     (let slot = vhash name; e = \<lparr>ve_name = name, ve_addr = addr, ve_is_global = is_global\<rparr>
      in case ig_scope g of
           sc # scs \<Rightarrow> g\<lparr>ig_scope := sc[slot := e # sc ! slot] # scs\<rparr>
         | [] \<Rightarrow> g)"

fun vscopes_find :: "nat \<Rightarrow> string \<Rightarrow> vscope list \<Rightarrow> var_entry option" where
  "vscopes_find slot name [] = None"
| "vscopes_find slot name (sc # scs) =
     (case List.find (\<lambda>e. ve_name e = name) (sc ! slot) of
        Some e \<Rightarrow> Some e
      | None \<Rightarrow> vscopes_find slot name scs)"

definition vscope_lookup :: "ir_gen \<Rightarrow> string \<Rightarrow> var_entry option" where
  "vscope_lookup g name = vscopes_find (vhash name) name (ig_scope g)"

subsection \<open>Emitting into the current function\<close>

definition emit :: "IROp \<Rightarrow> ir_value \<Rightarrow> ir_value \<Rightarrow> ir_value \<Rightarrow> ir_gen \<Rightarrow> ir_gen" where
  "emit op dst a b g = g\<lparr>ig_func := ir_emit (ig_func g) op dst a b\<rparr>"

definition new_temp :: "ir_gen \<Rightarrow> ir_gen \<times> int" where
  "new_temp g = (let (t, f) = ir_new_temp (ig_func g) in (g\<lparr>ig_func := f\<rparr>, t))"

definition new_label :: "ir_gen \<Rightarrow> ir_gen \<times> int" where
  "new_label g = (let (l, f) = ir_new_label (ig_func g) in (g\<lparr>ig_func := f\<rparr>, l))"

definition emit_label :: "int \<Rightarrow> ir_gen \<Rightarrow> ir_gen" where
  "emit_label l g = g\<lparr>ig_func := ir_emit_label (ig_func g) l\<rparr>"

definition emit_jmp :: "int \<Rightarrow> ir_gen \<Rightarrow> ir_gen" where
  "emit_jmp l g = g\<lparr>ig_func := ir_emit_jmp (ig_func g) l\<rparr>"

definition emit_jz :: "ir_value \<Rightarrow> int \<Rightarrow> ir_gen \<Rightarrow> ir_gen" where
  "emit_jz v l g = g\<lparr>ig_func := ir_emit_jz (ig_func g) v l\<rparr>"

definition emit_jnz :: "ir_value \<Rightarrow> int \<Rightarrow> ir_gen \<Rightarrow> ir_gen" where
  "emit_jnz v l g = g\<lparr>ig_func := ir_emit_jnz (ig_func g) v l\<rparr>"

text \<open>A write to a field of the instruction just emitted.\<close>

definition set_last :: "(ir_instr \<Rightarrow> ir_instr) \<Rightarrow> ir_gen \<Rightarrow> ir_gen" where
  "set_last h g = g\<lparr>ig_func := last_instr h (ig_func g)\<rparr>"

text \<open>\<open>int t = ir_new_temp(g->func); irv_temp(t, ty)\<close>, and type_pointer on the type table.\<close>

definition temp_of :: "tid \<Rightarrow> ir_gen \<Rightarrow> ir_gen \<times> ir_value" where
  "temp_of ty g = (let (g, t) = new_temp g in (g, irv_temp t ty))"

text \<open>The idiom of a temporary and the instruction that computes it.\<close>

definition emit_op :: "IROp \<Rightarrow> tid \<Rightarrow> ir_value \<Rightarrow> ir_value \<Rightarrow> ir_gen \<Rightarrow> ir_gen \<times> ir_value" where
  "emit_op op ty a b g = (let (g, dst) = temp_of ty g in (emit op dst a b g, dst))"

definition ptr_to :: "(tid \<Rightarrow> u64) \<Rightarrow> tid \<Rightarrow> ir_gen \<Rightarrow> ir_gen \<times> tid" where
  "ptr_to adr ty g =
     (let (tt, p) = type_pointer adr (ig_types g) ty QUAL_NONE in (g\<lparr>ig_types := tt\<rparr>, p))"

subsection \<open>Operators and types\<close>

definition tok_to_ir_binop :: "TokenKind \<Rightarrow> IROp" where
  "tok_to_ir_binop tk =
     (if tk = TOK_PLUS then IR_ADD else if tk = TOK_MINUS then IR_SUB
      else if tk = TOK_STAR then IR_MUL else if tk = TOK_SLASH then IR_DIV
      else if tk = TOK_PERCENT then IR_MOD else if tk = TOK_AMP then IR_AND
      else if tk = TOK_PIPE then IR_OR else if tk = TOK_CARET then IR_XOR
      else if tk = TOK_LSHIFT then IR_SHL else if tk = TOK_RSHIFT then IR_SHR
      else if tk = TOK_EQ then IR_EQ else if tk = TOK_NEQ then IR_NE
      else if tk = TOK_LT then IR_LT else if tk = TOK_LE then IR_LE
      else if tk = TOK_GT then IR_GT else if tk = TOK_GE then IR_GE
      else IR_ADD)"

definition compound_base :: "TokenKind \<Rightarrow> TokenKind" where
  "compound_base tk =
     (if tk = TOK_PLUS_ASSIGN then TOK_PLUS else if tk = TOK_MINUS_ASSIGN then TOK_MINUS
      else if tk = TOK_STAR_ASSIGN then TOK_STAR else if tk = TOK_SLASH_ASSIGN then TOK_SLASH
      else if tk = TOK_PERCENT_ASSIGN then TOK_PERCENT else if tk = TOK_AMP_ASSIGN then TOK_AMP
      else if tk = TOK_PIPE_ASSIGN then TOK_PIPE else if tk = TOK_CARET_ASSIGN then TOK_CARET
      else if tk = TOK_LSHIFT_ASSIGN then TOK_LSHIFT else if tk = TOK_RSHIFT_ASSIGN then TOK_RSHIFT
      else TOK_PLUS)"

definition is_agg :: "type_node list \<Rightarrow> tid option \<Rightarrow> bool" where
  "is_agg ns ty = (case ty of None \<Rightarrow> False | Some t \<Rightarrow> agg_of (body ns t) \<noteq> None)"

definition is_array :: "type_node list \<Rightarrow> tid \<Rightarrow> bool" where
  "is_array ns t = (case body ns t of Array e n \<Rightarrow> True | ArrayUnsized e \<Rightarrow> True | _ \<Rightarrow> False)"

definition is_func :: "type_node list \<Rightarrow> tid \<Rightarrow> bool" where
  "is_func ns t = (case body ns t of Func r ps n v \<Rightarrow> True | _ \<Rightarrow> False)"

definition is_ptr :: "type_node list \<Rightarrow> tid option \<Rightarrow> bool" where
  "is_ptr ns ty = (case ty of None \<Rightarrow> False | Some t \<Rightarrow> type_is_pointer ns t)"

definition pointer_pointee_size :: "type_node list \<Rightarrow> tid option \<Rightarrow> int" where
  "pointer_pointee_size ns ty =
     (case ty of
        None \<Rightarrow> 1
      | Some t \<Rightarrow> (case body ns t of
                    Pointer p \<Rightarrow> if type_sizeof ns p > 0 then type_sizeof ns p else 1
                  | _ \<Rightarrow> 1))"

text \<open>\<open>pt->kind == TY_POINTER ? pt->ptr.pointee : pt\<close>.\<close>

definition strip_ptr :: "type_node list \<Rightarrow> tid option \<Rightarrow> tid option" where
  "strip_ptr ns ty =
     (case ty of None \<Rightarrow> None | Some t \<Rightarrow> (case body ns t of Pointer p \<Rightarrow> Some p | _ \<Rightarrow> Some t))"

subsection \<open>Constants, cases and labels\<close>

fun eval_const_expr :: "ast \<Rightarrow> u64" where
  "eval_const_expr (Ast l c t b) =
     (case b of
        IntLit v suf w \<Rightarrow> v
      | CharLit v suf w \<Rightarrow> v
      | Unop op e \<Rightarrow> if op = TOK_MINUS then - eval_const_expr e else eval_const_expr e
      | _ \<Rightarrow> 0)"

definition add_case :: "int \<times> int \<Rightarrow> int \<Rightarrow> bool \<Rightarrow> ir_gen \<Rightarrow> ir_gen" where
  "add_case nd val is_default g =
     (let (g, lbl) = new_label g;
          g = (if is_default then g\<lparr>ig_default := lbl\<rparr> else g)
      in g\<lparr>ig_cases := \<lparr>ce_node = nd, ce_val = val, ce_is_default = is_default, ce_label = lbl\<rparr> # ig_cases g\<rparr>)"

fun collect_switch_cases :: "ir_gen \<Rightarrow> ast \<Rightarrow> ir_gen"
and collect_cases_all :: "ir_gen \<Rightarrow> ast list \<Rightarrow> ir_gen" where
  "collect_switch_cases g (Ast l c t b) =
     (case b of
        Case e st \<Rightarrow> collect_switch_cases (add_case (l, c) (sint (eval_const_expr e)) False g) st
      | Default st \<Rightarrow> collect_switch_cases (add_case (l, c) 0 True g) st
      | Compound ss \<Rightarrow> collect_cases_all g ss
      | If e th el \<Rightarrow>
          (let g = collect_switch_cases g th
           in case el of None \<Rightarrow> g | Some el \<Rightarrow> collect_switch_cases g el)
      | While e bd \<Rightarrow> collect_switch_cases g bd
      | DoWhile e bd \<Rightarrow> collect_switch_cases g bd
      | For i e n bd \<Rightarrow> collect_switch_cases g bd
      | Label lb st \<Rightarrow> collect_switch_cases g st
      | _ \<Rightarrow> g)"
| "collect_cases_all g [] = g"
| "collect_cases_all g (x # xs) = collect_cases_all (collect_switch_cases g x) xs"

definition add_goto :: "string \<Rightarrow> ir_gen \<Rightarrow> ir_gen" where
  "add_goto name g =
     (let (g, lbl) = new_label g
      in g\<lparr>ig_gotos := \<lparr>gl_name = name, gl_label = lbl\<rparr> # ig_gotos g\<rparr>)"

fun collect_labels :: "ir_gen \<Rightarrow> ast \<Rightarrow> ir_gen"
and collect_labels_all :: "ir_gen \<Rightarrow> ast list \<Rightarrow> ir_gen" where
  "collect_labels g (Ast l c t b) =
     (case b of
        Label lb st \<Rightarrow> collect_labels (add_goto lb g) st
      | Compound ss \<Rightarrow> collect_labels_all g ss
      | If e th el \<Rightarrow>
          (let g = collect_labels g th
           in case el of None \<Rightarrow> g | Some el \<Rightarrow> collect_labels g el)
      | While e bd \<Rightarrow> collect_labels g bd
      | DoWhile e bd \<Rightarrow> collect_labels g bd
      | For i e n bd \<Rightarrow> collect_labels g bd
      | Switch e bd \<Rightarrow> collect_labels g bd
      | Case e st \<Rightarrow> collect_labels g st
      | Default st \<Rightarrow> collect_labels g st
      | _ \<Rightarrow> g)"
| "collect_labels_all g [] = g"
| "collect_labels_all g (x # xs) = collect_labels_all (collect_labels g x) xs"

subsection \<open>Loads, stores, addresses\<close>

definition load_value :: "ir_value \<Rightarrow> tid \<Rightarrow> ir_gen \<Rightarrow> ir_gen \<times> ir_value" where
  "load_value addr ty g = emit_op IR_LOAD ty addr irv_none g"

definition store_value :: "ir_value \<Rightarrow> ir_value \<Rightarrow> ir_gen \<Rightarrow> ir_gen" where
  "store_value addr v g = emit IR_STORE addr v irv_none g"

definition bit_mask :: "int \<Rightarrow> u64" where
  "bit_mask width = (if width \<le> 0 then 0 else if width \<ge> 63 then - 1 else push_bit (nat width) 1 - 1)"

definition gen_bitfield_load :: "ir_value \<Rightarrow> struct_field \<Rightarrow> ir_gen \<Rightarrow> ir_gen \<times> ir_value" where
  "gen_bitfield_load addr fd g =
     (let ty = sf_type fd;
          (g, raw) = load_value addr ty g;
          (g, shifted) =
            (if sf_bit_offset fd > 0
             then emit_op IR_SHR ty raw (irv_int (sf_bit_offset fd) type_int) g else (g, raw))
      in emit_op IR_AND ty shifted (irv_int (sint (bit_mask (sf_bit_width fd))) ty) g)"

definition gen_bitfield_store ::
    "ir_value \<Rightarrow> struct_field \<Rightarrow> ir_value \<Rightarrow> ir_gen \<Rightarrow> ir_gen \<times> ir_value" where
  "gen_bitfield_store addr fd v g =
     (let ty = sf_type fd;
          mask = bit_mask (sf_bit_width fd);
          shifted_mask = push_bit (nat (sf_bit_offset fd)) mask;
          (g, current) = load_value addr ty g;
          (g, cleared) = emit_op IR_AND ty current (irv_int (sint (NOT shifted_mask)) ty) g;
          (g, clipped) = emit_op IR_AND ty v (irv_int (sint mask) ty) g;
          (g, shifted) =
            (if sf_bit_offset fd > 0
             then emit_op IR_SHL ty clipped (irv_int (sf_bit_offset fd) type_int) g else (g, clipped));
          (g, nxt) = emit_op IR_OR ty cleared shifted g
      in (store_value addr nxt g, v))"

definition gen_alloca_value :: "(tid \<Rightarrow> u64) \<Rightarrow> tid \<Rightarrow> ir_gen \<Rightarrow> ir_gen \<times> ir_value" where
  "gen_alloca_value adr ty g =
     (let sz = type_sizeof (ig_nodes g) ty;
          al = type_alignof (ig_nodes g) ty;
          sz = (if sz \<le> 0 \<and> (case body (ig_nodes g) ty of Array e n \<Rightarrow> n \<le> 0 | _ \<Rightarrow> False) then 4096 else sz);
          sz = (if sz \<le> 0 then 8 else sz);
          al = (if al \<le> 0 then 8 else al);
          (g, t) = new_temp g;
          (g, p) = ptr_to adr ty g;
          g = emit IR_ALLOCA (irv_temp t p) irv_none irv_none g
      in (set_last (\<lambda>i. i\<lparr>in_alloca_size := sz, in_alloca_align := al\<rparr>) g, irv_temp t p))"

definition gen_addr_offset ::
    "(tid \<Rightarrow> u64) \<Rightarrow> ir_value \<Rightarrow> int \<Rightarrow> tid \<Rightarrow> ir_gen \<Rightarrow> ir_gen \<times> ir_value" where
  "gen_addr_offset adr base off pointee g =
     (let (g, p) = ptr_to adr pointee g
      in if off = 0 \<and> (case iv_type base of None \<Rightarrow> False
                        | Some t \<Rightarrow> body (ig_nodes g) t = Pointer pointee)
         then (g, base)
         else emit_op IR_ADD p base (irv_int off type_long) g)"

text \<open>The pointer to a field is the list of fields from it on, the empty list for NULL. Fuel is
  as for lookup_member in theory Sema.\<close>

fun find_from ::
    "nat \<Rightarrow> type_node list \<Rightarrow> string \<Rightarrow> struct_field list \<Rightarrow> (int \<times> struct_field list) option option"
and find_field_with_offset ::
    "nat \<Rightarrow> type_node list \<Rightarrow> tid option \<Rightarrow> string \<Rightarrow> (int \<times> struct_field list) option option" where
  "find_from fuel ns name [] = Some None"
| "find_from fuel ns name (f # fs) =
     (if sf_name f = Some name then Some (Some (sf_offset f, f # fs))
      else if sf_name f = None \<and> agg_of (body ns (sf_type f)) \<noteq> None
        then (case find_field_with_offset fuel ns (Some (sf_type f)) name of
                None \<Rightarrow> None
              | Some (Some (nested, found)) \<Rightarrow> Some (Some (sf_offset f + nested, found))
              | Some None \<Rightarrow> find_from fuel ns name fs)
      else find_from fuel ns name fs)"
| "find_field_with_offset 0 ns ty name = None"
| "find_field_with_offset (Suc fuel) ns ty name =
     (case ty of
        None \<Rightarrow> Some None
      | Some t \<Rightarrow> (case agg_of (body ns t) of None \<Rightarrow> Some None | Some a \<Rightarrow> find_from fuel ns name (ag_fields a)))"

definition field_at :: "type_node list \<Rightarrow> tid option \<Rightarrow> string \<Rightarrow> (int \<times> struct_field list) option" where
  "field_at ns ty name =
     (case find_field_with_offset (length ns + 1) ns ty name of Some r \<Rightarrow> r | None \<Rightarrow> None)"

definition find_field :: "type_node list \<Rightarrow> tid option \<Rightarrow> string \<Rightarrow> struct_field list" where
  "find_field ns ty name = (case field_at ns ty name of Some (off, fs) \<Rightarrow> fs | None \<Rightarrow> [])"

definition member_field :: "type_node list \<Rightarrow> ast \<Rightarrow> struct_field list" where
  "member_field ns nd =
     (case ast_body nd of
        Member b name \<Rightarrow> find_field ns (ast_type b) name
      | MemberPtr b name \<Rightarrow> find_field ns (strip_ptr ns (ast_type b)) name
      | _ \<Rightarrow> [])"

text \<open>The test \<open>bf && bf->bit_width > 0\<close>.\<close>

definition bitfield_of :: "type_node list \<Rightarrow> ast \<Rightarrow> struct_field option" where
  "bitfield_of ns nd =
     (case member_field ns nd of
        [] \<Rightarrow> None
      | f # fs \<Rightarrow> if sf_bit_width f > 0 then Some f else None)"

subsection \<open>Global initializers\<close>

fun const_int_value :: "ast \<Rightarrow> u64" where
  "const_int_value (Ast l c t b) =
     (case b of
        IntLit v suf w \<Rightarrow> v
      | CharLit v suf w \<Rightarrow> v
      | Unop op e \<Rightarrow>
          if op = TOK_MINUS then - const_int_value e
          else if op = TOK_PLUS then const_int_value e else 0
      | _ \<Rightarrow> 0)"

definition const_int_opt :: "ast option \<Rightarrow> u64" where
  "const_int_opt e = (case e of None \<Rightarrow> 0 | Some e \<Rightarrow> const_int_value e)"

type_synonym writes = "(int \<times> byte) list"

definition write_int_le :: "int \<Rightarrow> int \<Rightarrow> u64 \<Rightarrow> writes" where
  "write_int_le off sz u = map (\<lambda>i. (off + int i, ucast (drop_bit (i * 8) u AND 0xff))) [0..<nat sz]"

text \<open>The value of an entry of an initializer list: what a designator designates.\<close>

definition item_value :: "ast \<Rightarrow> ast" where
  "item_value e = (case ast_body e of Designator is_field name ix v \<Rightarrow> v | _ \<Rightarrow> e)"

definition fill_global_scalar :: "type_node list \<Rightarrow> tid \<Rightarrow> ast \<Rightarrow> int \<Rightarrow> writes" where
  "fill_global_scalar ns ty init off =
     (let init = (case ast_body init of
                    InitList items n \<Rightarrow> (case items of [] \<Rightarrow> None | it # its \<Rightarrow> Some (item_value it))
                  | _ \<Rightarrow> Some init);
          sz = type_sizeof ns ty
      in if sz \<le> 0 then [] else write_int_le off (if sz > 8 then 8 else sz) (const_int_opt init))"

text \<open>The index and the value of an entry of an array initializer, \<open>None\<close> for a field
  designator, which is skipped; and whether the entry is out of the array.\<close>

definition array_entry :: "int \<Rightarrow> ast \<Rightarrow> (int \<times> ast) option" where
  "array_entry next_index it =
     (case ast_body it of
        Designator is_field name ix v \<Rightarrow>
          if is_field then None else Some (sint (const_int_opt ix), v)
      | _ \<Rightarrow> Some (next_index, it))"

definition out_of_array :: "type_node list \<Rightarrow> tid \<Rightarrow> int \<Rightarrow> bool" where
  "out_of_array ns ty index = (case body ns ty of Array e n \<Rightarrow> index < 0 \<or> index \<ge> n | _ \<Rightarrow> False)"

text \<open>The fields from the designated or the next one on, and the value; \<open>None\<close> for an index
  designator, which is skipped.\<close>

definition field_entry ::
    "type_node list \<Rightarrow> tid \<Rightarrow> struct_field list \<Rightarrow> ast \<Rightarrow> (struct_field list \<times> ast) option" where
  "field_entry ns ty next_field it =
     (case ast_body it of
        Designator is_field name ix v \<Rightarrow>
          if is_field then Some (find_field ns (Some ty) name, v) else None
      | _ \<Rightarrow> Some (next_field, it))"

definition elem_of :: "type_node list \<Rightarrow> tid \<Rightarrow> tid" where
  "elem_of ns ty = (case body ns ty of Array e n \<Rightarrow> e | ArrayUnsized e \<Rightarrow> e | _ \<Rightarrow> type_int)"

definition size_or_1 :: "type_node list \<Rightarrow> tid \<Rightarrow> int" where
  "size_or_1 ns t = (if type_sizeof ns t \<le> 0 then 1 else type_sizeof ns t)"

definition fields_of :: "type_node list \<Rightarrow> tid \<Rightarrow> struct_field list" where
  "fields_of ns ty = (case agg_of (body ns ty) of Some a \<Rightarrow> ag_fields a | None \<Rightarrow> [])"

lemma array_entry_size: "array_entry i it = Some (ix, v) \<Longrightarrow> size v \<le> size it"
  by (cases it) (auto simp: array_entry_def split: ast_body.splits if_splits)

lemma field_entry_size: "field_entry ns ty fs it = Some (gs, v) \<Longrightarrow> size v \<le> size it"
  by (cases it) (auto simp: field_entry_def split: ast_body.splits if_splits)

lemma init_items_size: "ast_body init = InitList items n \<Longrightarrow> size_list size items < size init"
  by (cases init) auto

lemma compound_init_size: "ast_body init = CompoundLit t e \<Longrightarrow> size e < size init"
  by (cases init) auto

function fill_global_initializer :: "type_node list \<Rightarrow> tid \<Rightarrow> ast \<Rightarrow> int \<Rightarrow> writes"
and fill_global_array :: "type_node list \<Rightarrow> tid \<Rightarrow> int \<Rightarrow> ast list \<Rightarrow> int \<Rightarrow> writes"
and fill_global_aggregate :: "type_node list \<Rightarrow> tid \<Rightarrow> struct_field list \<Rightarrow> ast list \<Rightarrow> int \<Rightarrow> writes" where
  "fill_global_initializer ns ty init off =
     (let init = (case ast_body init of CompoundLit t e \<Rightarrow> e | _ \<Rightarrow> init)
      in case ast_body init of
           InitList items n \<Rightarrow>
             if is_array ns ty then fill_global_array ns ty 0 items off
             else if is_agg ns (Some ty) then fill_global_aggregate ns ty (fields_of ns ty) items off
             else fill_global_scalar ns ty init off
         | _ \<Rightarrow> fill_global_scalar ns ty init off)"
| "fill_global_array ns ty next_index [] off = []"
| "fill_global_array ns ty next_index (it # its) off =
     (case array_entry next_index it of
        None \<Rightarrow> fill_global_array ns ty next_index its off
      | Some (index, v) \<Rightarrow>
          if out_of_array ns ty index then fill_global_array ns ty (index + 1) its off
          else fill_global_initializer ns (elem_of ns ty) v
                 (off + to_int32 (index * size_or_1 ns (elem_of ns ty)))
               @ fill_global_array ns ty (index + 1) its off)"
| "fill_global_aggregate ns ty next_field [] off = []"
| "fill_global_aggregate ns ty next_field (it # its) off =
     (case field_entry ns ty next_field it of
        None \<Rightarrow> fill_global_aggregate ns ty next_field its off
      | Some ([], v) \<Rightarrow> []
      | Some (f # fs, v) \<Rightarrow>
          fill_global_initializer ns (sf_type f) v (off + sf_offset f)
          @ fill_global_aggregate ns ty fs its off)"
  by pat_completeness auto
termination
  by (relation "measure (\<lambda>x. case x of Inl (_, _, e, _) \<Rightarrow> size e
        | Inr (Inl (_, _, _, es, _)) \<Rightarrow> size_list size es
        | Inr (Inr (_, _, _, es, _)) \<Rightarrow> size_list size es)")
    (auto split: ast_body.splits dest!: array_entry_size field_entry_size init_items_size compound_init_size)

definition byte_char :: "byte \<Rightarrow> char" where
  "byte_char b = char_of (unat b)"

definition run_writes :: "writes \<Rightarrow> string \<Rightarrow> string" where
  "run_writes ws buf = fold (\<lambda>(off, b) buf. buf[nat off := byte_char b]) ws buf"

subsection \<open>Zero initializers\<close>

text \<open>Fuel bounds the nesting of the type; a type nested by value deeper than the number of types
  contains itself, and the code does not return for it.\<close>

fun gen_zero_initializer :: "nat \<Rightarrow> (tid \<Rightarrow> u64) \<Rightarrow> ir_value \<Rightarrow> tid \<Rightarrow> ir_gen \<Rightarrow> ir_gen" where
  "gen_zero_initializer 0 adr addr ty g = g"
| "gen_zero_initializer (Suc fuel) adr addr ty g =
     (case body (ig_nodes g) ty of
        Array e n \<Rightarrow>
          fold (\<lambda>i g. let (g, a) = gen_addr_offset adr addr (to_int32 (int i * size_or_1 (ig_nodes g) e)) e g
                      in gen_zero_initializer fuel adr a e g) [0..<nat n] g
      | Struct a \<Rightarrow>
          fold (\<lambda>f g. let (g, a) = gen_addr_offset adr addr (sf_offset f) (sf_type f) g
                      in gen_zero_initializer fuel adr a (sf_type f) g) (ag_fields a) g
      | Union a \<Rightarrow>
          fold (\<lambda>f g. let (g, a) = gen_addr_offset adr addr (sf_offset f) (sf_type f) g
                      in gen_zero_initializer fuel adr a (sf_type f) g) (ag_fields a) g
      | _ \<Rightarrow> store_value addr (irv_int 0 ty) g)"

definition zero_initializer :: "(tid \<Rightarrow> u64) \<Rightarrow> ir_value \<Rightarrow> tid \<Rightarrow> ir_gen \<Rightarrow> ir_gen" where
  "zero_initializer adr addr ty g = gen_zero_initializer (length (ig_nodes g) + 1) adr addr ty g"

end
