(* ===== verification/IrgenExpr.thy ===== *)
theory IrgenExpr
  imports Irgen
begin

section \<open>IR generation: expressions and initializers (irgen.c 526-1110)\<close>

text \<open>
  gen_expr gives the value of an expression, gen_lvalue its address, and the initializer
  functions store into an address; they call each other as in the code, sometimes on the
  same node, which is why the termination measure ranks them.
\<close>

subsection \<open>Steps that generate no subexpression\<close>

definition emit_memcpy :: "tid option \<Rightarrow> ir_value \<Rightarrow> ir_value \<Rightarrow> ir_gen \<Rightarrow> ir_gen" where
  "emit_memcpy ty addr src g =
     (let sz = (case ty of Some t \<Rightarrow> type_sizeof (ig_nodes g) t | None \<Rightarrow> 0)
      in emit IR_MEMCPY addr src (irv_int (if sz < 0 then 0 else sz) type_ulong) g)"

text \<open>The multiplication of an index by an element size other than 1.\<close>

definition scale :: "ir_value \<Rightarrow> int \<Rightarrow> ir_gen \<Rightarrow> ir_gen \<times> ir_value" where
  "scale v esz g =
     (if esz \<noteq> 1 then emit_op IR_MUL type_long v (irv_int esz type_long) g else (g, v))"

definition subscript_addr ::
    "(tid \<Rightarrow> u64) \<Rightarrow> tid \<Rightarrow> ir_value \<Rightarrow> ir_value \<Rightarrow> ir_gen \<Rightarrow> ir_gen \<times> ir_value" where
  "subscript_addr adr ty base idx g =
     (let (g, t) = new_temp g;
          (g, p) = ptr_to adr ty g;
          (g, idx) = scale idx (size_or_1 (ig_nodes g) ty) g
      in (emit IR_ADD (irv_temp t p) base idx g, irv_temp t p))"

definition member_addr ::
    "(tid \<Rightarrow> u64) \<Rightarrow> ir_value \<Rightarrow> tid option \<Rightarrow> string \<Rightarrow> ir_gen \<Rightarrow> ir_gen \<times> ir_value" where
  "member_addr adr base ty field g =
     (case field_at (ig_nodes g) ty field of
        Some (off, f # fs) \<Rightarrow> gen_addr_offset adr base off (sf_type f) g
      | _ \<Rightarrow> (g, base))"

definition ident_addr :: "(tid \<Rightarrow> u64) \<Rightarrow> string \<Rightarrow> ir_gen \<Rightarrow> ir_gen \<times> ir_value" where
  "ident_addr adr name g =
     (case vscope_lookup g name of
        Some e \<Rightarrow> (g, ve_addr e)
      | None \<Rightarrow> let (g, p) = ptr_to adr type_int g in (g, irv_global name p))"

text \<open>The value at an address. An object that is used by its address is not loaded.\<close>

definition ident_value :: "tid \<Rightarrow> string \<Rightarrow> ir_gen \<Rightarrow> ir_gen \<times> ir_value" where
  "ident_value ty name g =
     (case vscope_lookup g name of
        Some e \<Rightarrow>
          if is_array (ig_nodes g) ty \<or> is_func (ig_nodes g) ty \<or> is_agg (ig_nodes g) (Some ty)
          then (g, ve_addr e) else load_value (ve_addr e) ty g
      | None \<Rightarrow> (g, irv_global name ty))"

text \<open>The value of a dereference or a subscript, of a member and of a compound literal at its
  address \<open>addr\<close>; \<open>ty\<close> is the type of the node.\<close>

definition deref_value :: "tid option \<Rightarrow> ir_value \<Rightarrow> ir_gen \<Rightarrow> ir_gen \<times> ir_value" where
  "deref_value ty addr g =
     (if is_agg (ig_nodes g) ty then (g, addr)
      else load_value addr (case ty of Some t \<Rightarrow> t | None \<Rightarrow> type_int) g)"

definition member_value ::
    "struct_field option \<Rightarrow> tid option \<Rightarrow> ir_value \<Rightarrow> ir_gen \<Rightarrow> ir_gen \<times> ir_value" where
  "member_value bf ty addr g =
     (case bf of
        Some f \<Rightarrow> gen_bitfield_load addr f g
      | None \<Rightarrow>
          if (case ty of Some t \<Rightarrow> is_array (ig_nodes g) t | None \<Rightarrow> False) then (g, addr)
          else deref_value ty addr g)"

definition literal_value :: "tid option \<Rightarrow> ir_value \<Rightarrow> ir_gen \<Rightarrow> ir_gen \<times> ir_value" where
  "literal_value ty addr g =
     (let t = (case ty of Some t \<Rightarrow> t | None \<Rightarrow> type_int)
      in if is_agg (ig_nodes g) (Some t) \<or> is_array (ig_nodes g) t then (g, addr)
         else load_value addr t g)"

text \<open>Increment and decrement: the new state with the old and the new value.\<close>

definition inc_dec :: "TokenKind \<Rightarrow> tid \<Rightarrow> ir_value \<Rightarrow> ir_gen \<Rightarrow> ir_gen \<times> ir_value \<times> ir_value" where
  "inc_dec op ty addr g =
     (let (g, old) = load_value addr ty g;
          one = irv_int (pointer_pointee_size (ig_nodes g) (Some ty)) type_int;
          (g, dst) = emit_op (if op = TOK_PLUSPLUS then IR_ADD else IR_SUB) ty old one g
      in (store_value addr dst g, old, dst))"

definition unop_value :: "TokenKind \<Rightarrow> tid \<Rightarrow> ir_value \<Rightarrow> ir_gen \<Rightarrow> ir_gen \<times> ir_value" where
  "unop_value op ty v g =
     (if op = TOK_MINUS then emit_op IR_NEG ty v irv_none g
      else if op = TOK_TILDE then emit_op IR_NOT ty v irv_none g
      else if op = TOK_BANG then emit_op IR_EQ ty v (irv_int 0 type_int) g
      else if op = TOK_PLUS then (fst (temp_of ty g), v)
      else emit_op IR_COPY ty v irv_none g)"

definition binop_value ::
    "TokenKind \<Rightarrow> tid \<Rightarrow> tid option \<Rightarrow> tid option \<Rightarrow> ir_value \<Rightarrow> ir_value \<Rightarrow> ir_gen \<Rightarrow> ir_gen \<times> ir_value" where
  "binop_value op ty lt rt lv rv g =
     (let (g, dst) = temp_of ty g; ns = ig_nodes g
      in if op = TOK_PLUS \<and> is_ptr ns lt \<and> \<not> is_ptr ns rt
         then (let (g, rv) = scale rv (pointer_pointee_size ns lt) g in (emit IR_ADD dst lv rv g, dst))
         else if op = TOK_PLUS \<and> is_ptr ns rt \<and> \<not> is_ptr ns lt
         then (let (g, lv) = scale lv (pointer_pointee_size ns rt) g in (emit IR_ADD dst rv lv g, dst))
         else if op = TOK_MINUS \<and> is_ptr ns lt \<and> is_ptr ns rt
         then (let g = emit IR_SUB dst lv rv g; esz = pointer_pointee_size ns lt
               in if esz \<noteq> 1
                  then emit_op IR_DIV ty dst (irv_int esz type_long) g
                  else (g, dst))
         else if op = TOK_MINUS \<and> is_ptr ns lt
         then (let (g, rv) = scale rv (pointer_pointee_size ns lt) g in (emit IR_SUB dst lv rv g, dst))
         else (emit (tok_to_ir_binop op) dst lv rv g, dst))"

text \<open>The end of \<open>&&\<close> and of \<open>||\<close>, after both operands.\<close>

definition logical_value ::
    "TokenKind \<Rightarrow> ir_value \<Rightarrow> int \<Rightarrow> int \<Rightarrow> int \<Rightarrow> ir_value \<Rightarrow> ir_gen \<Rightarrow> ir_gen" where
  "logical_value op result end_label false_label true_label rv g =
     (let g = emit_jnz rv true_label g;
          g = (if op = TOK_AND then emit_label false_label (emit_jmp false_label g) else g);
          g = emit_jmp end_label (emit IR_COPY result (irv_int 0 type_int) irv_none g);
          g = emit IR_COPY result (irv_int 1 type_int) irv_none (emit_label true_label g)
      in emit_label end_label g)"

definition compound_value ::
    "TokenKind \<Rightarrow> tid \<Rightarrow> ir_value \<Rightarrow> ir_value \<Rightarrow> ir_gen \<Rightarrow> ir_gen \<times> ir_value" where
  "compound_value op ty lval rv g =
     (let (g, dst) = temp_of ty g;
          (g, rv) = (if is_ptr (ig_nodes g) (Some ty) \<and> (op = TOK_PLUS_ASSIGN \<or> op = TOK_MINUS_ASSIGN)
                     then scale rv (pointer_pointee_size (ig_nodes g) (Some ty)) g else (g, rv))
      in (emit (tok_to_ir_binop (compound_base op)) dst lval rv g, dst))"

definition classify :: "type_node list \<Rightarrow> tid \<Rightarrow> ABIClassification" where
  "classify ns t =
     (case abi_classify (length ns + 1) ns t of
        Some c \<Rightarrow> c
      | None \<Rightarrow> \<lparr>n_eightbytes = 0, classes = [ABI_CLASS_NONE, ABI_CLASS_NONE]\<rparr>)"

definition call_value ::
    "(tid \<Rightarrow> u64) \<Rightarrow> tid \<Rightarrow> ir_value \<Rightarrow> ir_value list \<Rightarrow> ir_gen \<Rightarrow> ir_gen \<times> ir_value" where
  "call_value adr ret_ty callee args g =
     (let sret = abi_in_memory (classify (ig_nodes g) ret_ty);
          (g, dst) = (if is_agg (ig_nodes g) (Some ret_ty) then gen_alloca_value adr ret_ty g
                      else temp_of ret_ty g);
          g = emit IR_CALL dst callee irv_none g
      in (set_last (\<lambda>i. i\<lparr>in_call_args := args, in_call_sret := sret, in_call_ret_ty := Some ret_ty\<rparr>) g, dst))"

definition cast_op :: "type_node list \<Rightarrow> tid \<Rightarrow> tid \<Rightarrow> IROp" where
  "cast_op ns from_ty to_ty =
     (if type_is_integer ns from_ty \<and> type_is_integer ns to_ty
      then (let from_sz = type_sizeof ns from_ty; to_sz = type_sizeof ns to_ty
            in if to_sz > from_sz then (if type_is_signed ns from_ty then IR_SEXT else IR_ZEXT)
               else if to_sz < from_sz then IR_TRUNC
               else if to_sz < 8 \<and> type_is_signed ns from_ty \<noteq> type_is_signed ns to_ty then IR_TRUNC
               else IR_COPY)
      else if type_is_integer ns from_ty \<and> type_is_arithmetic ns to_ty then IR_ITOF
      else if type_is_arithmetic ns from_ty \<and> type_is_integer ns to_ty then IR_FTOI
      else IR_COPY)"

definition cast_value :: "tid option \<Rightarrow> tid \<Rightarrow> ir_value \<Rightarrow> ir_gen \<Rightarrow> ir_gen \<times> ir_value" where
  "cast_value from_ty to_ty src g =
     (case from_ty of
        None \<Rightarrow> (g, src)
      | Some f \<Rightarrow>
          if f = to_ty then (g, src)
          else emit_op (cast_op (ig_nodes g) f to_ty) to_ty src irv_none g)"

definition sizeof_value :: "type_node list \<Rightarrow> tid option \<Rightarrow> ir_value" where
  "sizeof_value ns ty =
     (let sz = (case ty of Some t \<Rightarrow> type_sizeof ns t | None \<Rightarrow> 0)
      in irv_int (if sz < 0 then 0 else sz) type_ulong)"

subsection \<open>The mutual recursion\<close>

text \<open>The switch of gen_lvalue: the kinds of node that have an address of their own.\<close>

datatype (plugins only: code size) lvalue_view =
    LvIdent string | LvDeref ast | LvSubscript ast ast | LvMember ast string | LvMemberPtr ast string
  | LvLiteral tid ast | LvOther

definition lvalue_view :: "ast_body \<Rightarrow> lvalue_view" where
  "lvalue_view b =
     (case b of
        Ident name \<Rightarrow> LvIdent name
      | Unop op e \<Rightarrow> if op = TOK_STAR then LvDeref e else LvOther
      | Subscript x y \<Rightarrow> LvSubscript x y
      | Member e field \<Rightarrow> LvMember e field
      | MemberPtr e field \<Rightarrow> LvMemberPtr e field
      | CompoundLit t e \<Rightarrow> LvLiteral t e
      | _ \<Rightarrow> LvOther)"

declare lvalue_view.case_cong [fundef_cong]

text \<open>The kinds of node whose value is read from their own address, and those whose value is
  the address of an aggregate.\<close>

definition own_address :: "ast_body \<Rightarrow> bool" where
  "own_address b = (case b of Subscript x y \<Rightarrow> True | Member e f \<Rightarrow> True | MemberPtr e f \<Rightarrow> True
                    | CompoundLit t e \<Rightarrow> True | _ \<Rightarrow> False)"

definition value_is_address :: "ast \<Rightarrow> bool" where
  "value_is_address e = (case ast_body e of Call f as \<Rightarrow> True | CompoundLit t i \<Rightarrow> True
                         | Assign op x y \<Rightarrow> True | _ \<Rightarrow> False)"

definition list_items :: "ast \<Rightarrow> ast list option" where
  "list_items e = (case ast_body e of InitList items n \<Rightarrow> Some items | _ \<Rightarrow> None)"

definition literal_init :: "ast \<Rightarrow> ast option" where
  "literal_init e = (case ast_body e of CompoundLit t i \<Rightarrow> Some i | _ \<Rightarrow> None)"

lemma list_items_size: "list_items e = Some items \<Longrightarrow> size_list size items < size e"
  by (cases e) (auto simp: list_items_def split: ast_body.splits)

lemma literal_init_size: "literal_init e = Some i \<Longrightarrow> size i < size e"
  by (cases e) (auto simp: literal_init_def split: ast_body.splits)

lemma lvalue_view_cases:
  "lvalue_view b = LvDeref e \<longleftrightarrow> b = Unop TOK_STAR e"
  "lvalue_view b = LvSubscript x y \<longleftrightarrow> b = Subscript x y"
  "lvalue_view b = LvMember e f \<longleftrightarrow> b = Member e f"
  "lvalue_view b = LvMemberPtr e f \<longleftrightarrow> b = MemberPtr e f"
  "lvalue_view b = LvLiteral t e \<longleftrightarrow> b = CompoundLit t e"
  "lvalue_view b = LvIdent n \<longleftrightarrow> b = Ident n"
  by (cases b; simp add: lvalue_view_def)+

lemma lvalue_view_own: "lvalue_view b = LvOther \<Longrightarrow> \<not> own_address b"
  by (auto simp: lvalue_view_def own_address_def split: ast_body.splits)

lemma own_address_simps:
  "own_address (Subscript x y)" "own_address (Member e f)" "own_address (MemberPtr e f)"
  "own_address (CompoundLit t e)"
  by (simp_all add: own_address_def)

lemma item_value_less: "Suc (size x + k) < n \<Longrightarrow> Suc (8 * size (item_value x)) < 8 * n"
  by (cases x) (auto simp: item_value_def split: ast_body.splits)

function gen_expr :: "(tid \<Rightarrow> u64) \<Rightarrow> ast \<Rightarrow> ir_gen \<Rightarrow> ir_gen \<times> ir_value"
and gen_lvalue :: "(tid \<Rightarrow> u64) \<Rightarrow> ast \<Rightarrow> ir_gen \<Rightarrow> ir_gen \<times> ir_value"
and gen_aggregate_expr_addr :: "(tid \<Rightarrow> u64) \<Rightarrow> ast \<Rightarrow> ir_gen \<Rightarrow> ir_gen \<times> ir_value"
and gen_args :: "(tid \<Rightarrow> u64) \<Rightarrow> ast list \<Rightarrow> ir_gen \<Rightarrow> ir_gen \<times> ir_value list"
and gen_scalar_or_nested_init :: "(tid \<Rightarrow> u64) \<Rightarrow> ir_value \<Rightarrow> tid \<Rightarrow> ast \<Rightarrow> ir_gen \<Rightarrow> ir_gen"
and gen_array_initializer :: "(tid \<Rightarrow> u64) \<Rightarrow> ir_value \<Rightarrow> tid \<Rightarrow> int \<Rightarrow> ast list \<Rightarrow> ir_gen \<Rightarrow> ir_gen"
and gen_aggregate_initializer ::
    "(tid \<Rightarrow> u64) \<Rightarrow> ir_value \<Rightarrow> tid \<Rightarrow> struct_field list \<Rightarrow> ast list \<Rightarrow> ir_gen \<Rightarrow> ir_gen"
and gen_initializer :: "(tid \<Rightarrow> u64) \<Rightarrow> ir_value \<Rightarrow> tid \<Rightarrow> ast \<Rightarrow> ir_gen \<Rightarrow> ir_gen" where
  "gen_expr adr (Ast l c ty b) g =
     (let t = (case ty of Some t \<Rightarrow> t | None \<Rightarrow> type_int)
      in case b of
        IntLit v suf w \<Rightarrow> (g, irv_int (sint v) t)
      | CharLit v suf w \<Rightarrow> (g, irv_int (sint v) t)
      | FloatLit x suf \<Rightarrow> (g, irv_float x (case ty of Some t \<Rightarrow> t | None \<Rightarrow> type_double))
      | StrLit x w \<Rightarrow>
          (let (m, label) = ir_add_string_const (ig_module g) x; g = g\<lparr>ig_module := m\<rparr>
           in case ty of
                Some t \<Rightarrow> (g, irv_global label t)
              | None \<Rightarrow> let (g, p) = ptr_to adr type_char g in (g, irv_global label p))
      | Ident name \<Rightarrow> ident_value t name g
      | Unop op e \<Rightarrow>
          (if op = TOK_AMP then gen_lvalue adr e g
           else if op = TOK_STAR then (let (g, a) = gen_expr adr e g in deref_value ty a g)
           else if op = TOK_PLUSPLUS \<or> op = TOK_MINUSMINUS
           then (let (g, a) = gen_lvalue adr e g; (g, old, new) = inc_dec op t a g in (g, new))
           else (let (g, v) = gen_expr adr e g in unop_value op t v g))
      | Postfix op e \<Rightarrow>
          (let (g, a) = gen_lvalue adr e g; (g, old, new) = inc_dec op t a g in (g, old))
      | Binop op x y \<Rightarrow>
          (if op = TOK_AND \<or> op = TOK_OR
           then (let (g, result) = temp_of type_int g;
                     (g, end_label) = new_label g;
                     (g, false_label) = new_label g;
                     (g, true_label) = new_label g;
                     (g, lv) = gen_expr adr x g;
                     g = (if op = TOK_AND then emit_jz lv false_label g else emit_jnz lv true_label g);
                     (g, rv) = gen_expr adr y g
                 in (logical_value op result end_label false_label true_label rv g, result))
           else (let (g, lv) = gen_expr adr x g; (g, rv) = gen_expr adr y g
                 in binop_value op t (ast_type x) (ast_type y) lv rv g))
      | Assign op x y \<Rightarrow>
          (let (g, addr) = gen_lvalue adr x g;
               lhs_ty = (case ast_type x of Some t \<Rightarrow> Some t | None \<Rightarrow> ty)
           in if op = TOK_ASSIGN \<and> is_agg (ig_nodes g) lhs_ty
              then (let (g, src) = gen_aggregate_expr_addr adr y g in (emit_memcpy lhs_ty addr src g, addr))
              else if op = TOK_ASSIGN
              then (let bf = bitfield_of (ig_nodes g) x; (g, rval) = gen_expr adr y g
                    in case bf of
                         Some f \<Rightarrow> gen_bitfield_store addr f rval g
                       | None \<Rightarrow> (store_value addr rval g, rval))
              else (let (g, lval) = load_value addr t g; (g, rv) = gen_expr adr y g;
                        (g, dst) = compound_value op t lval rv g
                    in (store_value addr dst g, dst)))
      | Ternary x y z \<Rightarrow>
          (let (g, then_label) = new_label g;
               (g, else_label) = new_label g;
               (g, end_label) = new_label g;
               (g, result) = temp_of t g;
               (g, cond) = gen_expr adr x g;
               g = emit_label then_label (emit_jz cond else_label g);
               (g, tv) = gen_expr adr y g;
               g = emit_jmp end_label (emit IR_COPY result tv irv_none g);
               (g, ev) = gen_expr adr z (emit_label else_label g);
               g = emit IR_COPY result ev irv_none g
           in (emit_label end_label g, result))
      | Call f as \<Rightarrow>
          (let (g, args) = gen_args adr as g; (g, callee) = gen_expr adr f g
           in call_value adr t callee args g)
      | Subscript x y \<Rightarrow>
          (let (g, a) = gen_lvalue adr (Ast l c ty b) g in deref_value ty a g)
      | Member e field \<Rightarrow>
          (let (g, a) = gen_lvalue adr (Ast l c ty b) g
           in member_value (bitfield_of (ig_nodes g) (Ast l c ty b)) ty a g)
      | MemberPtr e field \<Rightarrow>
          (let (g, a) = gen_lvalue adr (Ast l c ty b) g
           in member_value (bitfield_of (ig_nodes g) (Ast l c ty b)) ty a g)
      | Cast to_ty e \<Rightarrow>
          (let (g, src) = gen_expr adr e g in cast_value (ast_type e) to_ty src g)
      | SizeofExpr e \<Rightarrow> (g, sizeof_value (ig_nodes g) (ast_type e))
      | SizeofType st \<Rightarrow> (g, sizeof_value (ig_nodes g) (Some st))
      | Comma x y \<Rightarrow> (let (g, v) = gen_expr adr x g in gen_expr adr y g)
      | CompoundLit lt e \<Rightarrow>
          (let (g, a) = gen_lvalue adr (Ast l c ty b) g in literal_value ty a g)
      | _ \<Rightarrow> (g, irv_int 0 type_int))"
| "gen_lvalue adr (Ast l c ty b) g =
     (case lvalue_view b of
        LvIdent name \<Rightarrow> ident_addr adr name g
      | LvDeref e \<Rightarrow> gen_expr adr e g
      | LvSubscript x y \<Rightarrow>
          (let (g, base) = gen_expr adr x g; (g, idx) = gen_expr adr y g
           in subscript_addr adr (case ty of Some t \<Rightarrow> t | None \<Rightarrow> type_int) base idx g)
      | LvMember e field \<Rightarrow>
          (let (g, base) = gen_lvalue adr e g in member_addr adr base (ast_type e) field g)
      | LvMemberPtr e field \<Rightarrow>
          (let (g, ptr) = gen_expr adr e g
           in member_addr adr ptr (strip_ptr (ig_nodes g) (ast_type e)) field g)
      | LvLiteral lt e \<Rightarrow>
          (let (g, addr) = gen_alloca_value adr lt g in (gen_initializer adr addr lt e g, addr))
      | LvOther \<Rightarrow> gen_expr adr (Ast l c ty b) g)"
| "gen_aggregate_expr_addr adr e g =
     (if value_is_address e then gen_expr adr e g else gen_lvalue adr e g)"
| "gen_args adr [] g = (g, [])"
| "gen_args adr (a # as) g =
     (let (g, v) =
            (if is_agg (ig_nodes g) (Some (type_or_int a))
             then let (g, v) = gen_aggregate_expr_addr adr a g
                  in (g, v\<lparr>iv_type := Some (type_or_int a)\<rparr>)
             else gen_expr adr a g);
          (g, vs) = gen_args adr as g
      in (g, v # vs))"
| "gen_scalar_or_nested_init adr addr ty init g =
     (if list_items init \<noteq> None then gen_initializer adr addr ty init g
      else if is_agg (ig_nodes g) (Some ty)
      then (let (g, src) = gen_aggregate_expr_addr adr init g in emit_memcpy (Some ty) addr src g)
      else (let (g, v) = gen_expr adr init g in store_value addr v g))"
| "gen_array_initializer adr addr ty next_index [] g = g"
| "gen_array_initializer adr addr ty next_index (it # its) g =
     (case array_entry next_index it of
        None \<Rightarrow> gen_array_initializer adr addr ty next_index its g
      | Some (index, v) \<Rightarrow>
          if out_of_array (ig_nodes g) ty index
          then gen_array_initializer adr addr ty (index + 1) its g
          else (let elem = elem_of (ig_nodes g) ty;
                    (g, a) = gen_addr_offset adr addr (to_int32 (index * size_or_1 (ig_nodes g) elem)) elem g;
                    g = gen_scalar_or_nested_init adr a elem v g
                in gen_array_initializer adr addr ty (index + 1) its g))"
| "gen_aggregate_initializer adr addr ty next_field [] g = g"
| "gen_aggregate_initializer adr addr ty next_field (it # its) g =
     (case field_entry (ig_nodes g) ty next_field it of
        None \<Rightarrow> gen_aggregate_initializer adr addr ty next_field its g
      | Some ([], v) \<Rightarrow> g
      | Some (f # fs, v) \<Rightarrow>
          (let (g, a) = gen_addr_offset adr addr (sf_offset f) (sf_type f) g;
               g = gen_scalar_or_nested_init adr a (sf_type f) v g
           in gen_aggregate_initializer adr addr ty fs its g))"
| "gen_initializer adr addr ty init g =
     (case literal_init init of
        Some e \<Rightarrow>
          if is_agg (ig_nodes g) (Some ty) then gen_initializer adr addr ty e g
          else (let (g, v) = gen_expr adr init g in store_value addr v g)
      | None \<Rightarrow>
          (case list_items init of
             None \<Rightarrow>
               if is_agg (ig_nodes g) (Some ty)
               then (let (g, src) = gen_aggregate_expr_addr adr init g in emit_memcpy (Some ty) addr src g)
               else (let (g, v) = gen_expr adr init g in store_value addr v g)
           | Some items \<Rightarrow>
               (let g = zero_initializer adr addr ty g
                in if is_array (ig_nodes g) ty then gen_array_initializer adr addr ty 0 items g
                   else if is_agg (ig_nodes g) (Some ty)
                   then gen_aggregate_initializer adr addr ty (fields_of (ig_nodes g) ty) items g
                   else (case items of
                           [] \<Rightarrow> g
                         | it # its \<Rightarrow> gen_scalar_or_nested_init adr addr ty (item_value it) g))))"
  by pat_completeness auto
termination
  by (relation "measure (\<lambda>x. case x of
        Inl (Inl (Inl (_, e, _))) \<Rightarrow> 8 * size e + (if own_address (ast_body e) then 2 else 0)
      | Inl (Inl (Inr (_, e, _))) \<Rightarrow> 8 * size e + 1
      | Inl (Inr (Inl (_, e, _))) \<Rightarrow> 8 * size e + 3
      | Inl (Inr (Inr (_, es, _))) \<Rightarrow> 8 * size_list size es
      | Inr (Inl (Inl (_, _, _, e, _))) \<Rightarrow> 8 * size e + 5
      | Inr (Inl (Inr (_, _, _, _, es, _))) \<Rightarrow> 8 * size_list size es
      | Inr (Inr (Inl (_, _, _, _, es, _))) \<Rightarrow> 8 * size_list size es
      | Inr (Inr (Inr (_, _, _, e, _))) \<Rightarrow> 8 * size e + 4)")
    (auto simp: own_address_simps lvalue_view_cases lvalue_view_own intro: item_value_less
      dest!: array_entry_size field_entry_size list_items_size literal_init_size)
end
