(* ===== verification/IrgenStmt.thy ===== *)
theory IrgenStmt
  imports IrgenExpr
begin

section \<open>IR generation: statements, functions and the module (irgen.c 1111-1501)\<close>

subsection \<open>Statements\<close>

text \<open>A declaration of a block; anything but a variable emits nothing.\<close>

definition gen_local_decl :: "(tid \<Rightarrow> u64) \<Rightarrow> ast \<Rightarrow> ir_gen \<Rightarrow> ir_gen" where
  "gen_local_decl adr v g =
     (case ast_body v of
        VarDecl name ty init sc \<Rightarrow>
          (let (g, addr) = gen_alloca_value adr ty g;
               g = vscope_define g name addr False
           in case init of None \<Rightarrow> g | Some e \<Rightarrow> gen_initializer adr addr ty e g)
      | _ \<Rightarrow> g)"

definition gen_return :: "(tid \<Rightarrow> u64) \<Rightarrow> ast option \<Rightarrow> ir_gen \<Rightarrow> ir_gen" where
  "gen_return adr e g =
     (case e of
        None \<Rightarrow> emit IR_RET irv_none irv_none irv_none g
      | Some e \<Rightarrow>
          let ret_ty = (case body (ig_nodes g) (fn_type (ig_func g)) of
                          Func r ps n v \<Rightarrow> r | _ \<Rightarrow> type_or_int e);
              (g, rv) = (if is_agg (ig_nodes g) (Some ret_ty) then gen_aggregate_expr_addr adr e g
                         else gen_expr adr e g)
          in emit IR_RET irv_none rv irv_none g)"

definition enter_jumps :: "int \<Rightarrow> int \<Rightarrow> ir_gen \<Rightarrow> ir_gen" where
  "enter_jumps brk cont g = g\<lparr>ig_break := brk, ig_cont := cont\<rparr>"

text \<open>The comparisons of a switch with its cases, and the jump when none matches.\<close>

definition gen_case_test :: "ir_value \<Rightarrow> tid \<Rightarrow> case_entry \<Rightarrow> ir_gen \<Rightarrow> ir_gen" where
  "gen_case_test sv sv_ty ce g =
     (if ce_is_default ce then g
      else let (g, cmp) = emit_op IR_EQ type_int sv (irv_int (ce_val ce) sv_ty) g
           in emit_jnz cmp (ce_label ce) g)"

definition gen_dispatch :: "ir_value \<Rightarrow> int \<Rightarrow> ir_gen \<Rightarrow> ir_gen" where
  "gen_dispatch sv end_label g =
     (let sv_ty = (case iv_type sv of Some t \<Rightarrow> t | None \<Rightarrow> type_int);
          (g, copy) = emit_op IR_COPY sv_ty sv irv_none g;
          g = fold (gen_case_test copy sv_ty) (ig_cases g) g
      in emit_jmp (if ig_default g \<noteq> 0 then ig_default g else end_label) g)"

definition emit_case_label :: "int \<times> int \<Rightarrow> bool \<Rightarrow> ir_gen \<Rightarrow> ir_gen" where
  "emit_case_label nd is_default g =
     (case List.find (\<lambda>ce. ce_node ce = nd \<and> ce_is_default ce = is_default) (ig_cases g) of
        Some ce \<Rightarrow> emit_label (ce_label ce) g
      | None \<Rightarrow> g)"

definition goto_target :: "string \<Rightarrow> ir_gen \<Rightarrow> int option" where
  "goto_target name g = map_option gl_label (List.find (\<lambda>gl. gl_name gl = name) (ig_gotos g))"

text \<open>\<open>if (node->for_stmt.incr) gen_expr(...)\<close> and the test of a loop with a condition.\<close>

definition gen_expr_opt :: "(tid \<Rightarrow> u64) \<Rightarrow> ast option \<Rightarrow> ir_gen \<Rightarrow> ir_gen" where
  "gen_expr_opt adr e g = (case e of None \<Rightarrow> g | Some e \<Rightarrow> fst (gen_expr adr e g))"

definition gen_loop_test :: "(tid \<Rightarrow> u64) \<Rightarrow> ast option \<Rightarrow> int \<Rightarrow> ir_gen \<Rightarrow> ir_gen" where
  "gen_loop_test adr e end_label g =
     (case e of None \<Rightarrow> g | Some e \<Rightarrow> let (g, cond) = gen_expr adr e g in emit_jz cond end_label g)"

function gen_stmt :: "(tid \<Rightarrow> u64) \<Rightarrow> ast \<Rightarrow> ir_gen \<Rightarrow> ir_gen"
and gen_stmts :: "(tid \<Rightarrow> u64) \<Rightarrow> ast list \<Rightarrow> ir_gen \<Rightarrow> ir_gen" where
  "gen_stmt adr (Ast l c t b) g =
     (case b of
        Compound ss \<Rightarrow>
          (gen_stmts adr ss (g\<lparr>ig_scope := vscope_new (ig_scope g)\<rparr>))\<lparr>ig_scope := ig_scope g\<rparr>
      | ExprStmt e \<Rightarrow> fst (gen_expr adr e g)
      | DeclStmt ds \<Rightarrow> fold (gen_local_decl adr) ds g
      | If e th el \<Rightarrow>
          (let (g, else_label) = new_label g;
               (g, end_label) = new_label g;
               (g, cond) = gen_expr adr e g;
               g = gen_stmt adr th (emit_jz cond else_label g)
           in case el of
                None \<Rightarrow> emit_label else_label g
              | Some el \<Rightarrow>
                  emit_label end_label (gen_stmt adr el (emit_label else_label (emit_jmp end_label g))))
      | While e bd \<Rightarrow>
          (let brk = ig_break g; cont = ig_cont g;
               (g, top_label) = new_label g;
               (g, body_label) = new_label g;
               (g, end_label) = new_label g;
               g = emit_label top_label (enter_jumps end_label top_label g);
               (g, cond) = gen_expr adr e g;
               g = gen_stmt adr bd (emit_label body_label (emit_jz cond end_label g))
           in enter_jumps brk cont (emit_label end_label (emit_jmp top_label g)))
      | DoWhile e bd \<Rightarrow>
          (let brk = ig_break g; cont = ig_cont g;
               (g, body_label) = new_label g;
               (g, cond_label) = new_label g;
               (g, end_label) = new_label g;
               g = gen_stmt adr bd (emit_label body_label (enter_jumps end_label cond_label g));
               (g, cond) = gen_expr adr e (emit_label cond_label g)
           in enter_jumps brk cont (emit_label end_label (emit_jnz cond body_label g)))
      | For i e n bd \<Rightarrow>
          (let brk = ig_break g; cont = ig_cont g; scope = ig_scope g;
               (g, top_label) = new_label g;
               (g, body_label) = new_label g;
               (g, incr_label) = new_label g;
               (g, end_label) = new_label g;
               g = enter_jumps end_label incr_label (g\<lparr>ig_scope := vscope_new (ig_scope g)\<rparr>);
               g = (case i of None \<Rightarrow> g | Some i \<Rightarrow> gen_stmt adr i g);
               g = gen_loop_test adr e end_label (emit_label top_label g);
               g = gen_stmt adr bd (emit_label body_label g);
               g = gen_expr_opt adr n (emit_label incr_label g);
               g = emit_label end_label (emit_jmp top_label g)
           in enter_jumps brk cont (g\<lparr>ig_scope := scope\<rparr>))
      | Return e \<Rightarrow> gen_return adr e g
      | Break \<Rightarrow> if ig_break g \<noteq> 0 then emit_jmp (ig_break g) g else g
      | Continue \<Rightarrow> if ig_cont g \<noteq> 0 then emit_jmp (ig_cont g) g else g
      | Switch e bd \<Rightarrow>
          (let brk = ig_break g; cases = ig_cases g; dflt = ig_default g;
               (g, end_label) = new_label g;
               g = collect_switch_cases (g\<lparr>ig_break := end_label, ig_cases := [], ig_default := 0\<rparr>) bd;
               (g, sv) = gen_expr adr e g;
               g = emit_label end_label (gen_stmt adr bd (gen_dispatch sv end_label g))
           in g\<lparr>ig_break := brk, ig_cases := cases, ig_default := dflt\<rparr>)
      | Case e st \<Rightarrow> gen_stmt adr st (emit_case_label (l, c) False g)
      | Default st \<Rightarrow> gen_stmt adr st (emit_case_label (l, c) True g)
      | Goto lb \<Rightarrow> (case goto_target lb g of Some lab \<Rightarrow> emit_jmp lab g | None \<Rightarrow> g)
      | Label lb st \<Rightarrow>
          gen_stmt adr st (case goto_target lb g of Some lab \<Rightarrow> emit_label lab g | None \<Rightarrow> g)
      | _ \<Rightarrow> g)"
| "gen_stmts adr [] g = g"
| "gen_stmts adr (s # ss) g = gen_stmts adr ss (gen_stmt adr s g)"
  by pat_completeness auto
termination
  by (relation "measure (\<lambda>x. case x of Inl (_, e, _) \<Rightarrow> size e | Inr (_, es, _) \<Rightarrow> size_list size es)") auto

subsection \<open>Functions\<close>

text \<open>The slot of a parameter and, unless it is an aggregate, the pair of the slot and the value to
  store in it once all parameters are captured.\<close>

definition gen_param_slot ::
    "(tid \<Rightarrow> u64) \<Rightarrow> ast \<Rightarrow> ir_gen \<times> int \<times> (ir_value \<times> ir_value) list
      \<Rightarrow> ir_gen \<times> int \<times> (ir_value \<times> ir_value) list" where
  "gen_param_slot adr p r =
     (let (g, idx, stores) = r
      in case ast_body p of
           ParamDecl (Some name) pty \<Rightarrow>
             (let (g, addr) = gen_alloca_value adr pty g
              in if is_agg (ig_nodes g) (Some pty)
                 then (let g = emit IR_COPY addr irv_none irv_none g;
                           g = set_last (\<lambda>i. i\<lparr>in_label := idx, in_src2 := irv_none\<lparr>iv_type := Some pty\<rparr>\<rparr>) g
                       in (vscope_define g name addr False, idx + 1, stores))
                 else (let (g, v) = temp_of pty g;
                           g = set_last (\<lambda>i. i\<lparr>in_label := idx\<rparr>) (emit IR_COPY v irv_none irv_none g)
                       in (vscope_define g name addr False, idx + 1, stores @ [(addr, v)])))
         | _ \<Rightarrow> (g, idx + 1, stores))"

definition gen_sret :: "(tid \<Rightarrow> u64) \<Rightarrow> tid \<Rightarrow> ir_gen \<Rightarrow> ir_gen" where
  "gen_sret adr ret_ty g =
     (if abi_in_memory (classify (ig_nodes g) ret_ty)
      then (let (g, t) = new_temp g;
                (g, p) = ptr_to adr ret_ty g;
                g = set_last (\<lambda>i. i\<lparr>in_label := - 1\<rparr>) (emit IR_COPY (irv_temp t p) irv_none irv_none g)
            in g\<lparr>ig_func := (ig_func g)\<lparr>fn_sret_temp := t\<rparr>\<rparr>)
      else g)"

definition gen_func_body :: "(tid \<Rightarrow> u64) \<Rightarrow> tid \<Rightarrow> ast list \<Rightarrow> ast \<Rightarrow> ir_gen \<Rightarrow> ir_gen" where
  "gen_func_body adr func_type ps bd g =
     (let ret_ty = (case body (ig_nodes g) func_type of Func r qs n v \<Rightarrow> r | _ \<Rightarrow> type_int);
          g = gen_sret adr ret_ty g;
          (g, n, stores) = fold (gen_param_slot adr) ps (g, 0, []);
          g = fold (\<lambda>(addr, v) g. store_value addr v g) stores g;
          g = collect_labels (g\<lparr>ig_gotos := []\<rparr>) bd
      in gen_stmt adr bd g)"

definition gen_func ::
    "(tid \<Rightarrow> u64) \<Rightarrow> string \<Rightarrow> tid \<Rightarrow> ast list \<Rightarrow> ast \<Rightarrow> storage_class \<Rightarrow> ir_gen \<Rightarrow> ir_gen" where
  "gen_func adr name func_type ps bd sc g =
     (let (m, i) = ir_func_new (ig_module g) name func_type (sc = SC_STATIC);
          saved = ig_scope g;
          g = g\<lparr>ig_module := m, ig_func := md_funcs m ! i, ig_break := 0, ig_cont := 0,
                ig_scope := vscope_new (ig_scope g)\<rparr>;
          g = gen_func_body adr func_type ps bd g
      in g\<lparr>ig_module := (ig_module g)\<lparr>md_funcs := (md_funcs (ig_module g))[i := ig_func g]\<rparr>,
           ig_scope := saved\<rparr>)"

subsection \<open>The module\<close>

text \<open>The value of the initializer of a global: \<open>init_val\<close>, \<open>has_init\<close>, \<open>init_data\<close>, \<open>init_size\<close>.\<close>

definition global_init ::
    "type_node list \<Rightarrow> tid \<Rightarrow> ast option \<Rightarrow> int \<times> bool \<times> string option \<times> int" where
  "global_init ns ty init =
     (case init of
        None \<Rightarrow> (0, False, None, 0)
      | Some e \<Rightarrow>
          if list_items e = None then (sint (eval_const_expr e), True, None, 0)
          else let sz = type_sizeof ns ty
               in if sz > 0
                  then (0, True, Some (run_writes (fill_global_initializer ns ty e 0) (replicate (nat sz) NUL)), sz)
                  else (0, False, None, 0))"

definition set_global_data :: "string option \<Rightarrow> int \<Rightarrow> ir_module \<Rightarrow> ir_module" where
  "set_global_data data sz m =
     (case md_global_vars m of
        gv # gvs \<Rightarrow> m\<lparr>md_global_vars := gv\<lparr>gv_init_data := data, gv_init_size := sz\<rparr> # gvs\<rparr>
      | [] \<Rightarrow> m)"

definition gen_global :: "(tid \<Rightarrow> u64) \<Rightarrow> string \<Rightarrow> tid \<Rightarrow> ast option \<Rightarrow> storage_class \<Rightarrow> ir_gen \<Rightarrow> ir_gen" where
  "gen_global adr name ty init sc g =
     (let (g, p) = ptr_to adr ty g;
          g = vscope_define g name (irv_global name p) True
      in if sc \<noteq> SC_EXTERN \<and> \<not> is_func (ig_nodes g) ty
         then (let (init_val, has_init, data, sz) = global_init (ig_nodes g) ty init;
                   m = ir_add_global_var (ig_module g) name ty init_val has_init (sc = SC_STATIC)
               in g\<lparr>ig_module := set_global_data data sz m\<rparr>)
         else g)"

definition gen_toplevel :: "(tid \<Rightarrow> u64) \<Rightarrow> ast \<Rightarrow> ir_gen \<Rightarrow> ir_gen" where
  "gen_toplevel adr d g =
     (case ast_body d of
        FuncDef name ft ps bd sc fs \<Rightarrow> gen_func adr name ft ps bd sc g
      | VarDecl name ty init sc \<Rightarrow> gen_global adr name ty init sc g
      | _ \<Rightarrow> g)"

text \<open>No function is under construction outside of gen_func.\<close>

definition no_func :: ir_func where
  "no_func = \<lparr>fn_name = [], fn_type = type_void, fn_instrs = [], fn_cap = 0, fn_next_temp = 1,
     fn_next_label = 1, fn_is_static = False, fn_sret_temp = 0\<rparr>"

definition irgen_start :: "type_table \<Rightarrow> ir_gen" where
  "irgen_start types =
     \<lparr>ig_module = ir_module_new, ig_func = no_func, ig_types = types, ig_scope = vscope_new [],
      ig_break = 0, ig_cont = 0, ig_cases = [], ig_default = 0, ig_gotos = []\<rparr>"

definition irgen :: "(tid \<Rightarrow> u64) \<Rightarrow> type_table \<Rightarrow> ast \<Rightarrow> type_table \<times> ir_module" where
  "irgen adr types root =
     (let ds = (case ast_body root of TranslationUnit ds \<Rightarrow> ds | _ \<Rightarrow> []);
          g = fold (gen_toplevel adr) ds (irgen_start types)
      in (ig_types g, ig_module g))"

end
