(* ===== verification/IrgenWf.thy ===== *)
theory IrgenWf
  imports IrgenStmt SemaProps
begin

section \<open>Well-formedness of the generated code: steps that generate no statement\<close>

text \<open>
  What generation appends to a function: every temporary it mentions is allocated, every
  label it defines is fresh and defined once, and every jump goes to a label it defines.
  \<open>seg g g'\<close> says so of the code between two states of the generator; such segments compose.
\<close>

subsection \<open>Code, temporaries and labels\<close>

abbreviation code :: "ir_gen \<Rightarrow> ir_instr list" where
  "code g \<equiv> fn_instrs (ig_func g)"

abbreviation next_temp :: "ir_gen \<Rightarrow> int" where
  "next_temp g \<equiv> fn_next_temp (ig_func g)"

abbreviation next_label :: "ir_gen \<Rightarrow> int" where
  "next_label g \<equiv> fn_next_label (ig_func g)"

definition temp_ok :: "int \<Rightarrow> ir_value \<Rightarrow> bool" where
  "temp_ok n v \<longleftrightarrow> (case iv_op v of IRV_TEMP t \<Rightarrow> 1 \<le> t \<and> t < n | _ \<Rightarrow> True)"

definition instr_ok :: "int \<Rightarrow> ir_instr \<Rightarrow> bool" where
  "instr_ok n i \<longleftrightarrow> temp_ok n (in_dst i) \<and> temp_ok n (in_src1 i) \<and> temp_ok n (in_src2 i)
     \<and> list_all (temp_ok n) (in_call_args i)"

definition is_jump :: "ir_instr \<Rightarrow> bool" where
  "is_jump i \<longleftrightarrow> in_op i = IR_JMP \<or> in_op i = IR_JZ \<or> in_op i = IR_JNZ"

definition lab_defs :: "ir_instr list \<Rightarrow> int list" where
  "lab_defs cs = map in_label (filter (\<lambda>i. in_op i = IR_LABEL) cs)"

definition jump_labs :: "ir_instr list \<Rightarrow> int list" where
  "jump_labs cs = map in_label (filter is_jump cs)"

lemma lab_defs_simps [simp]:
  "lab_defs [] = []" "lab_defs (cs @ ds) = lab_defs cs @ lab_defs ds"
  "lab_defs (i # cs) = (if in_op i = IR_LABEL then in_label i # lab_defs cs else lab_defs cs)"
  by (simp_all add: lab_defs_def)

lemma jump_labs_simps [simp]:
  "jump_labs [] = []" "jump_labs (cs @ ds) = jump_labs cs @ jump_labs ds"
  "jump_labs (i # cs) = (if is_jump i then in_label i # jump_labs cs else jump_labs cs)"
  by (simp_all add: jump_labs_def)

lemma temp_ok_simps [simp]:
  "temp_ok n irv_none" "temp_ok n (irv_int c t)" "temp_ok n (irv_global x t)" "temp_ok n (irv_float y t)"
  "temp_ok n (irv_temp k ty) \<longleftrightarrow> 1 \<le> k \<and> k < n" "temp_ok n (v\<lparr>iv_type := ty'\<rparr>) \<longleftrightarrow> temp_ok n v"
  by (simp_all add: temp_ok_def irv_none_def irv_int_def irv_global_def irv_float_def irv_temp_def)

lemma temp_ok_mono: "temp_ok n v \<Longrightarrow> n \<le> m \<Longrightarrow> temp_ok m v"
  by (auto simp: temp_ok_def split: ir_operand.splits)

lemma instr_ok_mono: "instr_ok n i \<Longrightarrow> n \<le> m \<Longrightarrow> instr_ok m i"
  by (auto simp: instr_ok_def list_all_iff intro: temp_ok_mono)

definition closed :: "int \<Rightarrow> int \<Rightarrow> ir_instr list \<Rightarrow> bool" where
  "closed lo hi cs \<longleftrightarrow> distinct (lab_defs cs) \<and> set (lab_defs cs) \<subseteq> {lo..<hi}
     \<and> set (jump_labs cs) \<subseteq> set (lab_defs cs)"

text \<open>The rest of the state: scopes, jump context, and what is fixed of the function and the
  module.\<close>

definition same_frame :: "ir_gen \<Rightarrow> ir_gen \<Rightarrow> bool" where
  "same_frame g g' \<longleftrightarrow> ig_scope g' = ig_scope g \<and> ig_break g' = ig_break g \<and> ig_cont g' = ig_cont g
     \<and> ig_cases g' = ig_cases g \<and> ig_default g' = ig_default g \<and> ig_gotos g' = ig_gotos g
     \<and> fn_name (ig_func g') = fn_name (ig_func g) \<and> fn_type (ig_func g') = fn_type (ig_func g)
     \<and> fn_sret_temp (ig_func g') = fn_sret_temp (ig_func g)
     \<and> md_funcs (ig_module g') = md_funcs (ig_module g)
     \<and> grows (ig_nodes g) (ig_nodes g')"

definition adds :: "ir_instr list \<Rightarrow> ir_gen \<Rightarrow> ir_gen \<Rightarrow> bool" where
  "adds cs g g' \<longleftrightarrow> code g' = code g @ cs \<and> next_temp g \<le> next_temp g' \<and> next_label g \<le> next_label g'
     \<and> list_all (instr_ok (next_temp g')) cs \<and> same_frame g g'"

definition seg :: "ir_gen \<Rightarrow> ir_gen \<Rightarrow> bool" where
  "seg g g' \<longleftrightarrow> (\<exists>cs. adds cs g g' \<and> closed (next_label g) (next_label g') cs)"

definition value_ok :: "ir_gen \<Rightarrow> ir_value \<Rightarrow> bool" where
  "value_ok g v \<longleftrightarrow> temp_ok (next_temp g) v"

definition scope_vals_ok :: "int \<Rightarrow> vscope list \<Rightarrow> bool" where
  "scope_vals_ok n scs \<longleftrightarrow>
     list_all (\<lambda>sc. length sc = VTAB_BUCKETS \<and> list_all (list_all (\<lambda>e. temp_ok n (ve_addr e))) sc) scs"

definition gen_ok :: "ir_gen \<Rightarrow> bool" where
  "gen_ok g \<longleftrightarrow> 1 \<le> next_temp g \<and> 1 \<le> next_label g \<and> scope_vals_ok (next_temp g) (ig_scope g)"

lemma same_frame_refl [simp]: "same_frame g g"
  by (simp add: same_frame_def)

lemma same_frame_trans: "same_frame a b \<Longrightarrow> same_frame b c \<Longrightarrow> same_frame a c"
  by (auto simp: same_frame_def intro: grows_trans)

lemma adds_refl [simp]: "adds [] g g"
  by (simp add: adds_def)

lemma adds_trans:
  assumes "adds cs a b" "adds ds b c"
  shows "adds (cs @ ds) a c"
  using assms same_frame_trans [of a b c] instr_ok_mono
  by (fastforce simp: adds_def list_all_iff)

lemma closed_nil [simp]: "closed lo hi []"
  by (simp add: closed_def)

lemma closed_plain: "lab_defs cs = [] \<Longrightarrow> jump_labs cs = [] \<Longrightarrow> closed lo hi cs"
  by (simp add: closed_def)

lemma closed_append:
  assumes "closed lo mid cs" "closed mid hi ds" "lo \<le> mid" "mid \<le> hi"
  shows "closed lo hi (cs @ ds)"
  using assms by (fastforce simp: closed_def)

lemma seg_refl [simp, intro]: "seg g g"
  unfolding seg_def by (rule exI [of _ "[]"]) simp

lemma seg_trans:
  assumes "seg a b" "seg b c"
  shows "seg a c"
proof -
  obtain cs ds where 1: "adds cs a b" "closed (next_label a) (next_label b) cs"
    and 2: "adds ds b c" "closed (next_label b) (next_label c) ds"
    using assms by (auto simp: seg_def)
  have "closed (next_label a) (next_label c) (cs @ ds)"
    by (rule closed_append [OF 1(2) 2(2)]) (use 1(1) 2(1) in \<open>simp_all add: adds_def\<close>)
  then show ?thesis using adds_trans [OF 1(1) 2(1)] by (auto simp: seg_def)
qed

lemma adds_temps: "adds cs g g' \<Longrightarrow> next_temp g \<le> next_temp g'"
  by (simp add: adds_def)

lemma seg_counters: "seg g g' \<Longrightarrow> next_temp g \<le> next_temp g'" "seg g g' \<Longrightarrow> next_label g \<le> next_label g'"
  by (auto simp: seg_def adds_def)

lemma seg_frame: "seg g g' \<Longrightarrow> same_frame g g'"
  by (auto simp: seg_def adds_def)

lemma scope_vals_mono:
  assumes "scope_vals_ok n scs" "n \<le> m"
  shows "scope_vals_ok m scs"
  using assms(1) temp_ok_mono [OF _ assms(2)] unfolding scope_vals_ok_def list_all_iff by fastforce

lemma adds_ok: "adds cs g g' \<Longrightarrow> gen_ok g \<Longrightarrow> gen_ok g'"
  by (auto simp: adds_def gen_ok_def same_frame_def intro: scope_vals_mono)

lemma seg_ok: "seg g g' \<Longrightarrow> gen_ok g \<Longrightarrow> gen_ok g'"
  by (auto simp: seg_def intro: adds_ok)

lemma value_ok_mono: "value_ok g v \<Longrightarrow> seg g g' \<Longrightarrow> value_ok g' v"
  using seg_counters(1) temp_ok_mono by (simp add: value_ok_def)

lemma value_ok_const [simp]: "value_ok g (irv_int c t)" "value_ok g irv_none" "value_ok g (irv_global x t)"
  "value_ok g (irv_float y t)"
  by (simp_all add: value_ok_def)

subsection \<open>Primitive steps\<close>

definition mk :: "IROp \<Rightarrow> ir_value \<Rightarrow> ir_value \<Rightarrow> ir_value \<Rightarrow> ir_instr" where
  "mk op dst a b = \<lparr>in_op = op, in_dst = dst, in_src1 = a, in_src2 = b, in_label = 0, in_alloca_size = 0,
     in_alloca_align = 0, in_call_args = [], in_call_sret = False, in_call_ret_ty = None, in_line = 0\<rparr>"

lemma mk_sel [simp]:
  "in_op (mk op d a b) = op" "in_dst (mk op d a b) = d" "in_src1 (mk op d a b) = a" "in_src2 (mk op d a b) = b"
  "in_label (mk op d a b) = 0" "in_call_args (mk op d a b) = []"
  by (simp_all add: mk_def)

lemma ir_emit_sel [simp]:
  "fn_instrs (ir_emit f op d a b) = fn_instrs f @ [mk op d a b]"
  "fn_next_temp (ir_emit f op d a b) = fn_next_temp f" "fn_next_label (ir_emit f op d a b) = fn_next_label f"
  "fn_name (ir_emit f op d a b) = fn_name f" "fn_type (ir_emit f op d a b) = fn_type f"
  "fn_sret_temp (ir_emit f op d a b) = fn_sret_temp f"
  by (simp_all add: ir_emit_def Let_def mk_def)

lemma last_instr_sel [simp]:
  "fn_instrs (last_instr h f) = butlast (fn_instrs f) @ [h (last (fn_instrs f))]"
  "fn_next_temp (last_instr h f) = fn_next_temp f" "fn_next_label (last_instr h f) = fn_next_label f"
  "fn_name (last_instr h f) = fn_name f" "fn_type (last_instr h f) = fn_type f"
  "fn_sret_temp (last_instr h f) = fn_sret_temp f"
  by (simp_all add: last_instr_def)

lemma emit_adds:
  "value_ok g d \<Longrightarrow> value_ok g a \<Longrightarrow> value_ok g b \<Longrightarrow> adds [mk op d a b] g (emit op d a b g)"
  by (auto simp: adds_def emit_def same_frame_def ig_nodes_def instr_ok_def value_ok_def)

lemma emit_jump_adds:
  "adds [(mk IR_LABEL irv_none irv_none irv_none)\<lparr>in_label := l\<rparr>] g (emit_label l g)"
  "adds [(mk IR_JMP irv_none irv_none irv_none)\<lparr>in_label := l\<rparr>] g (emit_jmp l g)"
  "value_ok g v \<Longrightarrow> adds [(mk IR_JZ irv_none v irv_none)\<lparr>in_label := l\<rparr>] g (emit_jz v l g)"
  "value_ok g v \<Longrightarrow> adds [(mk IR_JNZ irv_none v irv_none)\<lparr>in_label := l\<rparr>] g (emit_jnz v l g)"
  by (auto simp: adds_def emit_label_def emit_jmp_def emit_jz_def emit_jnz_def ir_emit_label_def ir_emit_jmp_def
      ir_emit_jz_def ir_emit_jnz_def same_frame_def ig_nodes_def instr_ok_def value_ok_def)

lemma new_temp_adds: "new_temp g = (g', t) \<Longrightarrow> adds [] g g' \<and> t = next_temp g \<and> next_temp g' = next_temp g + 1
    \<and> next_label g' = next_label g"
  by (auto simp: new_temp_def ir_new_temp_def adds_def same_frame_def ig_nodes_def)

lemma new_label_adds: "new_label g = (g', l) \<Longrightarrow> adds [] g g' \<and> l = next_label g \<and> next_label g' = next_label g + 1
    \<and> next_temp g' = next_temp g"
  by (auto simp: new_label_def ir_new_label_def adds_def same_frame_def ig_nodes_def)

lemma type_pointer_grows: "type_pointer adr tt p q = (tt', t) \<Longrightarrow> grows (tt_nodes tt) (tt_nodes tt')"
  by (auto simp: type_pointer_def Let_def push_interned_def alloc_node_def grows_def split: option.splits)

lemma ptr_to_adds: "ptr_to adr ty g = (g', p) \<Longrightarrow> adds [] g g' \<and> ig_func g' = ig_func g"
  using type_pointer_grows by (fastforce simp: ptr_to_def adds_def same_frame_def ig_nodes_def split: prod.splits)

lemma seg_adds_nil: "adds [] g g' \<Longrightarrow> seg g g'"
  by (auto simp: seg_def)

lemma seg_emit:
  assumes "value_ok g d" "value_ok g a" "value_ok g b" "op \<notin> {IR_LABEL, IR_JMP, IR_JZ, IR_JNZ}"
  shows "seg g (emit op d a b g)"
  using emit_adds [OF assms(1-3)] assms(4) unfolding seg_def
  by (intro exI [of _ "[mk op d a b]"]) (auto intro: closed_plain simp: is_jump_def)

lemma new_temp_seg: "new_temp g = (g', t) \<Longrightarrow> seg g g' \<and> t = next_temp g \<and> next_temp g' = next_temp g + 1"
  using new_temp_adds seg_adds_nil by blast

lemma temp_of_seg:
  "gen_ok g \<Longrightarrow> temp_of ty g = (g', v) \<Longrightarrow> seg g g' \<and> value_ok g' v"
  using new_temp_seg by (fastforce simp: temp_of_def gen_ok_def value_ok_def split: prod.splits)

lemma ptr_to_seg: "ptr_to adr ty g = (g', p) \<Longrightarrow> seg g g' \<and> ig_func g' = ig_func g"
  using ptr_to_adds seg_adds_nil by blast

text \<open>A step followed by an emission, which is what most helpers end with.\<close>

lemma seg_then_emit:
  assumes "seg g0 g" "value_ok g d" "value_ok g a" "value_ok g b" "op \<notin> {IR_LABEL, IR_JMP, IR_JZ, IR_JNZ}"
  shows "seg g0 (emit op d a b g)"
  using seg_trans [OF assms(1) seg_emit [OF assms(2-5)]] .

lemma value_ok_emit [simp]: "value_ok (emit op d a b g) v = value_ok g v"
  by (simp add: value_ok_def emit_def)

lemma nodes_emit [simp]: "ig_nodes (emit op d a b g) = ig_nodes g"
  by (simp add: ig_nodes_def emit_def)

lemma set_last_seg:
  assumes "value_ok g d" "value_ok g a" "value_ok g b" "op \<notin> {IR_LABEL, IR_JMP, IR_JZ, IR_JNZ}"
    and "\<And>i. instr_ok (next_temp g) i \<Longrightarrow> instr_ok (next_temp g) (h i)" "\<And>i. in_op (h i) = in_op i"
  shows "seg g (set_last h (emit op d a b g))"
proof -
  have "adds [h (mk op d a b)] g (set_last h (emit op d a b g))"
    using assms(5) [of "mk op d a b"] assms(1-3)
    by (simp add: adds_def set_last_def emit_def same_frame_def ig_nodes_def value_ok_def instr_ok_def)
  moreover have "closed (next_label g) (next_label (set_last h (emit op d a b g))) [h (mk op d a b)]"
    using assms(4,6) by (auto intro!: closed_plain simp: is_jump_def)
  ultimately show ?thesis unfolding seg_def by blast
qed

end
