(* ===== verification/IrgenExprWf.thy ===== *)
theory IrgenExprWf
  imports IrgenWf
begin

section \<open>Well-formedness of the helpers of expressions\<close>

subsection \<open>Helpers that yield a value\<close>

definition yields :: "ir_gen \<Rightarrow> ir_gen \<times> ir_value \<Rightarrow> bool" where
  "yields g r \<longleftrightarrow> seg g (fst r) \<and> value_ok (fst r) (snd r)"

lemma yields_pair [simp]: "yields g (g', v) \<longleftrightarrow> seg g g' \<and> value_ok g' v"
  by (simp add: yields_def)

lemma yieldsD: "yields g r \<Longrightarrow> r = (g', v) \<Longrightarrow> seg g g' \<and> value_ok g' v"
  by (simp add: yields_def)

lemma yields_bind:
  assumes "yields g1 r" "seg g g1" "gen_ok g"
    and "\<And>g' v. seg g g' \<Longrightarrow> seg g1 g' \<Longrightarrow> gen_ok g' \<Longrightarrow> value_ok g' v \<Longrightarrow> yields g (k g' v)"
  shows "yields g (case r of (g', v) \<Rightarrow> k g' v)"
proof (cases r)
  case (Pair g' v)
  then have s: "seg g1 g'" "value_ok g' v" using assms(1) by simp_all
  have "seg g g'" using seg_trans [OF assms(2) s(1)] .
  then show ?thesis using assms(4) [of g' v] s seg_ok [OF _ assms(3)] Pair by simp
qed

lemma yields_from: "seg g g1 \<Longrightarrow> yields g1 r \<Longrightarrow> yields g r"
  by (auto simp: yields_def intro: seg_trans)

lemma temp_of_yields: "gen_ok g \<Longrightarrow> yields g (temp_of ty g)"
  using temp_of_seg by (cases "temp_of ty g") simp

lemma gen_ok_emit [simp]: "gen_ok (emit op d a b g) = gen_ok g"
  by (simp add: gen_ok_def emit_def)

lemma value_lift: "seg g g' \<Longrightarrow> value_ok g v \<Longrightarrow> value_ok g' v"
  by (rule value_ok_mono)

definition plain_op :: "IROp \<Rightarrow> bool" where
  "plain_op op \<longleftrightarrow> op \<notin> {IR_LABEL, IR_JMP, IR_JZ, IR_JNZ}"

lemma plain_ops [simp]:
  "plain_op IR_COPY" "plain_op IR_LOAD" "plain_op IR_STORE" "plain_op IR_ADD" "plain_op IR_SUB" "plain_op IR_MUL"
  "plain_op IR_DIV" "plain_op IR_AND" "plain_op IR_OR" "plain_op IR_SHL" "plain_op IR_SHR" "plain_op IR_NEG"
  "plain_op IR_NOT" "plain_op IR_EQ" "plain_op IR_CALL" "plain_op IR_RET" "plain_op IR_ALLOCA" "plain_op IR_MEMCPY"
  "plain_op (tok_to_ir_binop tk)" "plain_op (cast_op ns f t)" "plain_op (if c then IR_ADD else IR_SUB)"
  by (simp_all add: plain_op_def tok_to_ir_binop_def cast_op_def Let_def)

lemma seg_emit1: "plain_op op \<Longrightarrow> value_ok g d \<Longrightarrow> value_ok g a \<Longrightarrow> value_ok g b \<Longrightarrow> seg g (emit op d a b g)"
  by (simp add: seg_emit plain_op_def)

lemma emit_op_yields:
  assumes "gen_ok g" "plain_op op" "value_ok g a" "value_ok g b"
  shows "yields g (emit_op op ty a b g)"
  unfolding emit_op_def Let_def
  by (rule yields_bind [OF temp_of_yields [OF assms(1)] seg_refl assms(1)])
    (simp add: seg_trans [OF _ seg_emit1] value_lift [OF _ assms(3)] value_lift [OF _ assms(4)] assms(2))

lemma load_value_yields: "gen_ok g \<Longrightarrow> value_ok g a \<Longrightarrow> yields g (load_value a ty g)"
  by (simp add: load_value_def emit_op_yields)

lemma store_value_seg: "value_ok g a \<Longrightarrow> value_ok g v \<Longrightarrow> seg g (store_value a v g)"
  by (simp add: store_value_def seg_emit1)

lemma emit_memcpy_seg: "value_ok g a \<Longrightarrow> value_ok g v \<Longrightarrow> seg g (emit_memcpy ty a v g)"
  by (simp add: emit_memcpy_def Let_def seg_emit1)

lemma scale_yields: "gen_ok g \<Longrightarrow> value_ok g v \<Longrightarrow> yields g (scale v n g)"
  by (simp add: scale_def emit_op_yields)

lemma yields_if: "yields g a \<Longrightarrow> yields g b \<Longrightarrow> yields g (if c then a else b)"
  by simp

lemma emit_op_from:
  "seg g g1 \<Longrightarrow> gen_ok g1 \<Longrightarrow> plain_op op \<Longrightarrow> value_ok g1 a \<Longrightarrow> value_ok g1 b \<Longrightarrow> yields g (emit_op op ty a b g1)"
  using yields_from [OF _ emit_op_yields] .

lemmas yields_steps = yields_bind [OF emit_op_yields] yields_bind [OF load_value_yields] yields_bind [OF scale_yields]
  yields_bind [OF temp_of_yields]

lemma emit_from: "seg g g1 \<Longrightarrow> plain_op op \<Longrightarrow> value_ok g1 d \<Longrightarrow> value_ok g1 a \<Longrightarrow> value_ok g1 b
    \<Longrightarrow> seg g (emit op d a b g1)"
  using seg_trans seg_emit1 by blast

lemma store_from: "seg g g1 \<Longrightarrow> value_ok g1 a \<Longrightarrow> value_ok g1 v \<Longrightarrow> seg g (store_value a v g1)"
  by (simp add: store_value_def emit_from)

lemma memcpy_from: "seg g g1 \<Longrightarrow> value_ok g1 a \<Longrightarrow> value_ok g1 v \<Longrightarrow> seg g (emit_memcpy ty a v g1)"
  using seg_trans emit_memcpy_seg by blast

lemma value_ok_store [simp]: "value_ok (store_value a v g) w = value_ok g w" "value_ok (emit_memcpy ty a v g) w = value_ok g w"
  by (simp_all add: store_value_def emit_memcpy_def Let_def)

lemma bitfield_load_yields:
  assumes "gen_ok g" "value_ok g a"
  shows "yields g (gen_bitfield_load a fd g)"
  unfolding gen_bitfield_load_def Let_def
  using assms by (auto intro!: yields_steps emit_op_from intro: value_ok_mono)

lemma bitfield_store_yields:
  assumes "gen_ok g" "value_ok g a" "value_ok g v"
  shows "yields g (gen_bitfield_store a fd v g)"
  unfolding gen_bitfield_store_def Let_def
  using assms by (auto intro!: yields_steps yields_if store_from; meson value_ok_mono)

lemma alloca_yields:
  assumes "gen_ok g"
  shows "yields g (gen_alloca_value adr ty g)"
proof -
  obtain g1 t g2 p where n: "new_temp g = (g1, t)" "ptr_to adr ty g1 = (g2, p)" by (metis surj_pair)
  note s1 = new_temp_seg [OF n(1)] and s2 = ptr_to_seg [OF n(2)]
  have v: "value_ok g2 (irv_temp t p)" using s1 s2 assms by (auto simp: value_ok_def gen_ok_def)
  have "seg g2 (set_last h (emit IR_ALLOCA (irv_temp t p) irv_none irv_none g2))"
    if "\<And>i. instr_ok (next_temp g2) i \<Longrightarrow> instr_ok (next_temp g2) (h i)" "\<And>i. in_op (h i) = in_op i" for h
    using v that by (intro set_last_seg) auto
  moreover have "value_ok (set_last h (emit op d a b g2)) (irv_temp t p)" for h op d a b
    using v by (simp add: value_ok_def set_last_def emit_def)
  ultimately show ?thesis
    using seg_trans [of g g1 g2] s1 s2
    by (auto simp: gen_alloca_value_def Let_def n instr_ok_def intro: seg_trans)
qed

lemma ptr_to_bind:
  assumes "gen_ok g" "seg g0 g" "\<And>g' p. ptr_to adr ty g = (g', p) \<Longrightarrow> seg g g' \<Longrightarrow> seg g0 g' \<Longrightarrow> gen_ok g' \<Longrightarrow> yields g0 (k g' p)"
  shows "yields g0 (case ptr_to adr ty g of (g', p) \<Rightarrow> k g' p)"
proof (cases "ptr_to adr ty g")
  case (Pair g' p)
  note s = ptr_to_seg [OF Pair]
  show ?thesis using assms(3) [OF Pair] s seg_trans [OF assms(2)] seg_ok [OF _ assms(1)] by (simp add: Pair)
qed

lemma addr_offset_yields:
  "gen_ok g \<Longrightarrow> value_ok g base \<Longrightarrow> yields g (gen_addr_offset adr base off ty g)"
  unfolding gen_addr_offset_def Let_def
  by (auto intro!: ptr_to_bind yields_if emit_op_from intro: value_ok_mono)

lemma member_addr_yields:
  "gen_ok g \<Longrightarrow> value_ok g base \<Longrightarrow> yields g (member_addr adr base ty field g)"
  by (auto simp: member_addr_def split: option.splits list.splits intro!: addr_offset_yields)

lemma subscript_yields:
  assumes "gen_ok g" "value_ok g base" "value_ok g idx"
  shows "yields g (subscript_addr adr ty base idx g)"
proof -
  obtain g1 t g2 p g3 i where n: "new_temp g = (g1, t)" "ptr_to adr ty g1 = (g2, p)"
    "scale idx (size_or_1 (ig_nodes g2) ty) g2 = (g3, i)" by (metis surj_pair)
  note s1 = new_temp_seg [OF n(1)] and s2 = ptr_to_seg [OF n(2)]
  have g2: "seg g g2" "gen_ok g2" using s1 s2 seg_trans seg_ok assms(1) by blast+
  have v: "value_ok g2 (irv_temp t p)" using s1 s2 assms(1) by (auto simp: value_ok_def gen_ok_def)
  have s3: "seg g2 g3 \<and> value_ok g3 i"
    using yieldsD [OF scale_yields [OF g2(2)] n(3)] value_lift [OF g2(1) assms(3)] by blast
  have g3: "seg g g3" using seg_trans g2(1) s3 by blast
  have "value_ok g3 base" "value_ok g3 (irv_temp t p)" using value_lift assms(2) g3 v s3 by blast+
  then show ?thesis
    using s3 g3 by (auto simp: subscript_addr_def Let_def n intro: emit_from)
qed

lemma vhash_less: "vhash name < VTAB_BUCKETS"
proof -
  have "unat (x AND 63) \<le> unat (63 :: u32)" for x :: u32
    by (metis word_and_le1 word_le_nat_alt)
  from this [of "foldl (\<lambda>h c. (h XOR of_char c) * 16777619) 2166136261 name"] show ?thesis
    by (simp add: vhash_def VTAB_BUCKETS_def)
qed

lemma vscopes_find_ok:
  assumes "scope_vals_ok n scs" "vscopes_find (vhash name) name scs = Some e"
  shows "temp_ok n (ve_addr e)"
  using assms
proof (induction scs)
  case (Cons sc scs)
  have "sc ! vhash name \<in> set sc" using Cons.prems(1) vhash_less by (simp add: scope_vals_ok_def)
  then have "temp_ok n (ve_addr z)" if "List.find (\<lambda>e. ve_name e = name) (sc ! vhash name) = Some z" for z
    using Cons.prems(1) that unfolding scope_vals_ok_def list_all_iff find_Some_iff
    by (metis list.set_intros(1) nth_mem)
  then show ?case using Cons by (auto simp: scope_vals_ok_def split: option.splits)
qed simp

lemma lookup_ok: "gen_ok g \<Longrightarrow> vscope_lookup g name = Some e \<Longrightarrow> value_ok g (ve_addr e)"
  using vscopes_find_ok by (auto simp: vscope_lookup_def gen_ok_def value_ok_def)

subsection \<open>Values of nodes\<close>

lemma ident_value_yields: "gen_ok g \<Longrightarrow> yields g (ident_value ty name g)"
  by (auto simp: ident_value_def lookup_ok split: option.split intro!: load_value_yields)

lemma ident_addr_yields: "gen_ok g \<Longrightarrow> yields g (ident_addr adr name g)"
  by (auto simp: ident_addr_def lookup_ok split: option.split intro!: ptr_to_bind)

lemma deref_value_yields: "gen_ok g \<Longrightarrow> value_ok g a \<Longrightarrow> yields g (deref_value ty a g)"
  by (simp add: deref_value_def load_value_yields)

lemma member_value_yields: "gen_ok g \<Longrightarrow> value_ok g a \<Longrightarrow> yields g (member_value bf ty a g)"
  by (auto simp: member_value_def bitfield_load_yields deref_value_yields split: option.split)

lemma literal_value_yields: "gen_ok g \<Longrightarrow> value_ok g a \<Longrightarrow> yields g (literal_value ty a g)"
  by (simp add: literal_value_def Let_def load_value_yields)

lemma inc_dec_seg:
  assumes "gen_ok g" "value_ok g a" "inc_dec op ty a g = (g', old, new)"
  shows "seg g g' \<and> value_ok g' old \<and> value_ok g' new"
proof -
  obtain g1 v1 where l: "load_value a ty g = (g1, v1)" by fastforce
  note s1 = yieldsD [OF load_value_yields [OF assms(1,2)] l]
  obtain g2 v2 where e: "emit_op (if op = TOK_PLUSPLUS then IR_ADD else IR_SUB) ty v1
      (irv_int (pointer_pointee_size (ig_nodes g1) (Some ty)) type_int) g1 = (g2, v2)" by fastforce
  have s2: "seg g1 g2 \<and> value_ok g2 v2"
    using s1 seg_ok [OF _ assms(1)] by (intro yieldsD [OF emit_op_yields e]) auto
  have "(g', old, new) = (store_value a v2 g2, v1, v2)" using assms(3) unfolding inc_dec_def Let_def l prod.case e by auto
  moreover have "seg g g2" "value_ok g2 v1" "value_ok g2 a"
    using s1 s2 seg_trans value_ok_mono assms(2) by blast+
  ultimately show ?thesis using s2 store_from [of g g2 a v2] by simp
qed

lemma unop_value_yields: "gen_ok g \<Longrightarrow> value_ok g v \<Longrightarrow> yields g (unop_value op ty v g)"
  using temp_of_seg [of g ty "fst (temp_of ty g)" "snd (temp_of ty g)"]
  by (auto simp: unop_value_def emit_op_yields intro: value_ok_mono)

lemma cast_value_yields: "gen_ok g \<Longrightarrow> value_ok g v \<Longrightarrow> yields g (cast_value from_ty to_ty v g)"
  by (auto simp: cast_value_def emit_op_yields split: option.split)

lemma binop_value_yields:
  "gen_ok g \<Longrightarrow> value_ok g a \<Longrightarrow> value_ok g b \<Longrightarrow> yields g (binop_value op ty lt rt a b g)"
  unfolding binop_value_def Let_def
  by (auto intro!: yields_steps yields_if emit_from emit_op_from; meson value_ok_mono)

lemma compound_value_yields:
  "gen_ok g \<Longrightarrow> value_ok g a \<Longrightarrow> value_ok g b \<Longrightarrow> yields g (compound_value op ty a b g)"
  unfolding compound_value_def Let_def
  by (auto intro!: yields_steps yields_if emit_from emit_op_from; meson value_ok_mono)

lemma call_value_yields:
  assumes "gen_ok g" "value_ok g f" "list_all (value_ok g) args"
  shows "yields g (call_value adr ty f args g)"
proof -
  define r where "r = (if is_agg (ig_nodes g) (Some ty) then gen_alloca_value adr ty g else temp_of ty g)"
  obtain g1 d where r1: "r = (g1, d)" by fastforce
  have s: "seg g g1 \<and> value_ok g1 d"
    by (rule yieldsD [OF _ r1]) (simp add: r_def alloca_yields temp_of_yields assms(1))
  have a: "list_all (temp_ok (next_temp g1)) args"
    using assms(3) value_ok_mono [OF _ conjunct1 [OF s]] by (auto simp: list_all_iff value_ok_def)
  let ?h = "\<lambda>i. i\<lparr>in_call_args := args, in_call_sret := abi_in_memory (classify (ig_nodes g) ty),
    in_call_ret_ty := Some ty\<rparr>"
  have "seg g1 (set_last ?h (emit IR_CALL d f irv_none g1))"
    using s value_ok_mono [OF assms(2)] a by (intro set_last_seg) (auto simp: instr_ok_def)
  moreover have "value_ok (set_last ?h (emit IR_CALL d f irv_none g1)) d"
    using s by (simp add: value_ok_def set_last_def emit_def)
  moreover have "call_value adr ty f args g = (set_last ?h (emit IR_CALL d f irv_none g1), d)"
    by (simp add: call_value_def Let_def r_def [symmetric] r1)
  ultimately show ?thesis using s by (auto intro: seg_trans)
qed

subsection \<open>Short-circuit operators and the conditional operator\<close>

text \<open>Labels that were allocated first, \<open>P\<close>, and those of the pieces of code between them.\<close>

lemma closed_pending:
  assumes "lab_defs cs = ds" "distinct ds" "set ds = P \<union> D" "P \<subseteq> {lo..<mid}" "D \<subseteq> {mid..<hi}" "lo \<le> mid" "mid \<le> hi"
    "set (jump_labs cs) \<subseteq> P \<union> D"
  shows "closed lo hi cs"
  using assms by (auto simp: closed_def)

lemma closedD:
  assumes "closed lo hi cs"
  shows "distinct (lab_defs cs)" "\<And>l. l \<in> set (lab_defs cs) \<Longrightarrow> lo \<le> l \<and> l < hi"
    "set (jump_labs cs) \<subseteq> set (lab_defs cs)"
  using assms by (auto simp: closed_def)

lemma seg_plain_labels:
  assumes "seg g g'" "next_label g' = next_label g"
  obtains cs where "adds cs g g'" "lab_defs cs = []" "jump_labs cs = []"
  using assms by (fastforce simp: seg_def closed_def)

lemma seg_code:
  assumes "seg g g'"
  obtains cs where "adds cs g g'" "closed (next_label g) (next_label g') cs" "next_label g \<le> next_label g'"
  using assms by (auto simp: seg_def adds_def)

lemma labels_emit [simp]:
  "next_label (emit op d a b g) = next_label g" "next_label (emit_label l g) = next_label g"
  "next_label (emit_jmp l g) = next_label g" "next_label (emit_jz v l g) = next_label g"
  "next_label (emit_jnz v l g) = next_label g"
  "next_temp (emit op d a b g) = next_temp g" "next_temp (emit_label l g) = next_temp g"
  "next_temp (emit_jmp l g) = next_temp g" "next_temp (emit_jz v l g) = next_temp g"
  "next_temp (emit_jnz v l g) = next_temp g"
  by (simp_all add: emit_def emit_label_def emit_jmp_def emit_jz_def emit_jnz_def ir_emit_label_def ir_emit_jmp_def
      ir_emit_jz_def ir_emit_jnz_def)

lemma code_emit [simp]:
  "code (emit op d a b g) = code g @ [mk op d a b]"
  "code (emit_label l g) = code g @ [(mk IR_LABEL irv_none irv_none irv_none)\<lparr>in_label := l\<rparr>]"
  "code (emit_jmp l g) = code g @ [(mk IR_JMP irv_none irv_none irv_none)\<lparr>in_label := l\<rparr>]"
  "code (emit_jz v l g) = code g @ [(mk IR_JZ irv_none v irv_none)\<lparr>in_label := l\<rparr>]"
  "code (emit_jnz v l g) = code g @ [(mk IR_JNZ irv_none v irv_none)\<lparr>in_label := l\<rparr>]"
  by (simp_all add: emit_def emit_label_def emit_jmp_def emit_jz_def emit_jnz_def ir_emit_label_def ir_emit_jmp_def
      ir_emit_jz_def ir_emit_jnz_def)

lemma frame_emit [simp]:
  "same_frame g (emit op d a b g') = same_frame g g'" "same_frame g (emit_label l g') = same_frame g g'"
  "same_frame g (emit_jmp l g') = same_frame g g'" "same_frame g (emit_jz v l g') = same_frame g g'"
  "same_frame g (emit_jnz v l g') = same_frame g g'"
  by (simp_all add: same_frame_def emit_def emit_label_def emit_jmp_def emit_jz_def emit_jnz_def ir_emit_label_def
      ir_emit_jmp_def ir_emit_jz_def ir_emit_jnz_def ig_nodes_def)

lemma value_ok_jumps [simp]:
  "value_ok (emit_label l g) w = value_ok g w" "value_ok (emit_jmp l g) w = value_ok g w"
  "value_ok (emit_jz v l g) w = value_ok g w" "value_ok (emit_jnz v l g) w = value_ok g w"
  by (simp_all add: value_ok_def)

lemma gen_ok_jumps [simp]:
  "gen_ok (emit_label l g) = gen_ok g" "gen_ok (emit_jmp l g) = gen_ok g"
  "gen_ok (emit_jz v l g) = gen_ok g" "gen_ok (emit_jnz v l g) = gen_ok g"
  by (simp_all add: gen_ok_def) (simp_all add: emit_label_def emit_jmp_def emit_jz_def emit_jnz_def)

lemma value_ok_adds: "value_ok g v \<Longrightarrow> adds cs g g' \<Longrightarrow> value_ok g' v"
  using temp_ok_mono by (auto simp: value_ok_def adds_def)

lemma logical_seg:
  assumes ok: "gen_ok g" and r: "temp_of type_int g = (g1, result)"
    and l: "new_label g1 = (g2, end_label)" "new_label g2 = (g3, false_label)" "new_label g3 = (g4, true_label)"
    and x: "seg g4 g5" "value_ok g5 lv"
    and y: "seg (if op = TOK_AND then emit_jz lv false_label g5 else emit_jnz lv true_label g5) g6" "value_ok g6 rv"
  shows "seg g (logical_value op result end_label false_label true_label rv g6) \<and> value_ok g6 result"
proof -
  note t = temp_of_seg [OF ok r]
  note l1 = new_label_adds [OF l(1)] and l2 = new_label_adds [OF l(2)] and l3 = new_label_adds [OF l(3)]
  obtain cx where cx: "adds cx g4 g5" "closed (next_label g4) (next_label g5) cx" "next_label g4 \<le> next_label g5"
    using seg_code [OF x(1)] .
  define j where "j = (if op = TOK_AND then (mk IR_JZ irv_none lv irv_none)\<lparr>in_label := false_label\<rparr>
    else (mk IR_JNZ irv_none lv irv_none)\<lparr>in_label := true_label\<rparr>)"
  define gj where "gj = (if op = TOK_AND then emit_jz lv false_label g5 else emit_jnz lv true_label g5)"
  have aj: "adds [j] g5 gj" using x(2) by (auto simp: j_def gj_def intro: emit_jump_adds)
  have nj: "next_label gj = next_label g5" by (simp add: gj_def)
  obtain cy where cy: "adds cy gj g6" "closed (next_label gj) (next_label g6) cy" "next_label gj \<le> next_label g6"
    using seg_code y(1) unfolding gj_def [symmetric] .
  have t0: "next_label g1 = next_label g" using r new_temp_adds by (auto simp: temp_of_def split: prod.splits)
  obtain ct where ct: "adds ct g g1" "lab_defs ct = []" "jump_labs ct = []"
    using seg_plain_labels t t0 by blast
  have a4: "adds ct g g4" using adds_trans [OF adds_trans [OF adds_trans [OF ct(1)]]] l1 l2 l3 by fastforce
  have res: "value_ok g6 result"
    using t l1 l2 l3 cx(1) aj cy(1) value_ok_adds by metis
  define tail where "tail =
     [(mk IR_JNZ irv_none rv irv_none)\<lparr>in_label := true_label\<rparr>]
     @ (if op = TOK_AND then [(mk IR_JMP irv_none irv_none irv_none)\<lparr>in_label := false_label\<rparr>,
         (mk IR_LABEL irv_none irv_none irv_none)\<lparr>in_label := false_label\<rparr>] else [])
     @ [mk IR_COPY result (irv_int 0 type_int) irv_none, (mk IR_JMP irv_none irv_none irv_none)\<lparr>in_label := end_label\<rparr>,
        (mk IR_LABEL irv_none irv_none irv_none)\<lparr>in_label := true_label\<rparr>,
        mk IR_COPY result (irv_int 1 type_int) irv_none, (mk IR_LABEL irv_none irv_none irv_none)\<lparr>in_label := end_label\<rparr>]"
  have at: "adds tail g6 (logical_value op result end_label false_label true_label rv g6)"
    using y(2) res by (simp add: logical_value_def Let_def tail_def adds_def instr_ok_def value_ok_def)
  let ?cs = "ct @ cx @ [j] @ cy @ tail"
  have "adds ?cs g (logical_value op result end_label false_label true_label rv g6)"
    using adds_trans [OF a4 adds_trans [OF cx(1) adds_trans [OF aj adds_trans [OF cy(1) at]]]] by simp
  moreover have "closed (next_label g) (next_label (logical_value op result end_label false_label true_label rv g6)) ?cs"
  proof -
    let ?P = "if op = TOK_AND then {false_label, true_label, end_label} else {true_label, end_label}"
    have n: "end_label = next_label g" "false_label = end_label + 1" "true_label = end_label + 2"
      "next_label g4 = end_label + 3" using l1 l2 l3 t0 by simp_all
    have ds: "lab_defs ?cs = lab_defs cx @ lab_defs cy
        @ (if op = TOK_AND then [false_label, true_label, end_label] else [true_label, end_label])"
      by (simp add: ct(2) tail_def j_def)
    have js: "set (jump_labs ?cs) \<subseteq> ?P \<union> (set (jump_labs cx) \<union> set (jump_labs cy))"
      by (auto simp: ct(3) tail_def j_def is_jump_def)
    have x_labs: "end_label + 3 \<le> l \<and> l < next_label g5" if "l \<in> set (lab_defs cx)" for l
      using closedD(2) [OF cx(2) that] n by simp
    have y_labs: "next_label g5 \<le> l \<and> l < next_label g6" if "l \<in> set (lab_defs cy)" for l
      using closedD(2) [OF cy(2) that] nj by simp
    have dis: "distinct (lab_defs ?cs)"
      unfolding ds using closedD(1) [OF cx(2)] closedD(1) [OF cy(2)] cx(3) cy(3) n nj
      by (auto dest!: x_labs y_labs)
    show ?thesis
    proof (rule closed_pending [OF refl dis, of ?P "set (lab_defs cx) \<union> set (lab_defs cy)" _ "end_label + 3"])
      show "set (lab_defs ?cs) = ?P \<union> (set (lab_defs cx) \<union> set (lab_defs cy))" unfolding ds by auto
      show "set (jump_labs ?cs) \<subseteq> ?P \<union> (set (lab_defs cx) \<union> set (lab_defs cy))"
        using js closedD(3) [OF cx(2)] closedD(3) [OF cy(2)] by blast
      show "set (lab_defs cx) \<union> set (lab_defs cy)
          \<subseteq> {end_label + 3..<next_label (logical_value op result end_label false_label true_label rv g6)}"
        using cx(3) cy(3) n nj by (auto dest!: x_labs y_labs simp: logical_value_def Let_def)
    qed (use n cx(3) cy(3) nj in \<open>auto simp: logical_value_def Let_def\<close>)
  qed
  ultimately show ?thesis using res by (auto simp: seg_def)
qed

lemma ternary_seg:
  assumes ok: "gen_ok g"
    and l: "new_label g = (g1, then_label)" "new_label g1 = (g2, else_label)" "new_label g2 = (g3, end_label)"
    and r: "temp_of t g3 = (g4, result)"
    and x: "seg g4 g5" "value_ok g5 cond"
    and y: "seg (emit_label then_label (emit_jz cond else_label g5)) g6" "value_ok g6 tv"
    and z: "seg (emit_label else_label (emit_jmp end_label (emit IR_COPY result tv irv_none g6))) g7" "value_ok g7 ev"
  shows "seg g (emit_label end_label (emit IR_COPY result ev irv_none g7)) \<and> value_ok g7 result"
proof -
  note l1 = new_label_adds [OF l(1)] and l2 = new_label_adds [OF l(2)] and l3 = new_label_adds [OF l(3)]
  have ok3: "gen_ok g3" using ok l1 l2 l3 adds_ok by blast
  have t0: "next_label g4 = next_label g3" using r new_temp_adds by (auto simp: temp_of_def split: prod.splits)
  obtain ct where ct: "adds ct g3 g4" "lab_defs ct = []" "jump_labs ct = []"
    and vr: "value_ok g4 result" using seg_plain_labels temp_of_seg [OF ok3 r] t0 by blast
  obtain cx where cx: "adds cx g4 g5" "closed (next_label g4) (next_label g5) cx" "next_label g4 \<le> next_label g5"
    using seg_code [OF x(1)] .
  let ?g5 = "emit_label then_label (emit_jz cond else_label g5)"
  let ?c5 = "[(mk IR_JZ irv_none cond irv_none)\<lparr>in_label := else_label\<rparr>,
    (mk IR_LABEL irv_none irv_none irv_none)\<lparr>in_label := then_label\<rparr>]"
  have a5: "adds ?c5 g5 ?g5" using x(2) by (simp add: adds_def instr_ok_def value_ok_def)
  obtain cy where cy: "adds cy ?g5 g6" "closed (next_label g5) (next_label g6) cy" "next_label g5 \<le> next_label g6"
    using seg_code [OF y(1)] by auto
  have vr6: "value_ok g6 result" using vr cx(1) a5 cy(1) value_ok_adds by blast
  let ?g6 = "emit_label else_label (emit_jmp end_label (emit IR_COPY result tv irv_none g6))"
  let ?c6 = "[mk IR_COPY result tv irv_none, (mk IR_JMP irv_none irv_none irv_none)\<lparr>in_label := end_label\<rparr>,
    (mk IR_LABEL irv_none irv_none irv_none)\<lparr>in_label := else_label\<rparr>]"
  have a6: "adds ?c6 g6 ?g6" using y(2) vr6 by (simp add: adds_def instr_ok_def value_ok_def)
  obtain cz where cz: "adds cz ?g6 g7" "closed (next_label g6) (next_label g7) cz" "next_label g6 \<le> next_label g7"
    using seg_code [OF z(1)] by auto
  have vr7: "value_ok g7 result" using vr6 a6 cz(1) value_ok_adds by blast
  let ?g7 = "emit_label end_label (emit IR_COPY result ev irv_none g7)"
  let ?c7 = "[mk IR_COPY result ev irv_none, (mk IR_LABEL irv_none irv_none irv_none)\<lparr>in_label := end_label\<rparr>]"
  have a7: "adds ?c7 g7 ?g7" using z(2) vr7 by (simp add: adds_def instr_ok_def value_ok_def)
  let ?cs = "ct @ cx @ ?c5 @ cy @ ?c6 @ cz @ ?c7"
  have "adds ct g g4" using l1 l2 l3 adds_trans [OF adds_trans [OF adds_trans [OF _ _] _] ct(1)] by fastforce
  from adds_trans [OF this adds_trans [OF cx(1) adds_trans [OF a5 adds_trans [OF cy(1)
      adds_trans [OF a6 adds_trans [OF cz(1) a7]]]]]]
  have "adds ?cs g ?g7" by simp
  moreover have "closed (next_label g) (next_label ?g7) ?cs"
  proof -
    let ?P = "{then_label, else_label, end_label}"
    let ?D = "set (lab_defs cx) \<union> set (lab_defs cy) \<union> set (lab_defs cz)"
    have n: "then_label = next_label g" "else_label = then_label + 1" "end_label = then_label + 2"
      "next_label g4 = then_label + 3" using l1 l2 l3 t0 by simp_all
    have ds: "lab_defs ?cs = lab_defs cx @ then_label # lab_defs cy @ else_label # lab_defs cz @ [end_label]"
      by (simp add: ct(2))
    have js: "set (jump_labs ?cs) \<subseteq> ?P \<union> (set (jump_labs cx) \<union> set (jump_labs cy) \<union> set (jump_labs cz))"
      by (auto simp: ct(3) is_jump_def)
    have labs: "then_label + 3 \<le> l \<and> l < next_label g5" if "l \<in> set (lab_defs cx)" for l
      using closedD(2) [OF cx(2) that] n by simp
    have dis: "distinct (lab_defs ?cs)"
      unfolding ds using closedD(1) [OF cx(2)] closedD(1) [OF cy(2)] closedD(1) [OF cz(2)] cx(3) cy(3) cz(3) n
      by (auto dest!: labs closedD(2) [OF cy(2)] closedD(2) [OF cz(2)])
    show ?thesis
    proof (rule closed_pending [OF refl dis, of ?P ?D _ "then_label + 3"])
      show "set (lab_defs ?cs) = ?P \<union> ?D" unfolding ds by auto
      show "set (jump_labs ?cs) \<subseteq> ?P \<union> ?D"
        using js closedD(3) [OF cx(2)] closedD(3) [OF cy(2)] closedD(3) [OF cz(2)] by blast
      show "?D \<subseteq> {then_label + 3..<next_label ?g7}"
        using cx(3) cy(3) cz(3) n by (auto dest!: labs closedD(2) [OF cy(2)] closedD(2) [OF cz(2)])
    qed (use n cx(3) cy(3) cz(3) in auto)
  qed
  ultimately show ?thesis using vr7 by (auto simp: seg_def)
qed

subsection \<open>Zero initializers\<close>

lemma seg_fold:
  assumes "\<And>x g. x \<in> set xs \<Longrightarrow> gen_ok g \<Longrightarrow> value_ok g a \<Longrightarrow> seg g (f x g)" "gen_ok g" "value_ok g a"
  shows "seg g (fold f xs g)"
  using assms
proof (induction xs arbitrary: g)
  case (Cons x xs)
  have s: "seg g (f x g)" using Cons.prems by simp
  have "seg (f x g) (fold f xs (f x g))"
    by (rule Cons.IH) (use Cons.prems s seg_ok value_ok_mono in \<open>auto\<close>)
  then show ?case using seg_trans [OF s] by simp
qed simp

lemma zero_init_seg:
  "gen_ok g \<Longrightarrow> value_ok g a \<Longrightarrow> seg g (gen_zero_initializer fuel adr a ty g)"
proof (induction fuel arbitrary: a ty g)
  case (Suc fuel)
  have step: "seg g (case gen_addr_offset adr a off t g of (g, b) \<Rightarrow> gen_zero_initializer fuel adr b t g)"
    if "gen_ok g" "value_ok g a" for g off t
  proof -
    obtain g1 b where o: "gen_addr_offset adr a off t g = (g1, b)" by fastforce
    note s = yieldsD [OF addr_offset_yields [OF that] o]
    show ?thesis
      using s Suc.IH [of g1 b t] seg_ok [OF _ that(1)] by (auto simp: o intro: seg_trans)
  qed
  show ?case
    using Suc.prems by (auto split: type_body.split intro!: seg_fold [where a = a] step store_value_seg)
qed simp

end
