(* ===== verification/IrgenTreeWf.thy ===== *)
theory IrgenTreeWf
  imports IrgenExprWf
begin

section \<open>Well-formedness of the code of expressions and initializers\<close>

subsection \<open>Expressions and initializers\<close>

declare gen_scalar_or_nested_init.simps [simp del] gen_aggregate_expr_addr.simps [simp del]
  gen_initializer.simps [simp del] gen_zero_initializer.simps [simp del]

definition expr_spec :: "ast \<Rightarrow> bool" where
  "expr_spec e \<longleftrightarrow> (\<forall>adr g. gen_ok g \<longrightarrow> yields g (gen_expr adr e g))"

definition lval_spec :: "ast \<Rightarrow> bool" where
  "lval_spec e \<longleftrightarrow> (\<forall>adr g. gen_ok g \<longrightarrow> yields g (gen_lvalue adr e g))"

definition addr_spec :: "ast \<Rightarrow> bool" where
  "addr_spec e \<longleftrightarrow> (\<forall>adr g. gen_ok g \<longrightarrow> yields g (gen_aggregate_expr_addr adr e g))"

definition init_spec :: "ast \<Rightarrow> bool" where
  "init_spec e \<longleftrightarrow> (\<forall>adr a ty g. gen_ok g \<longrightarrow> value_ok g a \<longrightarrow> seg g (gen_initializer adr a ty e g))"

definition nested_spec :: "ast \<Rightarrow> bool" where
  "nested_spec e \<longleftrightarrow> (\<forall>adr a ty g. gen_ok g \<longrightarrow> value_ok g a \<longrightarrow> seg g (gen_scalar_or_nested_init adr a ty e g))"

definition spec :: "ast \<Rightarrow> bool" where
  "spec e \<longleftrightarrow> expr_spec e \<and> lval_spec e \<and> addr_spec e \<and> init_spec e \<and> nested_spec e"

definition below :: "nat \<Rightarrow> bool" where
  "below n \<longleftrightarrow> (\<forall>e. size e < n \<longrightarrow> spec e)"

lemma belowD:
  assumes "below n" "size e < n" "gen_ok g"
  shows "yields g (gen_expr adr e g)" "yields g (gen_lvalue adr e g)" "yields g (gen_aggregate_expr_addr adr e g)"
    "value_ok g a \<Longrightarrow> seg g (gen_initializer adr a ty e g)"
    "value_ok g a \<Longrightarrow> seg g (gen_scalar_or_nested_init adr a ty e g)"
  using assms unfolding below_def spec_def expr_spec_def lval_spec_def addr_spec_def init_spec_def nested_spec_def
  by blast+

lemma args_seg:
  assumes "below n" "size_list size as < n" "gen_ok g" "gen_args adr as g = (g', vs)"
  shows "seg g g' \<and> list_all (value_ok g') vs"
  using assms(2-4)
proof (induction as arbitrary: g g' vs)
  case (Cons a as)
  obtain g1 v where h: "(if is_agg (ig_nodes g) (Some (type_or_int a))
             then let (g, v) = gen_aggregate_expr_addr adr a g in (g, v\<lparr>iv_type := Some (type_or_int a)\<rparr>)
             else gen_expr adr a g) = (g1, v)" by fastforce
  obtain g2 ws where t: "gen_args adr as g1 = (g2, ws)" by fastforce
  have sz: "size a < n" "size_list size as < n" using Cons.prems(1) by simp_all
  have s1: "seg g g1 \<and> value_ok g1 v"
    using h belowD(1,3) [OF assms(1) sz(1) Cons.prems(2), of adr]
    by (auto simp: value_ok_def yields_def split: if_splits prod.splits)
  have s2: "seg g1 g2 \<and> list_all (value_ok g2) ws"
    using Cons.IH [OF sz(2) _ t] s1 seg_ok [OF _ Cons.prems(2)] by blast
  have "g' = g2" "vs = v # ws" using Cons.prems(3) h t by (simp_all add: Let_def)
  then show ?case using s1 s2 seg_trans value_ok_mono by auto
qed auto

lemma nested_next:
  assumes "below n" "size v < n" "gen_ok g" "value_ok g a"
    "\<And>g'. gen_ok g' \<Longrightarrow> value_ok g' a \<Longrightarrow> seg g' (k g')"
  shows "seg g (case gen_addr_offset adr a off t g of (g, b) \<Rightarrow> k (gen_scalar_or_nested_init adr b t v g))"
proof -
  obtain g1 b where o: "gen_addr_offset adr a off t g = (g1, b)" by fastforce
  note s = yieldsD [OF addr_offset_yields [OF assms(3,4)] o]
  have ok1: "gen_ok g1" using s seg_ok assms(3) by blast
  have s2: "seg g1 (gen_scalar_or_nested_init adr b t v g1)" using belowD(5) [OF assms(1,2) ok1] s by blast
  have s3: "seg g (gen_scalar_or_nested_init adr b t v g1)" using seg_trans s s2 by blast
  have "seg (gen_scalar_or_nested_init adr b t v g1) (k (gen_scalar_or_nested_init adr b t v g1))"
    using assms(5) seg_ok [OF s3 assms(3)] value_ok_mono [OF assms(4) s3] by blast
  then show ?thesis using seg_trans [OF s3] by (simp add: o)
qed

lemma array_init_seg:
  assumes "below n"
  shows "size_list size its < n \<Longrightarrow> gen_ok g \<Longrightarrow> value_ok g a \<Longrightarrow>
    seg g (gen_array_initializer adr a ty k its g)"
proof (induction its arbitrary: k g)
  case (Cons it its)
  have sz: "size_list size its < n" "size it < n" using Cons.prems(1) by simp_all
  have IH: "seg g (gen_array_initializer adr a ty k its g)" if "gen_ok g" "value_ok g a" for g k
    using Cons.IH [OF sz(1) that] .
  show ?case
    using Cons.prems(2,3) sz(2)
    by (auto simp: Let_def IH intro!: nested_next [OF assms] split: option.split dest: array_entry_size)
qed simp

lemma aggregate_init_seg:
  assumes "below n"
  shows "size_list size its < n \<Longrightarrow> gen_ok g \<Longrightarrow> value_ok g a \<Longrightarrow>
    seg g (gen_aggregate_initializer adr a ty fs its g)"
proof (induction its arbitrary: fs g)
  case (Cons it its)
  have sz: "size_list size its < n" "size it < n" using Cons.prems(1) by simp_all
  have IH: "seg g (gen_aggregate_initializer adr a ty fs its g)" if "gen_ok g" "value_ok g a" for g fs
    using Cons.IH [OF sz(1) that] .
  show ?case
    using Cons.prems(2,3) sz(2)
    by (auto simp: Let_def IH intro!: nested_next [OF assms] split: option.split list.split dest: field_entry_size)
qed simp

lemma copy_init_seg:
  assumes "addr_spec e" "gen_ok g" "value_ok g a"
  shows "seg g (case gen_aggregate_expr_addr adr e g of (g, src) \<Rightarrow> emit_memcpy ty a src g)"
  using assms(1) [unfolded addr_spec_def, rule_format, OF assms(2), of adr] value_ok_mono [OF assms(3)]
  by (auto intro: memcpy_from split: prod.splits)

lemma store_init_seg:
  assumes "expr_spec e" "gen_ok g" "value_ok g a"
  shows "seg g (case gen_expr adr e g of (g, v) \<Rightarrow> store_value a v g)"
  using assms(1) [unfolded expr_spec_def, rule_format, OF assms(2), of adr] value_ok_mono [OF assms(3)]
  by (auto intro: store_from split: prod.splits)

lemma lval_step:
  assumes "below (size e)" "\<not> own_address (ast_body e) \<Longrightarrow> expr_spec e"
  shows "lval_spec e"
proof -
  obtain l c ty b where e: "e = Ast l c ty b" by (cases e)
  note B = belowD [OF assms(1)]
  have "yields g (gen_lvalue adr e g)" if ok: "gen_ok g" for adr g
  proof (cases "lvalue_view b")
    case (LvSubscript x y)
    then show ?thesis
      using ok unfolding e lvalue_view_cases
      by (auto simp: e lvalue_view_def Let_def intro!: yields_bind [OF B(1)] yields_from [OF _ subscript_yields]
          intro: value_ok_mono)
  next
    case (LvMember x f)
    then show ?thesis
      using ok unfolding e lvalue_view_cases
      by (auto simp: e lvalue_view_def Let_def intro!: yields_bind [OF B(2)] yields_from [OF _ member_addr_yields])
  next
    case (LvMemberPtr x f)
    then show ?thesis
      using ok unfolding e lvalue_view_cases
      by (auto simp: e lvalue_view_def Let_def intro!: yields_bind [OF B(1)] yields_from [OF _ member_addr_yields])
  next
    case (LvLiteral t x)
    then have b: "b = CompoundLit t x" by (simp add: lvalue_view_cases)
    obtain g1 a where al: "gen_alloca_value adr t g = (g1, a)" by fastforce
    note s = yieldsD [OF alloca_yields [OF ok] al]
    have "seg g1 (gen_initializer adr a t x g1)"
      using s seg_ok [OF _ ok] by (intro B(4)) (auto simp: e b)
    then show ?thesis using s by (auto simp: e b lvalue_view_def Let_def al intro: seg_trans value_ok_mono)
  next
    case LvOther
    then show ?thesis using assms(2) lvalue_view_own [OF LvOther] ok by (simp add: e expr_spec_def)
  next
    case (LvIdent n)
    then show ?thesis using ok by (simp add: e ident_addr_yields)
  next
    case (LvDeref x)
    then have "size x < size e" by (simp add: e lvalue_view_cases)
    then show ?thesis using ok LvDeref B(1) by (simp add: e)
  qed
  then show ?thesis by (simp add: lval_spec_def)
qed

lemma addr_step: "expr_spec e \<Longrightarrow> lval_spec e \<Longrightarrow> addr_spec e"
  by (simp add: expr_spec_def lval_spec_def addr_spec_def gen_aggregate_expr_addr.simps)

lemma init_step:
  assumes "below (size e)" "expr_spec e" "addr_spec e"
  shows "init_spec e"
proof -
  have "seg g (gen_initializer adr a ty e g)" if ok: "gen_ok g" and a: "value_ok g a" for adr a ty g
  proof (cases "literal_init e")
    case (Some x)
    then show ?thesis
      using belowD(4) [OF assms(1) literal_init_size [OF Some] ok a] store_init_seg [OF assms(2) ok a]
      by (simp add: Let_def gen_initializer.simps [of adr a ty e])
  next
    case None
    show ?thesis
    proof (cases "list_items e")
      case (Some items)
      note sz = list_items_size [OF Some]
      have z: "seg g (zero_initializer adr a ty g)" by (simp add: zero_initializer_def zero_init_seg ok a)
      have ok': "gen_ok (zero_initializer adr a ty g)" "value_ok (zero_initializer adr a ty g) a"
        using z ok a seg_ok value_ok_mono by blast+
      have it: "size (item_value it) < size e" if "items = it # its" for it its
        using item_value_less [of it "size_list size its" "size e"] sz that by simp
      show ?thesis
        using None Some array_init_seg [OF assms(1) sz ok'] aggregate_init_seg [OF assms(1) sz ok']
          belowD(5) [OF assms(1) it ok'] seg_trans [OF z] z
        by (auto simp: Let_def gen_initializer.simps [of adr a ty e] split: list.split)
    qed (use None store_init_seg [OF assms(2) ok a] copy_init_seg [OF assms(3) ok a] in
        \<open>simp add: Let_def gen_initializer.simps [of adr a ty e]\<close>)
  qed
  then show ?thesis by (simp add: init_spec_def)
qed

lemma nested_step: "expr_spec e \<Longrightarrow> addr_spec e \<Longrightarrow> init_spec e \<Longrightarrow> nested_spec e"
  using store_init_seg copy_init_seg by (simp add: nested_spec_def init_spec_def Let_def gen_scalar_or_nested_init.simps)

lemma inc_dec_yields:
  assumes "gen_ok g" "value_ok g a"
  shows "yields g (case inc_dec op ty a g of (g', old, new) \<Rightarrow> (g', old))"
    "yields g (case inc_dec op ty a g of (g', old, new) \<Rightarrow> (g', new))"
  using inc_dec_seg [OF assms, of op ty] by (auto split: prod.splits)

lemma string_seg: "ir_add_string_const (ig_module g) x = (m, lab) \<Longrightarrow> seg g (g\<lparr>ig_module := m\<rparr>)"
  by (rule seg_adds_nil)
    (auto simp: adds_def same_frame_def ir_add_string_const_def Let_def ig_nodes_def split: option.splits)

lemma assign_yields:
  assumes "expr_spec y" "addr_spec y" "gen_ok g" "value_ok g addr"
  shows "yields g
    (if op = TOK_ASSIGN \<and> is_agg (ig_nodes g) lhs_ty
     then (case gen_aggregate_expr_addr adr y g of (g, src) \<Rightarrow> (emit_memcpy lhs_ty addr src g, addr))
     else if op = TOK_ASSIGN
     then (case gen_expr adr y g of (g', rval) \<Rightarrow>
             (case bitfield_of (ig_nodes g) x of
                None \<Rightarrow> (store_value addr rval g', rval) | Some f \<Rightarrow> gen_bitfield_store addr f rval g'))
     else (case load_value addr t g of (g, lval) \<Rightarrow>
             (case gen_expr adr y g of (g, rv) \<Rightarrow>
                (case compound_value op t lval rv g of (g, dst) \<Rightarrow> (store_value addr dst g, dst)))))"
proof -
  have E: "yields g (gen_expr adr y g)" if "gen_ok g" for g
    using assms(1) that by (simp add: expr_spec_def)
  have A: "yields g (gen_aggregate_expr_addr adr y g)" if "gen_ok g" for g
    using assms(2) that by (simp add: addr_spec_def)
  consider (agg) "op = TOK_ASSIGN" "is_agg (ig_nodes g) lhs_ty" | (plain) "op = TOK_ASSIGN" "\<not> is_agg (ig_nodes g) lhs_ty"
    | (compound) "op \<noteq> TOK_ASSIGN" by blast
  then show ?thesis
  proof cases
    case agg
    have "yields g (case gen_aggregate_expr_addr adr y g of (g, src) \<Rightarrow> (emit_memcpy lhs_ty addr src g, addr))"
      by (rule yields_bind [OF A [OF assms(3)] seg_refl assms(3)])
        (use value_ok_mono [OF assms(4)] in \<open>auto intro: memcpy_from\<close>)
    then show ?thesis using agg by simp
  next
    case plain
    have "yields g (case gen_expr adr y g of (g', rval) \<Rightarrow>
             (case bitfield_of (ig_nodes g) x of
                None \<Rightarrow> (store_value addr rval g', rval) | Some f \<Rightarrow> gen_bitfield_store addr f rval g'))"
    proof (rule yields_bind [OF E [OF assms(3)] seg_refl assms(3)])
      fix g' v assume s: "seg g g'" "gen_ok g'" "value_ok g' v"
      have a: "value_ok g' addr" using value_ok_mono [OF assms(4) s(1)] .
      show "yields g (case bitfield_of (ig_nodes g) x of
          None \<Rightarrow> (store_value addr v g', v) | Some f \<Rightarrow> gen_bitfield_store addr f v g')"
        using s a yields_from [OF s(1) bitfield_store_yields [OF s(2) a s(3)]]
        by (auto intro: store_from split: option.split)
    qed
    then show ?thesis using plain by simp
  next
    case compound
    have "yields g (case load_value addr t g of (g, lval) \<Rightarrow>
             (case gen_expr adr y g of (g, rv) \<Rightarrow>
                (case compound_value op t lval rv g of (g, dst) \<Rightarrow> (store_value addr dst g, dst))))"
    proof (rule yields_bind [OF load_value_yields [OF assms(3,4)] seg_refl assms(3)])
      fix g1 lv assume s1: "seg g g1" "gen_ok g1" "value_ok g1 lv"
      show "yields g (case gen_expr adr y g1 of (g, rv) \<Rightarrow>
          (case compound_value op t lv rv g of (g, dst) \<Rightarrow> (store_value addr dst g, dst)))"
      proof (rule yields_bind [OF E [OF s1(2)] s1(1) assms(3)])
        fix g2 rv assume s2: "seg g g2" "seg g1 g2" "gen_ok g2" "value_ok g2 rv"
        show "yields g (case compound_value op t lv rv g2 of (g, dst) \<Rightarrow> (store_value addr dst g, dst))"
          by (rule yields_bind [OF compound_value_yields [OF s2(3) value_ok_mono [OF s1(3) s2(2)] s2(4)] s2(1) assms(3)])
            (use value_ok_mono [OF assms(4)] in \<open>auto intro: store_from\<close>)
      qed
    qed
    then show ?thesis using compound by simp
  qed
qed

lemma expr_step:
  assumes "below (size e)" "own_address (ast_body e) \<Longrightarrow> lval_spec e"
  shows "expr_spec e"
proof -
  obtain l c ty b where e: "e = Ast l c ty b" by (cases e)
  note B = belowD [OF assms(1)]
  have "yields g (gen_expr adr e g)" if ok: "gen_ok g" for adr g
  proof (cases "own_address b")
    case True
    then have L: "yields g (gen_lvalue adr (Ast l c ty b) g)" for adr
      using assms(2) ok by (simp add: e lval_spec_def)
    show ?thesis
      using True yields_bind [OF L seg_refl ok] yields_from [OF _ deref_value_yields]
        yields_from [OF _ member_value_yields] yields_from [OF _ literal_value_yields]
      by (cases b) (simp_all add: e Let_def own_address_def del: gen_lvalue.simps)
  next
    case False
    note [simp] = e Let_def
    show ?thesis
    proof (cases b)
      case (StrLit x w)
      obtain m lab where m: "ir_add_string_const (ig_module g) x = (m, lab)" by fastforce
      note s = string_seg [OF m]
      show ?thesis using s seg_ok [OF s ok] by (auto simp: StrLit m split: option.split intro!: ptr_to_bind)
    next
      case (Unop op x)
      then show ?thesis
        using ok
        by (auto intro!: yields_bind [OF B(1)] yields_bind [OF B(2)] yields_from [OF _ deref_value_yields]
            yields_from [OF _ unop_value_yields] B(2) yields_from [OF _ inc_dec_yields(2)] simp del: gen_lvalue.simps)
    next
      case (Postfix op x)
      then show ?thesis
        using ok by (auto intro!: yields_bind [OF B(2)] yields_from [OF _ inc_dec_yields(1)] simp del: gen_lvalue.simps)
    next
      case (Binop op x y)
      have sz: "size x < size e" "size y < size e" by (simp_all add: Binop)
      show ?thesis
      proof (cases "op = TOK_AND \<or> op = TOK_OR")
        case True
        obtain g1 result g2 l1 g3 l2 g4 l3 g5 lv g6 rv where r: "temp_of type_int g = (g1, result)"
          "new_label g1 = (g2, l1)" "new_label g2 = (g3, l2)" "new_label g3 = (g4, l3)"
          "gen_expr adr x g4 = (g5, lv)"
          "gen_expr adr y (if op = TOK_AND then emit_jz lv l2 g5 else emit_jnz lv l3 g5) = (g6, rv)"
          by (metis surj_pair)
        have ok4: "gen_ok g4" using ok temp_of_seg [OF ok r(1)] new_label_adds r(2-4) adds_ok seg_ok by metis
        have x: "seg g4 g5 \<and> value_ok g5 lv" using yieldsD [OF B(1) [OF sz(1) ok4] r(5)] .
        have y: "seg (if op = TOK_AND then emit_jz lv l2 g5 else emit_jnz lv l3 g5) g6 \<and> value_ok g6 rv"
          using yieldsD [OF B(1) [OF sz(2)] r(6)] seg_ok [OF conjunct1 [OF x] ok4] by simp
        have eq: "gen_expr adr e g = (logical_value op result l1 l2 l3 rv g6, result)"
          using True r by (simp add: Binop)
        have "value_ok (logical_value op result l1 l2 l3 rv g6) result = value_ok g6 result"
          by (simp add: logical_value_def)
        then show ?thesis
          unfolding eq yields_pair using logical_seg [OF ok r(1-4)] x y by blast
      next
        case False
        then show ?thesis
          using ok Binop
          by (auto intro!: yields_bind [OF B(1)] yields_from [OF _ binop_value_yields] intro: value_ok_mono)
      qed
    next
      case (Assign op x y)
      have sz: "size x < size e" "size y < size e" by (simp_all add: Assign)
      have y: "expr_spec y" "addr_spec y" using assms(1) sz(2) unfolding below_def spec_def by blast+
      obtain g1 addr where r: "gen_lvalue adr x g = (g1, addr)" by fastforce
      note s = yieldsD [OF B(2) [OF sz(1) ok] r]
      show ?thesis
        unfolding e Assign gen_expr.simps ast_body.case Let_def r prod.case
        by (rule yields_from [OF conjunct1 [OF s] assign_yields [OF y seg_ok [OF conjunct1 [OF s] ok] conjunct2 [OF s]]])
    next
      case (Ternary x y z)
      have sz: "size x < size e" "size y < size e" "size z < size e" by (simp_all add: Ternary)
      let ?t = "case ty of None \<Rightarrow> type_int | Some t \<Rightarrow> t"
      obtain g1 l1 g2 l2 g3 l3 g4 result g5 cond g6 tv g7 ev where r:
          "new_label g = (g1, l1)" "new_label g1 = (g2, l2)" "new_label g2 = (g3, l3)" "temp_of ?t g3 = (g4, result)"
          "gen_expr adr x g4 = (g5, cond)" "gen_expr adr y (emit_label l1 (emit_jz cond l2 g5)) = (g6, tv)"
          "gen_expr adr z (emit_label l2 (emit_jmp l3 (emit IR_COPY result tv irv_none g6))) = (g7, ev)"
        by (metis surj_pair)
      have ok3: "gen_ok g3" using ok new_label_adds r(1-3) adds_ok by metis
      have ok4: "gen_ok g4" using temp_of_seg [OF ok3 r(4)] seg_ok ok3 by blast
      have x: "seg g4 g5 \<and> value_ok g5 cond" using yieldsD [OF B(1) [OF sz(1) ok4] r(5)] .
      have ok5: "gen_ok g5" using x seg_ok ok4 by blast
      have y: "seg (emit_label l1 (emit_jz cond l2 g5)) g6 \<and> value_ok g6 tv"
        using yieldsD [OF B(1) [OF sz(2)] r(6)] ok5 by simp
      have ok6: "gen_ok g6" using y seg_ok ok5 by (metis gen_ok_jumps(1,3))
      have z: "seg (emit_label l2 (emit_jmp l3 (emit IR_COPY result tv irv_none g6))) g7 \<and> value_ok g7 ev"
        using yieldsD [OF B(1) [OF sz(3)] r(7)] ok6 by simp
      show ?thesis
        using ternary_seg [OF ok r(1-4) conjunct1 [OF x] conjunct2 [OF x] conjunct1 [OF y] conjunct2 [OF y]
            conjunct1 [OF z] conjunct2 [OF z]] r by (simp add: Ternary)
    next
      case (Call f as)
      have sz: "size f < size e" "size_list size as < size e" by (simp_all add: Call)
      obtain g1 args g2 callee where r: "gen_args adr as g = (g1, args)" "gen_expr adr f g1 = (g2, callee)"
        by (metis surj_pair)
      note s1 = args_seg [OF assms(1) sz(2) ok r(1)]
      have ok1: "gen_ok g1" using s1 seg_ok ok by blast
      note s2 = yieldsD [OF B(1) [OF sz(1) ok1] r(2)]
      have "list_all (value_ok g2) args" using s1 s2 value_ok_mono by (auto simp: list_all_iff)
      then show ?thesis
        using s1 s2 seg_ok [OF _ ok1] seg_trans r
        by (auto simp: Call intro!: yields_from [OF _ call_value_yields])
    next
      case (Cast t x)
      then show ?thesis
        using ok by (auto intro!: yields_bind [OF B(1)] yields_from [OF _ cast_value_yields])
    next
      case (Comma x y)
      then show ?thesis using ok by (auto intro!: yields_bind [OF B(1)] yields_from [OF _ B(1)])
    qed (use ok False in \<open>simp_all add: ident_value_yields sizeof_value_def own_address_simps\<close>)
  qed
  then show ?thesis by (simp add: expr_spec_def)
qed

lemma all_spec: "spec e"
proof (induction "size e" arbitrary: e rule: less_induct)
  case less
  then have b: "below (size e)" by (simp add: below_def)
  have E: "expr_spec e" and L: "lval_spec e"
    using lval_step [OF b] expr_step [OF b] by blast+
  show ?case
    unfolding spec_def using E L addr_step [OF E L] init_step [OF b E addr_step [OF E L]]
      nested_step [OF E addr_step [OF E L] init_step [OF b E addr_step [OF E L]]] by blast
qed

lemma gen_expr_yields: "gen_ok g \<Longrightarrow> yields g (gen_expr adr e g)"
  and gen_addr_yields: "gen_ok g \<Longrightarrow> yields g (gen_aggregate_expr_addr adr e g)"
  and gen_initializer_seg: "gen_ok g \<Longrightarrow> value_ok g a \<Longrightarrow> seg g (gen_initializer adr a ty e g)"
  using all_spec [of e] unfolding spec_def expr_spec_def addr_spec_def init_spec_def by blast+

end
