(* ===== verification/IrgenFuncWf.thy ===== *)
theory IrgenFuncWf
  imports IrgenTreeWf
begin

section \<open>Well-formedness of the code of whole functions\<close>

text \<open>
  A statement also defines labels that were allocated before it: those of its case labels, by
  the enclosing switch, and of its named labels, by the function. They are its marks. With
  distinct marks, the code of a function defines every label once and jumps only to labels it
  defines.
\<close>

subsection \<open>Marks\<close>

datatype (plugins only: code size) mark = CaseMark "int \<times> int" bool | GotoMark string

fun is_goto_mark :: "mark \<Rightarrow> bool" where
  "is_goto_mark (GotoMark n) = True"
| "is_goto_mark (CaseMark p d) = False"

text \<open>Those of a statement that its surroundings have allocated: the case labels of a nested
  switch are not among them.\<close>

fun marks :: "ast \<Rightarrow> mark list"
and marks_all :: "ast list \<Rightarrow> mark list" where
  "marks (Ast l c t b) =
     (case b of
        Label lb st \<Rightarrow> GotoMark lb # marks st
      | Case e st \<Rightarrow> CaseMark (l, c) False # marks st
      | Default st \<Rightarrow> CaseMark (l, c) True # marks st
      | Compound ss \<Rightarrow> marks_all ss
      | If e th el \<Rightarrow> marks th @ (case el of None \<Rightarrow> [] | Some el \<Rightarrow> marks el)
      | While e bd \<Rightarrow> marks bd
      | DoWhile e bd \<Rightarrow> marks bd
      | For i e n bd \<Rightarrow> (case i of None \<Rightarrow> [] | Some i \<Rightarrow> marks i) @ marks bd
      | Switch e bd \<Rightarrow> filter is_goto_mark (marks bd)
      | _ \<Rightarrow> [])"
| "marks_all [] = []"
| "marks_all (s # ss) = marks s @ marks_all ss"

text \<open>All marks, those of nested switches included.\<close>

fun every_mark :: "ast \<Rightarrow> mark list"
and every_mark_all :: "ast list \<Rightarrow> mark list" where
  "every_mark (Ast l c t b) =
     (case b of
        Label lb st \<Rightarrow> GotoMark lb # every_mark st
      | Case e st \<Rightarrow> CaseMark (l, c) False # every_mark st
      | Default st \<Rightarrow> CaseMark (l, c) True # every_mark st
      | Compound ss \<Rightarrow> every_mark_all ss
      | If e th el \<Rightarrow> every_mark th @ (case el of None \<Rightarrow> [] | Some el \<Rightarrow> every_mark el)
      | While e bd \<Rightarrow> every_mark bd
      | DoWhile e bd \<Rightarrow> every_mark bd
      | For i e n bd \<Rightarrow> (case i of None \<Rightarrow> [] | Some i \<Rightarrow> every_mark i) @ every_mark bd
      | Switch e bd \<Rightarrow> every_mark bd
      | _ \<Rightarrow> [])"
| "every_mark_all [] = []"
| "every_mark_all (s # ss) = every_mark s @ every_mark_all ss"

text \<open>The first clause of a for statement has no labels in C; collect_labels does not look at it.\<close>

fun plain_inits :: "ast \<Rightarrow> bool"
and plain_inits_all :: "ast list \<Rightarrow> bool" where
  "plain_inits (Ast l c t b) =
     (case b of
        Label lb st \<Rightarrow> plain_inits st
      | Case e st \<Rightarrow> plain_inits st
      | Default st \<Rightarrow> plain_inits st
      | Compound ss \<Rightarrow> plain_inits_all ss
      | If e th el \<Rightarrow> plain_inits th \<and> (case el of None \<Rightarrow> True | Some el \<Rightarrow> plain_inits el)
      | While e bd \<Rightarrow> plain_inits bd
      | DoWhile e bd \<Rightarrow> plain_inits bd
      | For i e n bd \<Rightarrow> (case i of None \<Rightarrow> True | Some i \<Rightarrow> marks i = [] \<and> plain_inits i) \<and> plain_inits bd
      | Switch e bd \<Rightarrow> plain_inits bd
      | _ \<Rightarrow> True)"
| "plain_inits_all [] = True"
| "plain_inits_all (s # ss) = (plain_inits s \<and> plain_inits_all ss)"

definition mark_label :: "ir_gen \<Rightarrow> mark \<Rightarrow> int option" where
  "mark_label g m =
     (case m of
        CaseMark p d \<Rightarrow>
          map_option ce_label (List.find (\<lambda>ce. ce_node ce = p \<and> ce_is_default ce = d) (ig_cases g))
      | GotoMark n \<Rightarrow> goto_target n g)"

definition assigned :: "ir_gen \<Rightarrow> mark list \<Rightarrow> int list" where
  "assigned g ms = List.map_filter (mark_label g) ms"

lemma assigned_simps [simp]:
  "assigned g [] = []" "assigned g (ms @ ns) = assigned g ms @ assigned g ns"
  "assigned g (m # ms) = (case mark_label g m of None \<Rightarrow> assigned g ms | Some l \<Rightarrow> l # assigned g ms)"
  by (simp_all add: assigned_def List.map_filter_def split: option.split)

subsection \<open>Steps of statements\<close>

definition same_ctx :: "ir_gen \<Rightarrow> ir_gen \<Rightarrow> bool" where
  "same_ctx g g' \<longleftrightarrow> ig_break g' = ig_break g \<and> ig_cont g' = ig_cont g \<and> ig_cases g' = ig_cases g
     \<and> ig_default g' = ig_default g \<and> ig_gotos g' = ig_gotos g \<and> tl (ig_scope g') = tl (ig_scope g)
     \<and> fn_name (ig_func g') = fn_name (ig_func g) \<and> fn_type (ig_func g') = fn_type (ig_func g)
     \<and> md_funcs (ig_module g') = md_funcs (ig_module g) \<and> grows (ig_nodes g) (ig_nodes g')"

definition sadds :: "ir_instr list \<Rightarrow> ir_gen \<Rightarrow> ir_gen \<Rightarrow> bool" where
  "sadds cs g g' \<longleftrightarrow> code g' = code g @ cs \<and> next_temp g \<le> next_temp g' \<and> next_label g \<le> next_label g'
     \<and> list_all (instr_ok (next_temp g')) cs \<and> same_ctx g g' \<and> gen_ok g'"

definition labs :: "int \<Rightarrow> int \<Rightarrow> int set \<Rightarrow> int set \<Rightarrow> ir_instr list \<Rightarrow> bool" where
  "labs lo hi D U cs \<longleftrightarrow> distinct (lab_defs cs) \<and> D \<subseteq> set (lab_defs cs) \<and> set (lab_defs cs) \<subseteq> D \<union> {lo..<hi}
     \<and> set (jump_labs cs) \<subseteq> set (lab_defs cs) \<union> U"

definition step :: "int set \<Rightarrow> int set \<Rightarrow> ir_gen \<Rightarrow> ir_gen \<Rightarrow> bool" where
  "step D U g g' \<longleftrightarrow> (\<exists>cs. sadds cs g g' \<and> labs (next_label g) (next_label g') D U cs)"

definition uses :: "ir_gen \<Rightarrow> int set" where
  "uses g = ({ig_break g, ig_cont g} - {0}) \<union> gl_label ` set (ig_gotos g)"

lemma same_ctx_refl [simp]: "same_ctx g g"
  by (simp add: same_ctx_def)

lemma same_ctx_trans: "same_ctx a b \<Longrightarrow> same_ctx b c \<Longrightarrow> same_ctx a c"
  by (auto simp: same_ctx_def intro: grows_trans)

lemma same_ctx_marks:
  assumes "same_ctx g g'"
  shows "assigned g' ms = assigned g ms" "uses g' = uses g"
proof -
  have "mark_label g' = mark_label g"
    using assms by (auto simp: same_ctx_def mark_label_def goto_target_def split: mark.split)
  then show "assigned g' ms = assigned g ms" by (simp add: assigned_def)
  show "uses g' = uses g" using assms by (simp add: same_ctx_def uses_def)
qed

lemma sadds_trans:
  assumes "sadds cs a b" "sadds ds b c"
  shows "sadds (cs @ ds) a c"
proof -
  have "same_ctx a c" using assms same_ctx_trans by (metis sadds_def)
  moreover have "list_all (instr_ok (next_temp c)) cs"
    using assms instr_ok_mono by (fastforce simp: sadds_def list_all_iff)
  ultimately show ?thesis using assms by (simp add: sadds_def)
qed

lemma adds_sadds: "adds cs g g' \<Longrightarrow> gen_ok g \<Longrightarrow> sadds cs g g'"
  using adds_ok by (auto simp: adds_def sadds_def same_frame_def same_ctx_def)

lemma closed_labs: "closed lo hi cs \<Longrightarrow> labs lo hi {} U cs"
  by (auto simp: closed_def labs_def)

lemma labs_append:
  assumes "labs lo mid D cs_U cs" "labs mid hi E U ds" "cs_U \<subseteq> U" "lo \<le> mid" "mid \<le> hi"
    and "D \<inter> E = {}" "\<And>l. l \<in> D \<union> E \<Longrightarrow> l < lo"
  shows "labs lo hi (D \<union> E) U (cs @ ds)"
proof -
  have "l \<notin> set (lab_defs ds)" if l: "l \<in> set (lab_defs cs)" for l
  proof
    assume m: "l \<in> set (lab_defs ds)"
    have "l \<in> D \<or> lo \<le> l \<and> l < mid" using assms(1) l by (auto simp: labs_def)
    moreover have "l \<in> E \<or> mid \<le> l" using assms(2) m by (auto simp: labs_def)
    ultimately show False using assms(4,6) assms(7) [of l] by auto
  qed
  then have "distinct (lab_defs (cs @ ds))" using assms(1,2) by (auto simp: labs_def)
  moreover have "set (lab_defs (cs @ ds)) \<subseteq> (D \<union> E) \<union> {lo..<hi}"
    using assms(1,2,4,5) unfolding labs_def by fastforce
  moreover have "set (jump_labs (cs @ ds)) \<subseteq> set (lab_defs (cs @ ds)) \<union> U"
    using assms(1,2,3) unfolding labs_def by auto
  ultimately show ?thesis using assms(1,2) unfolding labs_def by auto
qed

lemma seg_step: "seg g g' \<Longrightarrow> gen_ok g \<Longrightarrow> step {} U g g'"
  using adds_sadds closed_labs by (fastforce simp: seg_def step_def)

lemma step_refl [simp, intro]: "gen_ok g \<Longrightarrow> step {} U g g"
  by (rule seg_step) auto

lemma stepD:
  assumes "step D U g g'"
  shows "gen_ok g'" "same_ctx g g'" "next_label g \<le> next_label g'" "next_temp g \<le> next_temp g'"
  using assms by (auto simp: step_def sadds_def)

lemma step_trans:
  assumes "step D U a b" "step E U b c" "D \<inter> E = {}" "\<And>l. l \<in> D \<union> E \<Longrightarrow> l < next_label a"
  shows "step (D \<union> E) U a c"
proof -
  obtain cs ds where 1: "sadds cs a b" "labs (next_label a) (next_label b) D U cs"
    and 2: "sadds ds b c" "labs (next_label b) (next_label c) E U ds"
    using assms(1,2) by (auto simp: step_def)
  have "labs (next_label a) (next_label c) (D \<union> E) U (cs @ ds)"
    by (rule labs_append [OF 1(2) 2(2)]) (use 1(1) 2(1) assms(3,4) in \<open>auto simp: sadds_def\<close>)
  then show ?thesis using sadds_trans [OF 1(1) 2(1)] by (auto simp: step_def)
qed

text \<open>A piece of code between a change of the context and its restoration; it defines the labels
  \<open>P\<close> that were allocated on entry.\<close>

definition enters :: "ir_gen \<Rightarrow> ir_gen \<Rightarrow> bool" where
  "enters g g1 \<longleftrightarrow> code g1 = code g \<and> next_temp g1 = next_temp g \<and> next_label g \<le> next_label g1
     \<and> ig_gotos g1 = ig_gotos g \<and> fn_name (ig_func g1) = fn_name (ig_func g)
     \<and> fn_type (ig_func g1) = fn_type (ig_func g)
     \<and> md_funcs (ig_module g1) = md_funcs (ig_module g) \<and> ig_nodes g1 = ig_nodes g"

definition leaves :: "ir_gen \<Rightarrow> ir_gen \<Rightarrow> ir_gen \<Rightarrow> bool" where
  "leaves g g2 g3 \<longleftrightarrow> ig_func g3 = ig_func g2 \<and> ig_module g3 = ig_module g2 \<and> ig_types g3 = ig_types g2
     \<and> ig_gotos g3 = ig_gotos g2 \<and> ig_break g3 = ig_break g \<and> ig_cont g3 = ig_cont g
     \<and> ig_cases g3 = ig_cases g \<and> ig_default g3 = ig_default g \<and> tl (ig_scope g3) = tl (ig_scope g)
     \<and> scope_vals_ok (next_temp g2) (ig_scope g3)"

lemma step_wrap:
  assumes "step (D \<union> P) (U \<union> P) g1 g2" "enters g g1" "leaves g g2 g3" "P \<subseteq> {next_label g..<next_label g1}"
  shows "step D U g g3"
proof -
  obtain cs where cs: "sadds cs g1 g2" "labs (next_label g1) (next_label g2) (D \<union> P) (U \<union> P) cs"
    using assms(1) by (auto simp: step_def)
  have n: "next_label g \<le> next_label g1" "next_label g1 \<le> next_label g2"
    using assms(2) cs(1) by (simp_all add: enters_def sadds_def)
  have "set (lab_defs cs) \<subseteq> D \<union> {next_label g..<next_label g2}"
    using cs(2) assms(4) n unfolding labs_def by fastforce
  moreover have "set (jump_labs cs) \<subseteq> set (lab_defs cs) \<union> U" using cs(2) unfolding labs_def by auto
  ultimately have "labs (next_label g) (next_label g3) D U cs"
    using cs(2) assms(3) unfolding labs_def leaves_def by auto
  moreover have "sadds cs g g3"
    using cs(1) assms(2,3) by (auto simp: sadds_def enters_def leaves_def same_ctx_def gen_ok_def ig_nodes_def)
  ultimately show ?thesis by (auto simp: step_def)
qed

lemma step_seq:
  assumes "step D U a b" "step E U b c" "D \<inter> E = {}" "\<And>l. l \<in> D \<union> E \<Longrightarrow> l < next_label a" "F = D \<union> E"
  shows "step F U a c"
  using step_trans [OF assms(1-4)] assms(5) by simp

lemma step_then: "step {} U a b \<Longrightarrow> step {} U b c \<Longrightarrow> step {} U a c"
  by (rule step_seq) auto

text \<open>One instruction that defines or uses a label.\<close>

lemma gen_ok_counters: "next_temp g' = next_temp g \<Longrightarrow> next_label g' = next_label g \<Longrightarrow> ig_scope g' = ig_scope g
    \<Longrightarrow> gen_ok g' = gen_ok g"
  by (simp add: gen_ok_def)

lemma emit_sadds:
  assumes "gen_ok g"
  shows "sadds [(mk IR_LABEL irv_none irv_none irv_none)\<lparr>in_label := l\<rparr>] g (emit_label l g)"
    "sadds [(mk IR_JMP irv_none irv_none irv_none)\<lparr>in_label := l\<rparr>] g (emit_jmp l g)"
    "value_ok g v \<Longrightarrow> sadds [(mk IR_JZ irv_none v irv_none)\<lparr>in_label := l\<rparr>] g (emit_jz v l g)"
    "value_ok g v \<Longrightarrow> sadds [(mk IR_JNZ irv_none v irv_none)\<lparr>in_label := l\<rparr>] g (emit_jnz v l g)"
  using assms by (auto intro: adds_sadds emit_jump_adds)

lemma emit_label_step: "gen_ok g \<Longrightarrow> step {l} U g (emit_label l g)"
  using emit_sadds(1) by (fastforce simp: step_def labs_def is_jump_def)

lemma jumps_step:
  assumes "gen_ok g" "l \<in> U"
  shows "step {} U g (emit_jmp l g)" "value_ok g v \<Longrightarrow> step {} U g (emit_jz v l g)"
    "value_ok g v \<Longrightarrow> step {} U g (emit_jnz v l g)"
  using emit_sadds(2-4) [OF assms(1)] assms(2) by (fastforce simp: step_def labs_def is_jump_def)+

lemma step_uses: "step D U g g' \<Longrightarrow> U \<subseteq> V \<Longrightarrow> step D V g g'"
  by (fastforce simp: step_def labs_def)

lemma step_bind:
  assumes "yields g r" "gen_ok g"
    and "\<And>g' v. r = (g', v) \<Longrightarrow> seg g g' \<Longrightarrow> gen_ok g' \<Longrightarrow> value_ok g' v \<Longrightarrow> next_label g \<le> next_label g' \<Longrightarrow> step D U g' (k g' v)"
    and "\<And>l. l \<in> D \<Longrightarrow> l < next_label g"
  shows "step D U g (case r of (g', v) \<Rightarrow> k g' v)"
proof (cases r)
  case (Pair g' v)
  have s: "seg g g'" "value_ok g' v" using assms(1) Pair by simp_all
  note k = assms(3) [OF Pair s(1) seg_ok [OF s(1) assms(2)] s(2) seg_counters(2) [OF s(1)]]
  show ?thesis
    using step_seq [OF seg_step [OF s(1) assms(2)] k] assms(4) by (simp add: Pair)
qed

subsection \<open>Collecting cases and labels\<close>

definition case_key :: "case_entry \<Rightarrow> mark" where
  "case_key ce = CaseMark (ce_node ce) (ce_is_default ce)"

abbreviation (input) case_marks :: "mark list \<Rightarrow> mark list" where
  "case_marks ms \<equiv> filter (\<lambda>m. \<not> is_goto_mark m) ms"

definition collected :: "mark list \<Rightarrow> ir_gen \<Rightarrow> ir_gen \<Rightarrow> bool" where
  "collected ms g g' \<longleftrightarrow>
     (\<exists>es. ig_cases g' = es @ ig_cases g \<and> map case_key (rev es) = case_marks ms
        \<and> distinct (map ce_label es) \<and> ce_label ` set es \<subseteq> {next_label g..<next_label g'}
        \<and> (ig_default g' = ig_default g \<or> ig_default g' \<in> ce_label ` set es))
     \<and> code g' = code g \<and> next_temp g' = next_temp g \<and> next_label g \<le> next_label g'
     \<and> ig_gotos g' = ig_gotos g \<and> ig_scope g' = ig_scope g \<and> ig_break g' = ig_break g \<and> ig_cont g' = ig_cont g
     \<and> fn_name (ig_func g') = fn_name (ig_func g) \<and> fn_type (ig_func g') = fn_type (ig_func g)
     \<and> ig_module g' = ig_module g \<and> ig_types g' = ig_types g"

lemma collected_nil [simp]: "case_marks ms = [] \<Longrightarrow> collected ms g g"
  by (simp add: collected_def)

lemma collected_append:
  assumes "collected ms a b" "collected ns b c"
  shows "collected (ms @ ns) a c"
proof -
  obtain es where es: "ig_cases b = es @ ig_cases a" "map case_key (rev es) = case_marks ms"
    "distinct (map ce_label es)" "ce_label ` set es \<subseteq> {next_label a..<next_label b}"
    "ig_default b = ig_default a \<or> ig_default b \<in> ce_label ` set es"
    using assms(1) by (auto simp: collected_def)
  obtain fs where fs: "ig_cases c = fs @ ig_cases b" "map case_key (rev fs) = case_marks ns"
    "distinct (map ce_label fs)" "ce_label ` set fs \<subseteq> {next_label b..<next_label c}"
    "ig_default c = ig_default b \<or> ig_default c \<in> ce_label ` set fs"
    using assms(2) by (auto simp: collected_def)
  have n: "next_label a \<le> next_label b" "next_label b \<le> next_label c"
    using assms by (simp_all add: collected_def)
  have "distinct (map ce_label (fs @ es))" using es(3,4) fs(3,4) by fastforce
  moreover have "ce_label ` set (fs @ es) \<subseteq> {next_label a..<next_label c}" using es(4) fs(4) n by fastforce
  ultimately have "\<exists>gs. ig_cases c = gs @ ig_cases a \<and> map case_key (rev gs) = case_marks (ms @ ns)
      \<and> distinct (map ce_label gs) \<and> ce_label ` set gs \<subseteq> {next_label a..<next_label c}
      \<and> (ig_default c = ig_default a \<or> ig_default c \<in> ce_label ` set gs)"
    using es(1,2,5) fs(1,2,5) by (intro exI [of _ "fs @ es"]) auto
  then show ?thesis using assms n by (auto simp: collected_def)
qed

lemma add_case_collected: "collected [CaseMark nd d] g (add_case nd v d g)"
  by (auto simp: collected_def add_case_def new_label_def ir_new_label_def case_key_def Let_def)

lemma collected_goto: "collected ms g g' \<Longrightarrow> collected (GotoMark n # ms) g g'"
  by (simp add: collected_def)

lemma collected_Cons: "collected [m] a b \<Longrightarrow> collected ms b c \<Longrightarrow> collected (m # ms) a c"
  using collected_append [of "[m]"] by simp

lemma collect_cases_spec:
  "plain_inits s \<Longrightarrow> collected (marks s) g (collect_switch_cases g s)"
  "plain_inits_all ss \<Longrightarrow> collected (marks_all ss) g (collect_cases_all g ss)"
proof (induction g s and g ss rule: collect_switch_cases_collect_cases_all.induct)
  case (1 g l c t b)
  then show ?case
    by (cases b) (auto simp: Let_def intro: collected_Cons [OF add_case_collected] collected_append collected_goto
        split: option.split)
qed (auto intro: collected_append)

definition labels_collected :: "mark list \<Rightarrow> ir_gen \<Rightarrow> ir_gen \<Rightarrow> bool" where
  "labels_collected ms g g' \<longleftrightarrow>
     (\<exists>es. ig_gotos g' = es @ ig_gotos g \<and> map (\<lambda>e. GotoMark (gl_name e)) (rev es) = filter is_goto_mark ms
        \<and> distinct (map gl_label es) \<and> gl_label ` set es \<subseteq> {next_label g..<next_label g'})
     \<and> code g' = code g \<and> next_temp g' = next_temp g \<and> next_label g \<le> next_label g'
     \<and> ig_cases g' = ig_cases g \<and> ig_default g' = ig_default g
     \<and> ig_scope g' = ig_scope g \<and> ig_break g' = ig_break g \<and> ig_cont g' = ig_cont g
     \<and> fn_name (ig_func g') = fn_name (ig_func g) \<and> fn_type (ig_func g') = fn_type (ig_func g)
     \<and> ig_module g' = ig_module g \<and> ig_types g' = ig_types g"

lemma labels_collected_nil [simp]: "filter is_goto_mark ms = [] \<Longrightarrow> labels_collected ms g g"
  by (simp add: labels_collected_def)

lemma labels_collected_append:
  assumes "labels_collected ms a b" "labels_collected ns b c"
  shows "labels_collected (ms @ ns) a c"
proof -
  obtain es where es: "ig_gotos b = es @ ig_gotos a" "map (\<lambda>e. GotoMark (gl_name e)) (rev es) = filter is_goto_mark ms"
    "distinct (map gl_label es)" "gl_label ` set es \<subseteq> {next_label a..<next_label b}"
    using assms(1) by (auto simp: labels_collected_def)
  obtain fs where fs: "ig_gotos c = fs @ ig_gotos b" "map (\<lambda>e. GotoMark (gl_name e)) (rev fs) = filter is_goto_mark ns"
    "distinct (map gl_label fs)" "gl_label ` set fs \<subseteq> {next_label b..<next_label c}"
    using assms(2) by (auto simp: labels_collected_def)
  have n: "next_label a \<le> next_label b" "next_label b \<le> next_label c"
    using assms by (simp_all add: labels_collected_def)
  have "distinct (map gl_label (fs @ es))" using es(3,4) fs(3,4) by fastforce
  moreover have "gl_label ` set (fs @ es) \<subseteq> {next_label a..<next_label c}" using es(4) fs(4) n by fastforce
  ultimately have "\<exists>gs. ig_gotos c = gs @ ig_gotos a
      \<and> map (\<lambda>e. GotoMark (gl_name e)) (rev gs) = filter is_goto_mark (ms @ ns)
      \<and> distinct (map gl_label gs) \<and> gl_label ` set gs \<subseteq> {next_label a..<next_label c}"
    using es(1,2) fs(1,2) by (intro exI [of _ "fs @ es"]) auto
  then show ?thesis using assms n by (auto simp: labels_collected_def)
qed

lemma add_goto_collected: "labels_collected [GotoMark n] g (add_goto n g)"
  by (auto simp: labels_collected_def add_goto_def new_label_def ir_new_label_def Let_def)

lemma labels_collected_case: "labels_collected ms g g' \<Longrightarrow> labels_collected (CaseMark p d # ms) g g'"
  by (simp add: labels_collected_def)

lemma labels_collected_Cons: "labels_collected [m] a b \<Longrightarrow> labels_collected ms b c \<Longrightarrow> labels_collected (m # ms) a c"
  using labels_collected_append [of "[m]"] by simp

lemma labels_collected_filter [simp]: "labels_collected (filter is_goto_mark ms) = labels_collected ms"
  by (simp add: labels_collected_def fun_eq_iff)

lemma collect_labels_spec:
  "plain_inits s \<Longrightarrow> labels_collected (marks s) g (collect_labels g s)"
  "plain_inits_all ss \<Longrightarrow> labels_collected (marks_all ss) g (collect_labels_all g ss)"
proof (induction g s and g ss rule: collect_labels_collect_labels_all.induct)
  case (1 g l c t b)
  then show ?case
    by (cases b) (auto simp: Let_def intro: labels_collected_Cons [OF add_goto_collected] labels_collected_append
        labels_collected_case split: option.split)
qed (auto intro: labels_collected_append)

subsection \<open>The labels of the marks\<close>

lemma marks_every:
  "set (marks s) \<subseteq> set (every_mark s)" "set (marks_all ss) \<subseteq> set (every_mark_all ss)"
proof (induction s and ss rule: marks_marks_all.induct)
  case (1 l c t b)
  then show ?case by (cases b) (auto split: option.splits)
qed auto

lemma marks_distinct:
  "distinct (every_mark s) \<Longrightarrow> distinct (marks s)" "distinct (every_mark_all ss) \<Longrightarrow> distinct (marks_all ss)"
proof (induction s and ss rule: marks_marks_all.induct)
  case (1 l c t b)
  then show ?case using marks_every(1) by (cases b) (fastforce split: option.splits)+
next
  case (3 s ss)
  then show ?case using marks_every(1) [of s] marks_every(2) [of ss] by auto
qed simp

lemma assigned_parts:
  "set (assigned g ms) = set (assigned g (filter P ms)) \<union> set (assigned g (filter (\<lambda>m. \<not> P m) ms))"
  by (induction ms) (auto split: option.split)

lemma assigned_distinct:
  "distinct (assigned g (filter P ms)) \<Longrightarrow> distinct (assigned g (filter (\<lambda>m. \<not> P m) ms)) \<Longrightarrow>
   set (assigned g (filter P ms)) \<inter> set (assigned g (filter (\<lambda>m. \<not> P m) ms)) = {} \<Longrightarrow> distinct (assigned g ms)"
proof (induction ms)
  case (Cons m ms)
  then show ?case
    using assigned_parts [of g ms P] by (cases "P m"; cases "mark_label g m") auto
qed simp

lemma map_filter_known: "(\<And>x. x \<in> set xs \<Longrightarrow> f (key x) = Some (lab x)) \<Longrightarrow> List.map_filter f (map key xs) = map lab xs"
  by (induction xs) (auto simp: List.map_filter_def)

lemma case_labels:
  assumes "ig_cases g = es" "map case_key (rev es) = case_marks ms" "distinct ms"
  shows "assigned g (case_marks ms) = map ce_label (rev es)"
  unfolding assigned_def assms(2) [symmetric]
proof (rule map_filter_known)
  fix x assume "x \<in> set (rev es)"
  moreover have "distinct (map case_key es)" using assms(2,3) by (metis distinct_filter distinct_rev rev_map)
  ultimately have "List.find (\<lambda>e. case_key e = case_key x) es = Some x" using find_distinct by fastforce
  then show "mark_label g (case_key x) = Some (ce_label x)"
    by (simp add: mark_label_def case_key_def assms(1))
qed

lemma goto_labels:
  assumes "ig_gotos g = es" "map (\<lambda>e. GotoMark (gl_name e)) (rev es) = filter is_goto_mark ms" "distinct ms"
  shows "assigned g (filter is_goto_mark ms) = map gl_label (rev es)"
  unfolding assigned_def assms(2) [symmetric]
proof (rule map_filter_known)
  fix x assume x: "x \<in> set (rev es)"
  have "distinct (map (\<lambda>e. GotoMark (gl_name e)) es)" using assms(2,3) by (metis distinct_filter distinct_rev rev_map)
  then have "distinct (map gl_name es)" by (simp add: distinct_map inj_on_def)
  then have "List.find (\<lambda>e. gl_name e = gl_name x) es = Some x" using x by (intro find_distinct) auto
  then show "mark_label g (GotoMark (gl_name x)) = Some (gl_label x)"
    by (simp add: mark_label_def goto_target_def assms(1))
qed

subsection \<open>Parts of statements\<close>

lemma step_fold:
  assumes "\<And>x g. x \<in> set xs \<Longrightarrow> gen_ok g \<Longrightarrow> same_ctx g0 g \<Longrightarrow> step {} U g (f x g)" "gen_ok g" "same_ctx g0 g"
  shows "step {} U g (fold f xs g)"
  using assms
proof (induction xs arbitrary: g)
  case (Cons x xs)
  have s: "step {} U g (f x g)" using Cons.prems by simp
  have "step {} U (f x g) (fold f xs (f x g))"
    by (rule Cons.IH) (use Cons.prems stepD [OF s] same_ctx_trans in \<open>auto\<close>)
  then show ?case using step_then [OF s] by simp
qed simp

lemma scope_vals_define:
  assumes "scope_vals_ok n (sc # scs)" "temp_ok n (ve_addr e)"
  shows "scope_vals_ok n (sc[vhash name := e # sc ! vhash name] # scs)"
proof -
  have sc: "length sc = VTAB_BUCKETS" "list_all (list_all (\<lambda>e. temp_ok n (ve_addr e))) sc"
    using assms(1) by (simp_all add: scope_vals_ok_def)
  have m: "sc ! vhash name \<in> set sc" using sc(1) vhash_less by simp
  have "list_all (\<lambda>e. temp_ok n (ve_addr e)) b" if "b \<in> set (sc[vhash name := e # sc ! vhash name])" for b
  proof -
    have "b = e # sc ! vhash name \<or> b \<in> set sc" using that set_update_subset_insert by fastforce
    then show ?thesis using sc(2) assms(2) m by (auto simp: list_all_iff)
  qed
  then show ?thesis using assms(1) by (simp add: scope_vals_ok_def list_all_iff)
qed

lemma vdefine_step:
  assumes "gen_ok g" "value_ok g a"
  shows "step {} U g (vscope_define g name a glob)"
proof -
  have "sadds [] g (vscope_define g name a glob)"
    using assms by (cases "ig_scope g")
      (auto simp: sadds_def vscope_define_def Let_def same_ctx_def ig_nodes_def gen_ok_def value_ok_def
        intro: scope_vals_define)
  moreover have "labs lo hi {} U []" for lo hi by (simp add: labs_def)
  ultimately show ?thesis unfolding step_def by blast
qed

lemma local_decl_step: "gen_ok g \<Longrightarrow> step {} U g (gen_local_decl adr v g)"
proof -
  assume ok: "gen_ok g"
  show ?thesis
  proof (cases "ast_body v")
    case (VarDecl name ty init sc)
    obtain g1 a where al: "gen_alloca_value adr ty g = (g1, a)" by fastforce
    note s1 = yieldsD [OF alloca_yields [OF ok] al]
    have ok1: "gen_ok g1" using s1 seg_ok ok by blast
    let ?g2 = "vscope_define g1 name a False"
    have s2: "step {} U g1 ?g2" using vdefine_step ok1 s1 by blast
    note ok2 = stepD(1) [OF s2]
    have "value_ok ?g2 a" using stepD(4) [OF s2] s1 temp_ok_mono by (auto simp: value_ok_def)
    then have "step {} U ?g2 (case init of None \<Rightarrow> ?g2 | Some e \<Rightarrow> gen_initializer adr a ty e ?g2)"
      using ok2 by (auto split: option.split intro!: seg_step gen_initializer_seg)
    then show ?thesis
      using step_then [OF seg_step [OF conjunct1 [OF s1] ok] step_then [OF s2]]
      by (simp add: gen_local_decl_def VarDecl al Let_def)
  qed (simp_all add: gen_local_decl_def ok)
qed

lemma emit_step:
  assumes "gen_ok g" "plain_op op" "value_ok g d" "value_ok g a" "value_ok g b"
  shows "step {} U g (emit op d a b g)"
  using seg_step [OF seg_emit1 [OF assms(2-5)] assms(1)] .

lemma return_step: "gen_ok g \<Longrightarrow> step {} U g (gen_return adr e g)"
  by (cases e) (auto simp: gen_return_def Let_def intro!: emit_step step_bind gen_addr_yields gen_expr_yields)

lemma dispatch_step:
  assumes "gen_ok g" "value_ok g sv" "end_label \<in> U" "ce_label ` set (ig_cases g) \<subseteq> U"
    "ig_default g = 0 \<or> ig_default g \<in> U"
  shows "step {} U g (gen_dispatch sv end_label g)"
proof -
  let ?ty = "case iv_type sv of None \<Rightarrow> type_int | Some t \<Rightarrow> t"
  obtain g1 copy where e: "emit_op IR_COPY ?ty sv irv_none g = (g1, copy)" by fastforce
  note s = yieldsD [OF emit_op_yields [OF assms(1) _ assms(2)] e]
  have s1: "seg g g1" "value_ok g1 copy" using s by simp_all
  have ok1: "gen_ok g1" using seg_ok [OF s1(1) assms(1)] .
  have fr: "ig_cases g1 = ig_cases g" "ig_default g1 = ig_default g"
    using seg_frame [OF s1(1)] by (simp_all add: same_frame_def)
  have test: "step {} U h (gen_case_test copy ?ty ce h) "
    if "gen_ok h" "value_ok h copy" "ce \<in> set (ig_cases g)" for h ce
    using that assms(4) jumps_step(3)
    by (auto simp: gen_case_test_def Let_def intro!: step_bind emit_op_yields jumps_step)
  have tests: "step {} U h (fold (gen_case_test copy ?ty) ces h)"
    if "gen_ok h" "value_ok h copy" "set ces \<subseteq> set (ig_cases g)" for ces h
    using that
  proof (induction ces arbitrary: h)
    case (Cons ce ces)
    have t: "step {} U h (gen_case_test copy ?ty ce h)" using test Cons.prems by simp
    have "value_ok (gen_case_test copy ?ty ce h) copy"
      using stepD(4) [OF t] Cons.prems(2) temp_ok_mono by (auto simp: value_ok_def)
    then have "step {} U (gen_case_test copy ?ty ce h) (fold (gen_case_test copy ?ty) ces (gen_case_test copy ?ty ce h))"
      using Cons stepD(1) [OF t] by simp
    then show ?case using step_then [OF t] by simp
  qed simp
  let ?g2 = "fold (gen_case_test copy ?ty) (ig_cases g1) g1"
  have s2: "step {} U g1 ?g2" using tests [OF ok1 s1(2)] by (simp add: fr)
  have "ig_default ?g2 = ig_default g" using stepD(2) [OF s2] by (simp add: same_ctx_def fr)
  then have "step {} U ?g2 (emit_jmp (if ig_default ?g2 \<noteq> 0 then ig_default ?g2 else end_label) ?g2)"
    using jumps_step(1) [OF stepD(1) [OF s2]] assms(3,5) by auto
  then show ?thesis
    using step_then [OF seg_step [OF s1(1) assms(1)] step_then [OF s2]] by (simp add: gen_dispatch_def Let_def e)
qed

end
