(* ===== verification/IrgenStmtWf.thy ===== *)
theory IrgenStmtWf
  imports IrgenFuncWf
begin

section \<open>Well-formedness of the code of statements\<close>

subsection \<open>Chains of steps\<close>

text \<open>The labels a chain defines were all allocated before it.\<close>

definition chain :: "int set \<Rightarrow> int set \<Rightarrow> ir_gen \<Rightarrow> ir_gen \<Rightarrow> bool" where
  "chain D U g g' \<longleftrightarrow> step D U g g' \<and> (\<forall>l\<in>D. l < next_label g)"

lemma chain_start: "gen_ok g \<Longrightarrow> chain {} U g g"
  by (simp add: chain_def)

lemma chain_ok: "chain D U g g' \<Longrightarrow> gen_ok g'" "chain D U g g' \<Longrightarrow> same_ctx g g'"
  "chain D U g g' \<Longrightarrow> next_label g \<le> next_label g'"
  by (auto simp: chain_def dest: stepD)

lemma chain_step:
  assumes "chain D U a b" "step E U b c" "D \<inter> E = {}" "\<And>l. l \<in> E \<Longrightarrow> l < next_label a"
  shows "chain (D \<union> E) U a c"
  using step_seq [of D U a b E c "D \<union> E"] assms by (auto simp: chain_def)

lemma chain_plain: "chain D U a b \<Longrightarrow> step {} U b c \<Longrightarrow> chain D U a c"
  using chain_step [of D U a b "{}" c] by simp

lemma chain_label: "chain D U a b \<Longrightarrow> l \<notin> D \<Longrightarrow> l < next_label a \<Longrightarrow> chain (insert l D) U a (emit_label l b)"
  using chain_step [of D U a b "{l}"] emit_label_step chain_ok(1) by fastforce

lemma chain_jump:
  assumes "chain D U a b" "l \<in> U"
  shows "chain D U a (emit_jmp l b)" "value_ok b v \<Longrightarrow> chain D U a (emit_jz v l b)"
    "value_ok b v \<Longrightarrow> chain D U a (emit_jnz v l b)"
  using chain_plain [OF assms(1)] jumps_step [OF chain_ok(1) [OF assms(1)] assms(2)] by simp_all

lemma chain_expr:
  assumes "chain D U a b" "gen_expr adr e b = (c, v)"
  shows "chain D U a c" "value_ok c v"
proof -
  note y = yieldsD [OF gen_expr_yields [OF chain_ok(1) [OF assms(1)]] assms(2)]
  show "chain D U a c" using chain_plain [OF assms(1) seg_step] y chain_ok(1) [OF assms(1)] by blast
  show "value_ok c v" using y by blast
qed

lemma chain_expr_opt: "chain D U a b \<Longrightarrow> chain D U a (gen_expr_opt adr e b)"
  using chain_expr(1) [OF _ prod.collapse [symmetric]] by (cases e) (simp_all add: gen_expr_opt_def)

lemma chain_loop_test: "chain D U a b \<Longrightarrow> l \<in> U \<Longrightarrow> chain D U a (gen_loop_test adr e l b)"
proof (cases e)
  case (Some x)
  assume c: "chain D U a b" "l \<in> U"
  obtain g v where e: "gen_expr adr x b = (g, v)" by fastforce
  show ?thesis using chain_jump(2) [OF chain_expr(1) [OF c(1) e] c(2)] chain_expr(2) [OF c(1) e]
    by (simp add: gen_loop_test_def Some e)
qed (simp add: gen_loop_test_def)

subsection \<open>What a statement finds\<close>

definition ready :: "int set \<Rightarrow> ir_gen \<Rightarrow> mark list \<Rightarrow> bool" where
  "ready U g ms \<longleftrightarrow> gen_ok g \<and> distinct (assigned g ms) \<and> (\<forall>l\<in>set (assigned g ms). l < next_label g) \<and> uses g \<subseteq> U"

lemma assigned_cong: "ig_cases g' = ig_cases g \<Longrightarrow> ig_gotos g' = ig_gotos g \<Longrightarrow> assigned g' = assigned g"
proof -
  assume "ig_cases g' = ig_cases g" "ig_gotos g' = ig_gotos g"
  then have "mark_label g' = mark_label g"
    by (auto simp: mark_label_def goto_target_def split: mark.split)
  then show ?thesis by (intro ext) (simp add: assigned_def)
qed

lemma ready_step:
  assumes "ready U g ms" "step D V g g'"
  shows "ready U g' ms"
  using assms stepD [OF assms(2)] same_ctx_marks [OF stepD(2) [OF assms(2)]] by (fastforce simp: ready_def)

lemma ready_append:
  assumes "ready U g (ms @ ns)"
  shows "ready U g ms" "ready U g ns" "set (assigned g ms) \<inter> set (assigned g ns) = {}"
  using assms by (auto simp: ready_def)

lemma ready_enter:
  assumes "ready U g ms" "gen_ok g1" "ig_cases g1 = ig_cases g" "ig_gotos g1 = ig_gotos g"
    "next_label g \<le> next_label g1" "uses g1 \<subseteq> V"
  shows "ready V g1 ms"
  using assms(1,2,5,6) assigned_cong [OF assms(3,4)] by (fastforce simp: ready_def)

definition gen_stmt_spec :: "(tid \<Rightarrow> u64) \<Rightarrow> ast \<Rightarrow> bool" where
  "gen_stmt_spec adr s \<longleftrightarrow> (\<forall>g U. distinct (every_mark s) \<longrightarrow> plain_inits s \<longrightarrow> ready U g (marks s) \<longrightarrow>
     step (set (assigned g (marks s))) U g (gen_stmt adr s g))"

lemma gen_stmt_specI:
  assumes "\<And>g U. distinct (every_mark s) \<Longrightarrow> plain_inits s \<Longrightarrow> ready U g (marks s) \<Longrightarrow>
    step (set (assigned g (marks s))) U g (gen_stmt adr s g)"
  shows "gen_stmt_spec adr s"
  using assms by (simp add: gen_stmt_spec_def)

lemma gen_stmt_specD:
  "gen_stmt_spec adr s \<Longrightarrow> distinct (every_mark s) \<Longrightarrow> plain_inits s \<Longrightarrow> ready U g (marks s) \<Longrightarrow>
    step (set (assigned g (marks s))) U g (gen_stmt adr s g)"
  by (simp add: gen_stmt_spec_def)

lemma chain_stmt:
  assumes "chain D U a b" "gen_stmt_spec adr s" "distinct (every_mark s)" "plain_inits s" "ready U a (marks s)"
    "D \<inter> set (assigned a (marks s)) = {}"
  shows "chain (D \<union> set (assigned a (marks s))) U a (gen_stmt adr s b)"
proof -
  have s: "step D U a b" using assms(1) by (simp add: chain_def)
  have m: "assigned b (marks s) = assigned a (marks s)" using same_ctx_marks(1) [OF stepD(2) [OF s]] .
  show ?thesis
    using chain_step [OF assms(1) gen_stmt_specD [OF assms(2-4) ready_step [OF assms(5) s]]] assms(5,6)
    by (simp add: m ready_def)
qed

subsection \<open>Fresh labels\<close>

definition bump :: "ir_gen \<Rightarrow> ir_gen" where
  "bump g = fst (new_label g)"

lemma new_label_bump: "new_label g = (bump g, next_label g)"
  by (simp add: bump_def new_label_def ir_new_label_def)

lemma bump_sel [simp]:
  "code (bump g) = code g" "next_temp (bump g) = next_temp g" "next_label (bump g) = next_label g + 1"
  "ig_module (bump g) = ig_module g" "ig_types (bump g) = ig_types g" "ig_scope (bump g) = ig_scope g"
  "ig_break (bump g) = ig_break g" "ig_cont (bump g) = ig_cont g" "ig_cases (bump g) = ig_cases g"
  "ig_default (bump g) = ig_default g" "ig_gotos (bump g) = ig_gotos g"
  "fn_name (ig_func (bump g)) = fn_name (ig_func g)" "fn_type (ig_func (bump g)) = fn_type (ig_func g)"
  by (simp_all add: bump_def new_label_def ir_new_label_def Let_def)

lemma bump_ok [simp]: "gen_ok g \<Longrightarrow> gen_ok (bump g)"
  by (simp add: gen_ok_def)

lemma enter_jumps_sel [simp]:
  "ig_func (enter_jumps b c g) = ig_func g" "ig_module (enter_jumps b c g) = ig_module g"
  "ig_types (enter_jumps b c g) = ig_types g" "ig_scope (enter_jumps b c g) = ig_scope g"
  "ig_break (enter_jumps b c g) = b" "ig_cont (enter_jumps b c g) = c" "ig_cases (enter_jumps b c g) = ig_cases g"
  "ig_default (enter_jumps b c g) = ig_default g" "ig_gotos (enter_jumps b c g) = ig_gotos g"
  by (simp_all add: enter_jumps_def)

lemma chain_wrap:
  assumes "chain E (U \<union> P) g1 g2" "E = D \<union> P" "enters g g1" "leaves g g2 g3" "P \<subseteq> {next_label g..<next_label g1}"
  shows "step D U g g3"
  using step_wrap [OF _ assms(3-5)] assms(1,2) by (simp add: chain_def)

lemma leaves_same: "chain E V g1 g2 \<Longrightarrow> same_ctx g g1 \<Longrightarrow> leaves g g2 g2"
  using chain_ok(1) chain_ok(2) by (fastforce simp: leaves_def same_ctx_def gen_ok_def)

subsection \<open>The statements\<close>

lemma stmts_step:
  assumes "\<And>s. s \<in> set ss \<Longrightarrow> gen_stmt_spec adr s" "distinct (every_mark_all ss)" "plain_inits_all ss"
    "ready U g (marks_all ss)"
  shows "step (set (assigned g (marks_all ss))) U g (gen_stmts adr ss g)"
  using assms
proof (induction ss arbitrary: g)
  case Nil
  then show ?case by (simp add: ready_def)
next
  case (Cons s ss)
  have r: "ready U g (marks s @ marks_all ss)" using Cons.prems(4) by simp
  have 1: "step (set (assigned g (marks s))) U g (gen_stmt adr s g)"
    by (rule gen_stmt_specD [OF _ _ _ ready_append(1) [OF r]]) (use Cons.prems in simp_all)
  have 2: "step (set (assigned g (marks_all ss))) U (gen_stmt adr s g) (gen_stmts adr ss (gen_stmt adr s g))"
    using Cons.IH [OF _ _ _ ready_step [OF ready_append(2) [OF r] 1]] Cons.prems(1-3)
      same_ctx_marks(1) [OF stepD(2) [OF 1]] by simp
  show ?case
    using step_seq [OF 1 2] ready_append(3) [OF r] r by (auto simp: ready_def)
qed

lemma vscope_new_ok [simp]: "scope_vals_ok n (vscope_new scs) = scope_vals_ok n scs"
  by (simp add: vscope_new_def scope_vals_ok_def list_all_iff)

lemma gen_ok_scope [simp]: "gen_ok g \<Longrightarrow> gen_ok (g\<lparr>ig_scope := vscope_new (ig_scope g)\<rparr>)"
  by (simp add: gen_ok_def)

lemma compound_spec:
  assumes "\<And>s. s \<in> set ss \<Longrightarrow> gen_stmt_spec adr s"
  shows "gen_stmt_spec adr (Ast l c t (Compound ss))"
proof (rule gen_stmt_specI)
  fix g U
  assume p: "distinct (every_mark (Ast l c t (Compound ss)))" "plain_inits (Ast l c t (Compound ss))"
    "ready U g (marks (Ast l c t (Compound ss)))"
  let ?g1 = "g\<lparr>ig_scope := vscope_new (ig_scope g)\<rparr>"
  have as: "assigned ?g1 = assigned g" by (rule assigned_cong) simp_all
  have r1: "ready U ?g1 (marks_all ss)"
    by (rule ready_enter [of U g]) (use p(3) in \<open>simp_all add: ready_def uses_def\<close>)
  have s: "step (set (assigned g (marks_all ss))) U ?g1 (gen_stmts adr ss ?g1)"
    using stmts_step [OF assms _ _ r1] p by (simp add: as)
  let ?g2 = "gen_stmts adr ss ?g1" and ?D = "set (assigned g (marks_all ss))"
  have lv: "leaves g ?g2 (?g2\<lparr>ig_scope := ig_scope g\<rparr>)"
    using stepD(2) [OF s] scope_vals_mono [OF _ stepD(4) [OF s]] p(3)
    by (simp add: leaves_def same_ctx_def ready_def gen_ok_def)
  have "step ?D U g (?g2\<lparr>ig_scope := ig_scope g\<rparr>)"
    using step_wrap [of ?D "{}" U ?g1 ?g2, OF _ _ lv] s by (simp add: enters_def ig_nodes_def)
  then show "step (set (assigned g (marks (Ast l c t (Compound ss))))) U g (gen_stmt adr (Ast l c t (Compound ss)) g)"
    by simp
qed

lemma if_spec:
  assumes "gen_stmt_spec adr th" "\<And>s. el = Some s \<Longrightarrow> gen_stmt_spec adr s"
  shows "gen_stmt_spec adr (Ast l c t (If e th el))"
proof (rule gen_stmt_specI)
  fix g U
  assume p: "distinct (every_mark (Ast l c t (If e th el)))" "plain_inits (Ast l c t (If e th el))"
    "ready U g (marks (Ast l c t (If e th el)))"
  let ?g1 = "bump (bump g)" and ?n = "next_label g"
  let ?els = "case el of None \<Rightarrow> [] | Some el \<Rightarrow> marks el"
  have as: "assigned ?g1 = assigned g" by (rule assigned_cong) simp_all
  have us: "uses ?g1 \<subseteq> V" if "U \<subseteq> V" for V using p(3) that by (auto simp: ready_def uses_def)
  have r: "ready V ?g1 (marks th @ ?els)" if "U \<subseteq> V" for V
    by (rule ready_enter [of U g]) (use p(3) us [OF that] in \<open>simp_all add: ready_def\<close>)
  have lt: "l < ?n" if "l \<in> set (assigned g (marks th @ ?els))" for l
    using p(3) that by (simp add: ready_def)
  have n: "?n \<notin> set (assigned g (marks th))" using lt [of ?n] by auto
  obtain g3 v where e: "gen_expr adr e ?g1 = (g3, v)" by fastforce
  let ?g5 = "gen_stmt adr th (emit_jz v ?n g3)"
  have c5: "chain (set (assigned g (marks th))) V ?g1 ?g5" if V: "U \<subseteq> V" "?n \<in> V" for V
  proof -
    have "gen_ok ?g1" using p(3) by (simp add: ready_def)
    note c3 = chain_expr [OF chain_start [OF this] e]
    have "chain {} V ?g1 (emit_jz v ?n g3)" by (rule chain_jump(2) [OF c3(1) V(2) c3(2)])
    from chain_stmt [OF this assms(1) _ _ ready_append(1) [OF r [OF V(1)]]] p(1,2)
    show ?thesis by (simp add: as)
  qed
  show "step (set (assigned g (marks (Ast l c t (If e th el))))) U g (gen_stmt adr (Ast l c t (If e th el)) g)"
  proof (cases el)
    case None
    have "chain (insert ?n (set (assigned g (marks th)))) (U \<union> {?n}) ?g1 (emit_label ?n ?g5)"
      by (rule chain_label [OF c5]) (auto simp: n)
    from chain_wrap [OF this _ _ leaves_same [OF this]]
    have "step (set (assigned g (marks th))) U g (emit_label ?n ?g5)"
      by (simp add: enters_def ig_nodes_def same_ctx_def)
    then show ?thesis by (simp add: None new_label_bump e)
  next
    case (Some s)
    let ?V = "U \<union> {?n, ?n + 1}"
    let ?g6 = "emit_label ?n (emit_jmp (?n + 1) ?g5)"
    have "chain (set (assigned g (marks th))) ?V ?g1 (emit_jmp (?n + 1) ?g5)"
      by (rule chain_jump(1) [OF c5]) auto
    then have c6: "chain (insert ?n (set (assigned g (marks th)))) ?V ?g1 ?g6"
      by (rule chain_label) (simp_all add: n)
    have r': "ready ?V ?g1 (marks th @ marks s)" using r [OF Un_upper1 [of U "{?n, ?n + 1}"]] by (simp add: Some)
    have "insert ?n (set (assigned g (marks th))) \<inter> set (assigned g (marks s)) = {}"
      using ready_append(3) [OF r'] lt [of ?n] by (auto simp: as Some)
    then have "chain (insert ?n (set (assigned g (marks th))) \<union> set (assigned g (marks s))) ?V ?g1 (gen_stmt adr s ?g6)"
      using chain_stmt [OF c6 assms(2) [OF Some] _ _ ready_append(2) [OF r']] p(1,2) by (simp add: as Some)
    then have c: "chain (insert (?n + 1) (insert ?n (set (assigned g (marks th))) \<union> set (assigned g (marks s)))) ?V ?g1
        (emit_label (?n + 1) (gen_stmt adr s ?g6))"
      by (rule chain_label) (use lt [of "?n + 1"] in \<open>auto simp: Some\<close>)
    from c have "step (set (assigned g (marks th)) \<union> set (assigned g (marks s))) U g (emit_label (?n + 1) (gen_stmt adr s ?g6))"
      by (rule chain_wrap [where P = "{?n, ?n + 1}"])
        (use leaves_same [OF c] in \<open>auto simp: enters_def ig_nodes_def same_ctx_def\<close>)
    then show ?thesis by (simp add: Some new_label_bump e)
  qed
qed

text \<open>The three or four labels of a loop: two are the targets of break and continue.\<close>

lemma loop_leaves:
  assumes "chain E V g1 g2" "tl (ig_scope g1) = tl (ig_scope g) \<and> sc = ig_scope g2 \<or> ig_scope g = sc"
    "gen_ok g" "next_temp g1 = next_temp g" "ig_cases g1 = ig_cases g" "ig_default g1 = ig_default g"
  shows "leaves g g2 (enter_jumps (ig_break g) (ig_cont g) (g2\<lparr>ig_scope := sc\<rparr>))"
proof -
  have "same_ctx g1 g2" "gen_ok g2" "next_temp g \<le> next_temp g2"
    using assms(1,4) stepD(1,2,4) [of E V g1 g2] by (auto simp: chain_def)
  then show ?thesis
    using assms(2,3,5,6) scope_vals_mono by (auto simp: leaves_def same_ctx_def gen_ok_def)
qed

lemma while_spec:
  assumes "gen_stmt_spec adr bd"
  shows "gen_stmt_spec adr (Ast l c t (While e bd))"
proof (rule gen_stmt_specI)
  fix g U
  assume p: "distinct (every_mark (Ast l c t (While e bd)))" "plain_inits (Ast l c t (While e bd))"
    "ready U g (marks (Ast l c t (While e bd)))"
  let ?n = "next_label g" and ?D = "set (assigned g (marks bd))"
  let ?P = "{next_label g, next_label g + 1, 2 + next_label g}"
  let ?g1 = "enter_jumps (2 + ?n) ?n (bump (bump (bump g)))"
  have as: "assigned ?g1 = assigned g" by (rule assigned_cong) simp_all
  have ok1: "gen_ok ?g1" using p(3) by (simp add: ready_def gen_ok_def)
  have r: "ready (U \<union> ?P) ?g1 (marks bd)"
    by (rule ready_enter [of U g]) (use p(3) ok1 in \<open>auto simp: ready_def uses_def\<close>)
  have lt: "l < ?n" if "l \<in> ?D" for l using p(3) that by (simp add: ready_def)
  obtain g3 v where e: "gen_expr adr e (emit_label ?n ?g1) = (g3, v)" by fastforce
  have c: "chain {?n} (U \<union> ?P) ?g1 (emit_label ?n ?g1)"
    by (rule chain_label [OF chain_start [OF ok1]]) simp_all
  have "chain {?n} (U \<union> ?P) ?g1 (emit_jz v (2 + ?n) g3)"
    by (rule chain_jump(2) [OF chain_expr(1) [OF c e] _ chain_expr(2) [OF c e]]) simp
  then have c: "chain (insert (?n + 1) {?n}) (U \<union> ?P) ?g1 (emit_label (?n + 1) (emit_jz v (2 + ?n) g3))"
    by (rule chain_label) simp_all
  let ?g6 = "gen_stmt adr bd (emit_label (?n + 1) (emit_jz v (2 + ?n) g3))"
  have "insert (?n + 1) {?n} \<inter> set (assigned ?g1 (marks bd)) = {}" using lt by (force simp: as)
  from chain_stmt [OF c assms _ _ r this] p(1,2)
  have "chain (insert (?n + 1) {?n} \<union> ?D) (U \<union> ?P) ?g1 ?g6" by (simp add: as)
  then have "chain (insert (?n + 1) {?n} \<union> ?D) (U \<union> ?P) ?g1 (emit_jmp ?n ?g6)"
    by (rule chain_jump(1)) simp
  then have c: "chain (insert (2 + ?n) (insert (?n + 1) {?n} \<union> ?D)) (U \<union> ?P) ?g1 (emit_label (2 + ?n) (emit_jmp ?n ?g6))"
    by (rule chain_label) (use lt [of "2 + ?n"] in auto)
  let ?g8 = "emit_label (2 + ?n) (emit_jmp ?n ?g6)"
  have lv: "leaves g ?g8 (enter_jumps (ig_break g) (ig_cont g) (?g8\<lparr>ig_scope := ig_scope ?g8\<rparr>))"
    by (rule loop_leaves [OF c]) (use p(3) in \<open>simp_all add: ready_def\<close>)
  have "step ?D U g (enter_jumps (ig_break g) (ig_cont g) (?g8\<lparr>ig_scope := ig_scope ?g8\<rparr>))"
    by (rule chain_wrap [OF c _ _ lv]) (auto simp: enters_def ig_nodes_def)
  then show "step (set (assigned g (marks (Ast l c t (While e bd))))) U g (gen_stmt adr (Ast l c t (While e bd)) g)"
    by (simp add: new_label_bump e Let_def)
qed

lemma do_while_spec:
  assumes "gen_stmt_spec adr bd"
  shows "gen_stmt_spec adr (Ast l c t (DoWhile e bd))"
proof (rule gen_stmt_specI)
  fix g U
  assume p: "distinct (every_mark (Ast l c t (DoWhile e bd)))" "plain_inits (Ast l c t (DoWhile e bd))"
    "ready U g (marks (Ast l c t (DoWhile e bd)))"
  let ?n = "next_label g" and ?D = "set (assigned g (marks bd))"
  let ?P = "{next_label g, next_label g + 1, 2 + next_label g}"
  let ?g1 = "enter_jumps (2 + ?n) (?n + 1) (bump (bump (bump g)))"
  have as: "assigned ?g1 = assigned g" by (rule assigned_cong) simp_all
  have ok1: "gen_ok ?g1" using p(3) by (simp add: ready_def gen_ok_def)
  have r: "ready (U \<union> ?P) ?g1 (marks bd)"
    by (rule ready_enter [of U g]) (use p(3) ok1 in \<open>auto simp: ready_def uses_def\<close>)
  have lt: "l < ?n" if "l \<in> ?D" for l using p(3) that by (simp add: ready_def)
  have c: "chain {?n} (U \<union> ?P) ?g1 (emit_label ?n ?g1)"
    by (rule chain_label [OF chain_start [OF ok1]]) simp_all
  let ?g3 = "gen_stmt adr bd (emit_label ?n ?g1)"
  have "{?n} \<inter> set (assigned ?g1 (marks bd)) = {}" using lt by (force simp: as)
  from chain_stmt [OF c assms _ _ r this] p(1,2)
  have "chain ({?n} \<union> ?D) (U \<union> ?P) ?g1 ?g3" by (simp add: as)
  then have c: "chain (insert (?n + 1) ({?n} \<union> ?D)) (U \<union> ?P) ?g1 (emit_label (?n + 1) ?g3)"
    by (rule chain_label) (use lt [of "?n + 1"] in auto)
  obtain g5 v where e: "gen_expr adr e (emit_label (?n + 1) ?g3) = (g5, v)" by fastforce
  have "chain (insert (?n + 1) ({?n} \<union> ?D)) (U \<union> ?P) ?g1 (emit_jnz v ?n g5)"
    by (rule chain_jump(3) [OF chain_expr(1) [OF c e] _ chain_expr(2) [OF c e]]) simp
  then have c: "chain (insert (2 + ?n) (insert (?n + 1) ({?n} \<union> ?D))) (U \<union> ?P) ?g1 (emit_label (2 + ?n) (emit_jnz v ?n g5))"
    by (rule chain_label) (use lt [of "2 + ?n"] in auto)
  let ?g8 = "emit_label (2 + ?n) (emit_jnz v ?n g5)"
  have lv: "leaves g ?g8 (enter_jumps (ig_break g) (ig_cont g) (?g8\<lparr>ig_scope := ig_scope ?g8\<rparr>))"
    by (rule loop_leaves [OF c]) (use p(3) in \<open>simp_all add: ready_def\<close>)
  have "step ?D U g (enter_jumps (ig_break g) (ig_cont g) (?g8\<lparr>ig_scope := ig_scope ?g8\<rparr>))"
    by (rule chain_wrap [OF c _ _ lv]) (auto simp: enters_def ig_nodes_def)
  then show "step (set (assigned g (marks (Ast l c t (DoWhile e bd))))) U g (gen_stmt adr (Ast l c t (DoWhile e bd)) g)"
    by (simp add: new_label_bump e Let_def)
qed

lemma for_init_spec:
  assumes "\<And>s. i = Some s \<Longrightarrow> gen_stmt_spec adr s \<and> distinct (every_mark s) \<and> plain_inits s \<and> marks s = []" "gen_ok g"
    "uses g \<subseteq> V"
  shows "chain {} V g (case i of None \<Rightarrow> g | Some s \<Rightarrow> gen_stmt adr s g)"
proof (cases i)
  case (Some s)
  have "ready V g (marks s)" using assms(1) [OF Some] assms(2,3) by (simp add: ready_def)
  then show ?thesis
    using chain_stmt [OF chain_start [OF assms(2)], of adr s V] assms(1) [OF Some] by (simp add: Some)
qed (simp add: chain_start assms(2))

lemma for_spec:
  assumes "gen_stmt_spec adr bd" "\<And>s. i = Some s \<Longrightarrow> gen_stmt_spec adr s"
  shows "gen_stmt_spec adr (Ast l c t (For i e n bd))"
proof (rule gen_stmt_specI)
  fix g U
  assume p: "distinct (every_mark (Ast l c t (For i e n bd)))" "plain_inits (Ast l c t (For i e n bd))"
    "ready U g (marks (Ast l c t (For i e n bd)))"
  let ?n = "next_label g" and ?D = "set (assigned g (marks bd))"
  let ?P = "{next_label g, next_label g + 1, 2 + next_label g, 3 + next_label g}"
  let ?b = "bump (bump (bump (bump g)))"
  let ?g1 = "enter_jumps (3 + ?n) (2 + ?n) (?b\<lparr>ig_scope := vscope_new (ig_scope g)\<rparr>)"
  have i: "gen_stmt_spec adr s \<and> distinct (every_mark s) \<and> plain_inits s \<and> marks s = []" if "i = Some s" for s
    using assms(2) that p(1,2) by simp
  have mb: "marks (Ast l c t (For i e n bd)) = marks bd" using i by (cases i) auto
  have as: "assigned ?g1 = assigned g" by (rule assigned_cong) simp_all
  have ok1: "gen_ok ?g1" using p(3) by (simp add: ready_def gen_ok_def)
  have us: "uses ?g1 \<subseteq> U \<union> ?P" using p(3) by (auto simp: ready_def uses_def)
  have r: "ready (U \<union> ?P) ?g1 (marks bd)"
    by (rule ready_enter [of U g]) (use p(3) ok1 us mb in \<open>simp_all add: ready_def\<close>)
  have lt: "l < ?n" if "l \<in> ?D" for l using p(3) that mb by (simp add: ready_def)
  let ?g2 = "case i of None \<Rightarrow> ?g1 | Some s \<Rightarrow> gen_stmt adr s ?g1"
  have "chain {} (U \<union> ?P) ?g1 ?g2" by (rule for_init_spec [OF i ok1 us])
  then have "chain {?n} (U \<union> ?P) ?g1 (emit_label ?n ?g2)" by (rule chain_label) simp_all
  then have "chain {?n} (U \<union> ?P) ?g1 (gen_loop_test adr e (3 + ?n) (emit_label ?n ?g2))"
    by (rule chain_loop_test) simp
  then have c: "chain (insert (?n + 1) {?n}) (U \<union> ?P) ?g1
      (emit_label (?n + 1) (gen_loop_test adr e (3 + ?n) (emit_label ?n ?g2)))"
    by (rule chain_label) simp_all
  let ?g5 = "gen_stmt adr bd (emit_label (?n + 1) (gen_loop_test adr e (3 + ?n) (emit_label ?n ?g2)))"
  have "insert (?n + 1) {?n} \<inter> set (assigned ?g1 (marks bd)) = {}"
    unfolding as using lt [of ?n] lt [of "?n + 1"] by auto
  from chain_stmt [OF c assms(1) _ _ r this] p(1,2)
  have "chain (insert (?n + 1) {?n} \<union> ?D) (U \<union> ?P) ?g1 ?g5" by (simp add: as)
  then have "chain (insert (2 + ?n) (insert (?n + 1) {?n} \<union> ?D)) (U \<union> ?P) ?g1 (emit_label (2 + ?n) ?g5)"
    by (rule chain_label) (use lt [of "2 + ?n"] in auto)
  then have "chain (insert (2 + ?n) (insert (?n + 1) {?n} \<union> ?D)) (U \<union> ?P) ?g1
      (emit_jmp ?n (gen_expr_opt adr n (emit_label (2 + ?n) ?g5)))"
    by (intro chain_jump(1) chain_expr_opt) simp_all
  then have c: "chain (insert (3 + ?n) (insert (2 + ?n) (insert (?n + 1) {?n} \<union> ?D))) (U \<union> ?P) ?g1
      (emit_label (3 + ?n) (emit_jmp ?n (gen_expr_opt adr n (emit_label (2 + ?n) ?g5))))"
    by (rule chain_label) (use lt [of "3 + ?n"] in auto)
  let ?g8 = "emit_label (3 + ?n) (emit_jmp ?n (gen_expr_opt adr n (emit_label (2 + ?n) ?g5)))"
  have lv: "leaves g ?g8 (enter_jumps (ig_break g) (ig_cont g) (?g8\<lparr>ig_scope := ig_scope g\<rparr>))"
    by (rule loop_leaves [OF c]) (use p(3) in \<open>simp_all add: ready_def\<close>)
  have "step ?D U g (enter_jumps (ig_break g) (ig_cont g) (?g8\<lparr>ig_scope := ig_scope g\<rparr>))"
    by (rule chain_wrap [OF c _ _ lv]) (auto simp: enters_def ig_nodes_def)
  then show "step (set (assigned g (marks (Ast l c t (For i e n bd))))) U g (gen_stmt adr (Ast l c t (For i e n bd)) g)"
    unfolding mb by (simp add: new_label_bump Let_def cong: option.case_cong)
qed

lemma assigned_gotos:
  "ig_gotos g' = ig_gotos g \<Longrightarrow> assigned g' (filter is_goto_mark ms) = assigned g (filter is_goto_mark ms)"
proof (induction ms)
  case (Cons m ms)
  then show ?case by (cases m) (auto simp: mark_label_def goto_target_def split: option.splits)
qed simp

lemma switch_labels:
  assumes "collected ms g0 g1" "ig_cases g0 = []" "distinct ms" "ready U g (filter is_goto_mark ms)"
    "ig_gotos g0 = ig_gotos g" "next_label g \<le> next_label g0"
  shows "set (assigned g1 ms) = set (assigned g (filter is_goto_mark ms)) \<union> ce_label ` set (ig_cases g1)"
    "distinct (assigned g1 ms)" "\<forall>l\<in>set (assigned g1 ms). l < next_label g1"
    "ce_label ` set (ig_cases g1) \<subseteq> {next_label g0..<next_label g1}"
proof -
  obtain es where es: "ig_cases g1 = es" "map case_key (rev es) = case_marks ms" "distinct (map ce_label es)"
    "ce_label ` set es \<subseteq> {next_label g0..<next_label g1}"
    using assms(1,2) by (auto simp: collected_def)
  have gt: "ig_gotos g1 = ig_gotos g" "next_label g0 \<le> next_label g1"
    using assms(1,5) by (auto simp: collected_def)
  have 1: "assigned g1 (filter is_goto_mark ms) = assigned g (filter is_goto_mark ms)"
    by (rule assigned_gotos) (rule gt)
  have 2: "assigned g1 (case_marks ms) = map ce_label (rev es)" by (rule case_labels [OF es(1,2) assms(3)])
  have lt: "\<forall>l\<in>set (assigned g (filter is_goto_mark ms)). l < next_label g"
    using assms(4) by (simp add: ready_def)
  show s: "set (assigned g1 ms) = set (assigned g (filter is_goto_mark ms)) \<union> ce_label ` set (ig_cases g1)"
    using assigned_parts [of g1 ms is_goto_mark] by (simp add: 1 2 es(1))
  show "distinct (assigned g1 ms)"
  proof (rule assigned_distinct [of _ is_goto_mark])
    show "set (assigned g1 (filter is_goto_mark ms)) \<inter> set (assigned g1 (case_marks ms)) = {}"
      using lt es(4) assms(6) unfolding 1 2 by fastforce
  qed (use assms(4) es(3) in \<open>simp_all add: 1 2 ready_def distinct_map\<close>)
  show "\<forall>l\<in>set (assigned g1 ms). l < next_label g1"
    unfolding s using lt es(1,4) gt(2) assms(6) by fastforce
  show "ce_label ` set (ig_cases g1) \<subseteq> {next_label g0..<next_label g1}" using es(1,4) by simp
qed

lemma switch_spec:
  assumes "gen_stmt_spec adr bd"
  shows "gen_stmt_spec adr (Ast l c t (Switch e bd))"
proof (rule gen_stmt_specI)
  fix g U
  assume p: "distinct (every_mark (Ast l c t (Switch e bd)))" "plain_inits (Ast l c t (Switch e bd))"
    "ready U g (marks (Ast l c t (Switch e bd)))"
  let ?n = "next_label g" and ?gs = "filter is_goto_mark (marks bd)"
  let ?g0 = "(bump g)\<lparr>ig_break := next_label g, ig_cases := [], ig_default := 0\<rparr>"
  let ?g1 = "collect_switch_cases ?g0 bd"
  let ?D = "set (assigned g ?gs)" and ?C = "ce_label ` set (ig_cases ?g1)"
  let ?P = "insert ?n ?C" and ?E = "set (assigned ?g1 (marks bd))"
  have co: "collected (marks bd) ?g0 ?g1" using collect_cases_spec(1) p(2) by simp
  have dm: "distinct (marks bd)" using marks_distinct(1) p(1) by simp
  have rg: "ready U g ?gs" using p(3) by simp
  note sl = switch_labels [OF co _ dm rg]
  have E: "?E = ?D \<union> ?C" by (rule sl) simp_all
  have C: "?C \<subseteq> {?n + 1..<next_label ?g1}" using sl(4) by simp
  have n1: "?n + 1 \<le> next_label ?g1" using co by (simp add: collected_def)
  have ok1: "gen_ok ?g1" using co rg by (simp add: collected_def gen_ok_def ready_def)
  have "uses ?g1 \<subseteq> U \<union> ?P" using co rg by (auto simp: collected_def uses_def ready_def)
  then have r: "ready (U \<union> ?P) ?g1 (marks bd)" using sl(2,3) ok1 by (simp add: ready_def)
  obtain g2 sv where e: "gen_expr adr e ?g1 = (g2, sv)" by fastforce
  note c2 = chain_expr [OF chain_start [where U = "U \<union> ?P", OF ok1] e]
  note ctx2 = chain_ok(2) [OF c2(1)]
  have "ig_default ?g1 = 0 \<or> ig_default ?g1 \<in> ?C" using co by (auto simp: collected_def)
  then have "step {} (U \<union> ?P) g2 (gen_dispatch sv ?n g2)"
    using ctx2 by (intro dispatch_step chain_ok(1) [OF c2(1)] c2(2)) (auto simp: same_ctx_def)
  then have c3: "chain {} (U \<union> ?P) ?g1 (gen_dispatch sv ?n g2)" by (rule chain_plain [OF c2(1)])
  let ?g4 = "gen_stmt adr bd (gen_dispatch sv ?n g2)"
  have c4: "chain ?E (U \<union> ?P) ?g1 ?g4"
    using chain_stmt [OF c3 assms _ _ r] p(1,2) by simp
  have "?n \<notin> ?E" unfolding E using C rg by (auto simp: ready_def)
  then have c5: "chain (insert ?n ?E) (U \<union> ?P) ?g1 (emit_label ?n ?g4)"
    by (rule chain_label [OF c4]) (use n1 in simp)
  let ?g5 = "emit_label ?n ?g4"
  let ?g6 = "?g5\<lparr>ig_break := ig_break g, ig_cases := ig_cases g, ig_default := ig_default g\<rparr>"
  have lv: "leaves g ?g5 ?g6"
    using chain_ok(1,2) [OF c5] co by (simp add: leaves_def same_ctx_def gen_ok_def collected_def)
  have en: "enters g ?g1" using co by (simp add: enters_def collected_def ig_nodes_def)
  have "step ?D U g ?g6"
    by (rule chain_wrap [OF c5 _ en lv]) (use C n1 in \<open>auto simp: E\<close>)
  then show "step (set (assigned g (marks (Ast l c t (Switch e bd))))) U g (gen_stmt adr (Ast l c t (Switch e bd)) g)"
    by (simp add: new_label_bump e Let_def)
qed

lemma mark_spec:
  assumes "gen_stmt_spec adr st" "\<And>g. gen_stmt adr s g = gen_stmt adr st (case mark_label g m of Some l \<Rightarrow> emit_label l g | None \<Rightarrow> g)"
    "marks s = m # marks st" "every_mark s = m # every_mark st" "plain_inits s = plain_inits st"
  shows "gen_stmt_spec adr s"
proof (rule gen_stmt_specI)
  fix g U
  assume p: "distinct (every_mark s)" "plain_inits s" "ready U g (marks s)"
  have r: "ready U g (marks st)" using p(3) by (auto simp: assms(3) ready_def split: option.splits)
  have ok: "gen_ok g" using p(3) by (simp add: ready_def)
  show "step (set (assigned g (marks s))) U g (gen_stmt adr s g)"
  proof (cases "mark_label g m")
    case None
    then show ?thesis using gen_stmt_specD [OF assms(1) _ _ r] p(1,2) by (simp add: assms(2-5))
  next
    case (Some l)
    have c: "chain {l} U g (emit_label l g)"
      by (rule chain_label [OF chain_start [OF ok]]) (use p(3) in \<open>simp_all add: assms(3) Some ready_def\<close>)
    have "{l} \<inter> set (assigned g (marks st)) = {}" using p(3) by (simp add: assms(3) Some ready_def)
    from chain_stmt [OF c assms(1) _ _ r this] p(1,2)
    show ?thesis by (simp add: assms(2-5) Some chain_def)
  qed
qed

lemma simple_spec:
  assumes "\<And>g U. gen_ok g \<Longrightarrow> uses g \<subseteq> U \<Longrightarrow> step {} U g (gen_stmt adr s g)" "marks s = []"
  shows "gen_stmt_spec adr s"
  by (rule gen_stmt_specI) (simp add: assms ready_def)

lemma goto_target_uses: "goto_target lb g = Some l \<Longrightarrow> l \<in> uses g"
  by (auto simp: goto_target_def uses_def find_Some_iff)

lemma gen_stmt_specs: "gen_stmt_spec adr s"
proof (induction "size s" arbitrary: s rule: less_induct)
  case less
  obtain l c t b where s: "s = Ast l c t b" by (cases s)
  have IH: "gen_stmt_spec adr x" if "size x < size s" for x using less that by blast
  have lists: "size x < size s" if "x \<in> set xs" "size_list size xs < size s" for x xs
    using that size_list_estimation' [of x xs "size x" size] by simp
  show ?case
  proof (cases b)
    case (Compound ss)
    have "gen_stmt_spec adr x" if "x \<in> set ss" for x
      by (rule IH) (use lists [OF that] in \<open>simp add: s Compound\<close>)
    then show ?thesis using compound_spec by (simp add: s Compound)
  next
    case (ExprStmt e)
    have "step {} U g (fst (gen_expr adr e g))" if "gen_ok g" for U g
      using chain_expr(1) [OF chain_start [OF that] prod.collapse [symmetric]] by (simp add: chain_def)
    then show ?thesis by (intro simple_spec) (simp_all add: s ExprStmt)
  next
    case (DeclStmt ds)
    have "step {} U g (fold (gen_local_decl adr) ds g)" if "gen_ok g" for U g
      by (rule step_fold [of _ g]) (use that local_decl_step in simp_all)
    then show ?thesis by (intro simple_spec) (simp_all add: s DeclStmt)
  next
    case (If e th el)
    then show ?thesis using if_spec IH by (simp add: s)
  next
    case (While e bd)
    then show ?thesis using while_spec IH by (simp add: s)
  next
    case (DoWhile e bd)
    then show ?thesis using do_while_spec IH by (simp add: s)
  next
    case (For i e n bd)
    then show ?thesis using for_spec IH by (simp add: s)
  next
    case (Return e)
    then show ?thesis by (intro simple_spec) (simp_all add: s return_step)
  next
    case Break
    then show ?thesis by (intro simple_spec) (auto simp: s uses_def intro!: jumps_step)
  next
    case Continue
    then show ?thesis by (intro simple_spec) (auto simp: s uses_def intro!: jumps_step)
  next
    case (Switch e bd)
    then show ?thesis using switch_spec IH by (simp add: s)
  next
    case (Case e st)
    show ?thesis
      by (rule mark_spec [where st = st and m = "CaseMark (l, c) False"])
        (use IH in \<open>auto simp: s Case emit_case_label_def mark_label_def split: option.split\<close>)
  next
    case (Default st)
    show ?thesis
      by (rule mark_spec [where st = st and m = "CaseMark (l, c) True"])
        (use IH in \<open>auto simp: s Default emit_case_label_def mark_label_def split: option.split\<close>)
  next
    case (Goto lb)
    have "step {} U g (case goto_target lb g of Some l \<Rightarrow> emit_jmp l g | None \<Rightarrow> g)"
      if "gen_ok g" "uses g \<subseteq> U" for U g
      using that goto_target_uses by (auto split: option.split intro!: jumps_step)
    then show ?thesis by (intro simple_spec) (simp_all add: s Goto)
  next
    case (Label lb st)
    show ?thesis
      by (rule mark_spec [where st = st and m = "GotoMark lb"])
        (use IH in \<open>auto simp: s Label mark_label_def split: option.split\<close>)
  qed (rule simple_spec; simp add: s)+
qed

end
