(* ===== verification/IrgenModWf.thy ===== *)
theory IrgenModWf
  imports IrgenStmtWf
begin

section \<open>Well-formedness of the code of functions and of the module\<close>

subsection \<open>Functions\<close>

text \<open>Every temporary is allocated, labels are defined once and every jump has its label.\<close>

definition func_ok :: "ir_func \<Rightarrow> bool" where
  "func_ok f \<longleftrightarrow> 1 \<le> fn_next_temp f \<and> list_all (instr_ok (fn_next_temp f)) (fn_instrs f)
     \<and> distinct (lab_defs (fn_instrs f)) \<and> set (jump_labs (fn_instrs f)) \<subseteq> set (lab_defs (fn_instrs f))
     \<and> set (lab_defs (fn_instrs f)) \<subseteq> {1..<fn_next_label f}"

lemma retemp_step: "gen_ok g \<Longrightarrow> step {} U g (g\<lparr>ig_func := (ig_func g)\<lparr>fn_sret_temp := t\<rparr>\<rparr>)"
proof -
  assume ok: "gen_ok g"
  then have "sadds [] g (g\<lparr>ig_func := (ig_func g)\<lparr>fn_sret_temp := t\<rparr>\<rparr>)"
    by (simp add: sadds_def same_ctx_def gen_ok_def ig_nodes_def)
  moreover have "labs lo hi {} U []" for lo hi by (simp add: labs_def)
  ultimately show ?thesis unfolding step_def by blast
qed

lemma instr_ok_label [simp]: "instr_ok n (i\<lparr>in_label := l\<rparr>) = instr_ok n i"
  by (simp add: instr_ok_def)

lemma sret_step: "gen_ok g \<Longrightarrow> step {} U g (gen_sret adr ret_ty g)"
proof -
  assume ok: "gen_ok g"
  obtain g1 t where t: "new_temp g = (g1, t)" by fastforce
  obtain g2 p where p: "ptr_to adr ret_ty g1 = (g2, p)" by fastforce
  have s1: "seg g g2" using new_temp_seg [OF t] ptr_to_seg [OF p] seg_trans by blast
  have v: "value_ok g2 (irv_temp t p)"
    using new_temp_seg [OF t] ptr_to_seg [OF p] ok by (simp add: value_ok_def gen_ok_def)
  let ?g3 = "set_last (\<lambda>i. i\<lparr>in_label := - 1\<rparr>) (emit IR_COPY (irv_temp t p) irv_none irv_none g2)"
  have "seg g2 ?g3" by (rule set_last_seg) (use v in simp_all)
  then have s: "seg g ?g3" using s1 seg_trans by blast
  have "step {} U g (?g3\<lparr>ig_func := (ig_func ?g3)\<lparr>fn_sret_temp := t\<rparr>\<rparr>)"
    by (rule step_then [OF seg_step [OF s ok] retemp_step [OF seg_ok [OF s ok]]])
  then show ?thesis using ok by (simp add: gen_sret_def t p Let_def)
qed

definition slots_ok :: "ir_gen \<Rightarrow> (ir_value \<times> ir_value) list \<Rightarrow> bool" where
  "slots_ok g stores \<longleftrightarrow> list_all (\<lambda>(a, v). value_ok g a \<and> value_ok g v) stores"

lemma slots_ok_mono: "slots_ok g st \<Longrightarrow> next_temp g \<le> next_temp g' \<Longrightarrow> slots_ok g' st"
  using temp_ok_mono by (fastforce simp: slots_ok_def value_ok_def list_all_iff)

lemma param_slot_step:
  assumes "gen_ok g" "slots_ok g st" "gen_param_slot adr p (g, n, st) = (g', n', st')"
  shows "step {} U g g' \<and> slots_ok g' st'"
proof -
  consider (named) name pty where "ast_body p = ParamDecl (Some name) pty"
    | (other) "g' = g" "st' = st"
    using assms(3) by (auto simp: gen_param_slot_def split: ast_body.splits option.splits)
  then show ?thesis
  proof cases
    case named
    obtain g1 a where a: "gen_alloca_value adr pty g = (g1, a)" by fastforce
    have s1: "seg g g1" "value_ok g1 a" using yieldsD [OF alloca_yields [OF assms(1)] a] by simp_all
    have ok1: "gen_ok g1" by (rule seg_ok [OF s1(1) assms(1)])
    show ?thesis
    proof (cases "is_agg (ig_nodes g1) (Some pty)")
      case True
      let ?g2 = "set_last (\<lambda>i. i\<lparr>in_label := n, in_src2 := irv_none\<lparr>iv_type := Some pty\<rparr>\<rparr>)
        (emit IR_COPY a irv_none irv_none g1)"
      have s2: "seg g1 ?g2" by (rule set_last_seg) (use s1(2) in \<open>simp_all add: instr_ok_def\<close>)
      have ok2: "gen_ok ?g2" by (rule seg_ok [OF s2 ok1])
      have "step {} U ?g2 (vscope_define ?g2 name a False)"
        by (rule vdefine_step [OF ok2 value_lift [OF s2 s1(2)]])
      then have s: "step {} U g (vscope_define ?g2 name a False)"
        by (rule step_then [OF seg_step [OF seg_trans [OF s1(1) s2] assms(1)]])
      then have "step {} U g g' \<and> st' = st"
        using assms(3) named True by (auto simp: gen_param_slot_def a Let_def)
      then show ?thesis using slots_ok_mono [OF assms(2)] stepD(4) by blast
    next
      case False
      obtain g2 v where v: "temp_of pty g1 = (g2, v)" by fastforce
      have s2: "seg g1 g2" "value_ok g2 v" using temp_of_seg [OF ok1 v] by simp_all
      let ?g3 = "set_last (\<lambda>i. i\<lparr>in_label := n\<rparr>) (emit IR_COPY v irv_none irv_none g2)"
      have s3: "seg g2 ?g3" by (rule set_last_seg) (use s2(2) in simp_all)
      note s13 = seg_trans [OF s1(1) seg_trans [OF s2(1) s3]]
      have a3: "value_ok ?g3 a" by (rule value_lift [OF seg_trans [OF s2(1) s3] s1(2)])
      have v3: "value_ok ?g3 v" by (rule value_lift [OF s3 s2(2)])
      have "step {} U ?g3 (vscope_define ?g3 name a False)"
        by (rule vdefine_step [OF seg_ok [OF s13 assms(1)] a3])
      then have s: "step {} U ?g3 (vscope_define ?g3 name a False)"
        "step {} U g (vscope_define ?g3 name a False)"
        using step_then [OF seg_step [OF s13 assms(1)]] by simp_all
      have "slots_ok (vscope_define ?g3 name a False) (st @ [(a, v)])"
        using slots_ok_mono [OF assms(2)] stepD(4) [OF s(2)] a3 v3 temp_ok_mono [OF _ stepD(4) [OF s(1)]]
        by (auto simp: slots_ok_def value_ok_def)
      then show ?thesis using s(2) assms(3) named False by (auto simp: gen_param_slot_def a v Let_def)
    qed
  qed (use assms in auto)
qed

lemma param_slots_step:
  assumes "gen_ok g" "slots_ok g st" "fold (gen_param_slot adr) ps (g, n, st) = (g', n', st')"
  shows "step {} U g g' \<and> slots_ok g' st'"
  using assms
proof (induction ps arbitrary: g n st)
  case (Cons p ps)
  obtain g1 n1 st1 where p: "gen_param_slot adr p (g, n, st) = (g1, n1, st1)" using prod_cases3 by blast
  note 1 = param_slot_step [OF Cons.prems(1,2) p, of U]
  have "step {} U g1 g' \<and> slots_ok g' st'"
    by (rule Cons.IH) (use 1 stepD(1) Cons.prems(3) p in auto)
  then show ?case using 1 step_then by blast
qed simp

lemma stores_step:
  assumes "gen_ok g" "slots_ok g st"
  shows "step {} U g (fold (\<lambda>(a, v) g. store_value a v g) st g)"
  using assms
proof (induction st arbitrary: g)
  case (Cons x st)
  obtain a v where x: "x = (a, v)" by fastforce
  have s: "seg g (store_value a v g)" using Cons.prems(2) by (simp add: x slots_ok_def store_value_seg)
  have "slots_ok (store_value a v g) st"
    using Cons.prems(2) by (simp add: slots_ok_def list_all_iff)
  then have "step {} U (store_value a v g) (fold (\<lambda>(a, v) g. store_value a v g) st (store_value a v g))"
    by (rule Cons.IH [OF seg_ok [OF s Cons.prems(1)]])
  then show ?case using step_then [OF seg_step [OF s Cons.prems(1)]] by (simp add: x)
qed simp

definition fresh_func :: "ir_gen \<Rightarrow> bool" where
  "fresh_func g \<longleftrightarrow> gen_ok g \<and> ig_break g = 0 \<and> ig_cont g = 0 \<and> ig_cases g = [] \<and> code g = [] \<and> next_label g = 1"

lemma func_start_step:
  assumes "gen_ok g" "gen_sret adr ret_ty g = g1" "fold (gen_param_slot adr) ps (g1, 0, []) = (g2, n, st)"
  shows "step {} U g (fold (\<lambda>(a, v) g. store_value a v g) st g2)"
proof -
  have 1: "step {} U g g1" using sret_step [OF assms(1)] assms(2) by blast
  have 2: "step {} U g1 g2 \<and> slots_ok g2 st"
    by (rule param_slots_step [OF stepD(1) [OF 1] _ assms(3)]) (simp add: slots_ok_def)
  have "step {} U g2 (fold (\<lambda>(a, v) g. store_value a v g) st g2)" using stores_step stepD(1) 2 by blast
  then show ?thesis using step_then [OF 1 step_then] 2 by blast
qed

lemma labels_ready:
  assumes "labels_collected (marks bd) g0 g1" "ig_gotos g0 = []" "ig_cases g0 = []" "distinct (marks bd)"
    "gen_ok g0" "ig_break g0 = 0" "ig_cont g0 = 0"
  defines "L \<equiv> gl_label ` set (ig_gotos g1)"
  shows "ready L g1 (marks bd)" "set (assigned g1 (marks bd)) = L" "L \<subseteq> {next_label g0..<next_label g1}"
proof -
  obtain es where es: "ig_gotos g1 = es" "map (\<lambda>e. GotoMark (gl_name e)) (rev es) = filter is_goto_mark (marks bd)"
    "distinct (map gl_label es)" "gl_label ` set es \<subseteq> {next_label g0..<next_label g1}"
    using assms(1,2) by (auto simp: labels_collected_def)
  have c: "ig_cases g1 = []" using assms(1,3) by (simp add: labels_collected_def)
  have 1: "assigned g1 (filter is_goto_mark (marks bd)) = map gl_label (rev es)"
    by (rule goto_labels [OF es(1,2) assms(4)])
  have 2: "assigned g1 (case_marks ms) = []" for ms
  proof (induction ms)
    case (Cons m ms)
    then show ?case by (cases m) (simp_all add: mark_label_def c)
  qed simp
  show s: "set (assigned g1 (marks bd)) = L"
    using assigned_parts [of g1 "marks bd" is_goto_mark] by (simp add: 1 2 L_def es(1))
  have "distinct (assigned g1 (marks bd))"
    by (rule assigned_distinct [of _ is_goto_mark]) (use es(3) in \<open>simp_all add: 1 2 distinct_map\<close>)
  moreover have "gen_ok g1" "uses g1 = L"
    using assms(1,5-7) by (auto simp: labels_collected_def gen_ok_def uses_def L_def)
  moreover show "L \<subseteq> {next_label g0..<next_label g1}" using es(1,4) by (simp add: L_def)
  ultimately show "ready L g1 (marks bd)" using s by (auto simp: ready_def)
qed

lemma func_body_ok:
  assumes "fresh_func g" "distinct (every_mark bd)" "plain_inits bd"
    and g'_def: "g' = gen_func_body adr ft ps bd g"
  shows "func_ok (ig_func g')" "ig_cases g' = []" "fn_name (ig_func g') = fn_name (ig_func g)"
    "md_funcs (ig_module g') = md_funcs (ig_module g)"
proof -
  obtain ret_ty where rt: "ret_ty = (case body (ig_nodes g) ft of Func r qs n v \<Rightarrow> r | _ \<Rightarrow> type_int)" by blast
  obtain g1 where g1: "gen_sret adr ret_ty g = g1" by blast
  obtain g2 n st where g2: "fold (gen_param_slot adr) ps (g1, 0, []) = (g2, n, st)" using prod_cases3 by blast
  let ?g3 = "fold (\<lambda>(a, v) g. store_value a v g) st g2"
  let ?g0 = "?g3\<lparr>ig_gotos := []\<rparr>"
  let ?g4 = "collect_labels ?g0 bd"
  let ?L = "gl_label ` set (ig_gotos ?g4)"
  have ok: "gen_ok g" using assms(1) by (simp add: fresh_func_def)
  have s1: "step {} {} g ?g3" by (rule func_start_step [OF ok g1 g2])
  note c1 = stepD [OF s1]
  have lc: "labels_collected (marks bd) ?g0 ?g4" using collect_labels_spec(1) assms(3) by blast
  have r: "ready ?L ?g4 (marks bd)" "set (assigned ?g4 (marks bd)) = ?L" "?L \<subseteq> {next_label ?g0..<next_label ?g4}"
    using labels_ready [OF lc] marks_distinct(1) [OF assms(2)] c1(1,2) assms(1)
    by (simp_all add: same_ctx_def fresh_func_def gen_ok_def)
  have s2: "step ?L ?L ?g4 (gen_stmt adr bd ?g4)"
    using gen_stmt_specD [OF gen_stmt_specs assms(2,3) r(1)] by (simp add: r(2))
  have g': "g' = gen_stmt adr bd ?g4"
    by (simp add: g'_def gen_func_body_def Let_def g1 g2 rt [symmetric])
  obtain cs where cs: "sadds cs g ?g3" "labs 1 (next_label ?g3) {} {} cs"
    using s1 assms(1) by (auto simp: step_def fresh_func_def)
  obtain ds where ds: "sadds ds ?g4 g'" "labs (next_label ?g4) (next_label g') ?L ?L ds"
    using s2 by (auto simp: step_def g')
  have cod: "code g' = cs @ ds"
    using cs(1) ds(1) lc assms(1) by (simp add: sadds_def labels_collected_def fresh_func_def)
  have n: "1 \<le> next_label ?g3" "next_label ?g3 \<le> next_label ?g4" "next_label ?g4 \<le> next_label g'"
    using c1(3) assms(1) lc ds(1) by (simp_all add: fresh_func_def labels_collected_def sadds_def)
  have l1: "set (lab_defs cs) \<subseteq> {1..<next_label ?g3}" using cs(2) by (simp add: labs_def)
  have l2: "set (lab_defs ds) \<subseteq> {next_label ?g3..<next_label g'}" 
  proof (rule subset_trans)
    show "set (lab_defs ds) \<subseteq> ?L \<union> {next_label ?g4..<next_label g'}" using ds(2) by (simp add: labs_def)
    show "?L \<union> {next_label ?g4..<next_label g'} \<subseteq> {next_label ?g3..<next_label g'}"
      using subset_trans [OF r(3)] n by simp
  qed
  have "set (lab_defs cs) \<inter> set (lab_defs ds) = {}" using l1 l2 by fastforce
  then have "distinct (lab_defs (code g'))" using cs(2) ds(2) by (simp add: cod labs_def)
  moreover have "set (jump_labs (code g')) \<subseteq> set (lab_defs (code g'))"
  proof -
    have "set (jump_labs cs) \<subseteq> set (lab_defs cs)" using cs(2) by (simp add: labs_def)
    moreover have "set (jump_labs ds) \<subseteq> set (lab_defs ds)"
      using ds(2) unfolding labs_def by (meson Un_least order_refl subset_trans)
    ultimately show ?thesis by (simp add: cod le_supI1 le_supI2)
  qed
  moreover have "set (lab_defs (code g')) \<subseteq> {1..<next_label g'}" using l1 l2 n unfolding cod by fastforce
  moreover have t: "next_temp ?g3 \<le> next_temp g'" using lc ds(1) by (simp add: labels_collected_def sadds_def)
  moreover have "list_all (instr_ok (next_temp g')) (code g')"
  proof -
    have "list_all (instr_ok (next_temp ?g3)) cs" using cs(1) by (simp add: sadds_def)
    then have "list_all (instr_ok (next_temp g')) cs" using instr_ok_mono [OF _ t] by (simp add: list_all_iff)
    then show ?thesis using ds(1) by (simp add: cod sadds_def)
  qed
  moreover have "1 \<le> next_temp g'" using ds(1) by (simp add: sadds_def gen_ok_def)
  ultimately show "func_ok (ig_func g')" by (simp add: func_ok_def)
  show "ig_cases g' = []" "fn_name (ig_func g') = fn_name (ig_func g)"
    "md_funcs (ig_module g') = md_funcs (ig_module g)"
    using c1(2) stepD(2) [OF s2] lc assms(1) by (simp_all add: g' same_ctx_def labels_collected_def fresh_func_def)
qed

subsection \<open>The module\<close>

definition mod_ok :: "string list \<Rightarrow> ir_gen \<Rightarrow> bool" where
  "mod_ok names g \<longleftrightarrow> list_all func_ok (md_funcs (ig_module g)) \<and> map fn_name (md_funcs (ig_module g)) = names
     \<and> scope_vals_ok 1 (ig_scope g) \<and> ig_cases g = []"

definition def_name :: "ast \<Rightarrow> string list" where
  "def_name d = (case ast_body d of FuncDef name ft ps bd sc fs \<Rightarrow> [name] | _ \<Rightarrow> [])"

definition def_ok :: "ast \<Rightarrow> bool" where
  "def_ok d = (case ast_body d of FuncDef name ft ps bd sc fs \<Rightarrow> distinct (every_mark bd) \<and> plain_inits bd | _ \<Rightarrow> True)"

lemma gen_func_ok:
  assumes "mod_ok names g" "distinct (every_mark bd)" "plain_inits bd"
  shows "mod_ok (names @ [name]) (gen_func adr name ft ps bd sc g)"
proof -
  obtain m i where mi: "ir_func_new (ig_module g) name ft (sc = SC_STATIC) = (m, i)" by (rule prod.exhaust)
  let ?g1 = "g\<lparr>ig_module := m, ig_func := md_funcs m ! i, ig_break := 0, ig_cont := 0, ig_scope := vscope_new (ig_scope g)\<rparr>"
  let ?f = "\<lparr>fn_name = name, fn_type = ft, fn_instrs = [], fn_cap = 64, fn_next_temp = 1, fn_next_label = 1,
    fn_is_static = sc = SC_STATIC, fn_sret_temp = 0\<rparr>"
  have "md_funcs m = md_funcs (ig_module g) @ [?f] \<and> i = length (md_funcs (ig_module g))"
    using mi by (auto simp: ir_func_new_def Let_def)
  then obtain f where f: "md_funcs m = md_funcs (ig_module g) @ [f]" "i = length (md_funcs (ig_module g))"
    "fn_name f = name" "fn_instrs f = []" "fn_next_temp f = 1" "fn_next_label f = 1"
    using that [of ?f] by simp
  have m: "md_funcs m ! i = f" by (simp add: f(1,2))
  have "fresh_func ?g1" using assms(1) by (simp add: m f fresh_func_def gen_ok_def mod_ok_def)
  note b = func_body_ok [OF this assms(2,3) refl, of adr ft ps]
  let ?g2 = "gen_func_body adr ft ps bd ?g1"
  have fs: "(md_funcs (ig_module ?g2))[i := ig_func ?g2] = md_funcs (ig_module g) @ [ig_func ?g2]"
    unfolding b(4) by (simp add: f(1,2))
  have "gen_func adr name ft ps bd sc g
      = ?g2\<lparr>ig_module := (ig_module ?g2)\<lparr>md_funcs := md_funcs (ig_module g) @ [ig_func ?g2]\<rparr>, ig_scope := ig_scope g\<rparr>"
    by (simp add: gen_func_def mi Let_def fs)
  then show ?thesis using assms(1) b(1-3) by (simp add: mod_ok_def m f(3))
qed

lemma gen_global_ok: "mod_ok names g \<Longrightarrow> mod_ok names (gen_global adr name ty init sc g)"
proof -
  assume ok: "mod_ok names g"
  obtain g1 p where p: "ptr_to adr ty g = (g1, p)" by fastforce
  let ?g2 = "vscope_define g1 name (irv_global name p) True"
  have "ig_scope g1 = ig_scope g" "ig_cases g1 = ig_cases g" "ig_module g1 = ig_module g"
    using p by (auto simp: ptr_to_def split: prod.splits)
  then have "mod_ok names ?g2"
    using ok by (cases "ig_scope g") (auto simp: mod_ok_def vscope_define_def Let_def intro: scope_vals_define)
  then show ?thesis
    by (auto simp: gen_global_def p Let_def mod_ok_def set_global_data_def ir_add_global_var_def split: prod.split)
qed

lemma gen_toplevel_ok: "mod_ok names g \<Longrightarrow> def_ok d \<Longrightarrow> mod_ok (names @ def_name d) (gen_toplevel adr d g)"
  by (cases "ast_body d") (simp_all add: gen_toplevel_def def_ok_def def_name_def gen_func_ok gen_global_ok)

lemma gen_toplevels_ok:
  "mod_ok names g \<Longrightarrow> list_all def_ok ds \<Longrightarrow> mod_ok (names @ concat (map def_name ds)) (fold (gen_toplevel adr) ds g)"
proof (induction ds arbitrary: names g)
  case (Cons d ds)
  then show ?case using Cons.IH [OF gen_toplevel_ok] by fastforce
qed simp

subsection \<open>Properties\<close>

text \<open>C3: every function that irgen adds to the module is well formed: it mentions only temporaries
  it has allocated, defines each label once, and each of its jumps goes to a label it defines. The
  functions are those of the translation unit, in order. The labels of a body have to be distinct
  (which C requires), its case labels have to stand at distinct positions (by which the generator's
  nodes are told apart), and the first clause of a for statement has to be free of labels (which
  the grammar of C implies).\<close>

theorem irgen_functions_well_formed:
  assumes "ast_body root = TranslationUnit ds" "list_all def_ok ds" "irgen adr types root = (types', m)"
  shows "list_all func_ok (md_funcs m) \<and> map fn_name (md_funcs m) = concat (map def_name ds)"
proof -
  have "scope_vals_ok 1 (vscope_new [])" by simp (simp add: scope_vals_ok_def)
  then have "mod_ok [] (irgen_start types)" by (simp add: mod_ok_def irgen_start_def ir_module_new_def)
  from gen_toplevels_ok [OF this assms(2), of adr] show ?thesis
    using assms(1,3) by (auto simp: irgen_def mod_ok_def Let_def)
qed

text \<open>\<open>int f(void) { l: while (x) { switch (x) { case 1: break; default: goto l; } } }\<close>\<close>

definition wf_unit :: ast where
  "wf_unit = Ast 1 1 None (TranslationUnit [Ast 1 1 None (FuncDef ''f'' 20 []
     (Ast 1 13 None (Compound [Ast 1 15 None (Label ''l'' (Ast 1 18 None (While (Ast 1 25 (Some type_int) (Ident ''x''))
       (Ast 1 28 None (Compound [Ast 1 30 None (Switch (Ast 1 38 (Some type_int) (Ident ''x''))
         (Ast 1 41 None (Compound
           [Ast 1 43 None (Case (Ast 1 48 (Some type_int) (IntLit 1 0 False)) (Ast 1 51 None Break)),
            Ast 1 58 None (Default (Ast 1 67 None (Goto ''l'')))])))])))))])) SC_NONE FS_NONE)])"

lemma irgen_functions_well_formed_witness:
  "\<exists>types' m. irgen (\<lambda>_. 0) type_table_init wf_unit = (types', m) \<and> list_all func_ok (md_funcs m)
     \<and> map fn_name (md_funcs m) = [''f'']"
proof -
  obtain types' m where r: "irgen (\<lambda>_. 0) type_table_init wf_unit = (types', m)" by (rule prod.exhaust)
  have "list_all func_ok (md_funcs m) \<and> map fn_name (md_funcs m) = concat (map def_name (case ast_body wf_unit of TranslationUnit ds \<Rightarrow> ds))"
    by (rule irgen_functions_well_formed [OF _ _ r]) (simp_all add: wf_unit_def def_ok_def)
  then show ?thesis using r by (simp add: wf_unit_def def_name_def)
qed

end
