(* ===== verification/Parser.thy ===== *)
theory Parser
  imports Ast Lexer "HOL-Library.Monad_Syntax" "HOL-Library.Signed_Division"
begin

section \<open>The parser: scopes, tokens, specifiers and declarators (parser.c 286-1035)\<close>

text \<open>
  The recursive descent of parser.c. Its functions call each other on what is left of the
  input, and the recursion goes as deep as the input nests. A function of the code is a
  definition over the record \<open>calls\<close> of the functions it re-enters, one level further down; the
  levels are tied together in \<open>calls_at\<close> by a number of levels (fuel), which also bounds every
  loop. \<open>None\<close> means that the fuel ran out; theory ParserTerm shows how much is enough.

  peek reads a token ahead, so it changes the lexer: it is a step that returns the token and
  the new state. Once a token has been peeked at, looking at it again changes nothing, so a
  chain of checks reads one peeked token.

  A NULL \<open>Type *\<close> is \<open>null_type\<close>, the position \<open>2 ^ 64\<close>: no store reaches it, since every node takes
  memory; its address is 0. The \<open>decl\<close> of a symbol is not modelled: nothing reads it.
\<close>

subsection \<open>State\<close>

datatype (plugins only: code size) SymKind =
    SYM_VAR | SYM_FUNC | SYM_TYPEDEF | SYM_ENUM_CONST | SYM_STRUCT_TAG | SYM_UNION_TAG | SYM_ENUM_TAG

record psymbol =
  py_name :: string
  py_kind :: SymKind
  py_type :: tid

definition SCOPE_BUCKETS :: nat where
  "SCOPE_BUCKETS = 64"

type_synonym pscope = "psymbol list list"

text \<open>A scope with its parents, the innermost first. \<open>ps_adr\<close>, the addresses of type nodes, and
  \<open>ps_fmt_g\<close>, \<open>%g\<close>, are parameters and never change.\<close>

record parser =
  ps_lexer :: lexer
  ps_types :: type_table
  ps_scope :: "pscope list"
  ps_tag_scope :: "pscope list"
  ps_errors :: int
  ps_loop :: int
  ps_switch :: int
  ps_adr :: "tid \<Rightarrow> u64"
  ps_fmt_g :: "string \<Rightarrow> string"

definition null_type :: tid where
  "null_type = 2 ^ 64"

definition type_kind :: "parser \<Rightarrow> tid \<Rightarrow> TypeKind option" where
  "type_kind p t = (if t = null_type then None else Some (kind_of (body (tt_nodes (ps_types p)) t)))"

subsection \<open>Scopes\<close>

definition scope_new :: "pscope list \<Rightarrow> pscope list" where
  "scope_new parent = replicate SCOPE_BUCKETS [] # parent"

definition sym_hash :: "string \<Rightarrow> nat" where
  "sym_hash name = unat (foldl (\<lambda>h c. (h XOR of_char c) * 16777619) (2166136261 :: u32) name AND 63)"

definition scope_define_in :: "string \<Rightarrow> SymKind \<Rightarrow> tid \<Rightarrow> pscope list \<Rightarrow> pscope list" where
  "scope_define_in name kind ty scs =
     (let slot = sym_hash name; sy = \<lparr>py_name = name, py_kind = kind, py_type = ty\<rparr>
      in case scs of
           s # parent \<Rightarrow> s[slot := sy # s ! slot] # parent
         | [] \<Rightarrow> [])"

definition scope_lookup_in :: "pscope \<Rightarrow> string \<Rightarrow> psymbol option" where
  "scope_lookup_in s name = List.find (\<lambda>sy. py_name sy = name) (s ! sym_hash name)"

fun scope_lookup_chain :: "pscope list \<Rightarrow> string \<Rightarrow> psymbol option" where
  "scope_lookup_chain [] name = None"
| "scope_lookup_chain (s # parent) name =
     (case scope_lookup_in s name of Some found \<Rightarrow> Some found | None \<Rightarrow> scope_lookup_chain parent name)"

definition parser_init :: "lexer \<Rightarrow> type_table \<Rightarrow> (tid \<Rightarrow> u64) \<Rightarrow> (string \<Rightarrow> string) \<Rightarrow> parser" where
  "parser_init lx types adr fmt_g =
     \<lparr>ps_lexer = lx, ps_types = types, ps_scope = scope_new [], ps_tag_scope = scope_new [],
      ps_errors = 0, ps_loop = 0, ps_switch = 0,
      ps_adr = (\<lambda>t. if t = null_type then 0 else adr t), ps_fmt_g = fmt_g\<rparr>"

definition parser_error_count :: "parser \<Rightarrow> int" where
  "parser_error_count p = ps_errors p"

text \<open>A constructor of the type table, run on the table of the parser.\<close>

definition with_types :: "(type_table \<Rightarrow> type_table \<times> tid) \<Rightarrow> parser \<Rightarrow> tid \<times> parser" where
  "with_types f p = (let (tt, t) = f (ps_types p) in (t, p\<lparr>ps_types := tt\<rparr>))"

subsection \<open>Tokens\<close>

definition peek :: "parser \<Rightarrow> token \<times> parser" where
  "peek p = (let (t, lx) = lexer_peek (ps_lexer p) in (t, p\<lparr>ps_lexer := lx\<rparr>))"

definition advance :: "parser \<Rightarrow> token \<times> parser" where
  "advance p = (let (t, lx) = lexer_next (ps_lexer p) in (t, p\<lparr>ps_lexer := lx\<rparr>))"

definition skip_tok :: "parser \<Rightarrow> parser" where
  "skip_tok p = snd (advance p)"

definition check :: "TokenKind \<Rightarrow> parser \<Rightarrow> bool \<times> parser" where
  "check k p = (let (t, p) = peek p in (tk_kind t = k, p))"

definition match_tok :: "TokenKind \<Rightarrow> parser \<Rightarrow> bool \<times> parser" where
  "match_tok k p = (let (b, p) = check k p in if b then (True, skip_tok p) else (False, p))"

definition perror :: "token \<Rightarrow> string \<Rightarrow> parser \<Rightarrow> parser" where
  "perror t msg p =
     p\<lparr>ps_lexer := lx_emit DIAG_ERROR (tk_line t) (tk_col t) msg (ps_lexer p), ps_errors := ps_errors p + 1\<rparr>"

definition describe :: "parser \<Rightarrow> token \<Rightarrow> string" where
  "describe p t = token_describe (ps_fmt_g p) (lx_src (ps_lexer p)) t"

definition quoted :: "string \<Rightarrow> string" where
  "quoted s = [CHR 0x27] @ s @ [CHR 0x27]"

definition expect :: "TokenKind \<Rightarrow> parser \<Rightarrow> token \<times> parser" where
  "expect k p =
     (let (t, p) = peek p
      in if tk_kind t = k then advance p
         else let p = perror t (''expected '' @ quoted (token_kind_name k) @ '', got '' @ quoted (describe p t)) p;
                  p = (if tk_kind t \<noteq> TOK_EOF then skip_tok p else p)
              in (null_token\<lparr>tk_kind := k, tk_line := tk_line t, tk_col := tk_col t\<rparr>, p))"

definition expect_tok :: "TokenKind \<Rightarrow> parser \<Rightarrow> parser" where
  "expect_tok k p = snd (expect k p)"

text \<open>\<open>strtab_get\<close>. A synthetic token has index 0, the first string interned; the NULL of an empty
  table is written as the empty name.\<close>

definition tok_intern :: "parser \<Rightarrow> token \<Rightarrow> string" where
  "tok_intern p t =
     (let ss = lx_strings (ps_lexer p); i = tk_str_idx t
      in if i < 0 \<or> i \<ge> int (length ss) then [] else ss ! nat i)"

definition is_typedef_name :: "parser \<Rightarrow> string \<Rightarrow> bool" where
  "is_typedef_name p name =
     (case scope_lookup_chain (ps_scope p) name of Some s \<Rightarrow> py_kind s = SYM_TYPEDEF | None \<Rightarrow> False)"

definition is_attribute :: "TokenKind \<Rightarrow> bool" where
  "is_attribute k \<longleftrightarrow> k \<in> {TOK_ATTRIBUTE, TOK_ASM, TOK_EXTENSION, TOK_NONNULL, TOK_NORETURN, TOK_NULLABLE}"

text \<open>The test on the token that has been peeked at.\<close>

definition is_type_start :: "parser \<Rightarrow> token \<Rightarrow> bool" where
  "is_type_start p t \<longleftrightarrow>
     tk_kind t \<in> {TOK_VOID, TOK_BOOL, TOK_CHAR, TOK_SHORT, TOK_INT, TOK_LONG, TOK_FLOAT, TOK_DOUBLE,
       TOK_COMPLEX, TOK_IMAGINARY, TOK_SIGNED, TOK_UNSIGNED, TOK_STRUCT, TOK_UNION, TOK_ENUM,
       TOK_CONST, TOK_VOLATILE, TOK_RESTRICT, TOK_INLINE, TOK_EXTERN, TOK_STATIC, TOK_AUTO,
       TOK_REGISTER, TOK_TYPEDEF, TOK_BUILTIN_VA_LIST, TOK_TYPEOF}
     \<or> is_attribute (tk_kind t)
     \<or> tk_kind t = TOK_IDENT \<and> is_typedef_name p (tok_intern p t)"

subsection \<open>Type specifiers\<close>

definition TS_VOID :: int where "TS_VOID = 1"
definition TS_BOOL :: int where "TS_BOOL = 2"
definition TS_CHAR :: int where "TS_CHAR = 4"
definition TS_SHORT :: int where "TS_SHORT = 8"
definition TS_INT :: int where "TS_INT = 16"
definition TS_LONG :: int where "TS_LONG = 32"
definition TS_LONG2 :: int where "TS_LONG2 = 64"
definition TS_FLOAT :: int where "TS_FLOAT = 128"
definition TS_DOUBLE :: int where "TS_DOUBLE = 256"
definition TS_SIGNED :: int where "TS_SIGNED = 512"
definition TS_UNSIGNED :: int where "TS_UNSIGNED = 1024"
definition TS_COMPLEX :: int where "TS_COMPLEX = 4096"
definition TS_IMAGINARY :: int where "TS_IMAGINARY = 8192"

lemmas TS_defs = TS_VOID_def TS_BOOL_def TS_CHAR_def TS_SHORT_def TS_INT_def TS_LONG_def TS_LONG2_def
  TS_FLOAT_def TS_DOUBLE_def TS_SIGNED_def TS_UNSIGNED_def TS_COMPLEX_def TS_IMAGINARY_def

record decl_spec =
  ds_storage :: storage_class
  ds_func_spec :: func_spec
  ds_qual :: int
  ds_base :: "tid option"
  ds_flags :: int

definition has_flag :: "int \<Rightarrow> int \<Rightarrow> bool" where
  "has_flag f b \<longleftrightarrow> f AND b \<noteq> 0"

definition resolve_type_spec :: "decl_spec \<Rightarrow> token \<Rightarrow> parser \<Rightarrow> tid \<times> parser" where
  "resolve_type_spec ds loc p =
     (case ds_base ds of
        Some t \<Rightarrow> (t, p)
      | None \<Rightarrow>
          let f = ds_flags ds;
              scalar_f = f AND NOT (TS_COMPLEX OR TS_IMAGINARY);
              has_sign = has_flag f (TS_SIGNED OR TS_UNSIGNED);
              is_uns = has_flag f TS_UNSIGNED
          in if scalar_f = 0 \<and> has_flag f (TS_COMPLEX OR TS_IMAGINARY) then (type_double, p)
             else if has_flag scalar_f TS_VOID then (type_void, p)
             else if has_flag scalar_f TS_BOOL then (type_bool, p)
             else if has_flag scalar_f TS_FLOAT then (type_float, p)
             else if has_flag scalar_f TS_DOUBLE
               then (if has_flag scalar_f TS_LONG then type_ldouble else type_double, p)
             else if has_flag scalar_f TS_CHAR
               then (if is_uns then type_uchar else if has_sign then type_schar else type_char, p)
             else if has_flag scalar_f TS_SHORT then (if is_uns then type_ushort else type_short, p)
             else if has_flag scalar_f TS_LONG2 then (if is_uns then type_ullong else type_llong, p)
             else if has_flag scalar_f TS_LONG then (if is_uns then type_ulong else type_long, p)
             else if scalar_f = 0 \<or> scalar_f = TS_SIGNED then (type_int, p)
             else if scalar_f = TS_UNSIGNED then (type_uint, p)
             else if scalar_f = (TS_INT OR TS_SIGNED) \<or> scalar_f = TS_INT then (type_int, p)
             else if scalar_f = (TS_INT OR TS_UNSIGNED) then (type_uint, p)
             else (type_int, perror loc ''invalid type specifier combination'' p))"

text \<open>What every caller does with the specifiers: the type they stand for, qualified.\<close>

definition base_type :: "decl_spec \<Rightarrow> parser \<Rightarrow> tid \<times> parser" where
  "base_type ds p =
     (let (loc, p) = peek p; (base, p) = resolve_type_spec ds loc p
      in if ds_qual ds \<noteq> QUAL_NONE then with_types (\<lambda>tt. type_qualify tt base (ds_qual ds)) p else (base, p))"

subsection \<open>Functions that are re-entered\<close>

record decl_name =
  dn_name :: "string option"
  dn_line :: int
  dn_col :: int

definition no_name :: decl_name where
  "no_name = \<lparr>dn_name = None, dn_line = 0, dn_col = 0\<rparr>"

record calls =
  c_fuel :: nat
  c_expr :: "int \<Rightarrow> parser \<Rightarrow> (ast \<times> parser) option"
  c_spec :: "parser \<Rightarrow> (decl_spec \<times> parser) option"
  c_declarator :: "tid \<Rightarrow> parser \<Rightarrow> ((tid \<times> decl_name) \<times> parser) option"
  c_init :: "parser \<Rightarrow> (ast \<times> parser) option"

subsection \<open>Attributes\<close>

text \<open>The tokens up to the parenthesis that closes \<open>depth\<close> open ones, shared by attributes and
  typeof.\<close>

primrec skip_parens :: "nat \<Rightarrow> int \<Rightarrow> parser \<Rightarrow> parser option" where
  "skip_parens 0 depth p = None"
| "skip_parens (Suc m) depth p =
     (if depth > 0
      then let (t, p) = peek p
           in if tk_kind t = TOK_EOF then Some p
              else skip_parens m (if tk_kind t = TOK_LPAREN then depth + 1
                                  else if tk_kind t = TOK_RPAREN then depth - 1 else depth) (skip_tok p)
      else Some p)"

primrec skip_attributes :: "nat \<Rightarrow> parser \<Rightarrow> parser option" where
  "skip_attributes 0 p = None"
| "skip_attributes (Suc m) p =
     (let (t, p) = peek p
      in if is_attribute (tk_kind t)
         then do {
           let (b, p) = match_tok TOK_LPAREN (skip_tok p);
           p \<leftarrow> (if b then skip_parens m 1 p else Some p);
           skip_attributes m p
         }
         else Some p)"

subsection \<open>Structs and unions\<close>

definition parser_field :: "string option \<Rightarrow> tid \<Rightarrow> int \<Rightarrow> struct_field" where
  "parser_field name ty width =
     \<lparr>sf_name = name, sf_type = ty, sf_offset = 0, sf_bit_width = width, sf_bit_offset = 0\<rparr>"

text \<open>\<open>(int)bw->int_lit.val\<close>.\<close>

definition bit_width_of :: "ast \<Rightarrow> int" where
  "bit_width_of e = (case ast_body e of IntLit v s w \<Rightarrow> to_int32 (uint v) | _ \<Rightarrow> 0)"

text \<open>The \<open>do ... while (match(p, TOK_COMMA))\<close> over the declarators of a member declaration, and the
  loop over the member declarations.\<close>

primrec member_declarators ::
    "nat \<Rightarrow> calls \<Rightarrow> tid \<Rightarrow> struct_field list \<Rightarrow> parser \<Rightarrow> (struct_field list \<times> parser) option" where
  "member_declarators 0 c base fs p = None"
| "member_declarators (Suc m) c base fs p =
     (let (semi, p) = check TOK_SEMICOLON p
      in if semi
         then Some (if type_kind p base = Some TY_STRUCT \<or> type_kind p base = Some TY_UNION
                    then fs @ [parser_field None base (- 1)] else fs, p)
         else do {
           ((ty, dn), p) \<leftarrow> c_declarator c base p;
           let (colon, p) = match_tok TOK_COLON p;
           (width, p) \<leftarrow> (if colon then do { (e, p) \<leftarrow> c_expr c 10 p; Some (bit_width_of e, p) }
                          else Some (- 1, p));
           let fs = fs @ [parser_field (dn_name dn) ty width];
           let (comma, p) = match_tok TOK_COMMA p;
           if comma then member_declarators m c base fs p else Some (fs, p)
         })"

primrec member_loop :: "nat \<Rightarrow> calls \<Rightarrow> struct_field list \<Rightarrow> parser \<Rightarrow> (struct_field list \<times> parser) option" where
  "member_loop 0 c fs p = None"
| "member_loop (Suc m) c fs p =
     (let (t, p) = peek p
      in if tk_kind t = TOK_RBRACE \<or> tk_kind t = TOK_EOF then Some (fs, p)
         else do {
           (ds, p) \<leftarrow> c_spec c p;
           let (base, p) = base_type ds p;
           (fs, p) \<leftarrow> member_declarators (c_fuel c) c base fs p;
           member_loop m c fs (expect_tok TOK_SEMICOLON p)
         })"

text \<open>The tag after struct, union or enum: its name, if any, and the type it stands for, which is
  made when the tag is new.\<close>

definition new_tag ::
    "SymKind \<Rightarrow> (type_table \<Rightarrow> string option \<Rightarrow> type_table \<times> tid) \<Rightarrow> string option \<Rightarrow> parser \<Rightarrow> tid \<times> parser" where
  "new_tag kind new tag p =
     (let (ty, p) = with_types (\<lambda>tt. new tt tag) p
      in case tag of
           None \<Rightarrow> (ty, p)
         | Some name \<Rightarrow> (ty, p\<lparr>ps_tag_scope := scope_define_in name kind ty (ps_tag_scope p)\<rparr>))"

definition parse_tag ::
    "SymKind \<Rightarrow> (type_table \<Rightarrow> string option \<Rightarrow> type_table \<times> tid) \<Rightarrow> parser \<Rightarrow> tid \<times> parser" where
  "parse_tag kind new p =
     (let (id, p) = check TOK_IDENT p;
          (tag, p) = (if id then let (t, p) = advance p in (Some (tok_intern p t), p) else (None, p));
          existing = (case tag of None \<Rightarrow> None | Some name \<Rightarrow> scope_lookup_chain (ps_tag_scope p) name)
      in case existing of
           Some sy \<Rightarrow> if py_kind sy = kind then (py_type sy, p) else new_tag kind new tag p
         | None \<Rightarrow> new_tag kind new tag p)"

definition parse_struct_union :: "calls \<Rightarrow> bool \<Rightarrow> parser \<Rightarrow> (tid \<times> parser) option" where
  "parse_struct_union c is_union p =
     (let (ty, p) = parse_tag (if is_union then SYM_UNION_TAG else SYM_STRUCT_TAG)
                      (if is_union then type_union else type_struct) (skip_tok p);
          (brace, p) = check TOK_LBRACE p
      in if \<not> brace then Some (ty, p)
         else do {
           (fs, p) \<leftarrow> member_loop (c_fuel c) c [] (skip_tok p);
           p \<leftarrow> skip_attributes (c_fuel c) (expect_tok TOK_RBRACE p);
           Some (ty, p\<lparr>ps_types := (if is_union then type_seal_union else type_seal_struct) (ps_types p) ty fs\<rparr>)
         })"

subsection \<open>Enums\<close>

text \<open>long long wraps and a shift uses the low 6 bits of the count, as the target does; the quotient of
  the smallest value by -1, on which the target traps, wraps here.\<close>

fun parser_const_eval :: "ast \<Rightarrow> u64" where
  "parser_const_eval (Ast l c t b) =
     (case b of
        IntLit v s w \<Rightarrow> v
      | CharLit v s w \<Rightarrow> v
      | Unop op e \<Rightarrow>
          (let v = parser_const_eval e
           in if op = TOK_MINUS then - v
              else if op = TOK_PLUS then v
              else if op = TOK_TILDE then NOT v
              else if op = TOK_BANG then (if v = 0 then 1 else 0)
              else v)
      | Binop op x y \<Rightarrow>
          (let l = parser_const_eval x; r = parser_const_eval y
           in if op = TOK_PLUS then l + r
              else if op = TOK_MINUS then l - r
              else if op = TOK_STAR then l * r
              else if op = TOK_SLASH then (if r \<noteq> 0 then word_of_int (sint l sdiv sint r) else 0)
              else if op = TOK_PERCENT then (if r \<noteq> 0 then word_of_int (sint l smod sint r) else 0)
              else if op = TOK_LSHIFT then push_bit (unat (r AND 63)) l
              else if op = TOK_RSHIFT then signed_drop_bit (unat (r AND 63)) l
              else if op = TOK_AMP then l AND r
              else if op = TOK_PIPE then l OR r
              else if op = TOK_CARET then l XOR r
              else 0)
      | _ \<Rightarrow> 0)"

primrec enum_loop ::
    "nat \<Rightarrow> calls \<Rightarrow> u64 \<Rightarrow> enum_const list \<Rightarrow> parser \<Rightarrow> (enum_const list \<times> parser) option" where
  "enum_loop 0 c next_val ecs p = None"
| "enum_loop (Suc m) c next_val ecs p =
     (let (t, p) = peek p
      in if tk_kind t = TOK_RBRACE \<or> tk_kind t = TOK_EOF then Some (ecs, p)
         else if tk_kind t \<noteq> TOK_IDENT
           then enum_loop m c next_val ecs (skip_tok (perror t ''expected enumerator name'' p))
         else do {
           let (t, p) = advance p;
           let cname = tok_intern p t;
           let (eq, p) = match_tok TOK_ASSIGN p;
           (val, p) \<leftarrow> (if eq then do { (e, p) \<leftarrow> c_expr c 10 p; Some (parser_const_eval e, p) }
                        else Some (next_val, p));
           let ecs = ecs @ [\<lparr>ec_name = cname, ec_value = sint val\<rparr>];
           let p = p\<lparr>ps_scope := scope_define_in cname SYM_ENUM_CONST type_int (ps_scope p)\<rparr>;
           let (comma, p) = match_tok TOK_COMMA p;
           if comma then enum_loop m c (val + 1) ecs p else Some (ecs, p)
         })"

text \<open>\<open>ty->enm.consts = head; ty->enm.complete = 1\<close>.\<close>

definition complete_enum :: "tid \<Rightarrow> enum_const list \<Rightarrow> type_table \<Rightarrow> type_table" where
  "complete_enum ty ecs tt =
     (let n = node (tt_nodes tt) ty
      in case tn_body n of
           Enum e \<Rightarrow> tt\<lparr>tt_nodes := (tt_nodes tt)[ty := n\<lparr>tn_body := Enum (e\<lparr>en_consts := ecs, en_complete := True\<rparr>)\<rparr>]\<rparr>
         | _ \<Rightarrow> tt)"

definition parse_enum :: "calls \<Rightarrow> parser \<Rightarrow> (tid \<times> parser) option" where
  "parse_enum c p =
     (let (ty, p) = parse_tag SYM_ENUM_TAG type_enum (skip_tok p);
          (brace, p) = check TOK_LBRACE p
      in if \<not> brace then Some (ty, p)
         else do {
           (ecs, p) \<leftarrow> enum_loop (c_fuel c) c 0 [] (skip_tok p);
           p \<leftarrow> skip_attributes (c_fuel c) (expect_tok TOK_RBRACE p);
           Some (ty, p\<lparr>ps_types := complete_enum ty ecs (ps_types p)\<rparr>)
         })"

subsection \<open>Declaration specifiers\<close>

definition storage_of :: "TokenKind \<Rightarrow> storage_class option" where
  "storage_of k =
     (if k = TOK_AUTO then Some SC_AUTO
      else if k = TOK_STATIC then Some SC_STATIC
      else if k = TOK_EXTERN then Some SC_EXTERN
      else if k = TOK_REGISTER then Some SC_REGISTER
      else if k = TOK_TYPEDEF then Some SC_TYPEDEF
      else None)"

definition qual_of :: "TokenKind \<Rightarrow> int option" where
  "qual_of k =
     (if k = TOK_CONST then Some QUAL_CONST
      else if k = TOK_VOLATILE then Some QUAL_VOLATILE
      else if k = TOK_RESTRICT then Some QUAL_RESTRICT
      else None)"

text \<open>The specifiers guarded by \<open>seen_type\<close>, and those guarded by their own flag.\<close>

definition sole_flag :: "TokenKind \<Rightarrow> int option" where
  "sole_flag k =
     (if k = TOK_VOID then Some TS_VOID
      else if k = TOK_BOOL then Some TS_BOOL
      else if k = TOK_FLOAT then Some TS_FLOAT
      else None)"

definition own_flag :: "TokenKind \<Rightarrow> int option" where
  "own_flag k =
     (if k = TOK_CHAR then Some TS_CHAR
      else if k = TOK_SHORT then Some TS_SHORT
      else if k = TOK_INT then Some TS_INT
      else if k = TOK_DOUBLE then Some TS_DOUBLE
      else if k = TOK_COMPLEX then Some TS_COMPLEX
      else if k = TOK_IMAGINARY then Some TS_IMAGINARY
      else if k = TOK_SIGNED then Some TS_SIGNED
      else if k = TOK_UNSIGNED then Some TS_UNSIGNED
      else None)"

text \<open>The specifiers that set \<open>base\<close>: struct, union, enum, \<open>__builtin_va_list\<close> and typeof.\<close>

definition is_base_spec :: "TokenKind \<Rightarrow> bool" where
  "is_base_spec k \<longleftrightarrow> k \<in> {TOK_STRUCT, TOK_UNION, TOK_ENUM, TOK_BUILTIN_VA_LIST, TOK_TYPEOF}"

definition parse_base_spec :: "calls \<Rightarrow> TokenKind \<Rightarrow> parser \<Rightarrow> (tid \<times> parser) option" where
  "parse_base_spec c k p =
     (if k = TOK_STRUCT \<or> k = TOK_UNION then parse_struct_union c (k = TOK_UNION) p
      else if k = TOK_ENUM then parse_enum c p
      else if k = TOK_BUILTIN_VA_LIST
        then (let (t, p) = with_types (\<lambda>tt. type_pointer (ps_adr p) tt type_void QUAL_NONE) p in Some (t, skip_tok p))
      else do {
        let (b, p) = match_tok TOK_LPAREN (skip_tok p);
        p \<leftarrow> (if b then skip_parens (c_fuel c) 1 p else Some p);
        Some (type_int, p)
      })"

primrec spec_loop :: "nat \<Rightarrow> calls \<Rightarrow> decl_spec \<Rightarrow> bool \<Rightarrow> parser \<Rightarrow> (decl_spec \<times> parser) option" where
  "spec_loop 0 c ds seen p = None"
| "spec_loop (Suc m) c ds seen p =
     (let (t, p) = peek p; k = tk_kind t;
          dup_type = (\<lambda>p. spec_loop m c ds seen (skip_tok (perror t ''duplicate type specifier'' p)))
      in case storage_of k of
           Some sc \<Rightarrow>
             if ds_storage ds \<noteq> SC_NONE \<and> ds_storage ds \<noteq> sc
             then spec_loop m c ds seen (skip_tok (perror t ''multiple storage classes'' p))
             else spec_loop m c (ds\<lparr>ds_storage := sc\<rparr>) seen (skip_tok p)
         | None \<Rightarrow> (case qual_of k of
           Some q \<Rightarrow> spec_loop m c (ds\<lparr>ds_qual := ds_qual ds OR q\<rparr>) seen (skip_tok p)
         | None \<Rightarrow> (case sole_flag k of
           Some f \<Rightarrow>
             if seen then dup_type p else spec_loop m c (ds\<lparr>ds_flags := ds_flags ds OR f\<rparr>) True (skip_tok p)
         | None \<Rightarrow> (case own_flag k of
           Some f \<Rightarrow>
             if has_flag (ds_flags ds) f then dup_type p
             else spec_loop m c (ds\<lparr>ds_flags := ds_flags ds OR f\<rparr>) seen (skip_tok p)
         | None \<Rightarrow>
             if k = TOK_INLINE then spec_loop m c (ds\<lparr>ds_func_spec := FS_INLINE\<rparr>) seen (skip_tok p)
             else if k = TOK_LONG
               then (if has_flag (ds_flags ds) TS_LONG2 then dup_type p
                     else spec_loop m c
                       (ds\<lparr>ds_flags := ds_flags ds OR (if has_flag (ds_flags ds) TS_LONG then TS_LONG2 else TS_LONG)\<rparr>)
                       seen (skip_tok p))
             else if is_base_spec k
               then (if seen then dup_type p
                     else do { (ty, p) \<leftarrow> parse_base_spec c k p; spec_loop m c (ds\<lparr>ds_base := Some ty\<rparr>) True p })
             else if is_attribute k then do { p \<leftarrow> skip_attributes (c_fuel c) p; spec_loop m c ds seen p }
             else if k = TOK_IDENT \<and> \<not> seen
               then (case scope_lookup_chain (ps_scope p) (tok_intern p t) of
                       Some sy \<Rightarrow>
                         if py_kind sy = SYM_TYPEDEF
                         then spec_loop m c (ds\<lparr>ds_base := Some (py_type sy)\<rparr>) True (skip_tok p)
                         else Some (ds, p)
                     | None \<Rightarrow> Some (ds, p))
             else Some (ds, p)))))"

definition empty_spec :: decl_spec where
  "empty_spec = \<lparr>ds_storage = SC_NONE, ds_func_spec = FS_NONE, ds_qual = QUAL_NONE, ds_base = None, ds_flags = 0\<rparr>"

definition parse_decl_spec :: "calls \<Rightarrow> parser \<Rightarrow> (decl_spec \<times> parser) option" where
  "parse_decl_spec c p = spec_loop (c_fuel c) c empty_spec False p"

subsection \<open>Declarators\<close>

text \<open>\<open>sz->kind == AST_INT_LIT\<close> or 0.\<close>

definition array_count :: "ast \<Rightarrow> int" where
  "array_count e = (case ast_body e of IntLit v s w \<Rightarrow> sint v | _ \<Rightarrow> 0)"

primrec param_loop ::
    "nat \<Rightarrow> calls \<Rightarrow> func_param list \<Rightarrow> parser \<Rightarrow> ((func_param list \<times> int) \<times> parser) option" where
  "param_loop 0 c ps p = None"
| "param_loop (Suc m) c ps p =
     (let (dots, p) = check TOK_ELLIPSIS p
      in if dots then Some ((ps, 1), skip_tok p)
         else do {
           (ds, p) \<leftarrow> c_spec c p;
           let (base, p) = base_type ds p;
           ((ty, dn), p) \<leftarrow> c_declarator c base p;
           let ps = ps @ [\<lparr>fp_name = dn_name dn, fp_type = ty\<rparr>];
           let (comma, p) = match_tok TOK_COMMA p;
           if comma then param_loop m c ps p else Some ((ps, 0), p)
         })"

definition parse_params :: "calls \<Rightarrow> parser \<Rightarrow> ((func_param list \<times> int) \<times> parser) option" where
  "parse_params c p = do {
     let (empty, p) = check TOK_RPAREN p;
     ((ps, variadic), p) \<leftarrow> (if empty then Some (([], 0), p) else param_loop (c_fuel c) c [] p);
     let only_void = (case ps of [q] \<Rightarrow> type_kind p (fp_type q) = Some (ScalarKind TY_VOID) \<and> fp_name q = None
                                | _ \<Rightarrow> False);
     Some ((if only_void then [] else ps, variadic), expect_tok TOK_RPAREN p)
   }"

primrec parse_declarator_suffix :: "nat \<Rightarrow> calls \<Rightarrow> tid \<Rightarrow> parser \<Rightarrow> (tid \<times> parser) option" where
  "parse_declarator_suffix 0 c inner p = None"
| "parse_declarator_suffix (Suc m) c inner p =
     (let (t, p) = peek p
      in if tk_kind t = TOK_LBRACKET
         then (let (close, p) = match_tok TOK_RBRACKET (skip_tok p)
               in if close
                  then (let (inner, p) = with_types (\<lambda>tt. type_array_unsized (ps_adr p) tt inner) p
                        in parse_declarator_suffix m c inner p)
                  else do {
                    (sz, p) \<leftarrow> c_expr c 0 p;
                    let p = expect_tok TOK_RBRACKET p;
                    let (inner, p) = with_types (\<lambda>tt. type_array (ps_adr p) tt inner (array_count sz)) p;
                    parse_declarator_suffix m c inner p
                  })
         else if tk_kind t = TOK_LPAREN
         then do {
           ((ps, variadic), p) \<leftarrow> parse_params c (skip_tok p);
           let (inner, p) = with_types (\<lambda>tt. type_func (ps_adr p) tt inner ps (int (length ps)) variadic) p;
           parse_declarator_suffix m c inner p
         }
         else Some (inner, p))"

text \<open>The qualifiers after a star, and the stars: at most 16, the first one first.\<close>

primrec pointer_quals :: "nat \<Rightarrow> calls \<Rightarrow> int \<Rightarrow> parser \<Rightarrow> (int \<times> parser) option" where
  "pointer_quals 0 c q p = None"
| "pointer_quals (Suc m) c q p =
     (let (t, p) = peek p; k = tk_kind t
      in case qual_of k of
           Some r \<Rightarrow> pointer_quals m c (q OR r) (skip_tok p)
         | None \<Rightarrow>
             if k \<in> {TOK_ATTRIBUTE, TOK_ASM, TOK_NONNULL, TOK_NULLABLE}
             then do { p \<leftarrow> skip_attributes (c_fuel c) p; pointer_quals m c q p }
             else Some (q, p))"

primrec pointer_stars :: "nat \<Rightarrow> calls \<Rightarrow> int list \<Rightarrow> parser \<Rightarrow> (int list \<times> parser) option" where
  "pointer_stars 0 c qs p = None"
| "pointer_stars (Suc m) c qs p =
     (let (t, p) = peek p
      in if (tk_kind t = TOK_STAR \<or> tk_kind t = TOK_CARET) \<and> length qs < 16
         then do { (q, p) \<leftarrow> pointer_quals m c QUAL_NONE (skip_tok p); pointer_stars m c (qs @ [q]) p }
         else Some (qs, p))"

text \<open>The loop over \<open>ptr_quals\<close>, from the last star to the first.\<close>

fun wrap_pointers :: "int list \<Rightarrow> tid \<Rightarrow> parser \<Rightarrow> tid \<times> parser" where
  "wrap_pointers [] base p = (base, p)"
| "wrap_pointers (q # qs) base p =
     (let (t, p) = wrap_pointers qs base p in with_types (\<lambda>tt. type_pointer (ps_adr p) tt t q) p)"

text \<open>The walk that fills the NULL of a grouped declarator; it never goes below the outermost node.\<close>

definition patch_hole :: "tid \<Rightarrow> tid \<Rightarrow> type_table \<Rightarrow> type_table" where
  "patch_hole cur suffix tt =
     (let n = node (tt_nodes tt) cur;
          set = (\<lambda>b. tt\<lparr>tt_nodes := (tt_nodes tt)[cur := n\<lparr>tn_body := b\<rparr>]\<rparr>)
      in case tn_body n of
           Pointer q \<Rightarrow> if q = null_type then set (Pointer suffix) else tt
         | Func r ps k v \<Rightarrow> if r = null_type then set (Func suffix ps k v) else tt
         | Array e k \<Rightarrow> if e = null_type then set (Array suffix k) else tt
         | ArrayUnsized e \<Rightarrow> if e = null_type then set (ArrayUnsized suffix) else tt
         | _ \<Rightarrow> tt)"

definition parse_declarator :: "calls \<Rightarrow> tid \<Rightarrow> parser \<Rightarrow> ((tid \<times> decl_name) \<times> parser) option" where
  "parse_declarator c base p = do {
     p \<leftarrow> skip_attributes (c_fuel c) p;
     (quals, p) \<leftarrow> pointer_stars (c_fuel c) c [] p;
     p \<leftarrow> skip_attributes (c_fuel c) p;
     let (starred_base, p) = wrap_pointers quals base p;
     let (t, p) = peek p;
     ((inner, result), p) \<leftarrow>
       (if tk_kind t = TOK_LPAREN \<and> \<not> is_type_start p t
        then do {
          ((inner, result), p) \<leftarrow> c_declarator c null_type (skip_tok p);
          (suffix_type, p) \<leftarrow> parse_declarator_suffix (c_fuel c) c starred_base (expect_tok TOK_RPAREN p);
          Some (if inner = null_type then ((suffix_type, result), p)
                else ((inner, result), p\<lparr>ps_types := patch_hole inner suffix_type (ps_types p)\<rparr>))
        }
        else if tk_kind t = TOK_IDENT
        then (let (t, p) = advance p
              in do {
                (inner, p) \<leftarrow> parse_declarator_suffix (c_fuel c) c starred_base p;
                Some ((inner, \<lparr>dn_name = Some (tok_intern p t), dn_line = tk_line t, dn_col = tk_col t\<rparr>), p)
              })
        else do {
          (inner, p) \<leftarrow> parse_declarator_suffix (c_fuel c) c starred_base p;
          Some ((inner, no_name), p)
        });
     p \<leftarrow> skip_attributes (c_fuel c) p;
     Some ((inner, result), p)
   }"

text \<open>parse_abstract_declarator is parse_declarator without its name.\<close>

definition type_name :: "calls \<Rightarrow> parser \<Rightarrow> (tid \<times> parser) option" where
  "type_name c p = do {
     (ds, p) \<leftarrow> c_spec c p;
     let (base, p) = base_type ds p;
     ((ty, dn), p) \<leftarrow> c_declarator c base p;
     Some (ty, expect_tok TOK_RPAREN p)
   }"

end
