(* ===== verification/ParserExpr.thy ===== *)
theory ParserExpr
  imports Parser
begin

section \<open>The parser: initializers and expressions (parser.c 1036-1384)\<close>

subsection \<open>Initializers\<close>

text \<open>\<open>des\<close> is the node of a designator; the tokens \<open>.\<close> and \<open>[\<close> start one.\<close>

definition parse_init_item :: "calls \<Rightarrow> parser \<Rightarrow> (ast \<times> parser) option" where
  "parse_init_item c p =
     (let (dt, p) = peek p
      in if tk_kind dt = TOK_DOT
         then (let (ft, p) = expect TOK_IDENT (skip_tok p); field = tok_intern p ft
               in do {
                 (v, p) \<leftarrow> c_init c (expect_tok TOK_ASSIGN p);
                 Some (ast_alloc (Designator True field None v) (tk_line dt) (tk_col dt), p)
               })
         else if tk_kind dt = TOK_LBRACKET
         then do {
           (i, p) \<leftarrow> c_expr c 0 (skip_tok p);
           (v, p) \<leftarrow> c_init c (expect_tok TOK_ASSIGN (expect_tok TOK_RBRACKET p));
           Some (ast_alloc (Designator False [] (Some i) v) (tk_line dt) (tk_col dt), p)
         }
         else c_init c p)"

primrec init_loop :: "nat \<Rightarrow> calls \<Rightarrow> ast list \<Rightarrow> parser \<Rightarrow> (ast list \<times> parser) option" where
  "init_loop 0 c items p = None"
| "init_loop (Suc m) c items p =
     (let (t, p) = peek p
      in if tk_kind t = TOK_RBRACE \<or> tk_kind t = TOK_EOF then Some (items, p)
         else do {
           (item, p) \<leftarrow> parse_init_item c p;
           let items = ast_list_append items item;
           let (comma, p) = match_tok TOK_COMMA p;
           if comma then init_loop m c items p else Some (items, p)
         })"

definition parse_init_list :: "calls \<Rightarrow> parser \<Rightarrow> (ast \<times> parser) option" where
  "parse_init_list c p = do {
     let (lb, p) = expect TOK_LBRACE p;
     (items, p) \<leftarrow> init_loop (c_fuel c) c [] p;
     Some (ast_alloc (InitList items (int (length items))) (tk_line lb) (tk_col lb), expect_tok TOK_RBRACE p)
   }"

definition parse_initializer :: "calls \<Rightarrow> parser \<Rightarrow> (ast \<times> parser) option" where
  "parse_initializer c p =
     (let (brace, p) = check TOK_LBRACE p in if brace then parse_init_list c p else c_expr c 20 p)"

subsection \<open>Expressions\<close>

definition is_assign_op :: "TokenKind \<Rightarrow> bool" where
  "is_assign_op k \<longleftrightarrow>
     k \<in> {TOK_ASSIGN, TOK_PLUS_ASSIGN, TOK_MINUS_ASSIGN, TOK_STAR_ASSIGN, TOK_SLASH_ASSIGN, TOK_PERCENT_ASSIGN,
        TOK_AMP_ASSIGN, TOK_PIPE_ASSIGN, TOK_CARET_ASSIGN, TOK_LSHIFT_ASSIGN, TOK_RSHIFT_ASSIGN}"

definition tok_lbp :: "TokenKind \<Rightarrow> int" where
  "tok_lbp k =
     (if k = TOK_COMMA then 10
      else if is_assign_op k then 20
      else if k = TOK_QUESTION then 30
      else if k = TOK_OR then 40
      else if k = TOK_AND then 50
      else if k = TOK_PIPE then 60
      else if k = TOK_CARET then 70
      else if k = TOK_AMP then 80
      else if k \<in> {TOK_EQ, TOK_NEQ} then 90
      else if k \<in> {TOK_LT, TOK_LE, TOK_GT, TOK_GE} then 100
      else if k \<in> {TOK_LSHIFT, TOK_RSHIFT} then 110
      else if k \<in> {TOK_PLUS, TOK_MINUS} then 120
      else if k \<in> {TOK_STAR, TOK_SLASH, TOK_PERCENT} then 130
      else if k \<in> {TOK_LPAREN, TOK_LBRACKET, TOK_DOT, TOK_ARROW, TOK_PLUSPLUS, TOK_MINUSMINUS} then 150
      else 0)"

definition is_binary_op :: "TokenKind \<Rightarrow> bool" where
  "is_binary_op k \<longleftrightarrow>
     k \<in> {TOK_PLUS, TOK_MINUS, TOK_STAR, TOK_SLASH, TOK_PERCENT, TOK_AMP, TOK_PIPE, TOK_CARET, TOK_AND, TOK_OR,
        TOK_EQ, TOK_NEQ, TOK_LT, TOK_LE, TOK_GT, TOK_GE, TOK_LSHIFT, TOK_RSHIFT}"

definition is_prefix_op :: "TokenKind \<Rightarrow> bool" where
  "is_prefix_op k \<longleftrightarrow> k \<in> {TOK_MINUS, TOK_BANG, TOK_TILDE, TOK_AMP, TOK_STAR, TOK_PLUSPLUS, TOK_MINUSMINUS}"

definition node_at :: "token \<Rightarrow> ast_body \<Rightarrow> ast" where
  "node_at t b = ast_alloc b (tk_line t) (tk_col t)"

text \<open>The literals and identifiers; \<open>t\<close> has been consumed.\<close>

definition literal_of :: "parser \<Rightarrow> token \<Rightarrow> ast_body option" where
  "literal_of p t =
     (if tk_kind t = TOK_INT_LIT then Some (IntLit (tk_int_val t) (tk_int_suffix t) False)
      else if tk_kind t = TOK_FLOAT_LIT then Some (FloatLit (tk_float_val t) (tk_float_suffix t))
      else if tk_kind t = TOK_CHAR_LIT then Some (CharLit (tk_int_val t) 0 (tk_is_wide t))
      else if tk_kind t = TOK_STR_LIT then Some (StrLit (tok_intern p t) (tk_is_wide t))
      else if tk_kind t = TOK_IDENT then Some (Ident (tok_intern p t))
      else None)"

definition parse_sizeof :: "calls \<Rightarrow> token \<Rightarrow> parser \<Rightarrow> (ast \<times> parser) option" where
  "parse_sizeof c t p =
     (let (paren, p) = check TOK_LPAREN p
      in if paren
         then (let (u, p) = peek (skip_tok p)
               in if is_type_start p u
                  then do { (ty, p) \<leftarrow> type_name c p; Some (node_at t (SizeofType ty), p) }
                  else do { (e, p) \<leftarrow> c_expr c 0 p; Some (node_at t (SizeofExpr e), expect_tok TOK_RPAREN p) })
         else do { (e, p) \<leftarrow> c_expr c 140 p; Some (node_at t (SizeofExpr e), p) })"

definition parse_paren :: "calls \<Rightarrow> token \<Rightarrow> parser \<Rightarrow> (ast \<times> parser) option" where
  "parse_paren c t p =
     (let (u, p) = peek p
      in if is_type_start p u
         then do {
           (ty, p) \<leftarrow> type_name c p;
           let (brace, p) = check TOK_LBRACE p;
           if brace
           then do { (il, p) \<leftarrow> parse_init_list c p; Some (node_at t (CompoundLit ty il), p) }
           else do { (e, p) \<leftarrow> c_expr c 140 p; Some (node_at t (Cast ty e), p) }
         }
         else do { (e, p) \<leftarrow> c_expr c 0 p; Some (e, expect_tok TOK_RPAREN p) })"

definition nud :: "calls \<Rightarrow> token \<Rightarrow> parser \<Rightarrow> (ast \<times> parser) option" where
  "nud c t p =
     (case literal_of p t of
        Some b \<Rightarrow> Some (node_at t b, p)
      | None \<Rightarrow>
          if is_prefix_op (tk_kind t)
          then do { (e, p) \<leftarrow> c_expr c 140 p; Some (node_at t (Unop (tk_kind t) e), p) }
          else if tk_kind t = TOK_PLUS then c_expr c 140 p
          else if tk_kind t = TOK_ALIGNOF
          then do {
            (ty, p) \<leftarrow> type_name c (expect_tok TOK_LPAREN p);
            Some (node_at t (IntLit (word_of_int (type_alignof (tt_nodes (ps_types p)) ty))
                               (INT_SUFFIX_U OR INT_SUFFIX_L) False), p)
          }
          else if tk_kind t = TOK_SIZEOF then parse_sizeof c t p
          else if tk_kind t = TOK_LPAREN then parse_paren c t p
          else Some (node_at t (IntLit 0 0 False),
                 perror t (''unexpected token '' @ quoted (describe p t) @ '' in expression'') p))"

primrec arg_loop :: "nat \<Rightarrow> calls \<Rightarrow> ast list \<Rightarrow> parser \<Rightarrow> (ast list \<times> parser) option" where
  "arg_loop 0 c args p = None"
| "arg_loop (Suc m) c args p = do {
     (arg, p) \<leftarrow> c_expr c (tok_lbp TOK_COMMA) p;
     let args = ast_list_append args arg;
     let (comma, p) = match_tok TOK_COMMA p;
     if comma then arg_loop m c args p else Some (args, p)
   }"

definition parse_args :: "calls \<Rightarrow> parser \<Rightarrow> (ast list \<times> parser) option" where
  "parse_args c p = do {
     let (empty, p) = check TOK_RPAREN p;
     (args, p) \<leftarrow> (if empty then Some ([], p) else arg_loop (c_fuel c) c [] p);
     Some (args, expect_tok TOK_RPAREN p)
   }"

definition led :: "calls \<Rightarrow> ast \<Rightarrow> token \<Rightarrow> parser \<Rightarrow> (ast \<times> parser) option" where
  "led c left t p =
     (let k = tk_kind t
      in if is_binary_op k
         then do { (r, p) \<leftarrow> c_expr c (tok_lbp k) p; Some (node_at t (Binop k left r), p) }
         else if is_assign_op k
         then do { (r, p) \<leftarrow> c_expr c (tok_lbp k - 1) p; Some (node_at t (Assign k left r), p) }
         else if k = TOK_QUESTION
         then do {
           (th, p) \<leftarrow> c_expr c 0 p;
           (el, p) \<leftarrow> c_expr c (tok_lbp TOK_QUESTION - 1) (expect_tok TOK_COLON p);
           Some (node_at t (Ternary left th el), p)
         }
         else if k = TOK_LPAREN
         then do { (args, p) \<leftarrow> parse_args c p; Some (node_at t (Call left args), p) }
         else if k = TOK_LBRACKET
         then do { (i, p) \<leftarrow> c_expr c 0 p; Some (node_at t (Subscript left i), expect_tok TOK_RBRACKET p) }
         else if k = TOK_DOT \<or> k = TOK_ARROW
         then (let (ft, p) = expect TOK_IDENT p; field = tok_intern p ft
               in Some (node_at t (if k = TOK_DOT then Member left field else MemberPtr left field), p))
         else if k = TOK_PLUSPLUS \<or> k = TOK_MINUSMINUS then Some (node_at t (Postfix k left), p)
         else if k = TOK_COMMA
         then do { (r, p) \<leftarrow> c_expr c (tok_lbp TOK_COMMA) p; Some (node_at t (Comma left r), p) }
         else Some (left, perror t (''unexpected infix token '' @ quoted (describe p t)) p))"

text \<open>The loop of parse_expr, which an expression statement that starts with a name runs too.\<close>

primrec led_loop :: "nat \<Rightarrow> calls \<Rightarrow> int \<Rightarrow> ast \<Rightarrow> parser \<Rightarrow> (ast \<times> parser) option" where
  "led_loop 0 c min_bp left p = None"
| "led_loop (Suc m) c min_bp left p =
     (let (op, p) = peek p
      in if tok_lbp (tk_kind op) \<le> min_bp then Some (left, p)
         else do { (left, p) \<leftarrow> led c left op (skip_tok p); led_loop m c min_bp left p })"

definition parse_expr :: "calls \<Rightarrow> int \<Rightarrow> parser \<Rightarrow> (ast \<times> parser) option" where
  "parse_expr c min_bp p = do {
     let (t, p) = advance p;
     (left, p) \<leftarrow> nud c t p;
     led_loop (c_fuel c) c min_bp left p
   }"

subsection \<open>Tying the recursion\<close>

primrec calls_at :: "nat \<Rightarrow> calls" where
  "calls_at 0 =
     \<lparr>c_fuel = 0, c_expr = (\<lambda>bp p. None), c_spec = (\<lambda>p. None), c_declarator = (\<lambda>base p. None), c_init = (\<lambda>p. None)\<rparr>"
| "calls_at (Suc n) =
     (let c = calls_at n
      in \<lparr>c_fuel = Suc n, c_expr = parse_expr c, c_spec = parse_decl_spec c,
          c_declarator = parse_declarator c, c_init = parse_initializer c\<rparr>)"

end
