(* ===== verification/ParserStmt.thy ===== *)
theory ParserStmt
  imports ParserExpr
begin

section \<open>The parser: statements, declarations and the translation unit (parser.c 1386-1796)\<close>

subsection \<open>Declaration lists\<close>

text \<open>The node of a declaration without declarators; \<open>ds\<close> names a struct, union or enum.\<close>

definition type_decl :: "decl_spec \<Rightarrow> token \<Rightarrow> parser \<Rightarrow> ast list" where
  "type_decl ds loc p =
     (case ds_base ds of
        None \<Rightarrow> []
      | Some t \<Rightarrow>
          if type_kind p t = Some TY_ENUM then [node_at loc (EnumDecl t)]
          else if type_kind p t = Some TY_STRUCT \<or> type_kind p t = Some TY_UNION then [node_at loc (StructDecl t)]
          else [])"

definition enum_decl :: "decl_spec \<Rightarrow> token \<Rightarrow> parser \<Rightarrow> ast list" where
  "enum_decl ds loc p =
     (case ds_base ds of
        None \<Rightarrow> []
      | Some t \<Rightarrow>
          (case body (tt_nodes (ps_types p)) t of
             Enum e \<Rightarrow> if en_consts e \<noteq> [] then [node_at loc (EnumDecl t)] else []
           | _ \<Rightarrow> []))"

definition define_var :: "string \<Rightarrow> SymKind \<Rightarrow> tid \<Rightarrow> parser \<Rightarrow> parser" where
  "define_var name kind ty p = p\<lparr>ps_scope := scope_define_in name kind ty (ps_scope p)\<rparr>"

definition named_at :: "decl_name \<Rightarrow> ast_body \<Rightarrow> ast" where
  "named_at dn b = ast_alloc b (dn_line dn) (dn_col dn)"

definition func_type_params :: "parser \<Rightarrow> tid \<Rightarrow> func_param list" where
  "func_type_params p ty = (case body (tt_nodes (ps_types p)) ty of Func r ps n v \<Rightarrow> ps | _ \<Rightarrow> [])"

definition define_fparam :: "func_param \<Rightarrow> parser \<Rightarrow> parser" where
  "define_fparam fp p = (case fp_name fp of Some x \<Rightarrow> define_var x SYM_VAR (fp_type fp) p | None \<Rightarrow> p)"

text \<open>A function definition: its parameters are declared in a scope of their own around the body.\<close>

definition parse_func_def ::
    "(parser \<Rightarrow> (ast \<times> parser) option) \<Rightarrow> decl_spec \<Rightarrow> decl_name \<Rightarrow> string \<Rightarrow> tid \<Rightarrow> parser \<Rightarrow> (ast \<times> parser) option" where
  "parse_func_def compound ds dn name ty p = do {
     let saved = ps_scope p;
     let saved_tag = ps_tag_scope p;
     let p = p\<lparr>ps_scope := scope_new saved, ps_tag_scope := scope_new saved_tag\<rparr>;
     let ps = func_type_params p ty;
     let params = map (\<lambda>fp. named_at dn (ParamDecl (fp_name fp) (fp_type fp))) ps;
     (bd, p) \<leftarrow> compound (fold define_fparam ps p);
     let p = p\<lparr>ps_scope := saved, ps_tag_scope := saved_tag\<rparr>;
     Some (named_at dn (FuncDef name ty params bd (ds_storage ds) (ds_func_spec ds)), define_var name SYM_FUNC ty p)
   }"

text \<open>The \<open>do ... while (match(p, TOK_COMMA))\<close> over declarators. After a declarator without a name
  the code matches a comma and then, by \<open>continue\<close>, the comma of the loop condition. The loop
  ends with a semicolon or with a function body.\<close>

primrec declarator_loop ::
    "nat \<Rightarrow> calls \<Rightarrow> (parser \<Rightarrow> (ast \<times> parser) option) \<Rightarrow> decl_spec \<Rightarrow> tid \<Rightarrow> bool \<Rightarrow> ast list \<Rightarrow> parser
      \<Rightarrow> (ast list \<times> parser) option" where
  "declarator_loop 0 c compound ds base top_level decls p = None"
| "declarator_loop (Suc m) c compound ds base top_level decls p = do {
     ((ty, dn), p) \<leftarrow> c_declarator c base p;
     let next = (\<lambda>decls p. let (comma, p) = match_tok TOK_COMMA p
                           in if comma then declarator_loop m c compound ds base top_level decls p
                              else Some (decls, expect_tok TOK_SEMICOLON p));
     case dn_name dn of
       None \<Rightarrow>
         (let (comma, p) = match_tok TOK_COMMA p
          in if \<not> comma then Some (decls, expect_tok TOK_SEMICOLON p) else next decls p)
     | Some name \<Rightarrow>
         if ds_storage ds = SC_TYPEDEF
         then next (ast_list_append decls (named_at dn (TypedefDecl name ty))) (define_var name SYM_TYPEDEF ty p)
         else (let (brace, p) = (if top_level \<and> type_kind p ty = Some TY_FUNC then check TOK_LBRACE p else (False, p))
               in if brace
                  then do {
                    (n, p) \<leftarrow> parse_func_def compound ds dn name ty p;
                    Some (ast_list_append decls n, p)
                  }
                  else do {
                    let (eq, p) = match_tok TOK_ASSIGN p;
                    (init, p) \<leftarrow> (if eq then do { (e, p) \<leftarrow> c_init c p; Some (Some e, p) } else Some (None, p));
                    next (ast_list_append decls (named_at dn (VarDecl name ty init (ds_storage ds))))
                      (define_var name SYM_VAR ty p)
                  })
   }"

definition parse_decl_list ::
    "calls \<Rightarrow> (parser \<Rightarrow> (ast \<times> parser) option) \<Rightarrow> decl_spec \<Rightarrow> bool \<Rightarrow> parser \<Rightarrow> (ast list \<times> parser) option" where
  "parse_decl_list c compound ds top_level p =
     (let (loc, p) = peek p; (base, p) = base_type ds p; (semi, p) = check TOK_SEMICOLON p
      in if semi then Some (type_decl ds loc p, skip_tok p)
         else declarator_loop (c_fuel c) c compound ds base top_level (enum_decl ds loc p) p)"

subsection \<open>Statements\<close>

definition skip_pragma :: "parser \<Rightarrow> parser" where
  "skip_pragma p =
     (let (paren, p) = match_tok TOK_LPAREN (skip_tok p);
          p = (if paren then expect_tok TOK_RPAREN (snd (match_tok TOK_STR_LIT p)) else p)
      in snd (match_tok TOK_SEMICOLON p))"

text \<open>A compound statement over the statement parser \<open>stmt\<close>.\<close>

primrec stmt_loop ::
    "nat \<Rightarrow> (parser \<Rightarrow> (ast \<times> parser) option) \<Rightarrow> ast list \<Rightarrow> parser \<Rightarrow> (ast list \<times> parser) option" where
  "stmt_loop 0 stmt ss p = None"
| "stmt_loop (Suc m) stmt ss p =
     (let (t, p) = peek p
      in if tk_kind t = TOK_RBRACE \<or> tk_kind t = TOK_EOF then Some (ss, p)
         else do { (s, p) \<leftarrow> stmt p; stmt_loop m stmt (ast_list_append ss s) p })"

definition parse_compound :: "nat \<Rightarrow> (parser \<Rightarrow> (ast \<times> parser) option) \<Rightarrow> parser \<Rightarrow> (ast \<times> parser) option" where
  "parse_compound m stmt p = do {
     let (lb, p) = expect TOK_LBRACE p;
     let saved = ps_scope p;
     let saved_tag = ps_tag_scope p;
     (ss, p) \<leftarrow> stmt_loop m stmt [] (p\<lparr>ps_scope := scope_new saved, ps_tag_scope := scope_new saved_tag\<rparr>);
     let p = expect_tok TOK_RBRACE p;
     Some (node_at lb (Compound ss), p\<lparr>ps_scope := saved, ps_tag_scope := saved_tag\<rparr>)
   }"

definition in_loop :: "(parser \<Rightarrow> (ast \<times> parser) option) \<Rightarrow> parser \<Rightarrow> (ast \<times> parser) option" where
  "in_loop stmt p = do {
     (s, p) \<leftarrow> stmt (p\<lparr>ps_loop := ps_loop p + 1\<rparr>);
     Some (s, p\<lparr>ps_loop := ps_loop p - 1\<rparr>)
   }"

definition in_switch :: "(parser \<Rightarrow> (ast \<times> parser) option) \<Rightarrow> parser \<Rightarrow> (ast \<times> parser) option" where
  "in_switch stmt p = do {
     (s, p) \<leftarrow> stmt (p\<lparr>ps_switch := ps_switch p + 1\<rparr>);
     Some (s, p\<lparr>ps_switch := ps_switch p - 1\<rparr>)
   }"

text \<open>\<open>( expr )\<close>, which if, while and switch have.\<close>

definition paren_expr :: "calls \<Rightarrow> parser \<Rightarrow> (ast \<times> parser) option" where
  "paren_expr c p = do {
     (e, p) \<leftarrow> c_expr c 0 (expect_tok TOK_LPAREN p);
     Some (e, expect_tok TOK_RPAREN p)
   }"

text \<open>\<open>check(p, stop) ? NULL : parse_expr(p, 0)\<close>.\<close>

definition expr_unless :: "TokenKind \<Rightarrow> calls \<Rightarrow> parser \<Rightarrow> (ast option \<times> parser) option" where
  "expr_unless stop c p =
     (let (b, p) = check stop p in if b then Some (None, p) else do { (e, p) \<leftarrow> c_expr c 0 p; Some (Some e, p) })"

text \<open>A declaration as a statement; both statement lists and for use it.\<close>

definition decl_stmt :: "calls \<Rightarrow> (parser \<Rightarrow> (ast \<times> parser) option) \<Rightarrow> token \<Rightarrow> parser \<Rightarrow> (ast \<times> parser) option" where
  "decl_stmt c compound t p = do {
     (ds, p) \<leftarrow> c_spec c p;
     (decls, p) \<leftarrow> parse_decl_list c compound ds False p;
     Some (node_at t (DeclStmt decls), p)
   }"

definition for_init ::
    "calls \<Rightarrow> (parser \<Rightarrow> (ast \<times> parser) option) \<Rightarrow> token \<Rightarrow> parser \<Rightarrow> (ast option \<times> parser) option" where
  "for_init c compound t p =
     (let (u, p) = peek p
      in if tk_kind u = TOK_SEMICOLON then Some (None, skip_tok p)
         else if is_type_start p u
         then do { (s, p) \<leftarrow> decl_stmt c compound t p; Some (Some s, p) }
         else do {
           (e, p) \<leftarrow> c_expr c 0 p;
           Some (Some (node_at t (ExprStmt e)), expect_tok TOK_SEMICOLON p)
         })"

text \<open>The statement after a case or default label, or the empty block before the next label.\<close>

definition case_body :: "(parser \<Rightarrow> (ast \<times> parser) option) \<Rightarrow> token \<Rightarrow> parser \<Rightarrow> (ast \<times> parser) option" where
  "case_body stmt t p =
     (let (u, p) = peek p
      in if tk_kind u \<notin> {TOK_CASE, TOK_DEFAULT, TOK_RBRACE} then stmt p
         else Some (node_at t (Compound []), p))"

text \<open>\<open>break\<close> and \<open>continue\<close>, with the message when they are misplaced.\<close>

definition parse_jump :: "bool \<Rightarrow> string \<Rightarrow> ast_body \<Rightarrow> token \<Rightarrow> parser \<Rightarrow> (ast \<times> parser) option" where
  "parse_jump misplaced msg b t p =
     (let p = skip_tok p; p = (if misplaced then perror t msg p else p)
      in Some (node_at t b, expect_tok TOK_SEMICOLON p))"

text \<open>A statement that starts with a name: a label or an expression, whose first node is made here.\<close>

definition parse_ident_stmt ::
    "calls \<Rightarrow> (parser \<Rightarrow> (ast \<times> parser) option) \<Rightarrow> token \<Rightarrow> parser \<Rightarrow> (ast \<times> parser) option" where
  "parse_ident_stmt c stmt t p =
     (let (colon, p) = match_tok TOK_COLON (skip_tok p); name = tok_intern p t
      in if colon then do { (s, p) \<leftarrow> stmt p; Some (node_at t (Label name s), p) }
         else do {
           (e, p) \<leftarrow> led_loop (c_fuel c) c 0 (node_at t (Ident name)) p;
           Some (node_at t (ExprStmt e), expect_tok TOK_SEMICOLON p)
         })"

definition parse_keyword_stmt ::
    "calls \<Rightarrow> (parser \<Rightarrow> (ast \<times> parser) option) \<Rightarrow> token \<Rightarrow> parser \<Rightarrow> (ast \<times> parser) option" where
  "parse_keyword_stmt c stmt t p =
     (let k = tk_kind t; compound = parse_compound (c_fuel c) stmt
      in if k = TOK_IF
         then do {
           (e, p) \<leftarrow> paren_expr c (skip_tok p);
           (th, p) \<leftarrow> stmt p;
           let (els, p) = match_tok TOK_ELSE p;
           (el, p) \<leftarrow> (if els then do { (s, p) \<leftarrow> stmt p; Some (Some s, p) } else Some (None, p));
           Some (node_at t (If e th el), p)
         }
         else if k = TOK_WHILE
         then do {
           (e, p) \<leftarrow> paren_expr c (skip_tok p);
           (bd, p) \<leftarrow> in_loop stmt p;
           Some (node_at t (While e bd), p)
         }
         else if k = TOK_DO
         then do {
           (bd, p) \<leftarrow> in_loop stmt (skip_tok p);
           (e, p) \<leftarrow> paren_expr c (expect_tok TOK_WHILE p);
           Some (node_at t (DoWhile e bd), expect_tok TOK_SEMICOLON p)
         }
         else if k = TOK_FOR
         then do {
           (i, p) \<leftarrow> for_init c compound t (expect_tok TOK_LPAREN (skip_tok p));
           (e, p) \<leftarrow> expr_unless TOK_SEMICOLON c p;
           (n, p) \<leftarrow> expr_unless TOK_RPAREN c (expect_tok TOK_SEMICOLON p);
           (bd, p) \<leftarrow> in_loop stmt (expect_tok TOK_RPAREN p);
           Some (node_at t (For i e n bd), p)
         }
         else if k = TOK_RETURN
         then do {
           (e, p) \<leftarrow> expr_unless TOK_SEMICOLON c (skip_tok p);
           Some (node_at t (Return e), expect_tok TOK_SEMICOLON p)
         }
         else if k = TOK_BREAK
         then parse_jump (ps_loop p = 0 \<and> ps_switch p = 0) (quoted ''break'' @ '' outside loop or switch'') Break t p
         else if k = TOK_CONTINUE
         then parse_jump (ps_loop p = 0) (quoted ''continue'' @ '' outside loop'') Continue t p
         else if k = TOK_GOTO
         then (let (lt, p) = expect TOK_IDENT (skip_tok p); p = expect_tok TOK_SEMICOLON p
               in Some (node_at t (Goto (tok_intern p lt)), p))
         else if k = TOK_SWITCH
         then do {
           (e, p) \<leftarrow> paren_expr c (skip_tok p);
           (bd, p) \<leftarrow> in_switch stmt p;
           Some (node_at t (Switch e bd), p)
         }
         else if k = TOK_CASE
         then do {
           (e, p) \<leftarrow> c_expr c 0 (skip_tok p);
           (s, p) \<leftarrow> case_body stmt t (expect_tok TOK_COLON p);
           Some (node_at t (Case e s), p)
         }
         else do {
           (s, p) \<leftarrow> case_body stmt t (expect_tok TOK_COLON (skip_tok p));
           Some (node_at t (Default s), p)
         })"

definition is_stmt_keyword :: "TokenKind \<Rightarrow> bool" where
  "is_stmt_keyword k \<longleftrightarrow>
     k \<in> {TOK_IF, TOK_WHILE, TOK_DO, TOK_FOR, TOK_RETURN, TOK_BREAK, TOK_CONTINUE, TOK_GOTO, TOK_SWITCH, TOK_CASE, TOK_DEFAULT}"

definition statement :: "calls \<Rightarrow> (parser \<Rightarrow> (ast \<times> parser) option) \<Rightarrow> parser \<Rightarrow> (ast \<times> parser) option" where
  "statement c stmt p =
     (let (t, p) = peek p; k = tk_kind t; compound = parse_compound (c_fuel c) stmt
      in if k = TOK_PRAGMA then Some (node_at t (Compound []), skip_pragma p)
         else if is_type_start p t then decl_stmt c compound t p
         else if k = TOK_LBRACE then compound p
         else if is_stmt_keyword k then parse_keyword_stmt c stmt t p
         else if k = TOK_SEMICOLON then Some (node_at t (Compound []), skip_tok p)
         else if k = TOK_IDENT then parse_ident_stmt c stmt t p
         else do {
           (e, p) \<leftarrow> c_expr c 0 p;
           Some (node_at t (ExprStmt e), expect_tok TOK_SEMICOLON p)
         })"

primrec parse_statement :: "nat \<Rightarrow> parser \<Rightarrow> (ast \<times> parser) option" where
  "parse_statement 0 p = None"
| "parse_statement (Suc n) p = statement (calls_at n) (parse_statement n) p"

subsection \<open>The translation unit\<close>

primrec unit_loop :: "nat \<Rightarrow> nat \<Rightarrow> ast list \<Rightarrow> parser \<Rightarrow> (ast list \<times> parser) option" where
  "unit_loop 0 n decls p = None"
| "unit_loop (Suc m) n decls p =
     (let (t, p) = peek p
      in if tk_kind t = TOK_EOF then Some (decls, p)
         else if tk_kind t = TOK_PRAGMA then unit_loop m n decls (skip_pragma p)
         else if \<not> is_type_start p t
         then unit_loop m n decls (skip_tok (perror t (''expected a declaration, got '' @ quoted (describe p t)) p))
         else do {
           (ds, p) \<leftarrow> c_spec (calls_at n) p;
           (ds', p) \<leftarrow> parse_decl_list (calls_at n) (parse_compound n (parse_statement n)) ds True p;
           unit_loop m n (decls @ ds') p
         })"

definition parser_parse :: "nat \<Rightarrow> parser \<Rightarrow> (ast \<times> parser) option" where
  "parser_parse n p = do {
     let (t, p) = peek p;
     (decls, p) \<leftarrow> unit_loop n n [] p;
     Some (node_at t (TranslationUnit decls), p)
   }"

end
