(* ===== verification/ParserTerm.thy ===== *)
theory ParserTerm
  imports ParserStmt LexerRun
begin

section \<open>The parser ends and keeps its context\<close>

text \<open>
  Every function of the parser returns when it has fuel for the input that is left, leaves no more
  of the input than it found, and restores the surroundings of the current scope and the depths
  of loops and switches.
\<close>

subsection \<open>What is left of the input\<close>

definition ahead :: "parser \<Rightarrow> nat" where
  "ahead p = (let l = ps_lexer p
              in (if lx_has_peek l \<and> tk_kind (lx_peeked l) \<noteq> TOK_EOF then 1 else 0) + (lx_end l - lx_cur l))"

text \<open>The kind of the next token, and what is left after it.\<close>

definition first :: "parser \<Rightarrow> TokenKind" where
  "first p = tk_kind (fst (peek p))"

definition rest :: "parser \<Rightarrow> nat" where
  "rest p = (if first p = TOK_EOF then ahead p else ahead p - 1)"

text \<open>The token \<open>t\<close> has been peeked at.\<close>

definition at_tok :: "token \<Rightarrow> parser \<Rightarrow> bool" where
  "at_tok t p \<longleftrightarrow> lx_has_peek (ps_lexer p) \<and> lx_peeked (ps_lexer p) = t"

text \<open>The errors reported so far, by the parser, the lexer under it or anyone before.\<close>

abbreviation reported :: "parser \<Rightarrow> int" where
  "reported p \<equiv> int (dg_errors (lx_diag (ps_lexer p)))"

text \<open>What every function keeps: it does not move back, restores the surroundings and the depths,
  adds types and reports the errors it counts.\<close>

definition keeps :: "parser \<Rightarrow> parser \<Rightarrow> bool" where
  "keeps p q \<longleftrightarrow> ahead q \<le> ahead p \<and> (first q = first p \<or> ahead q \<le> rest p)
     \<and> tl (ps_scope q) = tl (ps_scope p) \<and> length (ps_scope q) = length (ps_scope p)
     \<and> tl (ps_tag_scope q) = tl (ps_tag_scope p) \<and> length (ps_tag_scope q) = length (ps_tag_scope p)
     \<and> ps_loop q = ps_loop p \<and> ps_switch q = ps_switch p \<and> ps_errors p \<le> ps_errors q
     \<and> length (tt_nodes (ps_types p)) \<le> length (tt_nodes (ps_types q))
     \<and> lx_src (ps_lexer q) = lx_src (ps_lexer p) \<and> lx_end (ps_lexer q) = lx_end (ps_lexer p)
     \<and> ps_errors q + reported p \<le> ps_errors p + reported q"

lemma keeps_self [simp, intro]: "keeps p p"
  by (simp add: keeps_def)

lemma keeps_rest: "keeps p q \<Longrightarrow> rest q \<le> rest p"
  by (auto simp: keeps_def rest_def)

lemma keeps_trans:
  assumes "keeps p q" "keeps q r"
  shows "keeps p r"
proof -
  have "first r = first p \<or> ahead r \<le> rest p"
    using assms keeps_rest [OF assms(1)] by (fastforce simp: keeps_def)
  then show ?thesis using assms by (simp add: keeps_def)
qed

lemma keeps_ahead: "keeps p q \<Longrightarrow> ahead q \<le> ahead p"
  by (simp add: keeps_def)

lemma update_same [simp]:
  "ahead (p\<lparr>ps_types := tt\<rparr>) = ahead p" "ahead (p\<lparr>ps_scope := scs\<rparr>) = ahead p" "ahead (p\<lparr>ps_tag_scope := scs\<rparr>) = ahead p"
  "ahead (p\<lparr>ps_loop := i\<rparr>) = ahead p" "ahead (p\<lparr>ps_switch := i\<rparr>) = ahead p"
  "first (p\<lparr>ps_types := tt\<rparr>) = first p" "first (p\<lparr>ps_scope := scs\<rparr>) = first p" "first (p\<lparr>ps_tag_scope := scs\<rparr>) = first p"
  "first (p\<lparr>ps_loop := i\<rparr>) = first p" "first (p\<lparr>ps_switch := i\<rparr>) = first p"
  "rest (p\<lparr>ps_types := tt\<rparr>) = rest p" "rest (p\<lparr>ps_scope := scs\<rparr>) = rest p" "rest (p\<lparr>ps_tag_scope := scs\<rparr>) = rest p"
  "rest (p\<lparr>ps_loop := i\<rparr>) = rest p" "rest (p\<lparr>ps_switch := i\<rparr>) = rest p"
  by (simp_all add: ahead_def first_def rest_def peek_def split: prod.split)

lemma at_tok_first: "at_tok t p \<Longrightarrow> first p = tk_kind t" "at_tok t p \<Longrightarrow> peek p = (t, p)"
  by (simp_all add: at_tok_def first_def peek_def lexer_peek_def)

lemma peek_spec:
  assumes "peek p = (t, q)"
  shows "keeps p q" "at_tok t q" "first p = tk_kind t" "tk_kind t \<noteq> TOK_EOF \<Longrightarrow> 0 < ahead q"
    "ps_scope q = ps_scope p" "ps_tag_scope q = ps_tag_scope p" "ps_types q = ps_types p"
proof -
  show at: "at_tok t q" using assms by (auto simp: peek_def lexer_peek_def at_tok_def split: if_splits prod.splits)
  show f: "first p = tk_kind t" using assms by (simp add: first_def)
  show "tk_kind t \<noteq> TOK_EOF \<Longrightarrow> 0 < ahead q" using at by (simp add: ahead_def at_tok_def Let_def)
  have a: "ahead q \<le> ahead p"
    using assms scan_token_progress(1) [of "ps_lexer p"] scan_token_moves [of "ps_lexer p"]
    by (auto simp: peek_def lexer_peek_def ahead_def lx_moves_def Let_def split: if_splits prod.splits)
  have r: "ps_scope q = ps_scope p \<and> ps_tag_scope q = ps_tag_scope p \<and> ps_types q = ps_types p
      \<and> ps_loop q = ps_loop p \<and> ps_switch q = ps_switch p \<and> ps_errors q = ps_errors p
      \<and> lx_src (ps_lexer q) = lx_src (ps_lexer p) \<and> lx_end (ps_lexer q) = lx_end (ps_lexer p) \<and> reported p \<le> reported q"
    using assms scan_token_moves [of "ps_lexer p"]
    by (auto simp: peek_def lexer_peek_def lx_moves_def Let_def split: if_splits prod.splits)
  then show "ps_scope q = ps_scope p" "ps_tag_scope q = ps_tag_scope p" "ps_types q = ps_types p" by simp_all
  show "keeps p q" using a r at_tok_first(1) [OF at] f by (simp add: keeps_def)
qed

lemma skip_tok_rest: "ahead (skip_tok p) \<le> rest p" and first_pos: "first p \<noteq> TOK_EOF \<Longrightarrow> 0 < ahead p"
  using scan_token_progress(1) [of "ps_lexer p"] scan_token_moves [of "ps_lexer p"]
  by (auto simp: skip_tok_def advance_def lexer_next_def rest_def first_def peek_def lexer_peek_def ahead_def
      lx_moves_def Let_def split: if_splits prod.splits)

lemma skip_tok_keeps: "keeps p (skip_tok p)"
proof -
  have "ps_scope (skip_tok p) = ps_scope p \<and> ps_tag_scope (skip_tok p) = ps_tag_scope p \<and> ps_types (skip_tok p) = ps_types p
      \<and> ps_loop (skip_tok p) = ps_loop p \<and> ps_switch (skip_tok p) = ps_switch p \<and> ps_errors (skip_tok p) = ps_errors p
      \<and> lx_src (ps_lexer (skip_tok p)) = lx_src (ps_lexer p) \<and> lx_end (ps_lexer (skip_tok p)) = lx_end (ps_lexer p)
      \<and> reported p \<le> reported (skip_tok p)"
    using scan_token_moves [of "ps_lexer p"]
    by (auto simp: skip_tok_def advance_def lexer_next_def lx_moves_def Let_def split: prod.splits)
  moreover have "ahead (skip_tok p) \<le> ahead p" using skip_tok_rest [of p] by (auto simp: rest_def split: if_splits)
  ultimately show ?thesis using skip_tok_rest by (simp add: keeps_def)
qed

lemma rest_le: "rest p \<le> ahead p"
  by (simp add: rest_def)

lemma advance_skip: "advance p = (t, q) \<Longrightarrow> q = skip_tok p \<and> tk_kind t = first p"
  by (auto simp: advance_def skip_tok_def first_def peek_def lexer_next_def lexer_peek_def split: if_splits prod.splits)

lemma perror_same: "ahead (perror t m p) = ahead p" "at_tok u (perror t m p) = at_tok u p"
  by (simp_all add: perror_def ahead_def at_tok_def lx_emit_def Let_def)

lemma perror_keeps:
  assumes "keeps p q" "at_tok u q \<or> ahead q \<le> rest p"
  shows "keeps p (perror t m q)"
proof -
  have "first (perror t m q) = first p \<or> ahead q \<le> rest p"
    using assms at_tok_first(1) [of u] perror_same(2) [of u t m q] by (auto simp: keeps_def)
  then show ?thesis
    using assms(1) perror_same(1) [of t m q] by (simp add: keeps_def) (simp add: perror_def lx_emit_def diag_emit_counts)
qed

subsection \<open>Results\<close>

text \<open>The step returns, keeps the context of \<open>p\<close> and leaves at most \<open>b\<close>.\<close>

definition ends :: "nat \<Rightarrow> parser \<Rightarrow> ('a \<times> parser) option \<Rightarrow> bool" where
  "ends b p r \<longleftrightarrow> (\<exists>x q. r = Some (x, q) \<and> keeps p q \<and> ahead q \<le> b)"

definition ends_at :: "nat \<Rightarrow> parser \<Rightarrow> parser option \<Rightarrow> bool" where
  "ends_at b p r \<longleftrightarrow> (\<exists>q. r = Some q \<and> keeps p q \<and> ahead q \<le> b)"

lemma ends_Some [intro!]: "keeps p q \<Longrightarrow> ahead q \<le> b \<Longrightarrow> ends b p (Some (x, q))"
  by (simp add: ends_def)

lemma ends_at_Some [intro!]: "keeps p q \<Longrightarrow> ahead q \<le> b \<Longrightarrow> ends_at b p (Some q)"
  by (simp add: ends_at_def)

lemma ends_mono: "ends b p r \<Longrightarrow> b \<le> c \<Longrightarrow> ends c p r"
  by (auto simp: ends_def)

lemma ends_from: "ends b q r \<Longrightarrow> keeps p q \<Longrightarrow> ends b p r"
  using keeps_trans [of p q] unfolding ends_def by blast

lemma ends_at_from: "ends_at b q r \<Longrightarrow> keeps p q \<Longrightarrow> ends_at b p r"
  using keeps_trans [of p q] unfolding ends_at_def by blast

lemma ends_bind:
  assumes "ends a q r" "keeps p q" "\<And>x s. keeps p s \<Longrightarrow> ahead s \<le> a \<Longrightarrow> ends b p (k x s)"
  shows "ends b p (r \<bind> (\<lambda>(x, s). k x s))"
proof -
  obtain x s where e: "r = Some (x, s)" "keeps q s" "ahead s \<le> a" using assms(1) by (auto simp: ends_def)
  show ?thesis using assms(3) [OF keeps_trans [OF assms(2) e(2)] e(3)] by (simp add: e(1))
qed

lemma ends_bind2:
  assumes "ends a q r" "keeps p q" "\<And>x y s. keeps p s \<Longrightarrow> ahead s \<le> a \<Longrightarrow> ends b p (k x y s)"
  shows "ends b p (r \<bind> (\<lambda>((x, y), s). k x y s))"
proof -
  obtain x y s where e: "r = Some ((x, y), s)" "keeps q s" "ahead s \<le> a" using assms(1) by (auto simp: ends_def)
  show ?thesis using assms(3) [OF keeps_trans [OF assms(2) e(2)] e(3)] by (simp add: e(1))
qed

lemma ends_at_bind:
  assumes "ends_at a q r" "keeps p q" "\<And>s. keeps p s \<Longrightarrow> ahead s \<le> a \<Longrightarrow> ends b p (k s)"
  shows "ends b p (r \<bind> k)"
proof -
  obtain s where e: "r = Some s" "keeps q s" "ahead s \<le> a" using assms(1) by (auto simp: ends_at_def)
  show ?thesis using assms(3) [OF keeps_trans [OF assms(2) e(2)] e(3)] by (simp add: e(1))
qed

lemma ends_at_bind_at:
  assumes "ends_at a q r" "keeps p q" "\<And>s. keeps p s \<Longrightarrow> ahead s \<le> a \<Longrightarrow> ends_at b p (k s)"
  shows "ends_at b p (r \<bind> k)"
proof -
  obtain s where e: "r = Some s" "keeps q s" "ahead s \<le> a" using assms(1) by (auto simp: ends_at_def)
  show ?thesis using assms(3) [OF keeps_trans [OF assms(2) e(2)] e(3)] by (simp add: e(1))
qed

text \<open>The steps that always return.\<close>

definition goes :: "parser \<Rightarrow> 'a \<times> parser \<Rightarrow> bool" where
  "goes p r \<longleftrightarrow> keeps p (snd r)"

lemma ends_let:
  assumes "goes q r" "keeps p q" "\<And>x s. r = (x, s) \<Longrightarrow> keeps p s \<Longrightarrow> ahead s \<le> ahead q \<Longrightarrow> ends b p (k x s)"
  shows "ends b p (case r of (x, s) \<Rightarrow> k x s)"
proof (cases r)
  case (Pair x s)
  then have s: "keeps q s" using assms(1) by (simp add: goes_def)
  show ?thesis using assms(3) [OF Pair keeps_trans [OF assms(2) s] keeps_ahead [OF s]] by (simp add: Pair)
qed

lemma ends_at_let:
  assumes "goes q r" "keeps p q" "\<And>x s. r = (x, s) \<Longrightarrow> keeps p s \<Longrightarrow> ahead s \<le> ahead q \<Longrightarrow> ends_at b p (k x s)"
  shows "ends_at b p (case r of (x, s) \<Rightarrow> k x s)"
proof (cases r)
  case (Pair x s)
  then have s: "keeps q s" using assms(1) by (simp add: goes_def)
  show ?thesis using assms(3) [OF Pair keeps_trans [OF assms(2) s] keeps_ahead [OF s]] by (simp add: Pair)
qed

lemma peek_goes: "goes p (peek p)"
  using peek_spec(1) [of p] by (cases "peek p") (simp add: goes_def)

lemma advance_goes: "goes p (advance p)"
  using skip_tok_keeps [of p] by (simp add: goes_def skip_tok_def)

lemma check_goes: "goes p (check k p)"
  using peek_goes by (simp add: check_def goes_def split_beta)

lemma match_goes: "goes p (match_tok k p)"
  using check_goes [of p k] skip_tok_keeps keeps_trans
  by (auto simp: match_tok_def goes_def split: prod.split)

lemma expect_goes: "goes p (expect k p)"
proof -
  obtain t q where e: "peek p = (t, q)" by fastforce
  note q = peek_spec(1,2) [OF e]
  have r: "keeps p (perror t m q)" for m using perror_keeps [of p q t] q by blast
  have "keeps p (skip_tok (perror t m q))" "keeps p (skip_tok q)" for m
    using keeps_trans [OF _ skip_tok_keeps] r q(1) by blast+
  then show ?thesis
    using r q by (simp add: expect_def e goes_def Let_def skip_tok_def [symmetric])
qed

lemma expect_tok_keeps: "keeps p (expect_tok k p)"
  using expect_goes [of p k] by (simp add: goes_def expect_tok_def)

lemma with_types_goes:
  assumes "\<And>tt. length (tt_nodes tt) \<le> length (tt_nodes (fst (f tt)))"
  shows "goes p (with_types f p)"
  using assms [of "ps_types p"] by (cases "f (ps_types p)") (simp add: with_types_def goes_def keeps_def)

lemma consume: "at_tok t p \<Longrightarrow> tk_kind t \<noteq> TOK_EOF \<Longrightarrow> ahead (skip_tok p) < ahead p"
  using skip_tok_rest [of p] first_pos [of p] at_tok_first(1) [of t p] by (simp add: rest_def)

lemma skip_le: "ahead (skip_tok p) \<le> ahead p"
  using skip_tok_keeps keeps_ahead by blast

lemma expect_le: "ahead (expect_tok k p) \<le> ahead p"
  using expect_tok_keeps keeps_ahead by blast

lemma perror_skip: "at_tok u p \<Longrightarrow> keeps p (skip_tok (perror t m p))" "at_tok u p \<Longrightarrow> tk_kind u \<noteq> TOK_EOF \<Longrightarrow> ahead (skip_tok (perror t m p)) < ahead p"
  using keeps_trans [OF perror_keeps [OF keeps_self] skip_tok_keeps, of u p] consume [of u "perror t m p"]
  by (simp_all add: perror_same)

lemma expect_rest: "ahead (expect_tok k p) \<le> rest p"
proof -
  obtain t q where e: "peek p = (t, q)" by fastforce
  note q = peek_spec [OF e]
  show ?thesis
  proof (cases "tk_kind t = TOK_EOF")
    case True
    then show ?thesis using expect_le [of k p] by (simp add: rest_def q(3))
  next
    case False
    have "ahead (skip_tok (perror u m q)) < ahead p" for u m
      using perror_skip(2) [OF q(2) False, of u m] keeps_ahead [OF q(1)] by (rule less_le_trans)
    then have "ahead (skip_tok (perror u m q)) \<le> rest p" for u m
      using False by (simp add: rest_def q(3)) (metis Suc_pred less_Suc_eq_le zero_less_iff_neq_zero less_nat_zero_code)
    moreover have "ahead (skip_tok q) \<le> rest p" using skip_tok_rest [of q] keeps_rest [OF q(1)] by simp
    ultimately show ?thesis using False by (simp add: expect_tok_def expect_def e Let_def skip_tok_def [symmetric])
  qed
qed

subsection \<open>Attributes\<close>

lemma skip_parens_ends: "ahead p < m \<Longrightarrow> ends_at (ahead p) p (skip_parens m d p)"
proof (induction m arbitrary: d p)
  case (Suc m)
  obtain t q where e: "peek p = (t, q)" by fastforce
  note q = peek_spec(1,2) [OF e]
  show ?case
  proof (cases "d > 0 \<and> tk_kind t \<noteq> TOK_EOF")
    case True
    have lt: "ahead (skip_tok q) < ahead p" using consume q(2) True keeps_ahead [OF q(1)] by fastforce
    have k: "keeps p (skip_tok q)" using keeps_trans [OF q(1) skip_tok_keeps] .
    have "ends_at (ahead (skip_tok q)) (skip_tok q) (skip_parens m d' (skip_tok q))" for d'
      by (rule Suc.IH) (use lt Suc.prems in simp)
    then have "ends_at (ahead p) p (skip_parens m d' (skip_tok q))" for d'
      using ends_at_from [OF _ k] lt by (fastforce simp: ends_at_def)
    then show ?thesis using True by (simp add: e)
  qed (use q keeps_ahead in \<open>auto simp: e\<close>)
qed simp

lemma skip_attributes_ends: "ahead p < m \<Longrightarrow> ends_at (ahead p) p (skip_attributes m p)"
  and skip_attributes_eats: "ahead p < m \<Longrightarrow> is_attribute (first p) \<Longrightarrow> ends_at (rest p) p (skip_attributes m p)"
proof (induction m arbitrary: p)
  case (Suc m)
  have step: "ends_at (rest p) p (skip_attributes (Suc m) p)" if a: "is_attribute (first p)" "ahead p < Suc m" for p
  proof -
    obtain t q where e: "peek p = (t, q)" by fastforce
    note q = peek_spec [OF e]
    have ne: "tk_kind t \<noteq> TOK_EOF" using a(1) by (auto simp: q(3) is_attribute_def)
    have lt: "ahead (skip_tok q) < ahead p" "ahead (skip_tok q) \<le> rest p"
      using consume [OF q(2) ne] keeps_ahead [OF q(1)] ne by (auto simp: rest_def q(3))
    obtain b s where m: "match_tok TOK_LPAREN (skip_tok q) = (b, s)" by fastforce
    have ks: "keeps (skip_tok q) s" using match_goes [of "skip_tok q" TOK_LPAREN] by (simp add: goes_def m)
    have k: "keeps p s" using keeps_trans [OF keeps_trans [OF q(1) skip_tok_keeps] ks] .
    have le: "ahead s \<le> rest p" "ahead s < m" using keeps_ahead [OF ks] lt a(2) by auto
    have "ends_at (ahead s) s (if b then skip_parens m 1 s else Some s)"
      using skip_parens_ends [OF le(2)] by auto
    then have "ends_at (rest p) p ((if b then skip_parens m 1 s else Some s) \<bind> skip_attributes m)"
    proof (rule ends_at_bind_at [OF _ k])
      fix u assume u: "keeps p u" "ahead u \<le> ahead s"
      show "ends_at (rest p) p (skip_attributes m u)"
        using ends_at_from [OF Suc.IH(1) [of u] u(1)] u(2) le by (fastforce simp: ends_at_def)
    qed
    then show ?thesis using a(1) by (simp add: e m Let_def flip: q(3))
  qed
  {
    case 1
    show ?case
    proof (cases "is_attribute (first p)")
      case True
      then show ?thesis using step [OF True 1] rest_le [of p] by (auto simp: ends_at_def)
    next
      case False
      obtain t q where e: "peek p = (t, q)" by fastforce
      show ?thesis using False peek_spec [OF e] keeps_ahead by (auto simp: e Let_def)
    qed
  next
    case 2
    then show ?case using step by blast
  }
qed simp_all

subsection \<open>What the re-entered functions promise\<close>

definition expr_ok :: "calls \<Rightarrow> parser \<Rightarrow> bool" where
  "expr_ok c p \<longleftrightarrow> (\<forall>bp\<ge>0. ends (rest p) p (c_expr c bp p))"

definition spec_ok :: "calls \<Rightarrow> parser \<Rightarrow> bool" where
  "spec_ok c p \<longleftrightarrow> ends (ahead p) p (c_spec c p)
     \<and> (\<forall>t. at_tok t p \<and> is_type_start p t \<longrightarrow> ends (rest p) p (c_spec c p))"

definition decl_ok :: "calls \<Rightarrow> parser \<Rightarrow> bool" where
  "decl_ok c p \<longleftrightarrow> (\<forall>base. ends (ahead p) p (c_declarator c base p))"

definition init_ok :: "calls \<Rightarrow> parser \<Rightarrow> bool" where
  "init_ok c p \<longleftrightarrow> ends (rest p) p (c_init c p)"

text \<open>On less input than \<open>b\<close> all of them return; the fuel of the loops is above \<open>b\<close>.\<close>

definition ready :: "nat \<Rightarrow> calls \<Rightarrow> bool" where
  "ready b c \<longleftrightarrow> b < c_fuel c
     \<and> (\<forall>p. ahead p < b \<longrightarrow> expr_ok c p \<and> spec_ok c p \<and> decl_ok c p \<and> init_ok c p)"

lemma ready_fuel: "ready b c \<Longrightarrow> ahead p \<le> b \<Longrightarrow> ahead p < c_fuel c"
  by (simp add: ready_def)

text \<open>The states a step of \<open>p\<close> goes through while at most \<open>n\<close> is left.\<close>

definition within :: "parser \<Rightarrow> nat \<Rightarrow> parser \<Rightarrow> bool" where
  "within p n q \<longleftrightarrow> keeps p q \<and> ahead q \<le> n"

lemma within_start: "within p (ahead p) p" "within p (rest p) (skip_tok p)" "within p (rest p) (expect_tok k p)"
  using skip_tok_keeps expect_tok_keeps skip_tok_rest expect_rest by (simp_all add: within_def)

lemma within_into: "within p n q \<Longrightarrow> within p n (skip_tok q)" "within p n q \<Longrightarrow> within p n (expect_tok k q)"
  using keeps_trans skip_tok_keeps expect_tok_keeps skip_le [of q] expect_le [of k q]
  by (fastforce simp: within_def)+

lemma within_goes: "goes q r \<Longrightarrow> within p n q \<Longrightarrow> within p n (snd r)"
  using keeps_trans keeps_ahead by (fastforce simp: within_def goes_def)

lemma within_let:
  assumes "goes q r" "within p n q" "\<And>x s. r = (x, s) \<Longrightarrow> within p n s \<Longrightarrow> ends b p (k x s)"
  shows "ends b p (case r of (x, s) \<Rightarrow> k x s)"
  using assms(3) within_goes [OF assms(1,2)] by (cases r) simp

lemma ends_lift: "ends (ahead q) q r \<Longrightarrow> within p n q \<Longrightarrow> ends n p r"
  using ends_from ends_mono by (fastforce simp: within_def)

lemma within_Some: "within p n q \<Longrightarrow> ends n p (Some (x, q))"
  by (simp add: within_def ends_Some)

lemma within_bind:
  assumes "ends (ahead q) q r" "within p n q" "\<And>x s. within p n s \<Longrightarrow> ends b p (k x s)"
  shows "ends b p (r \<bind> (\<lambda>(x, s). k x s))"
  by (rule ends_bind [OF ends_lift [OF assms(1,2)] keeps_self]) (simp add: within_def assms(3))

lemma within_bind2:
  assumes "ends (ahead q) q r" "within p n q" "\<And>x y s. within p n s \<Longrightarrow> ends b p (k x y s)"
  shows "ends b p (r \<bind> (\<lambda>((x, y), s). k x y s))"
  by (rule ends_bind2 [OF ends_lift [OF assms(1,2)] keeps_self]) (simp add: within_def assms(3))

lemma bind_expr:
  assumes "ready b c" "within p n q" "n < b" "0 \<le> bp" "\<And>x s. within p n s \<Longrightarrow> ends a p (k x s)"
  shows "ends a p (c_expr c bp q \<bind> (\<lambda>(x, s). k x s))"
proof (rule within_bind [OF _ assms(2,5)])
  have "expr_ok c q" using assms(1-3) by (simp add: ready_def within_def)
  then show "ends (ahead q) q (c_expr c bp q)" using assms(4) ends_mono rest_le by (fastforce simp: expr_ok_def)
qed

lemma bind_spec:
  assumes "ready b c" "within p n q" "n < b" "\<And>x s. within p n s \<Longrightarrow> ends a p (k x s)"
  shows "ends a p (c_spec c q \<bind> (\<lambda>(x, s). k x s))"
  by (rule within_bind [OF _ assms(2,4)]) (use assms(1-3) in \<open>simp add: ready_def within_def spec_ok_def\<close>)

lemma bind_decl:
  assumes "ready b c" "within p n q" "n < b" "\<And>x y s. within p n s \<Longrightarrow> ends a p (k x y s)"
  shows "ends a p (c_declarator c base q \<bind> (\<lambda>((x, y), s). k x y s))"
  by (rule within_bind2 [OF _ assms(2,4)]) (use assms(1-3) in \<open>simp add: ready_def within_def decl_ok_def\<close>)

lemma bind_init:
  assumes "ready b c" "within p n q" "n < b" "\<And>x s. within p n s \<Longrightarrow> ends a p (k x s)"
  shows "ends a p (c_init c q \<bind> (\<lambda>(x, s). k x s))"
proof (rule within_bind [OF _ assms(2,4)])
  have "init_ok c q" using assms(1-3) by (simp add: ready_def within_def)
  then show "ends (ahead q) q (c_init c q)" using ends_mono rest_le by (fastforce simp: init_ok_def)
qed

lemma bind_attributes:
  assumes "ready b c" "within p n q" "n \<le> b" "\<And>s. within p n s \<Longrightarrow> ends a p (k s)"
  shows "ends a p (skip_attributes (c_fuel c) q \<bind> k)"
proof (rule ends_at_bind [of n p])
  have "ends_at (ahead q) q (skip_attributes (c_fuel c) q)"
    by (rule skip_attributes_ends) (use assms(1-3) in \<open>simp add: ready_def within_def\<close>)
  then show "ends_at n p (skip_attributes (c_fuel c) q)"
    using ends_at_from [of "ahead q" q _ p] assms(2) by (fastforce simp: within_def ends_at_def)
qed (simp_all add: within_def assms(4))

lemma bind_parens:
  assumes "ready b c" "within p n q" "n \<le> b" "\<And>s. within p n s \<Longrightarrow> ends a p (k s)"
  shows "ends a p (skip_parens (c_fuel c) d q \<bind> k)"
proof (rule ends_at_bind [of n p])
  have "ends_at (ahead q) q (skip_parens (c_fuel c) d q)"
    by (rule skip_parens_ends) (use assms(1-3) in \<open>simp add: ready_def within_def\<close>)
  then show "ends_at n p (skip_parens (c_fuel c) d q)"
    using ends_at_from [of "ahead q" q _ p] assms(2) by (fastforce simp: within_def ends_at_def)
qed (simp_all add: within_def assms(4))

lemma keeps_into:
  "keeps p q \<Longrightarrow> keeps p (skip_tok q)" "keeps p q \<Longrightarrow> keeps p (expect_tok k q)"
  using keeps_trans skip_tok_keeps expect_tok_keeps by blast+

lemma ahead_into: "ahead q \<le> n \<Longrightarrow> ahead (skip_tok q) \<le> n" "ahead q \<le> n \<Longrightarrow> ahead (expect_tok k q) \<le> n"
  "ahead q \<le> n \<Longrightarrow> ahead (perror t m q) \<le> n"
  "ahead q < n \<Longrightarrow> ahead (skip_tok q) < n" "ahead q < n \<Longrightarrow> ahead (expect_tok k q) < n"
  "ahead q < n \<Longrightarrow> ahead (perror t m q) < n"
  using skip_le [of q] expect_le [of k q] perror_same(1) [of t m q] by simp_all

lemma match_true: "match_tok k p = (True, q) \<Longrightarrow> k \<noteq> TOK_EOF \<Longrightarrow> ahead q \<le> rest p \<and> ahead q < ahead p"
proof -
  assume m: "match_tok k p = (True, q)" "k \<noteq> TOK_EOF"
  obtain t s where e: "peek p = (t, s)" by fastforce
  have s: "tk_kind t = k" "q = skip_tok s" using m(1) by (auto simp: match_tok_def check_def e split: if_splits)
  show "ahead q \<le> rest p \<and> ahead q < ahead p"
    using consume [OF peek_spec(2) [OF e]] keeps_ahead [OF peek_spec(1) [OF e]] peek_spec(3) [OF e] m(2)
    by (auto simp: s rest_def)
qed

lemma peek_skip: "peek p = (t, q) \<Longrightarrow> tk_kind t \<noteq> TOK_EOF \<Longrightarrow> ahead (skip_tok q) \<le> rest p \<and> ahead (skip_tok q) < ahead p"
  using consume [OF peek_spec(2)] keeps_ahead [OF peek_spec(1)] peek_spec(3) by (fastforce simp: rest_def)

lemma check_true: "check k p = (True, q) \<Longrightarrow> k \<noteq> TOK_EOF \<Longrightarrow> ahead (skip_tok q) \<le> rest p \<and> ahead (skip_tok q) < ahead p"
  using peek_skip by (auto simp: check_def split: prod.splits)

subsection \<open>Structs, unions and enums\<close>

lemma alloc_grows: "length (tt_nodes tt) \<le> length (tt_nodes (fst (alloc_node tt n)))"
  by (simp add: alloc_node_def)

lemma push_grows: "length (tt_nodes tt) \<le> length (tt_nodes (fst (push_interned tt s n)))"
  by (simp add: push_interned_def alloc_node_def)

lemma types_grow:
  "length (tt_nodes tt) \<le> length (tt_nodes (fst (type_pointer adr tt t q)))"
  "length (tt_nodes tt) \<le> length (tt_nodes (fst (type_array adr tt t n)))"
  "length (tt_nodes tt) \<le> length (tt_nodes (fst (type_array_unsized adr tt t)))"
  "length (tt_nodes tt) \<le> length (tt_nodes (fst (type_func adr tt t ps k v)))"
  "length (tt_nodes tt) \<le> length (tt_nodes (fst (type_struct tt tag)))"
  "length (tt_nodes tt) \<le> length (tt_nodes (fst (type_union tt tag)))"
  "length (tt_nodes tt) \<le> length (tt_nodes (fst (type_enum tt tag)))"
  "length (tt_nodes tt) \<le> length (tt_nodes (fst (type_qualify tt t q)))"
  by (simp_all add: type_pointer_def type_array_def type_array_unsized_def type_func_def type_struct_def
      type_union_def type_enum_def type_qualify_def push_grows alloc_grows Let_def split: option.split)

lemma resolve_goes: "at_tok t p \<Longrightarrow> goes p (resolve_type_spec ds loc p)"
  using perror_keeps [of p p t] by (auto simp: resolve_type_spec_def goes_def Let_def split: option.split)

lemma base_type_goes: "goes p (base_type ds p)"
proof -
  obtain t q where e: "peek p = (t, q)" by fastforce
  obtain base s where r: "resolve_type_spec ds t q = (base, s)" by fastforce
  have k: "keeps p s" using keeps_trans [OF peek_spec(1) [OF e]] resolve_goes [OF peek_spec(2) [OF e], of ds t] by (simp add: r goes_def)
  have "goes s (with_types (\<lambda>tt. type_qualify tt base (ds_qual ds)) s)" by (rule with_types_goes) (rule types_grow)
  then show ?thesis using k keeps_trans [OF k] by (auto simp: base_type_def e r goes_def)
qed

lemma scope_update_keeps:
  "keeps p q \<Longrightarrow> keeps p (q\<lparr>ps_scope := scope_define_in n k t (ps_scope q)\<rparr>)"
  "keeps p q \<Longrightarrow> keeps p (q\<lparr>ps_tag_scope := scope_define_in n k t (ps_tag_scope q)\<rparr>)"
  unfolding keeps_def by (auto simp: scope_define_in_def Let_def split: list.split)

lemma new_tag_goes:
  assumes "\<And>tt. length (tt_nodes tt) \<le> length (tt_nodes (fst (new tt tag)))"
  shows "goes p (new_tag kind new tag p)"
proof -
  obtain ty q where w: "with_types (\<lambda>tt. new tt tag) p = (ty, q)" by fastforce
  have "keeps p q" using with_types_goes [of "\<lambda>tt. new tt tag" p, OF assms] by (simp add: w goes_def)
  then show ?thesis by (auto simp: new_tag_def w goes_def scope_update_keeps split: option.split)
qed

lemma parse_tag_goes:
  assumes "\<And>tt tag. length (tt_nodes tt) \<le> length (tt_nodes (fst (new tt tag)))"
  shows "goes p (parse_tag kind new p)"
proof -
  obtain id q where e: "check TOK_IDENT p = (id, q)" by fastforce
  have k: "keeps p q" using check_goes [of p TOK_IDENT] by (simp add: e goes_def)
  have n: "goes p (new_tag kind new tag s)" if "keeps p s" for s tag
    using new_tag_goes [of new, OF assms] keeps_trans [OF that] unfolding goes_def by blast
  have "keeps q (snd (advance q))" using advance_goes by (simp add: goes_def)
  then have a: "keeps p (snd (advance q))" using keeps_trans [OF k] by blast
  show ?thesis
    using n [OF a] n [OF k] a k
    by (cases "advance q") (auto simp: parse_tag_def e goes_def Let_def split: option.split)
qed

lemma bind_if: "(if P then a else b) \<bind> k = (if P then a \<bind> k else b \<bind> (k :: 'a \<Rightarrow> 'b option))"
  by simp

lemma bind_case_pair: "(case y of (x, s) \<Rightarrow> f x s) \<bind> k = (case y of (x, s) \<Rightarrow> f x s \<bind> (k :: 'a \<Rightarrow> 'b option))"
  by (cases y) simp

lemma ends_rec: "ends (ahead s) s r \<Longrightarrow> keeps p s \<Longrightarrow> ahead s \<le> b \<Longrightarrow> ends b p r"
  using ends_from ends_mono by blast

lemmas bind_simps = Let_def bind_if bind_case_pair

lemma rest_less: "first p \<noteq> TOK_EOF \<Longrightarrow> rest p < ahead p"
  using first_pos [of p] by (simp add: rest_def)

lemma within_rest: "within p n q \<Longrightarrow> within p (rest p) (skip_tok q)" "within p n q \<Longrightarrow> within p (rest p) (expect_tok k q)"
  using skip_tok_rest [of q] expect_rest [of k q] keeps_rest [of p q] within_into
  by (fastforce simp: within_def)+

lemma within_match: "match_tok k q = (True, s) \<Longrightarrow> within p n q \<Longrightarrow> k \<noteq> TOK_EOF \<Longrightarrow> within p (rest p) s"
proof -
  assume a: "match_tok k q = (True, s)" "within p n q" "k \<noteq> TOK_EOF"
  then have "within p (rest q) s"
    using match_true [OF a(1,3)] within_goes [OF match_goes, of p n q k] by (simp add: within_def)
  then show ?thesis using keeps_rest [of p q] a(2) by (simp add: within_def)
qed

lemma match_step:
  assumes "within p n q" "k \<noteq> TOK_EOF"
    "\<And>s. within p n s \<Longrightarrow> within p (rest p) s \<Longrightarrow> ahead s < n \<Longrightarrow> ends b p (f True s)"
    "\<And>s. within p n s \<Longrightarrow> ends b p (f False s)"
  shows "ends b p (case match_tok k q of (x, s) \<Rightarrow> f x s)"
proof (rule within_let [OF match_goes assms(1)])
  fix x s
  assume m: "match_tok k q = (x, s)" "within p n s"
  show "ends b p (f x s)"
  proof (cases x)
    case True
    then have m': "match_tok k q = (True, s)" using m(1) by simp
    have "ahead s < n" using match_true [OF m' assms(2)] assms(1) by (simp add: within_def)
    then show ?thesis using assms(3) [OF m(2) within_match [OF m' assms(1,2)]] True by simp
  qed (use assms(4) m in simp)
qed

lemmas let_steps = within_let [OF peek_goes] within_let [OF check_goes] match_step
  within_let [OF expect_goes] within_let [OF advance_goes] within_let [OF base_type_goes]

lemmas bind_steps = bind_expr bind_spec bind_decl bind_init bind_attributes bind_parens

text \<open>The step where a loop goes on: it has consumed the token it stopped at.\<close>

lemma ends_loop:
  assumes "first p \<noteq> TOK_EOF" "within p (rest p) s" "ahead s < ahead p \<Longrightarrow> ends (ahead s) s r"
  shows "ends (rest p) p r"
  by (rule ends_lift [OF assms(3) assms(2)]) (use assms(2) rest_less [OF assms(1)] in \<open>simp add: within_def\<close>)

lemma ends_weaken: "ends (rest p) p r \<Longrightarrow> ends (ahead p) p r"
  using ends_mono rest_le by blast

lemma member_declarators_ends:
  assumes "ready b c"
  shows "ahead p < b \<Longrightarrow> ahead p < m \<Longrightarrow> ends (ahead p) p (member_declarators m c base fs p)"
proof (induction m arbitrary: fs p)
  case (Suc m)
  have go: "ends (ahead p) p (member_declarators m c base fs s)" if "within p (ahead p) s" "ahead s < ahead p" for s fs
    by (rule ends_lift [OF Suc.IH that(1)]) (use Suc.prems that in simp_all)
  show ?case
    using Suc.prems within_start(1) [of p]
    by (auto simp: bind_simps intro!: let_steps bind_steps [OF assms] within_Some go)
qed simp

lemma member_loop_ends:
  assumes "ready b c"
  shows "ahead p < b \<Longrightarrow> ahead p < m \<Longrightarrow> ends (ahead p) p (member_loop m c fs p)"
proof (induction m arbitrary: fs p)
  case (Suc m)
  have dec: "ends (ahead q) q (member_declarators (c_fuel c) c base fs q)" if "ahead q < b" for q base fs
    using member_declarators_ends [OF assms that] ready_fuel [OF assms] that by simp
  show ?case
    unfolding member_loop.simps Let_def
  proof (rule within_let [OF peek_goes within_start(1)])
    fix t q
    assume q: "peek p = (t, q)" "within p (ahead p) q"
    show "ends (ahead p) p (if tk_kind t = TOK_RBRACE \<or> tk_kind t = TOK_EOF then Some (fs, q) else
        c_spec c q \<bind> (\<lambda>(ds, p). case base_type ds p of (base, p) \<Rightarrow>
          member_declarators (c_fuel c) c base fs p \<bind> (\<lambda>(fs, p). member_loop m c fs (expect_tok TOK_SEMICOLON p))))"
    proof (cases "tk_kind t = TOK_RBRACE \<or> tk_kind t = TOK_EOF")
      case False
      then have ne: "first p \<noteq> TOK_EOF" using peek_spec(3) [OF q(1)] by simp
      have go: "ends (rest p) p (member_loop m c fs (expect_tok TOK_SEMICOLON u))" if "within p (ahead p) u" for u fs
        by (rule ends_loop [OF ne within_rest(2) [OF that]]) (rule Suc.IH; use Suc.prems in simp)
      show ?thesis
        by (simp only: False if_False, rule ends_weaken)
          (use Suc.prems q(2) in \<open>auto simp: within_def [of p "ahead p"] intro!: bind_spec [OF assms] let_steps within_bind [OF dec] go\<close>)
    qed (use q(2) within_Some in simp)
  qed
qed simp

lemma types_update_keeps: "keeps p q \<Longrightarrow> keeps p (q\<lparr>ps_types := type_seal_struct (ps_types q) t fs\<rparr>)"
  "keeps p q \<Longrightarrow> keeps p (q\<lparr>ps_types := type_seal_union (ps_types q) t fs\<rparr>)"
  "keeps p q \<Longrightarrow> keeps p (q\<lparr>ps_types := complete_enum t ecs (ps_types q)\<rparr>)"
  "keeps p q \<Longrightarrow> keeps p (q\<lparr>ps_types := patch_hole t u (ps_types q)\<rparr>)"
  by (auto simp: keeps_def type_seal_struct_def type_seal_union_def complete_enum_def patch_hole_def Let_def
      split: type_body.split)

lemma within_update:
  "within p n q \<Longrightarrow> within p n (q\<lparr>ps_types := type_seal_struct (ps_types q) t fs\<rparr>)"
  "within p n q \<Longrightarrow> within p n (q\<lparr>ps_types := type_seal_union (ps_types q) t fs\<rparr>)"
  "within p n q \<Longrightarrow> within p n (q\<lparr>ps_types := complete_enum t ecs (ps_types q)\<rparr>)"
  "within p n q \<Longrightarrow> within p n (q\<lparr>ps_types := patch_hole t u (ps_types q)\<rparr>)"
  "within p n q \<Longrightarrow> within p n (q\<lparr>ps_scope := scope_define_in x k t (ps_scope q)\<rparr>)"
  by (simp_all add: within_def types_update_keeps scope_update_keeps)

lemma struct_union_ends:
  assumes "ready b c" "rest p < b"
  shows "ends (rest p) p (parse_struct_union c u p)"
proof -
  have tag: "goes q (parse_tag k (if u then type_union else type_struct) q)" for q k
    by (rule parse_tag_goes) (simp add: types_grow)
  have loop: "ends (ahead q) q (member_loop (c_fuel c) c fs q)" if "within p (rest p) q" for q fs
    using member_loop_ends [OF assms(1)] ready_fuel [OF assms(1)] assms(2) that by (simp add: within_def)
  show ?thesis
    unfolding parse_struct_union_def Let_def
    by (rule within_let [OF tag within_start(2)])
      (use assms(2) in \<open>auto intro!: let_steps within_bind [OF loop] bind_steps [OF assms(1)] within_into within_Some within_update\<close>)
qed

lemma enum_loop_ends:
  assumes "ready b c"
  shows "ahead p < b \<Longrightarrow> ahead p < m \<Longrightarrow> ends (ahead p) p (enum_loop m c v ecs p)"
proof (induction m arbitrary: v ecs p)
  case (Suc m)
  have go: "ends (ahead p) p (enum_loop m c v ecs s)" if "within p (ahead p) s" "ahead s < ahead p" for s v ecs
    by (rule ends_lift [OF Suc.IH that(1)]) (use Suc.prems that in simp_all)
  show ?case
    unfolding enum_loop.simps Let_def
  proof (rule within_let [OF peek_goes within_start(1)])
    fix t q
    assume q: "peek p = (t, q)" "within p (ahead p) q"
    have bad: "ends (ahead p) p (enum_loop m c v ecs (skip_tok (perror t msg q)))" if "tk_kind t \<noteq> TOK_EOF" for msg
    proof -
      have ne: "first p \<noteq> TOK_EOF" using peek_spec(3) [OF q(1)] that by simp
      have "keeps p (perror t msg q)" using perror_keeps [of p q t] q(2) peek_spec(2) [OF q(1)] by (simp add: within_def)
      then have "within p (rest p) (skip_tok (perror t msg q))"
        using within_rest(1) [of p "ahead p"] by (simp add: within_def keeps_ahead)
      then show ?thesis by (rule ends_weaken [OF ends_loop [OF ne]]) (rule Suc.IH; use Suc.prems in simp)
    qed
    show "ends (ahead p) p (if tk_kind t = TOK_RBRACE \<or> tk_kind t = TOK_EOF then Some (ecs, q)
        else if tk_kind t \<noteq> TOK_IDENT then enum_loop m c v ecs (skip_tok (perror t ''expected enumerator name'' q))
        else case advance q of (t, pa) \<Rightarrow> case match_tok TOK_ASSIGN pa of (eq, p) \<Rightarrow>
          (if eq then c_expr c 10 p \<bind> (\<lambda>(e, p). Some (parser_const_eval e, p)) else Some (v, p)) \<bind>
          (\<lambda>(val, p). case match_tok TOK_COMMA (p\<lparr>ps_scope := scope_define_in (tok_intern pa t) SYM_ENUM_CONST type_int (ps_scope p)\<rparr>) of
             (comma, p) \<Rightarrow> if comma then enum_loop m c (val + 1) (ecs @ [\<lparr>ec_name = tok_intern pa t, ec_value = sint val\<rparr>]) p
               else Some (ecs @ [\<lparr>ec_name = tok_intern pa t, ec_value = sint val\<rparr>], p)))"
      using q(2) Suc.prems bad
      by (auto simp: bind_simps intro!: let_steps [where n = "ahead p"] bind_expr [OF assms, where n = "ahead p"]
          within_Some go within_update)
  qed
qed simp

lemma enum_ends:
  assumes "ready b c" "rest p < b"
  shows "ends (rest p) p (parse_enum c p)"
proof -
  have tag: "goes q (parse_tag SYM_ENUM_TAG type_enum q)" for q
    by (rule parse_tag_goes) (rule types_grow)
  have loop: "ends (ahead q) q (enum_loop (c_fuel c) c v ecs q)" if "within p (rest p) q" for q v ecs
    using enum_loop_ends [OF assms(1)] ready_fuel [OF assms(1)] assms(2) that by (simp add: within_def)
  show ?thesis
    unfolding parse_enum_def Let_def
    by (rule within_let [OF tag within_start(2)])
      (use assms(2) in \<open>auto intro!: let_steps within_bind [OF loop] bind_steps [OF assms(1)] within_into within_Some within_update\<close>)
qed

subsection \<open>Declaration specifiers\<close>

lemma base_spec_ends:
  assumes "ready b c" "rest p < b"
  shows "ends (rest p) p (parse_base_spec c k p)"
proof -
  have ptr: "goes p (with_types (\<lambda>tt. type_pointer adr tt t q) p)" for adr t q
    by (rule with_types_goes) (rule types_grow)
  have "ends (rest p) p (case with_types (\<lambda>tt. type_pointer (ps_adr p) tt type_void QUAL_NONE) p of (t, p) \<Rightarrow> Some (t, skip_tok p))"
    by (rule within_let [OF ptr within_start(1)]) (rule within_Some [OF within_rest(1)])
  moreover have "ends (rest p) p (case match_tok TOK_LPAREN (skip_tok p) of (b, p) \<Rightarrow>
      (if b then skip_parens (c_fuel c) 1 p else Some p) \<bind> (\<lambda>p. Some (type_int, p)))"
    using assms(2) within_start(2)
    by (auto simp: bind_simps intro!: let_steps [where n = "rest p"] bind_parens [OF assms(1), where n = "rest p"] within_Some)
  ultimately show ?thesis
    using struct_union_ends [OF assms] enum_ends [OF assms] by (simp add: parse_base_spec_def Let_def)
qed

text \<open>The tokens at which the loop over the specifiers goes on.\<close>

lemma is_type_start_cases:
  "is_type_start p t \<longleftrightarrow> storage_of (tk_kind t) \<noteq> None \<or> qual_of (tk_kind t) \<noteq> None \<or> sole_flag (tk_kind t) \<noteq> None
     \<or> own_flag (tk_kind t) \<noteq> None \<or> tk_kind t = TOK_INLINE \<or> tk_kind t = TOK_LONG \<or> is_base_spec (tk_kind t)
     \<or> is_attribute (tk_kind t) \<or> tk_kind t = TOK_IDENT \<and> is_typedef_name p (tok_intern p t)"
  by (auto simp: is_type_start_def storage_of_def qual_of_def sole_flag_def own_flag_def is_base_spec_def)

lemma not_type_start_EOF: "is_type_start p t \<Longrightarrow> tk_kind t \<noteq> TOK_EOF"
  by (auto simp: is_type_start_def is_attribute_def)

lemma spec_loop_stop: "at_tok t p \<Longrightarrow> \<not> is_type_start p t \<Longrightarrow> spec_loop (Suc m) c ds seen p = Some (ds, p)"
  by (auto simp: is_type_start_cases at_tok_first Let_def is_typedef_name_def split: option.splits)

lemma spec_loop_ends:
  assumes "ready b c"
  shows "ahead p \<le> b \<Longrightarrow> ahead p < m \<Longrightarrow> ends (ahead p) p (spec_loop m c ds seen p)"
    and "ahead p \<le> b \<Longrightarrow> ahead p < m \<Longrightarrow> \<not> seen \<Longrightarrow> peek p = (t, q) \<Longrightarrow> is_type_start q t \<Longrightarrow>
      ends (rest p) p (spec_loop m c ds seen p)"
proof (induction m arbitrary: ds seen p t q)
  case (Suc m)
  have step: "(if is_type_start q t \<and> (tk_kind t = TOK_IDENT \<longrightarrow> \<not> seen) then ends (rest p) p (spec_loop (Suc m) c ds seen p)
      else spec_loop (Suc m) c ds seen p = Some (ds, q))"
    if pr: "ahead p \<le> b" "ahead p < Suc m" "peek p = (t, q)" for p t q ds seen
  proof (cases "is_type_start q t")
    case False
    then show ?thesis
      using spec_loop_stop [OF peek_spec(2) [OF pr(3)] False, of m c ds seen] at_tok_first(2) [OF peek_spec(2) [OF pr(3)]]
      by (simp add: pr(3))
  next
    case True
    note q = peek_spec(1-3) [OF pr(3)]
    have ne: "first p \<noteq> TOK_EOF" using not_type_start_EOF [OF True] q(3) by simp
    have rb: "rest p < b" using rest_less [OF ne] pr(1) by simp
    have go: "ends (rest p) p (spec_loop m c ds seen s)" if "within p (rest p) s" for s ds seen
      by (rule ends_loop [OF ne that]) (rule Suc.IH; use pr in simp)
    have w: "within p (ahead p) q" using q(1) keeps_ahead by (simp add: within_def)
    have 1: "ends (rest p) p (spec_loop m c ds seen (skip_tok q))" for ds seen
      by (rule go [OF within_rest(1) [OF w]])
    have "within p (ahead p) (perror t msg q)" for msg
      using perror_keeps [of p q t] q keeps_ahead by (simp add: within_def)
    then have 2: "ends (rest p) p (spec_loop m c ds seen (skip_tok (perror t msg q)))" for msg ds seen
      using go within_rest(1) by blast
    have rq: "rest q \<le> rest p" using keeps_rest [OF q(1)] .
    have 3: "ends (rest p) p (parse_base_spec c k q \<bind> (\<lambda>(ty, p). spec_loop m c (f ty) True p))" for k f
    proof (rule ends_bind [OF base_spec_ends [OF assms] q(1)])
      fix x s assume "keeps p s" "ahead s \<le> rest q"
      then show "ends (rest p) p (spec_loop m c (f x) True s)" using rq by (intro go) (simp add: within_def)
    qed (use rq rb in simp)
    have 4: "ends (rest p) p (skip_attributes (c_fuel c) q \<bind> spec_loop m c ds seen)" if "is_attribute (tk_kind t)" for ds seen
    proof (rule ends_at_bind [OF skip_attributes_eats q(1)])
      show "ahead q < c_fuel c" using assms pr(1) keeps_ahead [OF q(1)] by (simp add: ready_def)
      show "is_attribute (first q)" using that at_tok_first(1) [OF q(2)] by simp
      fix s assume "keeps p s" "ahead s \<le> rest q"
      then show "ends (rest p) p (spec_loop m c ds seen s)" using rq by (intro go) (simp add: within_def)
    qed
    let ?k = "tk_kind t"
    consider (st) sc where "storage_of ?k = Some sc"
      | (qu) r where "storage_of ?k = None" "qual_of ?k = Some r"
      | (so) f where "storage_of ?k = None" "qual_of ?k = None" "sole_flag ?k = Some f"
      | (ow) f where "storage_of ?k = None" "qual_of ?k = None" "sole_flag ?k = None" "own_flag ?k = Some f"
      | (ot) "storage_of ?k = None" "qual_of ?k = None" "sole_flag ?k = None" "own_flag ?k = None"
      by fastforce
    then show ?thesis
    proof cases
      case st
      then have "?k \<noteq> TOK_IDENT" by (auto simp: storage_of_def)
      then show ?thesis using True st by (simp add: pr(3) Let_def 1 2)
    next
      case qu
      then have "?k \<noteq> TOK_IDENT" by (auto simp: qual_of_def)
      then show ?thesis using True qu by (simp add: pr(3) Let_def 1)
    next
      case so
      then have "?k \<noteq> TOK_IDENT" by (auto simp: sole_flag_def)
      then show ?thesis using True so by (simp add: pr(3) Let_def 1 2)
    next
      case ow
      then have "?k \<noteq> TOK_IDENT" by (auto simp: own_flag_def)
      then show ?thesis using True ow by (simp add: pr(3) Let_def 1 2)
    next
      case ot
      show ?thesis
      proof (cases "?k = TOK_IDENT")
        case True
        then obtain sy where "scope_lookup_chain (ps_scope q) (tok_intern q t) = Some sy" "py_kind sy = SYM_TYPEDEF"
          using \<open>is_type_start q t\<close> ot
          by (auto simp: is_type_start_cases is_typedef_name_def is_base_spec_def is_attribute_def split: option.splits)
        then show ?thesis using ot \<open>is_type_start q t\<close> True
          by (simp add: pr(3) Let_def 1 is_base_spec_def is_attribute_def)
      next
        case False
        then have "?k = TOK_INLINE \<or> ?k = TOK_LONG \<or> is_base_spec ?k \<or> is_attribute ?k"
          using True ot by (simp add: is_type_start_cases)
        then show ?thesis using True False ot 4 by (auto simp: pr(3) Let_def 1 2 3)
      qed
    qed
  qed
  {
    case 1
    obtain t q where e: "peek p = (t, q)" by fastforce
    show ?case
      using step [OF 1 e, of seen ds] ends_weaken peek_spec(1) [OF e] keeps_ahead by (auto split: if_splits)
  next
    case 2
    then show ?case using step [of p t q seen ds] by simp
  }
qed simp_all

lemma decl_spec_ok:
  assumes "ready b c" "ahead p \<le> b"
  shows "ends (ahead p) p (parse_decl_spec c p)"
    and "at_tok t p \<Longrightarrow> is_type_start p t \<Longrightarrow> ends (rest p) p (parse_decl_spec c p)"
proof -
  note f = ready_fuel [OF assms]
  show "ends (ahead p) p (parse_decl_spec c p)"
    using spec_loop_ends(1) [OF assms f] by (simp add: parse_decl_spec_def)
  show "ends (rest p) p (parse_decl_spec c p)" if "at_tok t p" "is_type_start p t"
    unfolding parse_decl_spec_def
    by (rule spec_loop_ends(2) [OF assms f _ at_tok_first(2) [OF that(1)] that(2)]) simp
qed

subsection \<open>Declarators\<close>

lemma param_loop_ends:
  assumes "ready b c"
  shows "ahead p < b \<Longrightarrow> ahead p < m \<Longrightarrow> ends (ahead p) p (param_loop m c ps p)"
proof (induction m arbitrary: ps p)
  case (Suc m)
  have go: "ends (ahead p) p (param_loop m c ps s)" if "within p (ahead p) s" "ahead s < ahead p" for s ps
    by (rule ends_lift [OF Suc.IH that(1)]) (use Suc.prems that in simp_all)
  show ?case
    using Suc.prems within_start(1) [of p]
    by (auto simp: bind_simps intro!: let_steps [where n = "ahead p"] bind_spec [OF assms, where n = "ahead p"]
        bind_decl [OF assms, where n = "ahead p"] within_Some within_into go)
qed simp

lemma params_ends:
  assumes "ready b c" "ahead p < b"
  shows "ends (ahead p) p (parse_params c p)"
proof -
  have loop: "ends (ahead q) q (param_loop (c_fuel c) c ps q)" if "within p (ahead p) q" for q ps
    by (rule param_loop_ends [OF assms(1)]) (use assms that in \<open>auto simp: within_def ready_def\<close>)
  show ?thesis
    using within_start(1) [of p]
    by (auto simp: parse_params_def bind_simps intro!: let_steps [where n = "ahead p"] within_bind2 [OF loop, where n = "ahead p"]
        within_Some within_into)
qed

lemma suffix_ends:
  assumes "ready b c"
  shows "ahead p \<le> b \<Longrightarrow> ahead p < m \<Longrightarrow> ends (ahead p) p (parse_declarator_suffix m c t p)"
proof (induction m arbitrary: t p)
  case (Suc m)
  have arr: "goes q (with_types (\<lambda>tt. type_array_unsized adr tt t) q)" "goes q (with_types (\<lambda>tt. type_array adr tt t n) q)"
    "goes q (with_types (\<lambda>tt. type_func adr tt t ps n v) q)" for q adr t n ps v
    by (rule with_types_goes, rule types_grow)+
  obtain u q where e: "peek p = (u, q)" by fastforce
  note q = peek_spec [OF e]
  have w: "within p (ahead p) q" using q(1) keeps_ahead by (simp add: within_def)
  show ?case
  proof (cases "tk_kind u = TOK_LBRACKET \<or> tk_kind u = TOK_LPAREN")
    case True
    then have ne: "first p \<noteq> TOK_EOF" using q(3) by auto
    have rb: "rest p < b" using rest_less [OF ne] Suc.prems by simp
    have go: "ends (rest p) p (parse_declarator_suffix m c t s)" if "within p (rest p) s" for s t
      by (rule ends_loop [OF ne that]) (rule Suc.IH; use Suc.prems in simp)
    have ps: "ends (ahead s) s (parse_params c s)" if "within p (rest p) s" for s
      by (rule params_ends [OF assms]) (use that rb in \<open>simp add: within_def\<close>)
    have "ends (rest p) p (parse_declarator_suffix (Suc m) c t p)"
      using True within_rest(1) [OF w] rb
      by (auto simp: e bind_simps intro!: let_steps [where n = "rest p"] bind_expr [OF assms, where n = "rest p"]
          within_bind2 [OF ps, where n = "rest p"] within_let [OF arr(1), where n = "rest p"]
          within_let [OF arr(2), where n = "rest p"] within_let [OF arr(3), where n = "rest p"] within_into go)
    then show ?thesis by (rule ends_weaken)
  qed (use w in \<open>simp add: e Let_def within_Some\<close>)
qed simp

lemma pointer_quals_ends:
  assumes "ready b c"
  shows "ahead p \<le> b \<Longrightarrow> ahead p < m \<Longrightarrow> ends (ahead p) p (pointer_quals m c r p)"
proof (induction m arbitrary: r p)
  case (Suc m)
  obtain u q where e: "peek p = (u, q)" by fastforce
  note q = peek_spec [OF e]
  have w: "within p (ahead p) q" using q(1) keeps_ahead by (simp add: within_def)
  show ?case
  proof (cases "qual_of (tk_kind u) \<noteq> None \<or> tk_kind u \<in> {TOK_ATTRIBUTE, TOK_ASM, TOK_NONNULL, TOK_NULLABLE}")
    case True
    then have ne: "first p \<noteq> TOK_EOF" using q(3) by (auto simp: qual_of_def)
    have go: "ends (rest p) p (pointer_quals m c r s)" if "within p (rest p) s" for s r
      by (rule ends_loop [OF ne that]) (rule Suc.IH; use Suc.prems in simp)
    have at: "ends (rest p) p (skip_attributes (c_fuel c) q \<bind> pointer_quals m c r)" if "is_attribute (tk_kind u)"
    proof (rule ends_at_bind [OF skip_attributes_eats q(1)])
      show "is_attribute (first q)" using that at_tok_first(1) [OF q(2)] by simp
      show "ahead q < c_fuel c" using ready_fuel [OF assms] w Suc.prems by (simp add: within_def)
      fix s assume "keeps p s" "ahead s \<le> rest q"
      then show "ends (rest p) p (pointer_quals m c r s)" using keeps_rest [OF q(1)] by (intro go) (simp add: within_def)
    qed
    show ?thesis
      using True go [OF within_rest(1) [OF w]] at
      by (auto simp: e Let_def is_attribute_def intro!: ends_weaken split: option.split)
  qed (use w in \<open>auto simp: e Let_def within_Some split: option.split\<close>)
qed simp

lemma pointer_stars_ends:
  assumes "ready b c"
  shows "ahead p \<le> b \<Longrightarrow> ahead p < m \<Longrightarrow> ends (ahead p) p (pointer_stars m c qs p)"
proof (induction m arbitrary: qs p)
  case (Suc m)
  obtain u q where e: "peek p = (u, q)" by fastforce
  note q = peek_spec [OF e]
  have w: "within p (ahead p) q" using q(1) keeps_ahead by (simp add: within_def)
  show ?case
  proof (cases "(tk_kind u = TOK_STAR \<or> tk_kind u = TOK_CARET) \<and> length qs < 16")
    case True
    then have ne: "first p \<noteq> TOK_EOF" using q(3) by auto
    have rb: "rest p \<le> b" "rest p < m" using rest_less [OF ne] Suc.prems by simp_all
    have go: "ends (rest p) p (pointer_stars m c qs s)" if "within p (rest p) s" for s qs
      by (rule ends_loop [OF ne that]) (rule Suc.IH; use Suc.prems in simp)
    have qu: "ends (ahead s) s (pointer_quals m c QUAL_NONE s)" if "within p (rest p) s" for s
      by (rule pointer_quals_ends [OF assms]) (use that rb in \<open>simp_all add: within_def\<close>)
    have "ends (rest p) p (pointer_quals m c QUAL_NONE (skip_tok q) \<bind> (\<lambda>(q, p). pointer_stars m c (qs @ [q]) p))"
      by (rule within_bind [OF qu, where n = "rest p"]) (use within_rest(1) [OF w] go in simp_all)
    then show ?thesis using True ends_weaken by (simp add: e Let_def)
  qed (use w in \<open>auto simp: e Let_def within_Some\<close>)
qed simp

lemma wrap_goes: "goes p (wrap_pointers qs base p)"
proof (induction qs)
  case (Cons q qs)
  obtain t s where e: "wrap_pointers qs base p = (t, s)" by fastforce
  have "goes s (with_types (\<lambda>tt. type_pointer (ps_adr s) tt t q) s)" by (rule with_types_goes) (rule types_grow)
  then show ?case using Cons keeps_trans by (auto simp: e goes_def)
qed (simp add: goes_def)

lemma declarator_ends:
  assumes "ready b c" "ahead p \<le> b"
  shows "ends (ahead p) p (parse_declarator c base p)"
proof -
  let ?n = "ahead p"
  have st: "ends (ahead q) q (pointer_stars (c_fuel c) c qs q)" if "within p ?n q" for q qs
    by (rule pointer_stars_ends [OF assms(1)]) (use that assms ready_fuel [OF assms] in \<open>simp_all add: within_def\<close>)
  have su: "ends (ahead q) q (parse_declarator_suffix (c_fuel c) c t q)" if "within p ?n q" for q t
    by (rule suffix_ends [OF assms(1)]) (use that assms ready_fuel [OF assms] in \<open>simp_all add: within_def\<close>)
  have at: "ends ?n p (skip_attributes (c_fuel c) q \<bind> k)"
    if "within p ?n q" "\<And>s. within p ?n s \<Longrightarrow> ends ?n p (k s)" for q and k :: "parser \<Rightarrow> ((tid \<times> decl_name) \<times> parser) option"
    by (rule bind_attributes [OF assms(1) that(1) assms(2) that(2)])
  have fin: "ends ?n p (skip_attributes (c_fuel c) s \<bind> (\<lambda>p. Some ((inner, result), p)))"
    if "within p ?n s" for s and inner :: tid and result :: decl_name
    by (rule at [OF that]) (rule within_Some)
  have grp: "ends ?n p (c_declarator c null_type (skip_tok q) \<bind> (\<lambda>((inner, result), p).
      parse_declarator_suffix (c_fuel c) c sb (expect_tok TOK_RPAREN p) \<bind> (\<lambda>(suffix_type, p).
        Some (if inner = null_type then ((suffix_type, result), p)
              else ((inner, result), p\<lparr>ps_types := patch_hole inner suffix_type (ps_types p)\<rparr>)))))"
    if q: "within p ?n q" and t: "first q \<noteq> TOK_EOF" for q sb
  proof -
    have "rest q < b" using rest_less [OF t] q assms(2) by (simp add: within_def)
    moreover have "keeps p (skip_tok q)" "ahead (skip_tok q) \<le> rest q"
      using keeps_into(1) q skip_tok_rest by (simp_all add: within_def)
    ultimately have d: "ends (ahead (skip_tok q)) (skip_tok q) (c_declarator c null_type (skip_tok q))"
      using assms(1) by (simp add: ready_def decl_ok_def)
    show ?thesis
      by (rule within_bind2 [OF d, where n = ?n])
        (use q in \<open>auto intro!: within_bind [OF su, where n = ?n] within_into within_Some within_update\<close>)
  qed
  have alt: "ends ?n p (case peek q of (t, p) \<Rightarrow>
       (if tk_kind t = TOK_LPAREN \<and> \<not> is_type_start p t
        then c_declarator c null_type (skip_tok p) \<bind> (\<lambda>((inner, result), p).
          parse_declarator_suffix (c_fuel c) c sb (expect_tok TOK_RPAREN p) \<bind> (\<lambda>(suffix_type, p).
            Some (if inner = null_type then ((suffix_type, result), p)
                  else ((inner, result), p\<lparr>ps_types := patch_hole inner suffix_type (ps_types p)\<rparr>))))
        else if tk_kind t = TOK_IDENT
        then (case advance p of (t, p) \<Rightarrow> parse_declarator_suffix (c_fuel c) c sb p \<bind> (\<lambda>(inner, p).
                Some ((inner, \<lparr>dn_name = Some (tok_intern p t), dn_line = tk_line t, dn_col = tk_col t\<rparr>), p)))
        else parse_declarator_suffix (c_fuel c) c sb p \<bind> (\<lambda>(inner, p). Some ((inner, no_name), p))) \<bind>
       (\<lambda>((inner, result), p). skip_attributes (c_fuel c) p \<bind> (\<lambda>p. Some ((inner, result), p))))"
    if "within p ?n q" for q sb
  proof (rule within_let [OF peek_goes that])
    fix t s assume s: "peek q = (t, s)" "within p ?n s"
    let ?r = "if tk_kind t = TOK_LPAREN \<and> \<not> is_type_start s t
        then c_declarator c null_type (skip_tok s) \<bind> (\<lambda>((inner, result), p).
          parse_declarator_suffix (c_fuel c) c sb (expect_tok TOK_RPAREN p) \<bind> (\<lambda>(suffix_type, p).
            Some (if inner = null_type then ((suffix_type, result), p)
                  else ((inner, result), p\<lparr>ps_types := patch_hole inner suffix_type (ps_types p)\<rparr>))))
        else if tk_kind t = TOK_IDENT
        then (case advance s of (t, p) \<Rightarrow> parse_declarator_suffix (c_fuel c) c sb p \<bind> (\<lambda>(inner, p).
                Some ((inner, \<lparr>dn_name = Some (tok_intern p t), dn_line = tk_line t, dn_col = tk_col t\<rparr>), p)))
        else parse_declarator_suffix (c_fuel c) c sb s \<bind> (\<lambda>(inner, p). Some ((inner, no_name), p))"
    have "first s = tk_kind t" using at_tok_first(1) [OF peek_spec(2) [OF s(1)]] .
    then have "ends ?n p ?r"
      using s(2) grp [OF s(2)]
      by (auto intro!: let_steps [where n = ?n] within_bind [OF su, where n = ?n] within_Some)
    then show "ends ?n p (?r \<bind> (\<lambda>((inner, result), p). skip_attributes (c_fuel c) p \<bind> (\<lambda>p. Some ((inner, result), p))))"
      by (rule ends_bind2 [OF _ keeps_self]) (rule fin; simp add: within_def)
  qed
  show ?thesis
    unfolding parse_declarator_def Let_def
    by (rule at [OF within_start(1)], rule within_bind [OF st], assumption, assumption, rule at, assumption,
        rule within_let [OF wrap_goes], assumption, rule alt)
qed

end
