(* ===== verification/ParserTermExpr.thy ===== *)
theory ParserTermExpr
  imports ParserTerm
begin

section \<open>Expressions and initializers end\<close>

subsection \<open>Steps within the input that is left\<close>

lemma within_init: "ahead p \<le> n \<Longrightarrow> within p n p"
  by (simp add: within_def)

lemma bind_expr_rest:
  assumes "ready b c" "within p n q" "n < b" "0 \<le> bp"
  shows "ends n p (c_expr c bp q)"
proof (rule ends_lift [OF _ assms(2)])
  have "expr_ok c q" using assms by (simp add: ready_def within_def)
  then show "ends (ahead q) q (c_expr c bp q)" using assms(4) ends_weaken by (auto simp: expr_ok_def)
qed

lemma type_name_ends:
  assumes "ready b c" "ahead p < b"
  shows "ends (ahead p) p (type_name c p)"
  using assms within_start(1) [of p]
  by (auto simp: type_name_def Let_def intro!: bind_spec [OF assms(1), where n = "ahead p"] let_steps [where n = "ahead p"]
      bind_decl [OF assms(1), where n = "ahead p"] within_Some within_into)

lemma perror_ends: "peek p = (t, q) \<Longrightarrow> within p (ahead p) (perror t m q)"
  using perror_keeps [of p q t t m] peek_spec(1,2) [of p t q] keeps_ahead perror_same(1) by (simp add: within_def)

subsection \<open>Initializers\<close>

lemma init_item_ends:
  assumes "ready b c" "ahead p < b"
  shows "ends (ahead p) p (parse_init_item c p)"
proof -
  have i: "ends (ahead q) q (c_init c q)" if "within p (ahead p) q" for q
    by (rule ends_weaken) (use assms that in \<open>simp add: ready_def within_def init_ok_def\<close>)
  show ?thesis
    using assms within_start(1) [of p]
    by (auto simp: parse_init_item_def Let_def intro!: let_steps [where n = "ahead p"] within_bind [OF i, where n = "ahead p"]
        ends_lift [OF i, where n = "ahead p"] bind_expr [OF assms(1), where n = "ahead p"] within_Some within_into)
qed

lemma init_loop_ends:
  assumes "ready b c"
  shows "ahead p < b \<Longrightarrow> ahead p < m \<Longrightarrow> ends (ahead p) p (init_loop m c items p)"
proof (induction m arbitrary: items p)
  case (Suc m)
  have go: "ends (ahead p) p (init_loop m c items s)" if "within p (ahead p) s" "ahead s < ahead p" for s items
    by (rule ends_lift [OF Suc.IH that(1)]) (use Suc.prems that in simp_all)
  have item: "ends (ahead q) q (parse_init_item c q)" if "within p (ahead p) q" for q
    by (rule init_item_ends [OF assms]) (use Suc.prems that in \<open>simp add: within_def\<close>)
  show ?case
    using Suc.prems within_start(1) [of p]
    by (auto simp: bind_simps intro!: let_steps [where n = "ahead p"] within_bind [OF item, where n = "ahead p"] within_Some go)
qed simp

lemma init_list_ends:
  assumes "ready b c" "rest p < b"
  shows "ends (rest p) p (parse_init_list c p)"
proof -
  obtain lb q where e: "expect TOK_LBRACE p = (lb, q)" by fastforce
  then have q: "within p (rest p) q" using within_start(3) [of p TOK_LBRACE] by (simp add: expect_tok_def)
  have loop: "ends (ahead q) q (init_loop (c_fuel c) c items q)" if "within p (rest p) q" for q items
    by (rule init_loop_ends [OF assms(1)]) (use assms that ready_fuel [OF assms(1), of q] in \<open>auto simp: within_def\<close>)
  show ?thesis
    using q by (auto simp: parse_init_list_def e intro!: within_bind [OF loop, where n = "rest p"] within_Some within_into)
qed

subsection \<open>Expressions\<close>

lemma tok_lbp_range: "0 \<le> tok_lbp k" "is_assign_op k \<Longrightarrow> tok_lbp k = 20" "tok_lbp TOK_EOF = 0"
  by (auto simp: tok_lbp_def is_assign_op_def)

lemma sizeof_ends:
  assumes "ready b c" "within p n q" "n < b"
  shows "ends n p (parse_sizeof c t q)"
proof -
  have ty: "ends (ahead s) s (type_name c s)" if "within p n s" for s
    by (rule type_name_ends [OF assms(1)]) (use that assms(3) in \<open>simp add: within_def\<close>)
  show ?thesis
    using assms by (auto simp: parse_sizeof_def Let_def intro!: let_steps [where n = n] within_bind [OF ty, where n = n]
        bind_expr [OF assms(1), where n = n] within_Some within_into)
qed

lemma paren_ends:
  assumes "ready b c" "within p n q" "n < b"
  shows "ends n p (parse_paren c t q)"
proof -
  have ty: "ends (ahead s) s (type_name c s)" if "within p n s" for s
    by (rule type_name_ends [OF assms(1)]) (use that assms(3) in \<open>simp add: within_def\<close>)
  have il: "ends (ahead s) s (parse_init_list c s)" if "within p n s" for s
    by (rule ends_weaken [OF init_list_ends [OF assms(1)]]) (use that assms(3) rest_le [of s] in \<open>simp add: within_def\<close>)
  show ?thesis
    using assms by (auto simp: parse_paren_def Let_def intro!: let_steps [where n = n] within_bind [OF ty, where n = n]
        within_bind [OF il, where n = n] bind_expr [OF assms(1), where n = n] within_Some within_into)
qed

lemma within_perror: "within p (rest p) q \<Longrightarrow> within p (rest p) (perror t m q)"
  using perror_keeps [of p q t t m] by (simp add: within_def perror_same)

lemma literal_of_EOF: "tk_kind t = TOK_EOF \<Longrightarrow> literal_of p t = None \<and> \<not> is_prefix_op (tk_kind t)"
  by (simp add: literal_of_def is_prefix_op_def)

lemma nud_ends:
  assumes "ready b c" "within p (rest p) q" "tk_kind t \<noteq> TOK_EOF \<Longrightarrow> rest p < b"
  shows "ends (rest p) p (nud c t q)"
proof (cases "tk_kind t = TOK_EOF")
  case True
  then show ?thesis using literal_of_EOF [OF True] assms(2) by (simp add: nud_def within_Some within_perror)
next
  case False
  note b = assms(3) [OF False]
  have ty: "ends (ahead s) s (type_name c s)" if "within p (rest p) s" for s
    by (rule type_name_ends [OF assms(1)]) (use that b in \<open>simp add: within_def\<close>)
  have un: "ends (rest p) p (c_expr c 140 q \<bind> (\<lambda>(e, s). Some (f e, s)))" for f
    by (rule bind_expr [OF assms(1,2) b]) (simp_all add: within_Some)
  have al: "ends (rest p) p (type_name c (expect_tok TOK_LPAREN q) \<bind> (\<lambda>(ty, s). Some (f ty s, s)))" for f
    by (rule within_bind [OF ty _ within_Some]) (use assms(2) within_into in simp_all)
  show ?thesis
    using un al sizeof_ends [OF assms(1,2) b] paren_ends [OF assms(1,2) b] bind_expr_rest [OF assms(1,2) b] assms(2)
    by (auto simp: nud_def within_Some within_perror split: option.split)
qed

lemma arg_loop_ends:
  assumes "ready b c"
  shows "ahead p < b \<Longrightarrow> ahead p < m \<Longrightarrow> ends (ahead p) p (arg_loop m c args p)"
proof (induction m arbitrary: args p)
  case (Suc m)
  have go: "ends (ahead p) p (arg_loop m c args s)" if "within p (ahead p) s" "ahead s < ahead p" for s args
    by (rule ends_lift [OF Suc.IH that(1)]) (use Suc.prems that in simp_all)
  show ?case
    using Suc.prems within_start(1) [of p] tok_lbp_range(1)
    by (auto simp: bind_simps intro!: let_steps [where n = "ahead p"] bind_expr [OF assms, where n = "ahead p"] within_Some go)
qed simp

lemma args_ends:
  assumes "ready b c" "ahead p < b"
  shows "ends (ahead p) p (parse_args c p)"
proof -
  have loop: "ends (ahead q) q (arg_loop (c_fuel c) c args q)" if "within p (ahead p) q" for q args
    by (rule arg_loop_ends [OF assms(1)]) (use assms that ready_fuel [OF assms(1), of q] in \<open>auto simp: within_def\<close>)
  show ?thesis
    using within_start(1) [of p]
    by (auto simp: parse_args_def bind_simps intro!: let_steps [where n = "ahead p"] within_bind [OF loop, where n = "ahead p"]
        within_Some within_into)
qed

lemma led_ends:
  assumes "ready b c" "within p (rest p) q" "rest p < b"
  shows "ends (rest p) p (led c left t q)"
proof -
  let ?k = "tk_kind t"
  have args: "ends (ahead s) s (parse_args c s)" if "within p (rest p) s" for s
    by (rule args_ends [OF assms(1)]) (use that assms(3) in \<open>simp add: within_def\<close>)
  have bin: "ends (rest p) p (c_expr c bp q \<bind> (\<lambda>(e, s). Some (f e, s)))" if "0 \<le> bp" for f bp
    by (rule bind_expr [OF assms that within_Some])
  have tern: "ends (rest p) p (c_expr c 0 q \<bind> (\<lambda>(th, p). c_expr c (tok_lbp TOK_QUESTION - 1) (expect_tok TOK_COLON p) \<bind>
      (\<lambda>(el, p). Some (f th el, p))))" for f
    using assms by (auto intro!: bind_expr [OF assms(1), where n = "rest p"] within_Some within_into simp: tok_lbp_def is_assign_op_def)
  have call: "ends (rest p) p (parse_args c q \<bind> (\<lambda>(args, s). Some (f args, s)))" for f
    by (rule within_bind [OF args [OF assms(2)] assms(2) within_Some])
  have sub: "ends (rest p) p (c_expr c 0 q \<bind> (\<lambda>(i, s). Some (f i, expect_tok TOK_RBRACKET s)))" for f
    by (rule bind_expr [OF assms]) (simp_all add: within_Some within_into)
  have mem: "ends (rest p) p (case expect TOK_IDENT q of (ft, s) \<Rightarrow> Some (f ft s, s))" for f
    by (rule within_let [OF expect_goes assms(2) within_Some])
  show ?thesis
    using assms(2)
    by (auto simp: led_def Let_def within_Some within_perror tok_lbp_range intro!: bin tern call sub mem)
qed

lemma led_loop_ends:
  assumes "ready b c" "0 \<le> bp"
  shows "ahead p \<le> b \<Longrightarrow> ahead p < m \<Longrightarrow> ends (ahead p) p (led_loop m c bp left p)"
proof (induction m arbitrary: left p)
  case (Suc m)
  show ?case
    unfolding led_loop.simps Let_def
  proof (rule within_let [OF peek_goes within_start(1)])
    fix t q assume q: "peek p = (t, q)" "within p (ahead p) q"
    show "ends (ahead p) p (if tok_lbp (tk_kind t) \<le> bp then Some (left, q)
        else led c left t (skip_tok q) \<bind> (\<lambda>(left, p). led_loop m c bp left p))"
    proof (cases "tok_lbp (tk_kind t) \<le> bp")
      case False
      then have ne: "first p \<noteq> TOK_EOF" using assms(2) tok_lbp_range(3) peek_spec(3) [OF q(1)] by auto
      have go: "ends (rest p) p (led_loop m c bp left s)" if "within p (rest p) s" for s left
        by (rule ends_loop [OF ne that]) (rule Suc.IH; use Suc.prems in simp)
      have "ends (rest p) p (led c left t (skip_tok q))"
        by (rule led_ends [OF assms(1) within_rest(1) [OF q(2)]]) (use rest_less [OF ne] Suc.prems in simp)
      then have "ends (rest p) p (led c left t (skip_tok q) \<bind> (\<lambda>(left, p). led_loop m c bp left p))"
        by (rule ends_bind [OF _ keeps_self]) (rule go; simp add: within_def)
      then show ?thesis using False ends_weaken by simp
    qed (use q(2) in \<open>simp add: within_Some\<close>)
  qed
qed simp

lemma expr_ends:
  assumes "ready b c" "ahead p \<le> b" "0 \<le> bp"
  shows "ends (rest p) p (parse_expr c bp p)"
proof -
  obtain t q where e: "advance p = (t, q)" by fastforce
  have q: "within p (rest p) q" "tk_kind t = first p"
    using advance_skip [OF e] within_start(2) by simp_all
  have "tk_kind t \<noteq> TOK_EOF \<Longrightarrow> rest p < b" using rest_less [of p] assms(2) q(2) by simp
  note n = nud_ends [OF assms(1) q(1) this]
  have "ends (ahead s) s (led_loop (c_fuel c) c bp left s)" if "within p (rest p) s" for s left
    by (rule led_loop_ends [OF assms(1,3)]) (use that assms(2) rest_le [of p] ready_fuel [OF assms(1), of s] in \<open>simp_all add: within_def\<close>)
  then have loop: "ends (rest p) p (led_loop (c_fuel c) c bp left s)" if "within p (rest p) s" for s left
    using that ends_lift by blast
  have "ends (rest p) p (nud c t q \<bind> (\<lambda>(left, p). led_loop (c_fuel c) c bp left p))"
    by (rule ends_bind [OF n keeps_self]) (assumption, rule loop, simp add: within_def)
  then show ?thesis by (simp add: parse_expr_def e)
qed

lemma initializer_ends:
  assumes "ready b c" "expr_ok c (snd (peek p))" "ahead p \<le> b"
  shows "ends (rest p) p (parse_initializer c p)"
proof -
  obtain t q where e: "peek p = (t, q)" by fastforce
  note q = peek_spec [OF e]
  have r: "rest q \<le> rest p" using keeps_rest [OF q(1)] .
  show ?thesis
  proof (cases "tk_kind t = TOK_LBRACE")
    case True
    then have "first q \<noteq> TOK_EOF" using at_tok_first(1) [OF q(2)] by simp
    then have "rest q < b" using rest_less [of q] keeps_ahead [OF q(1)] assms(3) by simp
    then have "ends (rest q) q (parse_init_list c q)" by (rule init_list_ends [OF assms(1)])
    then show ?thesis using True ends_mono [OF ends_from [OF _ q(1)] r] by (simp add: parse_initializer_def check_def e)
  next
    case False
    have "ends (rest q) q (c_expr c 20 q)" using assms(2) by (simp add: expr_ok_def e)
    then show ?thesis using False ends_mono [OF ends_from [OF _ q(1)] r] by (simp add: parse_initializer_def check_def e)
  qed
qed

subsection \<open>Enough fuel\<close>

lemma calls_fuel [simp]: "c_fuel (calls_at n) = n"
  by (cases n) (simp_all add: Let_def)

lemma calls_at_ok:
  "2 * ahead p + 2 \<le> n \<longrightarrow> expr_ok (calls_at n) p \<and> spec_ok (calls_at n) p \<and> decl_ok (calls_at n) p"
  "2 * ahead p + 3 \<le> n \<longrightarrow> init_ok (calls_at n) p"
proof (induction n arbitrary: p)
  case (Suc n)
  have bel: "ready b (calls_at n)" if "2 * b + 1 \<le> n" for b
    using that Suc.IH by (auto simp: ready_def)
  {
    case 1
    show ?case
    proof
      assume a: "2 * ahead p + 2 \<le> Suc n"
      then have b: "ready (ahead p) (calls_at n)" by (intro bel) simp
      show "expr_ok (calls_at (Suc n)) p \<and> spec_ok (calls_at (Suc n)) p \<and> decl_ok (calls_at (Suc n)) p"
        using expr_ends [OF b order_refl] decl_spec_ok [OF b order_refl] declarator_ends [OF b order_refl]
        by (auto simp: expr_ok_def spec_ok_def decl_ok_def Let_def)
    qed
  next
    case 2
    show ?case
    proof
      assume a: "2 * ahead p + 3 \<le> Suc n"
      then have b: "ready (ahead p) (calls_at n)" by (intro bel) simp
      have "ahead (snd (peek p)) \<le> ahead p" using keeps_ahead [OF peek_spec(1)] by (cases "peek p") auto
      then have "expr_ok (calls_at n) (snd (peek p))" using a Suc.IH(1) by simp
      from initializer_ends [OF b this order_refl] show "init_ok (calls_at (Suc n)) p"
        by (simp add: init_ok_def Let_def)
    qed
  }
qed simp_all

lemma calls_at_ready: "2 * b + 1 \<le> n \<Longrightarrow> ready b (calls_at n)"
  using calls_at_ok by (simp add: ready_def)

end
