(* ===== verification/ParserTermStmt.thy ===== *)
theory ParserTermStmt
  imports ParserTermExpr
begin

section \<open>Statements, declarations and the translation unit end\<close>

subsection \<open>Context that is changed and restored\<close>

lemma restore_scopes:
  assumes "keeps (p\<lparr>ps_scope := s, ps_tag_scope := s'\<rparr>) q"
  shows "keeps p (q\<lparr>ps_scope := ps_scope p, ps_tag_scope := ps_tag_scope p\<rparr>)"
  using assms by (simp add: keeps_def)

lemma restore_loop: "keeps (p\<lparr>ps_loop := ps_loop p + 1\<rparr>) q \<Longrightarrow> keeps p (q\<lparr>ps_loop := ps_loop q - 1\<rparr>)"
  by (simp add: keeps_def)

lemma restore_switch: "keeps (p\<lparr>ps_switch := ps_switch p + 1\<rparr>) q \<Longrightarrow> keeps p (q\<lparr>ps_switch := ps_switch q - 1\<rparr>)"
  by (simp add: keeps_def)

lemma define_var_keeps: "keeps p q \<Longrightarrow> keeps p (define_var x k t q)"
  by (simp add: define_var_def scope_update_keeps)

lemma define_var_same [simp]: "ahead (define_var x k t q) = ahead q"
  by (simp add: define_var_def)

lemma define_fparams_keeps: "keeps p (fold define_fparam ps p)"
proof (induction ps arbitrary: p)
  case (Cons fp ps)
  have "keeps p (define_fparam fp p)" by (simp add: define_fparam_def define_var_keeps split: option.split)
  then show ?case using keeps_trans Cons by (auto simp: define_fparam_def)
qed simp

lemma within_define: "within p n q \<Longrightarrow> within p n (define_var x k t q)"
  by (simp add: within_def define_var_keeps)

subsection \<open>Declaration lists\<close>

lemma func_def_ends:
  assumes "\<And>q. ahead q \<le> ahead p \<Longrightarrow> ends (ahead q) q (compound q)"
  shows "ends (ahead p) p (parse_func_def compound ds dn name ty p)"
proof -
  let ?q = "p\<lparr>ps_scope := scope_new (ps_scope p), ps_tag_scope := scope_new (ps_tag_scope p)\<rparr>"
  let ?r = "fold define_fparam (func_type_params ?q ty) ?q"
  have r: "keeps ?q ?r" by (rule define_fparams_keeps)
  have a: "ahead ?r \<le> ahead p" using keeps_ahead [OF r] by simp
  obtain bd s where e: "compound ?r = Some (bd, s)" "keeps ?r s" "ahead s \<le> ahead ?r"
    using assms [OF a] by (auto simp: ends_def)
  have "keeps p (s\<lparr>ps_scope := ps_scope p, ps_tag_scope := ps_tag_scope p\<rparr>)"
    by (rule restore_scopes [OF keeps_trans [OF r e(2)]])
  then show ?thesis
    using e(1,3) a by (auto simp: parse_func_def_def Let_def intro!: ends_Some define_var_keeps)
qed

lemma declarator_loop_ends:
  assumes "ready b c" "top_level \<Longrightarrow> \<forall>q. ahead q < b \<longrightarrow> ends (ahead q) q (compound q)"
  shows "ahead p < b \<Longrightarrow> ahead p < m \<Longrightarrow> ends (ahead p) p (declarator_loop m c compound ds base top_level decls p)"
proof (induction m arbitrary: decls p)
  case (Suc m)
  let ?n = "ahead p"
  have go: "ends ?n p (declarator_loop m c compound ds base top_level decls s)"
    if "within p ?n s" "ahead s < ahead p" for s decls
    by (rule ends_lift [OF Suc.IH that(1)]) (use Suc.prems that in simp_all)
  have nx: "ends ?n p (case match_tok TOK_COMMA s of (comma, s) \<Rightarrow>
      if comma then declarator_loop m c compound ds base top_level decls s else Some (decls, expect_tok TOK_SEMICOLON s))"
    if "within p ?n s" for s decls
    using that by (auto intro!: let_steps [where n = ?n] go within_Some within_into)
  have fd: "ends (ahead s) s (parse_func_def compound ds dn name ty s)" if "within p ?n s" top_level for s dn name ty
    by (rule func_def_ends) (use assms(2) [OF that(2)] that(1) Suc.prems(1) in \<open>simp add: within_def\<close>)
  have st: "ends ?n p (case dn_name dn of
       None \<Rightarrow> (case match_tok TOK_COMMA s of (comma, p) \<Rightarrow> if \<not> comma then Some (decls, expect_tok TOK_SEMICOLON p)
           else (case match_tok TOK_COMMA p of (comma, s) \<Rightarrow>
      if comma then declarator_loop m c compound ds base top_level decls s else Some (decls, expect_tok TOK_SEMICOLON s)))
     | Some name \<Rightarrow> k name)"
    if "within p ?n s" "\<And>name. ends ?n p (k name)" for s dn k
    using that by (auto intro!: let_steps [where n = ?n] nx within_Some within_into split: option.split)
  show ?case
    unfolding declarator_loop.simps Let_def
    by (rule bind_decl [OF assms(1) within_start(1) Suc.prems(1)], rule st, assumption)
      (auto simp: bind_simps intro!: nx within_define within_bind [OF fd, where n = ?n] within_Some let_steps [where n = ?n]
        bind_init [OF assms(1), where n = ?n] Suc.prems(1) split: if_splits)
qed simp

lemma decl_list_ends:
  assumes "ready b c" "top_level \<Longrightarrow> \<forall>q. ahead q < b \<longrightarrow> ends (ahead q) q (compound q)" "ahead p < b"
  shows "ends (ahead p) p (parse_decl_list c compound ds top_level p)"
proof -
  have loop: "ends (ahead p) p (declarator_loop (c_fuel c) c compound ds base top_level decls s)"
    if "within p (ahead p) s" for s base decls
    by (rule ends_lift [OF declarator_loop_ends [OF assms(1,2)] that])
      (use that assms(3) ready_fuel [OF assms(1), of s] in \<open>simp_all add: within_def\<close>)
  show ?thesis
    using within_start(1) [of p] loop
    by (auto simp: parse_decl_list_def Let_def intro!: let_steps [where n = "ahead p"] within_Some within_into)
qed

subsection \<open>Statements\<close>

text \<open>What the statement parser promises on inputs shorter than \<open>b\<close>.\<close>

definition stmt_below :: "nat \<Rightarrow> (parser \<Rightarrow> (ast \<times> parser) option) \<Rightarrow> bool" where
  "stmt_below b stmt \<longleftrightarrow> (\<forall>q. ahead q < b \<longrightarrow> ends (rest q) q (stmt q))"

lemma stmt_within: "stmt_below b stmt \<Longrightarrow> within p n q \<Longrightarrow> n < b \<Longrightarrow> ends (ahead q) q (stmt q)"
  by (rule ends_weaken) (simp add: stmt_below_def within_def)

lemma pragma_within: "within p n q \<Longrightarrow> within p (rest p) (skip_pragma q)"
proof -
  assume q: "within p n q"
  have m: "within p (rest p) (snd (match_tok k s))" if "within p (rest p) s" for k s
    using within_goes [OF match_goes that] .
  obtain b s where e: "match_tok TOK_LPAREN (skip_tok q) = (b, s)" by fastforce
  have "within p (rest p) s" using m [OF within_rest(1) [OF q], of TOK_LPAREN] by (simp add: e)
  then show ?thesis by (auto simp: skip_pragma_def e Let_def intro!: m within_into)
qed

lemma stmt_loop_ends:
  assumes "stmt_below b stmt"
  shows "ahead p < b \<Longrightarrow> ahead p < m \<Longrightarrow> ends (ahead p) p (stmt_loop m stmt ss p)"
proof (induction m arbitrary: ss p)
  case (Suc m)
  show ?case
    unfolding stmt_loop.simps Let_def
  proof (rule within_let [OF peek_goes within_start(1)])
    fix t q assume q: "peek p = (t, q)" "within p (ahead p) q"
    show "ends (ahead p) p (if tk_kind t = TOK_RBRACE \<or> tk_kind t = TOK_EOF then Some (ss, q)
        else stmt q \<bind> (\<lambda>(s, p). stmt_loop m stmt (ast_list_append ss s) p))"
    proof (cases "tk_kind t = TOK_RBRACE \<or> tk_kind t = TOK_EOF")
      case False
      then have ne: "first p \<noteq> TOK_EOF" using peek_spec(3) [OF q(1)] by simp
      have go: "ends (rest p) p (stmt_loop m stmt ss s)" if "within p (rest p) s" for s ss
        by (rule ends_loop [OF ne that]) (rule Suc.IH; use Suc.prems in simp)
      have "ends (rest q) q (stmt q)" using assms q(2) Suc.prems(1) by (simp add: stmt_below_def within_def)
      moreover have "keeps p q" "rest q \<le> rest p" using q(2) keeps_rest by (auto simp: within_def)
      ultimately have "ends (rest p) p (stmt q)" using ends_mono ends_from by blast
      then have "ends (rest p) p (stmt q \<bind> (\<lambda>(s, p). stmt_loop m stmt (ast_list_append ss s) p))"
        by (rule ends_bind [OF _ keeps_self]) (rule go, simp add: within_def)
      then show ?thesis using False ends_weaken by simp
    qed (use q(2) in \<open>simp add: within_Some\<close>)
  qed
qed simp

lemma compound_ends:
  assumes "stmt_below b stmt" "rest p < b" "b \<le> m"
  shows "ends (rest p) p (parse_compound m stmt p)"
proof -
  obtain lb q where e: "expect TOK_LBRACE p = (lb, q)" by fastforce
  then have q: "keeps p q" "ahead q \<le> rest p" using within_start(3) [of p TOK_LBRACE] by (simp_all add: expect_tok_def within_def)
  let ?q = "q\<lparr>ps_scope := scope_new (ps_scope q), ps_tag_scope := scope_new (ps_tag_scope q)\<rparr>"
  have "ends (ahead ?q) ?q (stmt_loop m stmt [] ?q)"
    by (rule stmt_loop_ends [OF assms(1)]) (use q assms in simp_all)
  then obtain ss s where s: "stmt_loop m stmt [] ?q = Some (ss, s)" "keeps ?q s" "ahead s \<le> ahead q"
    by (auto simp: ends_def)
  have "keeps ?q (expect_tok TOK_RBRACE s)" using keeps_into(2) [OF s(2)] .
  from keeps_trans [OF q(1) restore_scopes [OF this]] show ?thesis
    using s(1,3) q(2) expect_le [of TOK_RBRACE s] by (auto simp: parse_compound_def Let_def e intro!: ends_Some)
qed

lemma in_loop_ends:
  assumes "stmt_below b stmt" "within p n q" "n < b"
  shows "ends n p (in_loop stmt q)"
proof -
  let ?q = "q\<lparr>ps_loop := ps_loop q + 1\<rparr>"
  have "ends (ahead ?q) ?q (stmt ?q)"
    using stmt_within [OF assms(1), of ?q n ?q] assms(2,3) by (simp add: within_def)
  then obtain st s where s: "stmt ?q = Some (st, s)" "keeps ?q s" "ahead s \<le> ahead q" by (auto simp: ends_def)
  then show ?thesis
    using keeps_trans [of p q] restore_loop [OF s(2)] assms(2) by (auto simp: in_loop_def Let_def within_def intro!: ends_Some)
qed

lemma in_switch_ends:
  assumes "stmt_below b stmt" "within p n q" "n < b"
  shows "ends n p (in_switch stmt q)"
proof -
  let ?q = "q\<lparr>ps_switch := ps_switch q + 1\<rparr>"
  have "ends (ahead ?q) ?q (stmt ?q)"
    using stmt_within [OF assms(1), of ?q n ?q] assms(2,3) by (simp add: within_def)
  then obtain st s where s: "stmt ?q = Some (st, s)" "keeps ?q s" "ahead s \<le> ahead q" by (auto simp: ends_def)
  then show ?thesis
    using keeps_trans [of p q] restore_switch [OF s(2)] assms(2) by (auto simp: in_switch_def Let_def within_def intro!: ends_Some)
qed

lemma paren_expr_ends:
  assumes "ready b c" "within p n q" "n < b"
  shows "ends n p (paren_expr c q)"
  using assms by (auto simp: paren_expr_def intro!: bind_expr [OF assms(1), where n = n] within_into within_Some)

lemma expr_unless_ends:
  assumes "ready b c" "within p n q" "n < b"
  shows "ends n p (expr_unless stop c q)"
  using assms by (auto simp: expr_unless_def Let_def intro!: let_steps [where n = n] bind_expr [OF assms(1), where n = n] within_Some)

lemma decl_stmt_ends:
  assumes "ready b c" "within p n q" "n < b"
  shows "ends n p (decl_stmt c compound t q)"
proof -
  have dl: "ends (ahead s) s (parse_decl_list c compound ds False s)" if "within p n s" for s ds
    by (rule decl_list_ends [OF assms(1)]) (use that assms(3) in \<open>simp_all add: within_def\<close>)
  show ?thesis
    using assms by (auto simp: decl_stmt_def intro!: bind_spec [OF assms(1), where n = n] within_bind [OF dl, where n = n] within_Some)
qed

lemma for_init_ends:
  assumes "ready b c" "within p n q" "n < b"
  shows "ends n p (for_init c compound t q)"
proof -
  have d: "ends (ahead s) s (decl_stmt c compound t s)" if "within p n s" for s
    by (rule decl_stmt_ends [OF assms(1) within_start(1)]) (use that assms(3) in \<open>simp add: within_def\<close>)
  show ?thesis
    using assms by (auto simp: for_init_def Let_def intro!: let_steps [where n = n] within_bind [OF d, where n = n]
        bind_expr [OF assms(1), where n = n] within_into within_Some)
qed

lemma case_body_ends:
  assumes "stmt_below b stmt" "within p n q" "n < b"
  shows "ends n p (case_body stmt t q)"
  unfolding case_body_def Let_def
proof (rule within_let [OF peek_goes assms(2)])
  fix u s assume "within p n s"
  then show "ends n p (if tk_kind u \<notin> {TOK_CASE, TOK_DEFAULT, TOK_RBRACE} then stmt s else Some (node_at t (Compound []), s))"
    using ends_lift [OF stmt_within [OF assms(1) _ assms(3)]] by (auto intro!: within_Some)
qed

lemma ends_via: "ends (rest q) q r \<Longrightarrow> keeps p q \<Longrightarrow> ends (rest p) p r"
  by (rule ends_mono [OF ends_from keeps_rest])

lemma jump_ends:
  assumes "within p n q"
  shows "ends (rest p) p (parse_jump bad msg bd t q)"
proof -
  have q: "within p (rest p) (skip_tok q)" by (rule within_rest(1) [OF assms])
  then show ?thesis by (auto simp: parse_jump_def Let_def intro!: within_Some within_into within_perror)
qed

lemma ident_stmt_ends:
  assumes "ready b c" "stmt_below b stmt" "within p n q" "rest p < b"
  shows "ends (rest p) p (parse_ident_stmt c stmt t q)"
proof -
  have st: "ends (ahead s) s (stmt s)" if "within p (rest p) s" for s
    by (rule stmt_within [OF assms(2) that assms(4)])
  have loop: "ends (ahead s) s (led_loop (c_fuel c) c 0 left s)" if "within p (rest p) s" for s left
    by (rule led_loop_ends [OF assms(1)]) (use that assms(4) ready_fuel [OF assms(1), of s] in \<open>simp_all add: within_def\<close>)
  show ?thesis
    using within_rest(1) [OF assms(3)]
    by (auto simp: parse_ident_stmt_def Let_def intro!: let_steps [where n = "rest p"] within_bind [OF st, where n = "rest p"]
        within_bind [OF loop, where n = "rest p"] within_into within_Some)
qed

lemma keyword_stmt_ends:
  assumes "ready b c" "stmt_below b stmt" "within p n q" "rest p < b"
  shows "ends (rest p) p (parse_keyword_stmt c stmt t q)"
proof -
  let ?n = "rest p"
  have st: "ends (ahead s) s (stmt s)" if "within p ?n s" for s
    by (rule stmt_within [OF assms(2) that assms(4)])
  have lift: "within s (ahead s) s \<Longrightarrow> within p ?n s \<Longrightarrow> ahead s < b" for s using assms(4) by (simp add: within_def)
  have pe: "ends (ahead s) s (paren_expr c s)" if "within p ?n s" for s
    by (rule paren_expr_ends [OF assms(1) within_start(1) lift [OF within_start(1) that]])
  have lo: "ends (ahead s) s (in_loop stmt s)" if "within p ?n s" for s
    by (rule in_loop_ends [OF assms(2) within_start(1) lift [OF within_start(1) that]])
  have sw: "ends (ahead s) s (in_switch stmt s)" if "within p ?n s" for s
    by (rule in_switch_ends [OF assms(2) within_start(1) lift [OF within_start(1) that]])
  have fi: "ends (ahead s) s (for_init c compound u s)" if "within p ?n s" for s compound u
    by (rule for_init_ends [OF assms(1) within_start(1) lift [OF within_start(1) that]])
  have eu: "ends (ahead s) s (expr_unless stop c s)" if "within p ?n s" for s stop
    by (rule expr_unless_ends [OF assms(1) within_start(1) lift [OF within_start(1) that]])
  have cb: "ends (ahead s) s (case_body stmt u s)" if "within p ?n s" for s u
    by (rule case_body_ends [OF assms(2) within_start(1) lift [OF within_start(1) that]])
  note w = within_rest(1) [OF assms(3)]
  note steps = let_steps [where n = ?n] within_bind [OF st, where n = ?n] within_bind [OF pe, where n = ?n]
    within_bind [OF lo, where n = ?n] within_bind [OF sw, where n = ?n] within_bind [OF fi, where n = ?n]
    within_bind [OF eu, where n = ?n] within_bind [OF cb, where n = ?n] bind_expr [OF assms(1), where n = ?n]
    within_into within_Some
  have "ends ?n p (paren_expr c (skip_tok q) \<bind> (\<lambda>(e, p). stmt p \<bind> (\<lambda>(th, p). case match_tok TOK_ELSE p of (els, p) \<Rightarrow>
      (if els then stmt p \<bind> (\<lambda>(s, p). Some (Some s, p)) else Some (None, p)) \<bind> (\<lambda>(el, p). Some (node_at t (If e th el), p)))))"
    using w by (auto simp: bind_simps intro!: steps)
  then show ?thesis
    using w assms(4) unfolding parse_keyword_stmt_def Let_def
    by (auto intro!: steps jump_ends [OF assms(3)])
qed

text \<open>\<open>stmt\<close> parses what is shorter than the input of \<open>p\<close>, \<open>c\<close> also what is as long.\<close>

lemma statement_ends:
  assumes "ready (ahead p) c" "stmt_below (ahead p) stmt"
    "\<And>q. ahead q \<le> ahead p \<Longrightarrow> expr_ok c q \<and> spec_ok c q"
  shows "ends (rest p) p (statement c stmt p)"
proof -
  obtain t q where e: "peek p = (t, q)" by fastforce
  note q = peek_spec [OF e]
  have w: "within p (ahead p) q" using q(1) keeps_ahead by (simp add: within_def)
  have r: "rest q \<le> rest p" using keeps_rest [OF q(1)] .
  have ok: "expr_ok c q" "spec_ok c q" using assms(3) keeps_ahead [OF q(1)] by simp_all
  have ex: "ends (rest p) p (c_expr c 0 q \<bind> (\<lambda>(e, s). Some (node_at t (ExprStmt e), expect_tok TOK_SEMICOLON s)))"
  proof (rule ends_bind [OF ends_via [OF _ q(1)] keeps_self])
    show "ends (rest q) q (c_expr c 0 q)" using ok(1) by (simp add: expr_ok_def)
  qed (rule within_Some [OF within_into(2)], simp add: within_def)
  have wr: "within p (rest p) (skip_tok q)" by (rule within_rest(1) [OF w])
  show ?thesis
  proof (cases "tk_kind t = TOK_EOF")
    case True
    then have "\<not> is_type_start q t" using not_type_start_EOF by blast
    then show ?thesis using True ex by (simp add: statement_def e Let_def is_stmt_keyword_def)
  next
    case False
    then have ne: "first p \<noteq> TOK_EOF" using q(3) by simp
    note lt = rest_less [OF ne]
    have dl: "ends (ahead s) s (parse_decl_list c compound ds False s)" if "within p (rest p) s" for s ds compound
      by (rule decl_list_ends [OF assms(1)]) (use that lt in \<open>simp_all add: within_def\<close>)
    have de: "ends (rest p) p (decl_stmt c compound t q)" if "is_type_start q t" for compound
    proof -
      have "ends (rest q) q (c_spec c q)" using ok(2) that q(2) by (auto simp: spec_ok_def)
      then have "ends (rest p) p (c_spec c q)" by (rule ends_via) (rule q(1))
      then show ?thesis
        unfolding decl_stmt_def
        by (rule ends_bind [OF _ keeps_self]) (rule within_bind [OF dl], simp add: within_def, simp add: within_def, rule within_Some)
    qed
    have co: "ends (rest p) p (parse_compound (c_fuel c) stmt q)"
    proof -
      have "rest q < ahead p" using r lt by simp
      then show ?thesis
        by (rule ends_via [OF compound_ends [OF assms(2)] q(1)]) (use assms(1) in \<open>simp add: ready_def\<close>)
    qed
    show ?thesis
      using de co ex keyword_stmt_ends [OF assms(1,2) w lt] ident_stmt_ends [OF assms(1,2) w lt] wr pragma_within [OF w]
      by (simp add: statement_def e Let_def within_Some)
  qed
qed

lemma parse_statement_ends: "2 * ahead p + 3 \<le> n \<Longrightarrow> ends (rest p) p (parse_statement n p)"
proof (induction n arbitrary: p)
  case (Suc n)
  have "ready (ahead p) (calls_at n)" by (rule calls_at_ready) (use Suc.prems in simp)
  moreover have "stmt_below (ahead p) (parse_statement n)"
    unfolding stmt_below_def
  proof (intro allI impI)
    fix q assume "ahead q < ahead p"
    then show "ends (rest q) q (parse_statement n q)" using Suc.prems by (intro Suc.IH) simp
  qed
  moreover have "expr_ok (calls_at n) q \<and> spec_ok (calls_at n) q" if "ahead q \<le> ahead p" for q
    using calls_at_ok(1) [of q n] that Suc.prems by simp
  ultimately show ?case by (simp add: statement_ends)
qed simp

subsection \<open>The translation unit\<close>

lemma unit_loop_ends:
  assumes "2 * b + 3 \<le> n"
  shows "ahead p \<le> b \<Longrightarrow> ahead p < m \<Longrightarrow> ends (ahead p) p (unit_loop m n decls p)"
proof (induction m arbitrary: decls p)
  case (Suc m)
  let ?c = "calls_at n"
  obtain t q where e: "peek p = (t, q)" by fastforce
  note q = peek_spec [OF e]
  have w: "within p (ahead p) q" using q(1) keeps_ahead by (simp add: within_def)
  show ?case
  proof (cases "tk_kind t = TOK_EOF")
    case True
    then show ?thesis using w by (simp add: e within_Some)
  next
    case False
    then have ne: "first p \<noteq> TOK_EOF" using q(3) by simp
    note lt = rest_less [OF ne]
    have bel: "ready b ?c" by (rule calls_at_ready) (use assms in simp)
    have go: "ends (rest p) p (unit_loop m n ds s)" if "within p (rest p) s" for s ds
      by (rule ends_loop [OF ne that]) (rule Suc.IH; use Suc.prems in simp)
    have bad: "ends (rest p) p (unit_loop m n ds (skip_tok (perror t msg q)))" for ds msg
      by (rule go) (rule within_rest(1) [OF perror_ends [OF e]])
    have co: "ends (ahead s) s (parse_compound n (parse_statement n) s)" if "ahead s < b" for s
    proof (rule ends_weaken, rule compound_ends [of b])
      show "stmt_below b (parse_statement n)"
        using parse_statement_ends assms by (simp add: stmt_below_def)
    qed (use that rest_le [of s] assms in simp_all)
    have dl: "ends (ahead s) s (parse_decl_list ?c (parse_compound n (parse_statement n)) ds True s)"
      if "within p (rest p) s" for s ds
      by (rule decl_list_ends [OF bel]) (use that lt Suc.prems co in \<open>simp_all add: within_def\<close>)
    have de: "ends (rest p) p (c_spec ?c q \<bind> (\<lambda>(ds, s). parse_decl_list ?c (parse_compound n (parse_statement n)) ds True s \<bind>
        (\<lambda>(ds', s). unit_loop m n (decls @ ds') s)))" if t: "is_type_start q t"
    proof -
      have "spec_ok ?c q" using calls_at_ok(1) [of q n] keeps_ahead [OF q(1)] Suc.prems(1) assms by simp
      then have "ends (rest q) q (c_spec ?c q)" using t q(2) by (auto simp: spec_ok_def)
      then have "ends (rest p) p (c_spec ?c q)" by (rule ends_via) (rule q(1))
      then show ?thesis
        by (rule ends_bind [OF _ keeps_self]) (rule within_bind [OF dl], simp add: within_def, simp add: within_def, rule go)
    qed
    have "ends (rest p) p (unit_loop (Suc m) n decls p)"
      using False bad de go [OF pragma_within [OF w]] by (simp add: e Let_def)
    then show ?thesis by (rule ends_weaken)
  qed
qed simp

lemma parse_ends:
  assumes "2 * ahead p + 3 \<le> n"
  shows "ends (ahead p) p (parser_parse n p)"
proof -
  have u: "ends (ahead q) q (unit_loop n n [] q)" if "within p (ahead p) q" for q
    by (rule unit_loop_ends [where b = "ahead p"]) (use that assms in \<open>simp_all add: within_def\<close>)
  show ?thesis
    unfolding parser_parse_def Let_def
    by (rule within_let [OF peek_goes within_start(1)], rule within_bind [OF u], assumption, assumption, rule within_Some)
qed

end
