(* ===== verification/ParserFuel.thy ===== *)
theory ParserFuel
  imports ParserStmt
begin

section \<open>The result of the parser does not depend on the fuel\<close>

text \<open>
  More fuel never changes a result: every function of the parser that returns with some fuel
  returns the same with more. With theory ParserTermStmt, which shows how much is enough, the
  result of the parser is a function of its input alone.
\<close>

definition refines :: "'a option \<Rightarrow> 'a option \<Rightarrow> bool" where
  "refines r r' \<longleftrightarrow> r = None \<or> r = r'"

lemma refines_Some: "refines r r' \<Longrightarrow> r = Some x \<Longrightarrow> r' = Some x"
  by (simp add: refines_def)

text \<open>The induction of a loop over its fuel and over a larger fuel at once.\<close>

lemma fuel_le_induct [consumes 1, case_names 0 Suc]:
  fixes m m' :: nat
  assumes "m \<le> m'" "\<And>k. P 0 k" "\<And>m k. m \<le> k \<Longrightarrow> P m k \<Longrightarrow> P (Suc m) (Suc k)"
  shows "P m m'"
  using assms(1)
proof (induction m arbitrary: m')
  case (Suc m)
  then show ?case using assms(3) by (cases m') auto
qed (simp add: assms(2))

named_theorems fuel_mono

lemma refines_refl [fuel_mono]: "refines r r"
  by (simp add: refines_def)

lemma refines_None [fuel_mono]: "refines None r"
  by (simp add: refines_def)

lemma refines_bind [fuel_mono]:
  "refines r r' \<Longrightarrow> (\<And>x. refines (k x) (k' x)) \<Longrightarrow> refines (r \<bind> k) (r' \<bind> k')"
  by (cases r) (force simp: refines_def)+

lemma refines_if [fuel_mono]:
  "refines r r' \<Longrightarrow> refines s s' \<Longrightarrow> refines (if b then r else s) (if b then r' else s')"
  by simp

lemma refines_prod [fuel_mono]:
  "(\<And>x y. refines (f x y) (f' x y)) \<Longrightarrow> refines (case z of (x, y) \<Rightarrow> f x y) (case z of (x, y) \<Rightarrow> f' x y)"
  by (cases z) simp

lemma refines_prod2 [fuel_mono]:
  "(\<And>x y. refines (f x y a) (f' x y a)) \<Longrightarrow> refines ((case z of (x, y) \<Rightarrow> f x y) a) ((case z of (x, y) \<Rightarrow> f' x y) a)"
  by (cases z) simp

lemma refines_option [fuel_mono]:
  "refines r r' \<Longrightarrow> (\<And>x. refines (f x) (f' x)) \<Longrightarrow>
    refines (case z of None \<Rightarrow> r | Some x \<Rightarrow> f x) (case z of None \<Rightarrow> r' | Some x \<Rightarrow> f' x)"
  by (cases z) simp_all

definition calls_le :: "calls \<Rightarrow> calls \<Rightarrow> bool" where
  "calls_le c c' \<longleftrightarrow> c_fuel c \<le> c_fuel c'
     \<and> (\<forall>bp p. refines (c_expr c bp p) (c_expr c' bp p)) \<and> (\<forall>p. refines (c_spec c p) (c_spec c' p))
     \<and> (\<forall>base p. refines (c_declarator c base p) (c_declarator c' base p)) \<and> (\<forall>p. refines (c_init c p) (c_init c' p))"

lemma calls_leD [fuel_mono]:
  "calls_le c c' \<Longrightarrow> refines (c_expr c bp p) (c_expr c' bp p)"
  "calls_le c c' \<Longrightarrow> refines (c_spec c p) (c_spec c' p)"
  "calls_le c c' \<Longrightarrow> refines (c_declarator c base p) (c_declarator c' base p)"
  "calls_le c c' \<Longrightarrow> refines (c_init c p) (c_init c' p)"
  "calls_le c c' \<Longrightarrow> c_fuel c \<le> c_fuel c'"
  by (simp_all add: calls_le_def)

subsection \<open>Specifiers and declarators\<close>

lemma skip_parens_mono [fuel_mono]:
  assumes "m \<le> m'"
  shows "refines (skip_parens m d p) (skip_parens m' d p)"
  using assms(1)
proof (induction arbitrary: d p rule: fuel_le_induct)
  case (Suc m k)
  then show ?case by (simp only: skip_parens.simps Let_def) (intro fuel_mono Suc.IH)
qed (simp add: fuel_mono)

lemma skip_attributes_mono [fuel_mono]:
  assumes "m \<le> m'"
  shows "refines (skip_attributes m p) (skip_attributes m' p)"
  using assms(1)
proof (induction arbitrary: p rule: fuel_le_induct)
  case (Suc m k)
  then show ?case by (simp only: skip_attributes.simps Let_def) (intro fuel_mono Suc.IH)
qed (simp add: fuel_mono)

lemma member_declarators_mono [fuel_mono]:
  assumes "calls_le c c'" "m \<le> m'"
  shows "refines (member_declarators m c base fs p) (member_declarators m' c' base fs p)"
  using assms(2)
proof (induction arbitrary: fs p rule: fuel_le_induct)
  case (Suc m k)
  then show ?case by (simp only: member_declarators.simps Let_def) (intro fuel_mono Suc.IH assms(1))
qed (simp add: fuel_mono)

lemma member_loop_mono [fuel_mono]:
  assumes "calls_le c c'" "m \<le> m'"
  shows "refines (member_loop m c fs p) (member_loop m' c' fs p)"
  using assms(2)
proof (induction arbitrary: fs p rule: fuel_le_induct)
  case (Suc m k)
  then show ?case by (simp only: member_loop.simps Let_def) (intro fuel_mono Suc.IH assms(1))
qed (simp add: fuel_mono)

lemma struct_union_mono [fuel_mono]: "calls_le c c' \<Longrightarrow> refines (parse_struct_union c u p) (parse_struct_union c' u p)"
  unfolding parse_struct_union_def Let_def by (intro fuel_mono)

lemma enum_loop_mono [fuel_mono]:
  assumes "calls_le c c'" "m \<le> m'"
  shows "refines (enum_loop m c v ecs p) (enum_loop m' c' v ecs p)"
  using assms(2)
proof (induction arbitrary: v ecs p rule: fuel_le_induct)
  case (Suc m k)
  then show ?case by (simp only: enum_loop.simps Let_def) (intro fuel_mono Suc.IH assms(1))
qed (simp add: fuel_mono)

lemma enum_mono [fuel_mono]: "calls_le c c' \<Longrightarrow> refines (parse_enum c p) (parse_enum c' p)"
  unfolding parse_enum_def Let_def by (intro fuel_mono)

lemma base_spec_mono [fuel_mono]: "calls_le c c' \<Longrightarrow> refines (parse_base_spec c k p) (parse_base_spec c' k p)"
  unfolding parse_base_spec_def Let_def by (intro fuel_mono)

lemma spec_loop_mono [fuel_mono]:
  assumes "calls_le c c'" "m \<le> m'"
  shows "refines (spec_loop m c ds seen p) (spec_loop m' c' ds seen p)"
  using assms(2)
proof (induction arbitrary: ds seen p rule: fuel_le_induct)
  case (Suc m k)
  then show ?case by (simp only: spec_loop.simps Let_def) (intro fuel_mono Suc.IH assms(1))
qed (simp add: fuel_mono)

lemma decl_spec_mono [fuel_mono]: "calls_le c c' \<Longrightarrow> refines (parse_decl_spec c p) (parse_decl_spec c' p)"
  unfolding parse_decl_spec_def by (intro fuel_mono)

lemma param_loop_mono [fuel_mono]:
  assumes "calls_le c c'" "m \<le> m'"
  shows "refines (param_loop m c ps p) (param_loop m' c' ps p)"
  using assms(2)
proof (induction arbitrary: ps p rule: fuel_le_induct)
  case (Suc m k)
  then show ?case by (simp only: param_loop.simps Let_def) (intro fuel_mono Suc.IH assms(1))
qed (simp add: fuel_mono)

lemma params_mono [fuel_mono]: "calls_le c c' \<Longrightarrow> refines (parse_params c p) (parse_params c' p)"
  unfolding parse_params_def Let_def by (intro fuel_mono)

lemma suffix_mono [fuel_mono]:
  assumes "calls_le c c'" "m \<le> m'"
  shows "refines (parse_declarator_suffix m c t p) (parse_declarator_suffix m' c' t p)"
  using assms(2)
proof (induction arbitrary: t p rule: fuel_le_induct)
  case (Suc m k)
  then show ?case by (simp only: parse_declarator_suffix.simps Let_def) (intro fuel_mono Suc.IH assms(1))
qed (simp add: fuel_mono)

lemma pointer_quals_mono [fuel_mono]:
  assumes "calls_le c c'" "m \<le> m'"
  shows "refines (pointer_quals m c q p) (pointer_quals m' c' q p)"
  using assms(2)
proof (induction arbitrary: q p rule: fuel_le_induct)
  case (Suc m k)
  then show ?case by (simp only: pointer_quals.simps Let_def) (intro fuel_mono Suc.IH assms(1))
qed (simp add: fuel_mono)

lemma pointer_stars_mono [fuel_mono]:
  assumes "calls_le c c'" "m \<le> m'"
  shows "refines (pointer_stars m c qs p) (pointer_stars m' c' qs p)"
  using assms(2)
proof (induction arbitrary: qs p rule: fuel_le_induct)
  case (Suc m k)
  then show ?case by (simp only: pointer_stars.simps Let_def) (intro fuel_mono Suc.IH assms(1))
qed (simp add: fuel_mono)

lemma declarator_mono [fuel_mono]: "calls_le c c' \<Longrightarrow> refines (parse_declarator c base p) (parse_declarator c' base p)"
  unfolding parse_declarator_def Let_def by (intro fuel_mono)

lemma type_name_mono [fuel_mono]: "calls_le c c' \<Longrightarrow> refines (type_name c p) (type_name c' p)"
  unfolding type_name_def Let_def by (intro fuel_mono)

subsection \<open>Initializers and expressions\<close>

lemma init_item_mono [fuel_mono]: "calls_le c c' \<Longrightarrow> refines (parse_init_item c p) (parse_init_item c' p)"
  unfolding parse_init_item_def Let_def by (intro fuel_mono)

lemma init_loop_mono [fuel_mono]:
  assumes "calls_le c c'" "m \<le> m'"
  shows "refines (init_loop m c items p) (init_loop m' c' items p)"
  using assms(2)
proof (induction arbitrary: items p rule: fuel_le_induct)
  case (Suc m k)
  then show ?case by (simp only: init_loop.simps Let_def) (intro fuel_mono Suc.IH assms(1))
qed (simp add: fuel_mono)

lemma init_list_mono [fuel_mono]: "calls_le c c' \<Longrightarrow> refines (parse_init_list c p) (parse_init_list c' p)"
  unfolding parse_init_list_def Let_def by (intro fuel_mono)

lemma initializer_mono [fuel_mono]: "calls_le c c' \<Longrightarrow> refines (parse_initializer c p) (parse_initializer c' p)"
  unfolding parse_initializer_def Let_def by (intro fuel_mono)

lemma sizeof_mono [fuel_mono]: "calls_le c c' \<Longrightarrow> refines (parse_sizeof c t p) (parse_sizeof c' t p)"
  unfolding parse_sizeof_def Let_def by (intro fuel_mono)

lemma paren_mono [fuel_mono]: "calls_le c c' \<Longrightarrow> refines (parse_paren c t p) (parse_paren c' t p)"
  unfolding parse_paren_def Let_def by (intro fuel_mono)

lemma nud_mono [fuel_mono]: "calls_le c c' \<Longrightarrow> refines (nud c t p) (nud c' t p)"
  unfolding nud_def Let_def by (intro fuel_mono)

lemma arg_loop_mono [fuel_mono]:
  assumes "calls_le c c'" "m \<le> m'"
  shows "refines (arg_loop m c args p) (arg_loop m' c' args p)"
  using assms(2)
proof (induction arbitrary: args p rule: fuel_le_induct)
  case (Suc m k)
  then show ?case by (simp only: arg_loop.simps Let_def) (intro fuel_mono Suc.IH assms(1))
qed (simp add: fuel_mono)

lemma args_mono [fuel_mono]: "calls_le c c' \<Longrightarrow> refines (parse_args c p) (parse_args c' p)"
  unfolding parse_args_def Let_def by (intro fuel_mono)

lemma led_mono [fuel_mono]: "calls_le c c' \<Longrightarrow> refines (led c left t p) (led c' left t p)"
  unfolding led_def Let_def by (intro fuel_mono)

lemma led_loop_mono [fuel_mono]:
  assumes "calls_le c c'" "m \<le> m'"
  shows "refines (led_loop m c bp left p) (led_loop m' c' bp left p)"
  using assms(2)
proof (induction arbitrary: left p rule: fuel_le_induct)
  case (Suc m k)
  then show ?case by (simp only: led_loop.simps Let_def) (intro fuel_mono Suc.IH assms(1))
qed (simp add: fuel_mono)

lemma expr_mono [fuel_mono]: "calls_le c c' \<Longrightarrow> refines (parse_expr c bp p) (parse_expr c' bp p)"
  unfolding parse_expr_def Let_def by (intro fuel_mono)

lemma calls_at_mono [fuel_mono]: "n \<le> n' \<Longrightarrow> calls_le (calls_at n) (calls_at n')"
proof (induction n arbitrary: n')
  case (Suc n)
  then obtain k where "n' = Suc k" "n \<le> k" by (cases n') auto
  then show ?case
    using expr_mono [OF Suc.IH] decl_spec_mono [OF Suc.IH] declarator_mono [OF Suc.IH] initializer_mono [OF Suc.IH]
    by (simp add: calls_le_def Let_def)
qed (simp add: calls_le_def fuel_mono)

subsection \<open>Declarations and statements\<close>

definition stmt_le :: "(parser \<Rightarrow> (ast \<times> parser) option) \<Rightarrow> (parser \<Rightarrow> (ast \<times> parser) option) \<Rightarrow> bool" where
  "stmt_le stmt stmt' \<longleftrightarrow> (\<forall>p. refines (stmt p) (stmt' p))"

lemma stmt_leD: "stmt_le stmt stmt' \<Longrightarrow> refines (stmt p) (stmt' p)"
  by (simp add: stmt_le_def)

lemma stmt_loop_mono [fuel_mono]:
  assumes "stmt_le stmt stmt'" "m \<le> m'"
  shows "refines (stmt_loop m stmt ss p) (stmt_loop m' stmt' ss p)"
  using assms(2)
proof (induction arbitrary: ss p rule: fuel_le_induct)
  case (Suc m k)
  then show ?case by (simp only: stmt_loop.simps Let_def) (intro fuel_mono Suc.IH assms(1) stmt_leD [OF assms(1)])
qed (simp add: fuel_mono)

lemma compound_mono [fuel_mono]:
  "stmt_le stmt stmt' \<Longrightarrow> m \<le> m' \<Longrightarrow> refines (parse_compound m stmt p) (parse_compound m' stmt' p)"
  unfolding parse_compound_def Let_def by (intro fuel_mono)

lemma compound_le [fuel_mono]: "stmt_le stmt stmt' \<Longrightarrow> m \<le> m' \<Longrightarrow> stmt_le (parse_compound m stmt) (parse_compound m' stmt')"
  by (simp add: stmt_le_def [of "parse_compound m stmt"] compound_mono)

lemma func_def_mono [fuel_mono]:
  assumes "stmt_le f f'"
  shows "refines (parse_func_def f ds dn name ty p) (parse_func_def f' ds dn name ty p)"
  unfolding parse_func_def_def Let_def by (intro fuel_mono assms stmt_leD [OF assms(1)])

lemma declarator_loop_mono [fuel_mono]:
  "calls_le c c' \<Longrightarrow> stmt_le f f' \<Longrightarrow> m \<le> m' \<Longrightarrow>
    refines (declarator_loop m c f ds base top_level decls p) (declarator_loop m' c' f' ds base top_level decls p)"
proof (induction m arbitrary: m' decls p)
  case (Suc m)
  then obtain k where "m' = Suc k" "m \<le> k" by (cases m') auto
  then show ?case by (simp only: declarator_loop.simps Let_def) (intro fuel_mono Suc.IH Suc.prems(1,2))
qed (simp add: fuel_mono)

lemma decl_list_mono [fuel_mono]:
  "calls_le c c' \<Longrightarrow> stmt_le f f' \<Longrightarrow> refines (parse_decl_list c f ds top_level p) (parse_decl_list c' f' ds top_level p)"
  unfolding parse_decl_list_def Let_def by (intro fuel_mono)

lemma small_stmts_mono [fuel_mono]:
  assumes "stmt_le stmt stmt'"
  shows "refines (in_loop stmt p) (in_loop stmt' p)" "refines (in_switch stmt p) (in_switch stmt' p)"
    "refines (case_body stmt t p) (case_body stmt' t p)"
  unfolding in_loop_def in_switch_def case_body_def Let_def by (intro fuel_mono stmt_leD [OF assms])+

lemma small_exprs_mono [fuel_mono]:
  assumes "calls_le c c'"
  shows "refines (paren_expr c p) (paren_expr c' p)" "refines (expr_unless k c p) (expr_unless k c' p)"
    "stmt_le f f' \<Longrightarrow> refines (decl_stmt c f t p) (decl_stmt c' f' t p)"
  unfolding paren_expr_def expr_unless_def decl_stmt_def Let_def by (intro fuel_mono assms; assumption?)+

lemma for_init_mono [fuel_mono]:
  "calls_le c c' \<Longrightarrow> stmt_le f f' \<Longrightarrow> refines (for_init c f t p) (for_init c' f' t p)"
  unfolding for_init_def Let_def by (intro fuel_mono)

lemma ident_stmt_mono [fuel_mono]:
  assumes "calls_le c c'" "stmt_le stmt stmt'"
  shows "refines (parse_ident_stmt c stmt t p) (parse_ident_stmt c' stmt' t p)"
  unfolding parse_ident_stmt_def Let_def by (intro fuel_mono assms stmt_leD [OF assms(2)])

lemma keyword_stmt_mono [fuel_mono]:
  assumes "calls_le c c'" "stmt_le stmt stmt'"
  shows "refines (parse_keyword_stmt c stmt t p) (parse_keyword_stmt c' stmt' t p)"
  unfolding parse_keyword_stmt_def Let_def by (intro fuel_mono assms stmt_leD [OF assms(2)])

lemma statement_mono [fuel_mono]:
  assumes "calls_le c c'" "stmt_le stmt stmt'"
  shows "refines (statement c stmt p) (statement c' stmt' p)"
  unfolding statement_def Let_def by (intro fuel_mono assms stmt_leD [OF assms(2)])

lemma parse_statement_le [fuel_mono]: "n \<le> n' \<Longrightarrow> stmt_le (parse_statement n) (parse_statement n')"
proof (induction n arbitrary: n')
  case (Suc n)
  then obtain k where "n' = Suc k" "n \<le> k" by (cases n') auto
  then show ?case
    using statement_mono [OF calls_at_mono [of n k] Suc.IH [of k]]
    by (simp add: stmt_le_def [of "statement (calls_at n) (parse_statement n)"])
qed (simp add: stmt_le_def fuel_mono)

lemma unit_loop_mono [fuel_mono]:
  assumes "n \<le> n'" "m \<le> m'"
  shows "refines (unit_loop m n decls p) (unit_loop m' n' decls p)"
  using assms(2)
proof (induction arbitrary: decls p rule: fuel_le_induct)
  case (Suc m k)
  then show ?case by (simp only: unit_loop.simps Let_def) (intro fuel_mono Suc.IH assms(1))
qed (simp add: fuel_mono)

lemma parse_mono: "n \<le> n' \<Longrightarrow> refines (parser_parse n p) (parser_parse n' p)"
  unfolding parser_parse_def Let_def by (intro fuel_mono)

end
