(* ===== verification/ParserProps.thy ===== *)
theory ParserProps
  imports ParserTermStmt ParserFuel Scope CTypeProps
begin

section \<open>Properties of the parser\<close>

text \<open>
  The parser always ends, having read all the input and restored its scopes and depths, and its
  result does not depend on the fuel. Its symbol tables are an instance of the interface
  \<open>scopes\<close>. The declarator builds the pointers of its stars in the order the code gives them.
\<close>

subsection \<open>The whole input is read\<close>

lemma unit_loop_reads_all: "unit_loop m n decls p = Some (ds, q) \<Longrightarrow> first q = TOK_EOF"
proof (induction m arbitrary: decls p)
  case (Suc m)
  obtain t s where e: "peek p = (t, s)" by fastforce
  have "first s = tk_kind t" using at_tok_first(1) [OF peek_spec(2) [OF e]] .
  then show ?case using Suc by (auto simp: e Let_def bind_eq_Some_conv split: if_splits)
qed simp

lemma parse_enough: "2 * ahead p + 3 \<le> n \<Longrightarrow> \<exists>tu q. parser_parse n p = Some (tu, q) \<and> keeps p q \<and> first q = TOK_EOF"
  using parse_ends [of p n] unit_loop_reads_all
  by (auto simp: ends_def parser_parse_def bind_eq_Some_conv split: prod.splits)


text \<open>C21: whatever the parser returns, it has restored its context: the scopes around the current
  one, the depths of loops and switches, and the source; types are only added, and errors
  are only counted up, each one with a diagnostic.\<close>

theorem parser_parse_keeps_context:
  assumes "parser_parse n p = Some (tu, q)"
  shows "tl (ps_scope q) = tl (ps_scope p) \<and> tl (ps_tag_scope q) = tl (ps_tag_scope p)
    \<and> length (ps_scope q) = length (ps_scope p) \<and> length (ps_tag_scope q) = length (ps_tag_scope p)
    \<and> ps_loop q = ps_loop p \<and> ps_switch q = ps_switch p \<and> parser_error_count p \<le> parser_error_count q
    \<and> length (tt_nodes (ps_types p)) \<le> length (tt_nodes (ps_types q)) \<and> lx_src (ps_lexer q) = lx_src (ps_lexer p)
    \<and> parser_error_count q - parser_error_count p
      \<le> int (diag_error_count (lx_diag (ps_lexer q))) - int (diag_error_count (lx_diag (ps_lexer p)))"
proof -
  have "parser_parse (max n (2 * ahead p + 3)) p = Some (tu, q)"
    by (rule refines_Some [OF parse_mono assms]) simp
  then have "keeps p q" using parse_enough [of p "max n (2 * ahead p + 3)"] by auto
  then show ?thesis by (simp add: keeps_def parser_error_count_def diag_error_count_def)
qed

subsection \<open>Scopes\<close>

lemma sym_hash_less: "sym_hash name < SCOPE_BUCKETS"
proof -
  have "unat (x AND 63 :: u32) \<le> unat (63 :: u32)" for x
    by (metis word_and_le1 word_le_nat_alt)
  then have "sym_hash name \<le> 63" by (simp add: sym_hash_def)
  then show ?thesis by (simp add: SCOPE_BUCKETS_def)
qed

definition pscopes_ok :: "pscope list \<Rightarrow> bool" where
  "pscopes_ok scs \<longleftrightarrow> scs \<noteq> [] \<and> (\<forall>s\<in>set scs. length s = SCOPE_BUCKETS)"

definition pscope_add :: "psymbol \<Rightarrow> pscope list \<Rightarrow> pscope list" where
  "pscope_add sy = scope_define_in (py_name sy) (py_kind sy) (py_type sy)"

lemma pscope_add_Cons:
  "pscope_add sy (s # scs) = s[sym_hash (py_name sy) := sy # s ! sym_hash (py_name sy)] # scs"
  by (cases sy) (simp add: pscope_add_def scope_define_in_def Let_def)

interpretation pscopes: scopes pscopes_ok scope_new tl pscope_add scope_lookup_chain py_name
proof
  fix e :: "pscope list" and v :: psymbol and n :: string
  assume ok: "pscopes_ok e"
  then obtain s scs where e: "e = s # scs" "length s = SCOPE_BUCKETS" by (cases e) (auto simp: pscopes_ok_def)
  show "pscopes_ok (scope_new e)" using ok by (simp add: pscopes_ok_def scope_new_def)
  show "pscopes_ok (pscope_add v e)" using ok by (auto simp: e pscope_add_Cons pscopes_ok_def)
  show "tl (scope_new e) = e" by (simp add: scope_new_def)
  show "tl (pscope_add v e) = tl e" by (simp add: e pscope_add_Cons)
  have "sym_hash n < length (replicate SCOPE_BUCKETS ([] :: psymbol list))" using sym_hash_less by simp
  then show "scope_lookup_chain (scope_new e) n = scope_lookup_chain e n"
    by (simp add: scope_new_def scope_lookup_in_def)
  show "scope_lookup_chain (pscope_add v e) n = (if n = py_name v then Some v else scope_lookup_chain e n)"
    using sym_hash_less [of n] e
    by (cases "sym_hash n = sym_hash (py_name v)") (auto simp: pscope_add_Cons scope_lookup_in_def)
qed

text \<open>C23: the symbol tables of the parser follow C scoping: after any sequence of declarations and
  blocks, nested to any depth, looking a name up finds the latest declaration of it outside the
  closed blocks, or else what it stood for before, and leaving a block gives back the table it
  was entered with.\<close>

theorem parser_names_resolve_innermost:
  assumes "pscopes_ok scs"
  shows "scope_lookup_chain (scope_run scope_new tl pscope_add ops scs) n
      = visible py_name ops n (scope_lookup_chain scs n)
    \<and> tl (scope_run scope_new tl pscope_add bs (scope_new scs)) = scs"
  using pscopes.run_lookup [OF assms] pscopes.block_restores [OF assms] by simp

subsection \<open>Pointer declarators\<close>

text \<open>The qualifiers of the outermost \<open>k\<close> pointers of a type, and what they point to.\<close>

fun pointer_chain :: "nat \<Rightarrow> type_node list \<Rightarrow> tid \<Rightarrow> (int list \<times> tid) option" where
  "pointer_chain 0 ns t = Some ([], t)"
| "pointer_chain (Suc k) ns t =
     (if t < length ns
      then (case body ns t of
              Pointer p \<Rightarrow> map_option (\<lambda>(qs, u). (tn_qual (ns ! t) # qs, u)) (pointer_chain k ns p)
            | _ \<Rightarrow> None)
      else None)"

lemma pointer_chain_append: "pointer_chain k ns t = Some r \<Longrightarrow> pointer_chain k (ns @ xs) t = Some r"
  by (induction k arbitrary: t r) (auto simp: nth_append split: if_splits type_body.splits)

lemma pointer_node:
  assumes "table_inv adr tt" "type_pointer adr tt p q = (tt', t)"
  shows "table_inv adr tt'" "t < length (tt_nodes tt')" "node (tt_nodes tt') t = \<lparr>tn_qual = q, tn_body = Pointer p\<rparr>"
    "\<exists>xs. tt_nodes tt' = tt_nodes tt @ xs"
proof -
  have d: "derive adr tt (KPointer p q) = (tt', t)" using assms(2) by (simp add: derive_def)
  note i = derive_inv(1,2) [OF assms(1) d]
  show "table_inv adr tt'" by (rule i(1))
  have t: "interned tt' t" "node_key (node (tt_nodes tt') t) = Some (KPointer p q)"
    using i(2) by (auto simp: type_key_def split: if_splits)
  show "t < length (tt_nodes tt')" by (rule table_inv_interned(1) [OF i(1) t(1)])
  show "node (tt_nodes tt') t = \<lparr>tn_qual = q, tn_body = Pointer p\<rparr>"
    using t(2) by (cases "node (tt_nodes tt') t") (auto simp: node_key_def split: type_body.splits)
  show "\<exists>xs. tt_nodes tt' = tt_nodes tt @ xs"
    by (rule derive_cases [OF assms(1) d]) simp_all
qed

text \<open>C37: the stars of a declarator become pointers from the outside in: the qualifiers after the
  first star are those of the outermost pointer, and the last star points to the base type. C99
  6.7.5.1 asks for the opposite: in \<open>int * const * x\<close> the code makes the variable constant
  instead of what it points to.\<close>

theorem first_star_outermost:
  assumes "table_inv (ps_adr p) (ps_types p)" "wrap_pointers qs base p = (t, q)"
  shows "pointer_chain (length qs) (tt_nodes (ps_types q)) t = Some (qs, base)"
proof -
  have "table_inv (ps_adr q) (ps_types q) \<and> pointer_chain (length qs) (tt_nodes (ps_types q)) t = Some (qs, base)"
    using assms(2)
  proof (induction qs arbitrary: t q)
    case (Cons x xs)
    obtain u s where u: "wrap_pointers xs base p = (u, s)" by fastforce
    note ih = Cons.IH [OF u]
    obtain tt v where v: "type_pointer (ps_adr s) (ps_types s) u x = (tt, v)" by fastforce
    have r: "t = v" "q = s\<lparr>ps_types := tt\<rparr>" using Cons.prems by (simp_all add: u v with_types_def)
    note n = pointer_node [OF conjunct1 [OF ih] v]
    obtain ys where "tt_nodes tt = tt_nodes (ps_types s) @ ys" using n(4) by blast
    then show ?case using pointer_chain_append [OF conjunct2 [OF ih]] n(1-3) by (simp add: r)
  qed (simp add: assms(1))
  then show ?thesis by simp
qed

subsection \<open>Witnesses\<close>

text \<open>A parser at the start of a source.\<close>

definition demo_parser :: "string \<Rightarrow> parser" where
  "demo_parser src = parser_init (lexer_init src (length src) [] diag_static) type_table_init (\<lambda>t. 0) (\<lambda>s. s)"

lemma demo_ahead: "ahead (demo_parser src) = length src"
  by (simp add: demo_parser_def parser_init_def lexer_init_def ahead_def)


lemma parser_parse_keeps_context_witness:
  "\<exists>tu q. parser_parse 99 (demo_parser ''f(int x) { while (1) ;'') = Some (tu, q) \<and> ps_loop q = 0"
proof -
  obtain tu q where r: "parser_parse 99 (demo_parser ''f(int x) { while (1) ;'') = Some (tu, q)"
    using parse_enough [of "demo_parser ''f(int x) { while (1) ;''" 99] by (auto simp: demo_ahead)
  show ?thesis using parser_parse_keeps_context [OF r] r by (simp add: demo_parser_def parser_init_def)
qed

lemma parser_names_resolve_innermost_witness:
  "scope_lookup_chain (scope_run scope_new tl pscope_add
     [Define \<lparr>py_name = ''T'', py_kind = SYM_TYPEDEF, py_type = type_int\<rparr>,
      Block [Define \<lparr>py_name = ''T'', py_kind = SYM_VAR, py_type = type_char\<rparr>]] (scope_new [])) ''T''
   = Some \<lparr>py_name = ''T'', py_kind = SYM_TYPEDEF, py_type = type_int\<rparr>"
proof -
  have "pscopes_ok (scope_new [])" by (simp add: pscopes_ok_def scope_new_def)
  then show ?thesis unfolding conjunct1 [OF parser_names_resolve_innermost [OF \<open>pscopes_ok (scope_new [])\<close>]] by simp
qed

lemma first_star_outermost_witness:
  "\<exists>t q. wrap_pointers [QUAL_CONST, QUAL_NONE] type_int (demo_parser []) = (t, q)
     \<and> pointer_chain (length [QUAL_CONST, QUAL_NONE]) (tt_nodes (ps_types q)) t = Some ([QUAL_CONST, QUAL_NONE], type_int)"
proof -
  obtain t q where w: "wrap_pointers [QUAL_CONST, QUAL_NONE] type_int (demo_parser []) = (t, q)" by fastforce
  have "table_inv (ps_adr (demo_parser [])) (ps_types (demo_parser []))"
    using init_inv by (simp add: demo_parser_def parser_init_def)
  from first_star_outermost [OF this w] w show ?thesis by blast
qed

end
