(* ===== verification/ParserPrint.thy ===== *)
theory ParserPrint
  imports ParserProps
begin

section \<open>Expressions survive printing and parsing\<close>

text \<open>
  An expression printed with as few parentheses as the grammar of C99 6.5 needs is parsed back
  to the same tree, up to positions. This pins down the binding powers and the associativity of
  every operator. Casts, compound literals and sizeof of a type are left out: they print types.
\<close>

subsection \<open>Reading tokens\<close>

text \<open>The state once the next token has been peeked at, and that token. Two states with the same
  peeked state are the same to the parser.\<close>

definition seen :: "parser \<Rightarrow> parser" where
  "seen p = snd (peek p)"

definition tok :: "parser \<Rightarrow> token" where
  "tok p = fst (peek p)"

lemma peek_seen: "peek p = (tok p, seen p)"
  by (simp add: tok_def seen_def)

lemma seen_idem [simp]: "seen (seen p) = seen p" "tok (seen p) = tok p"
  by (auto simp: seen_def tok_def peek_def lexer_peek_def split: prod.splits if_splits)

lemma slot_upd: "l\<lparr>lx_has_peek := False\<rparr> = slot False (lx_peeked l) l"
  "l\<lparr>lx_peeked := t, lx_has_peek := b\<rparr> = slot b t l" "slot b t (slot b' t' l) = slot b t l"
  by (simp_all add: slot_def)

text \<open>Consuming the token leaves the same state, but for the contents of the empty slot.\<close>

definition clear :: "parser \<Rightarrow> parser" where
  "clear p = p\<lparr>ps_lexer := slot False null_token (ps_lexer p)\<rparr>"

lemma skip_clear: "clear (skip_tok (seen p)) = clear (skip_tok p)"
  by (auto simp: clear_def skip_tok_def advance_def seen_def peek_def lexer_peek_def lexer_next_def slot_upd
      split: prod.splits)

lemma skip_no_peek: "\<not> lx_has_peek (ps_lexer (skip_tok p))"
  using lexer_next_no_peek [of "ps_lexer p"] by (simp add: skip_tok_def advance_def split_beta)

lemma seen_of_clear: "\<not> lx_has_peek (ps_lexer p) \<Longrightarrow> peek p = peek (clear p)"
proof -
  assume n: "\<not> lx_has_peek (ps_lexer p)"
  let ?l = "ps_lexer p"
  have "scan_token (slot False null_token ?l) = (fst (scan_token ?l), slot False null_token (snd (scan_token ?l)))"
    by (rule slot_scan_token)
  then have "lexer_peek (slot False null_token ?l) = lexer_peek ?l"
    using n by (simp add: lexer_peek_def split_beta slot_upd)
  then show ?thesis by (simp add: peek_def clear_def split_beta)
qed

lemma skip_seen: "seen (skip_tok (seen p)) = seen (skip_tok p)" "tok (skip_tok (seen p)) = tok (skip_tok p)"
  using seen_of_clear [OF skip_no_peek] skip_clear [of p] by (simp_all add: seen_def tok_def)

lemma skip_cong: "seen p = seen p' \<Longrightarrow> seen (skip_tok p) = seen (skip_tok p')"
  using skip_seen(1) by metis

lemma tok_cong: "seen p = seen p' \<Longrightarrow> tok p = tok p'"
  using seen_idem(2) by metis

lemma same_strings:
  "lx_strings (ps_lexer (skip_tok p)) = lx_strings (ps_lexer (seen p))"
  by (auto simp: skip_tok_def advance_def seen_def peek_def lexer_peek_def lexer_next_def split: prod.splits)

lemma intern_skip: "tok_intern (skip_tok p) t = tok_intern (seen p) t" "literal_of (skip_tok p) t = literal_of (seen p) t"
  by (simp_all add: tok_intern_def literal_of_def same_strings Let_def)

lemma advance_tok: "advance p = (tok p, skip_tok p)"
  by (auto simp: advance_def tok_def skip_tok_def peek_def lexer_peek_def lexer_next_def split: prod.splits)

lemma scope_skip [simp]: "ps_scope (skip_tok p) = ps_scope p" "ps_scope (seen p) = ps_scope p"
  by (auto simp: skip_tok_def advance_def seen_def peek_def split: prod.splits)

subsection \<open>The text of an expression\<close>

datatype lexeme = K TokenKind | B ast_body

definition fits :: "parser \<Rightarrow> lexeme \<Rightarrow> bool" where
  "fits p l = (case l of K k \<Rightarrow> tk_kind (tok p) = k | B b \<Rightarrow> literal_of (seen p) (tok p) = Some b)"

text \<open>The tokens of \<open>p\<close> are \<open>ls\<close>, and then comes \<open>q\<close>.\<close>

fun reads :: "lexeme list \<Rightarrow> parser \<Rightarrow> parser \<Rightarrow> bool" where
  "reads [] p q \<longleftrightarrow> seen p = seen q"
| "reads (l # ls) p q \<longleftrightarrow> fits p l \<and> reads ls (skip_tok p) q"

lemma fits_cong: "seen p = seen p' \<Longrightarrow> fits p l = fits p' l"
  using tok_cong [of p p'] by (cases l) (simp_all add: fits_def)

lemma reads_cong: "seen p = seen p' \<Longrightarrow> reads ls p q = reads ls p' q"
proof (induction ls arbitrary: p p')
  case (Cons l ls)
  from Cons.IH [OF skip_cong [OF Cons.prems]] fits_cong [OF Cons.prems] show ?case by simp
qed simp

lemma reads_seen: "reads ls (seen p) q = reads ls p q"
  by (rule reads_cong) simp

lemma reads_append: "reads (xs @ ys) p q \<longleftrightarrow> (\<exists>r. reads xs p r \<and> reads ys r q)"
proof (induction xs arbitrary: p)
  case Nil
  show ?case using reads_cong [of p _ ys q] by (metis append_Nil reads.simps(1))
qed auto

lemma reads_scope: "reads ls p q \<Longrightarrow> ps_scope q = ps_scope p"
proof (induction ls arbitrary: p)
  case Nil
  then have "seen p = seen q" by simp
  then show ?case using scope_skip(2) [of p] scope_skip(2) [of q] by simp
next
  case (Cons l ls)
  then show ?case by force
qed

text \<open>The levels of the grammar: 40 to 130 for the binary operators (C99 6.5.14 up to 6.5.5), 140 for a
  unary expression, 150 for a postfix one, 160 for a primary expression.\<close>

definition binary_level :: "TokenKind \<Rightarrow> int" where
  "binary_level op =
     (if op \<in> {TOK_STAR, TOK_SLASH, TOK_PERCENT} then 130
      else if op \<in> {TOK_PLUS, TOK_MINUS} then 120
      else if op \<in> {TOK_LSHIFT, TOK_RSHIFT} then 110
      else if op \<in> {TOK_LT, TOK_GT, TOK_LE, TOK_GE} then 100
      else if op \<in> {TOK_EQ, TOK_NEQ} then 90
      else if op = TOK_AMP then 80
      else if op = TOK_CARET then 70
      else if op = TOK_PIPE then 60
      else if op = TOK_AND then 50
      else 40)"

definition level_of :: "ast_body \<Rightarrow> int" where
  "level_of b =
     (case b of
        Comma l r \<Rightarrow> 10 | Assign op l r \<Rightarrow> 20 | Ternary c t e \<Rightarrow> 30 | Binop op l r \<Rightarrow> binary_level op
      | Unop op e \<Rightarrow> 140 | SizeofExpr e \<Rightarrow> 140
      | Postfix op e \<Rightarrow> 150 | Call f args \<Rightarrow> 150 | Subscript a i \<Rightarrow> 150 | Member e f \<Rightarrow> 150 | MemberPtr e f \<Rightarrow> 150
      | _ \<Rightarrow> 160)"

definition parens :: "lexeme list \<Rightarrow> lexeme list" where
  "parens ls = K TOK_LPAREN # ls @ [K TOK_RPAREN]"

definition at_level :: "int \<Rightarrow> int \<Rightarrow> lexeme list \<Rightarrow> lexeme list" where
  "at_level m l ls = (if l < m then parens ls else ls)"

fun commas :: "lexeme list list \<Rightarrow> lexeme list" where
  "commas [] = []"
| "commas [x] = x"
| "commas (x # y # zs) = x @ K TOK_COMMA # commas (y # zs)"

abbreviation lvl :: "ast \<Rightarrow> int" where
  "lvl e \<equiv> level_of (ast_body e)"

fun print_expr :: "ast \<Rightarrow> lexeme list" where
  "print_expr (Ast line col t b) =
     (case b of
        Comma l r \<Rightarrow> at_level 10 (lvl l) (print_expr l) @ K TOK_COMMA # at_level 20 (lvl r) (print_expr r)
      | Assign op l r \<Rightarrow> at_level 140 (lvl l) (print_expr l) @ K op # at_level 20 (lvl r) (print_expr r)
      | Ternary c th el \<Rightarrow> at_level 40 (lvl c) (print_expr c) @ K TOK_QUESTION # at_level 10 (lvl th) (print_expr th) @ K TOK_COLON # at_level 30 (lvl el) (print_expr el)
      | Binop op l r \<Rightarrow> at_level (binary_level op) (lvl l) (print_expr l) @ K op # at_level (binary_level op + 1) (lvl r) (print_expr r)
      | Unop op e \<Rightarrow> K op # at_level 140 (lvl e) (print_expr e)
      | SizeofExpr e \<Rightarrow> K TOK_SIZEOF # parens (print_expr e)
      | Postfix op e \<Rightarrow> at_level 150 (lvl e) (print_expr e) @ [K op]
      | Call f args \<Rightarrow> at_level 150 (lvl f) (print_expr f) @ K TOK_LPAREN # commas (map (\<lambda>e. at_level 20 (lvl e) (print_expr e)) args) @ [K TOK_RPAREN]
      | Subscript a i \<Rightarrow> at_level 150 (lvl a) (print_expr a) @ K TOK_LBRACKET # print_expr i @ [K TOK_RBRACKET]
      | Member e f \<Rightarrow> at_level 150 (lvl e) (print_expr e) @ [K TOK_DOT, B (Ident f)]
      | MemberPtr e f \<Rightarrow> at_level 150 (lvl e) (print_expr e) @ [K TOK_ARROW, B (Ident f)]
      | _ \<Rightarrow> [B b])"

text \<open>The expressions that the text covers, with the operators their nodes can have.\<close>

fun printable :: "ast \<Rightarrow> bool" where
  "printable (Ast line col t b) =
     (case b of
        Comma l r \<Rightarrow> printable l \<and> printable r
      | Assign op l r \<Rightarrow> is_assign_op op \<and> printable l \<and> printable r
      | Ternary c th el \<Rightarrow> printable c \<and> printable th \<and> printable el
      | Binop op l r \<Rightarrow> is_binary_op op \<and> printable l \<and> printable r
      | Unop op e \<Rightarrow> is_prefix_op op \<and> printable e
      | SizeofExpr e \<Rightarrow> printable e
      | Postfix op e \<Rightarrow> (op = TOK_PLUSPLUS \<or> op = TOK_MINUSMINUS) \<and> printable e
      | Call f args \<Rightarrow> printable f \<and> list_all printable args
      | Subscript a i \<Rightarrow> printable a \<and> printable i
      | Member e f \<Rightarrow> printable e
      | MemberPtr e f \<Rightarrow> printable e
      | IntLit v s w \<Rightarrow> True | CharLit v s w \<Rightarrow> True | FloatLit v s \<Rightarrow> True | StrLit s w \<Rightarrow> True | Ident n \<Rightarrow> True
      | _ \<Rightarrow> False)"

text \<open>The tree without its positions.\<close>

fun erase :: "ast \<Rightarrow> ast" where
  "erase (Ast line col t b) = Ast 0 0 None
     (case b of
        Comma l r \<Rightarrow> Comma (erase l) (erase r)
      | Assign op l r \<Rightarrow> Assign op (erase l) (erase r)
      | Ternary c th el \<Rightarrow> Ternary (erase c) (erase th) (erase el)
      | Binop op l r \<Rightarrow> Binop op (erase l) (erase r)
      | Unop op e \<Rightarrow> Unop op (erase e)
      | SizeofExpr e \<Rightarrow> SizeofExpr (erase e)
      | Postfix op e \<Rightarrow> Postfix op (erase e)
      | Call f args \<Rightarrow> Call (erase f) (map erase args)
      | Subscript a i \<Rightarrow> Subscript (erase a) (erase i)
      | Member e f \<Rightarrow> Member (erase e) f
      | MemberPtr e f \<Rightarrow> MemberPtr (erase e) f
      | _ \<Rightarrow> b)"

subsection \<open>Results with enough fuel\<close>

definition evt :: "(nat \<Rightarrow> bool) \<Rightarrow> bool" where
  "evt P \<longleftrightarrow> (\<exists>N. \<forall>n\<ge>N. P n)"

lemma evt_mono: "evt P \<Longrightarrow> (\<And>n. P n \<Longrightarrow> Q n) \<Longrightarrow> evt Q"
  unfolding evt_def by blast

lemma evt_conj: "evt P \<Longrightarrow> evt Q \<Longrightarrow> evt (\<lambda>n. P n \<and> Q n)"
  unfolding evt_def by (meson max.bounded_iff)

lemma evt_True: "(\<And>n. P n) \<Longrightarrow> evt P"
  unfolding evt_def by blast

definition parses :: "int \<Rightarrow> parser \<Rightarrow> ast \<Rightarrow> parser \<Rightarrow> bool" where
  "parses bp p e r \<longleftrightarrow> evt (\<lambda>n. c_expr (calls_at n) bp p = Some (e, r))"

definition loops :: "int \<Rightarrow> ast \<Rightarrow> parser \<Rightarrow> ast \<Rightarrow> parser \<Rightarrow> bool" where
  "loops bp left p e r \<longleftrightarrow> evt (\<lambda>k. \<forall>m\<ge>k. \<forall>n\<ge>k. led_loop m (calls_at n) bp left p = Some (e, r))"

lemma parses_intro:
  assumes "evt (\<lambda>n. nud (calls_at n) (tok p) (skip_tok p) = Some (left, s))" "loops bp left s e r"
  shows "parses bp p e r"
proof -
  have "evt (\<lambda>n. parse_expr (calls_at n) bp p = Some (e, r))"
    using assms(2) unfolding loops_def
    by (rule evt_mono [OF evt_conj [OF assms(1)]]) (simp add: parse_expr_def advance_tok)
  then obtain N where N: "\<forall>n\<ge>N. parse_expr (calls_at n) bp p = Some (e, r)" by (auto simp: evt_def)
  have "c_expr (calls_at n) bp p = Some (e, r)" if "n \<ge> Suc N" for n
    using N that by (cases n) (simp_all add: Let_def)
  then show ?thesis unfolding parses_def evt_def by blast
qed

lemma loops_cong:
  assumes "seen p = seen p'"
  shows "loops bp left p e r = loops bp left p' e r"
proof -
  have "led_loop m c bp left p = led_loop m c bp left p'" for m c
    using assms tok_cong [OF assms] by (cases m) (simp_all add: peek_seen)
  then show ?thesis by (simp add: loops_def)
qed

lemma loops_stop:
  assumes "tok_lbp (tk_kind (tok p)) \<le> bp"
  shows "loops bp left p left (seen p)"
proof -
  have "led_loop m c bp left p = Some (left, seen p)" if "Suc 0 \<le> m" for m c
    using assms that by (cases m) (simp_all add: peek_seen)
  then show ?thesis unfolding loops_def evt_def by (intro exI [of _ "Suc 0"]) simp
qed

lemma loops_step:
  assumes "bp < tok_lbp (tk_kind (tok p))"
    "evt (\<lambda>n. led (calls_at n) left (tok p) (skip_tok (seen p)) = Some (x, s))" "loops bp x s e r"
  shows "loops bp left p e r"
proof -
  obtain N where N: "\<forall>n\<ge>N. led (calls_at n) left (tok p) (skip_tok (seen p)) = Some (x, s)"
      "\<forall>k\<ge>N. \<forall>m\<ge>k. \<forall>n\<ge>k. led_loop m (calls_at n) bp x s = Some (e, r)"
    using evt_conj [OF assms(2) assms(3) [unfolded loops_def]] by (auto simp: evt_def)
  have "led_loop k (calls_at n) bp x s = Some (e, r)" if "N \<le> k" "N \<le> n" for k n using N(2) that by blast
  then have "led_loop m (calls_at n) bp left p = Some (e, r)" if "Suc N \<le> m" "Suc N \<le> n" for m n
    using N(1) that assms(1) by (cases m) (simp_all add: peek_seen)
  then show ?thesis unfolding loops_def evt_def by (meson le_trans)
qed

subsection \<open>What it means that an expression is read back\<close>

text \<open>The binding power of a token that may follow the text of an expression.\<close>

definition follow :: "ast \<Rightarrow> int" where
  "follow e =
     (case ast_body e of
        Comma l r \<Rightarrow> 10 | Assign op l r \<Rightarrow> 19 | Ternary c th el \<Rightarrow> 29 | Binop op l r \<Rightarrow> binary_level op
      | Unop op x \<Rightarrow> 140 | _ \<Rightarrow> 150)"

abbreviation next_bp :: "parser \<Rightarrow> int" where
  "next_bp q \<equiv> tok_lbp (tk_kind (tok q))"

definition primary :: "ast \<Rightarrow> bool" where
  "primary e \<longleftrightarrow> lvl e = 140 \<or> lvl e = 160"

definition no_types :: "parser \<Rightarrow> lexeme list \<Rightarrow> bool" where
  "no_types p ls \<longleftrightarrow> (\<forall>n. B (Ident n) \<in> set ls \<longrightarrow> \<not> is_typedef_name p n)"

text \<open>Parsing at \<open>p\<close> comes to the loop of parse_expr at \<open>q\<close> with the tree of \<open>e\<close>.\<close>

definition covers :: "int \<Rightarrow> parser \<Rightarrow> ast \<Rightarrow> parser \<Rightarrow> bool" where
  "covers bp p e q \<longleftrightarrow> (\<exists>e'. erase e' = erase e \<and> (\<forall>x r. loops bp e' q x r \<longrightarrow> parses bp p x r))"

definition parsed :: "ast \<Rightarrow> bool" where
  "parsed e \<longleftrightarrow> (\<forall>bp p q. 0 \<le> bp \<and> reads (print_expr e) p q \<and> no_types p (print_expr e)
     \<and> (bp < lvl e \<or> primary e) \<and> next_bp q \<le> follow e \<longrightarrow> covers bp p e q)"

lemma parsedD:
  assumes "parsed e" "0 \<le> bp" "reads (print_expr e) p q" "no_types p (print_expr e)"
    "bp < lvl e \<or> primary e" "next_bp q \<le> follow e"
  shows "covers bp p e q"
  using assms by (simp add: parsed_def)

lemma covers_stop:
  assumes "covers bp p e q" "next_bp q \<le> bp"
  obtains e' where "erase e' = erase e" "parses bp p e' (seen q)"
  using assms loops_stop [OF assms(2)] unfolding covers_def by blast

lemma no_types_scope: "ps_scope p = ps_scope p' \<Longrightarrow> no_types p ls = no_types p' ls"
  by (simp add: no_types_def is_typedef_name_def)

lemma no_types_append [simp]: "no_types p (xs @ ys) \<longleftrightarrow> no_types p xs \<and> no_types p ys"
  "no_types p (K k # xs) \<longleftrightarrow> no_types p xs" "no_types p []"
  "no_types p (B b # xs) \<longleftrightarrow> (\<forall>n. b = Ident n \<longrightarrow> \<not> is_typedef_name p n) \<and> no_types p xs"
  by (auto simp: no_types_def)

lemma tok_lbp_le: "tok_lbp k \<le> 150"
  by (simp add: tok_lbp_def)

lemma lbp_simps [simp]: "tok_lbp TOK_COMMA = 10" "tok_lbp TOK_QUESTION = 30" "tok_lbp TOK_RPAREN = 0" "tok_lbp TOK_COLON = 0"
  "tok_lbp TOK_RBRACKET = 0" "tok_lbp TOK_LPAREN = 150" "tok_lbp TOK_LBRACKET = 150" "tok_lbp TOK_DOT = 150"
  "tok_lbp TOK_ARROW = 150" "tok_lbp TOK_PLUSPLUS = 150" "tok_lbp TOK_MINUSMINUS = 150"
  by (simp_all add: tok_lbp_def is_assign_op_def)

lemma binary_level_range: "40 \<le> binary_level op" "binary_level op \<le> 130"
  by (simp_all add: binary_level_def)

lemma binary_level_top: "\<not> 140 < binary_level op"
  using binary_level_range(2) [of op] by simp

lemma binary_lbp: "is_binary_op op \<Longrightarrow> tok_lbp op = binary_level op"
  unfolding is_binary_op_def by (auto simp: tok_lbp_def is_assign_op_def binary_level_def)

lemma lvl_follow: "lvl e - 1 \<le> follow e \<or> lvl e = 160" "40 \<le> lvl e \<Longrightarrow> lvl e \<le> 140 \<Longrightarrow> lvl e \<le> follow e"
    "140 < lvl e \<Longrightarrow> follow e = 150"
  by (auto simp: follow_def level_of_def binary_level_top split: ast_body.splits)

lemma lvl_printable: "printable e \<Longrightarrow> 10 \<le> lvl e \<and> lvl e \<le> 160"
  using binary_level_range by (cases e) (auto simp: level_of_def intro: order_trans [of _ 40] order_trans [of _ 130] split: ast_body.splits)

subsection \<open>The first token of an expression\<close>

definition starts_expr :: "lexeme \<Rightarrow> bool" where
  "starts_expr l \<longleftrightarrow> (case l of K k \<Rightarrow> k = TOK_LPAREN \<or> k = TOK_SIZEOF \<or> is_prefix_op k | B b \<Rightarrow> True)"

lemma type_start_kind:
  assumes "is_type_start p t"
  shows "tk_kind t = TOK_IDENT \<or> (\<exists>k. tk_kind t = Keyword k \<and> k \<noteq> KW_SIZEOF) \<or> (\<exists>k. tk_kind t = Extension k)"
proof (cases "tk_kind t")
  case (Keyword k)
  have "k \<noteq> KW_SIZEOF"
  proof
    assume "k = KW_SIZEOF"
    then show False using assms Keyword by (simp add: is_type_start_def is_attribute_def)
  qed
  then show ?thesis using Keyword by simp
qed (use assms in \<open>simp_all add: is_type_start_def is_attribute_def\<close>)

lemma literal_kind: "literal_of p t = Some b \<Longrightarrow> tk_kind t \<in> {TOK_INT_LIT, TOK_FLOAT_LIT, TOK_CHAR_LIT, TOK_STR_LIT, TOK_IDENT}"
  by (simp add: literal_of_def split: if_splits)

lemma prefix_kind: "is_prefix_op k \<Longrightarrow> \<exists>op. k = Operator op"
  by (auto simp: is_prefix_op_def)

lemma not_type_start:
  assumes "fits p l" "starts_expr l" "no_types p [l]"
  shows "\<not> is_type_start (seen p) (tok p)"
proof (cases l)
  case (K k)
  then have "tk_kind (tok p) = k" "k = TOK_LPAREN \<or> k = TOK_SIZEOF \<or> (\<exists>op. k = Operator op)"
    using assms(1,2) prefix_kind [of k] by (simp_all add: fits_def starts_expr_def) blast
  then show ?thesis using type_start_kind [of "seen p" "tok p"] by auto
next
  case (B b)
  then have l: "literal_of (seen p) (tok p) = Some b" using assms(1) by (simp add: fits_def)
  show ?thesis
  proof (cases "tk_kind (tok p) = TOK_IDENT")
    case True
    then have "b = Ident (tok_intern (seen p) (tok p))" using l by (simp add: literal_of_def)
    then have "\<not> is_typedef_name (seen p) (tok_intern (seen p) (tok p))"
      using assms(3) B by (simp add: no_types_def is_typedef_name_def)
    then show ?thesis using True by (simp add: is_type_start_def is_attribute_def)
  next
    case False
    then show ?thesis using literal_kind [OF l] type_start_kind [of "seen p" "tok p"] by auto
  qed
qed

definition expr_text :: "lexeme list \<Rightarrow> bool" where
  "expr_text ls \<longleftrightarrow> ls \<noteq> [] \<and> starts_expr (hd ls)"

lemma expr_text_simps [simp]:
  "expr_text (l # ls) \<longleftrightarrow> starts_expr l" "expr_text xs \<Longrightarrow> expr_text (xs @ ys)"
  "expr_text ls \<Longrightarrow> expr_text (at_level m i ls)"
  by (auto simp: expr_text_def at_level_def parens_def starts_expr_def)

lemma starts_expr_simps [simp]: "starts_expr (B b)" "starts_expr (K TOK_SIZEOF)" "is_prefix_op op \<Longrightarrow> starts_expr (K op)"
  by (simp_all add: starts_expr_def)

lemma print_expr_start: "printable e \<Longrightarrow> expr_text (print_expr e)"
  by (induction e rule: printable.induct) (auto split: ast_body.splits)

lemma first_not_type:
  assumes "printable e" "reads (print_expr e @ ls) p q" "no_types p (print_expr e)"
  shows "\<not> is_type_start (seen p) (tok p)"
proof -
  obtain l ls' where e: "print_expr e = l # ls'" "starts_expr l"
    using print_expr_start [OF assms(1)] by (cases "print_expr e") (simp_all add: expr_text_def)
  show ?thesis by (rule not_type_start [of p l]) (use assms e in \<open>simp_all add: no_types_def\<close>)
qed

subsection \<open>Parentheses\<close>

lemma expect_hit: "tk_kind (tok q) = k \<Longrightarrow> expect k q = (tok q, skip_tok (seen q))"
  by (simp add: expect_def peek_seen advance_tok)

lemma check_tok: "check k p = (tk_kind (tok p) = k, seen p)"
  by (simp add: check_def peek_seen)

lemma match_miss: "tk_kind (tok p) \<noteq> k \<Longrightarrow> match_tok k p = (False, seen p)"
  "tk_kind (tok p) = k \<Longrightarrow> match_tok k p = (True, skip_tok (seen p))"
  by (simp_all add: match_tok_def check_tok)

lemma nud_paren:
  assumes "tk_kind t = TOK_LPAREN" "\<not> is_type_start (seen s) (tok s)" "parses 0 (seen s) e (seen q)" "tk_kind (tok q) = TOK_RPAREN"
  shows "evt (\<lambda>n. nud (calls_at n) t s = Some (e, skip_tok (seen q)))"
  using assms(3) unfolding parses_def
proof (rule evt_mono)
  fix n
  assume "c_expr (calls_at n) 0 (seen s) = Some (e, seen q)"
  then have "parse_paren (calls_at n) t s = Some (e, skip_tok (seen q))"
    using assms(2) expect_hit [of "seen q" TOK_RPAREN] assms(4) by (simp add: parse_paren_def peek_seen expect_tok_def)
  then show "nud (calls_at n) t s = Some (e, skip_tok (seen q))"
    using assms(1) by (simp add: nud_def literal_of_def is_prefix_op_def)
qed

text \<open>An expression between two tokens that close it.\<close>

lemma enclosed:
  assumes "parsed e" "printable e" "reads (print_expr e @ K k # ls) p q" "no_types p (print_expr e)" "tok_lbp k = 0"
    "seen p' = seen p"
  obtains e' s where "erase e' = erase e" "parses 0 p' e' (seen s)" "tk_kind (tok s) = k" "reads ls (skip_tok s) q"
    "ps_scope s = ps_scope p"
proof -
  obtain s where s: "reads (print_expr e) p s" "tk_kind (tok s) = k" "reads ls (skip_tok s) q"
    using assms(3) by (auto simp: reads_append fits_def)
  have r: "reads (print_expr e) p' s" using s(1) reads_cong [OF assms(6)] by blast
  have "ps_scope p' = ps_scope p" using scope_skip(2) [of p] scope_skip(2) [of p'] assms(6) by simp
  then have n: "no_types p' (print_expr e)" using assms(4) no_types_scope by blast
  have l: "0 < lvl e \<or> primary e" using lvl_printable [OF assms(2)] by simp
  have "0 \<le> follow e" using lvl_follow(1) [of e] lvl_follow(3) [of e] lvl_printable [OF assms(2)] by linarith
  then have "next_bp s \<le> follow e" using s(2) assms(5) by simp
  then have "covers 0 p' e s" by (rule parsedD [OF assms(1) order_refl r n l])
  then obtain e' where "erase e' = erase e" "parses 0 p' e' (seen s)"
    by (rule covers_stop) (simp add: s(2) assms(5))
  then show ?thesis using that s reads_scope [OF s(1)] by blast
qed

lemma covers_from:
  assumes "erase e' = erase e" "evt (\<lambda>n. nud (calls_at n) (tok p) (skip_tok p) = Some (e', s))" "seen s = seen q"
  shows "covers bp p e q"
  unfolding covers_def using assms parses_intro [OF assms(2)] loops_cong [OF assms(3)] by blast

lemma level_covers:
  assumes "parsed e" "printable e" "0 \<le> bp" "reads (at_level m (lvl e) (print_expr e)) p q"
    "no_types p (at_level m (lvl e) (print_expr e))"
    "m \<le> lvl e \<Longrightarrow> (bp < lvl e \<or> primary e) \<and> next_bp q \<le> follow e"
  shows "covers bp p e q"
proof (cases "m \<le> lvl e")
  case True
  then have e: "at_level m (lvl e) (print_expr e) = print_expr e" by (simp add: at_level_def)
  show ?thesis using parsedD [OF assms(1,3) assms(4,5) [unfolded e]] assms(6) [OF True] by blast
next
  case False
  then have p: "tk_kind (tok p) = TOK_LPAREN" "reads (print_expr e @ [K TOK_RPAREN]) (skip_tok p) q" "no_types p (print_expr e)"
    using assms(4,5) by (auto simp: at_level_def parens_def fits_def)
  then have n: "no_types (skip_tok p) (print_expr e)" using no_types_scope [of p "skip_tok p"] by simp
  obtain e' s where e: "erase e' = erase e" "parses 0 (seen (skip_tok p)) e' (seen s)" "tk_kind (tok s) = TOK_RPAREN"
      "reads [] (skip_tok s) q"
    by (rule enclosed [OF assms(1,2) p(2) n lbp_simps(3) seen_idem(1)])
  show ?thesis
  proof (rule covers_from [OF e(1)])
    show "evt (\<lambda>n. nud (calls_at n) (tok p) (skip_tok p) = Some (e', skip_tok (seen s)))"
      by (rule nud_paren [OF p(1) first_not_type [OF assms(2) p(2) n] e(2,3)])
    show "seen (skip_tok (seen s)) = seen q" using e(4) by (simp add: skip_seen)
  qed
qed

lemma level_parses:
  assumes "parsed e" "printable e" "0 \<le> bp" "reads (at_level m (lvl e) (print_expr e)) p q"
    "no_types p (at_level m (lvl e) (print_expr e))"
    "m \<le> lvl e \<Longrightarrow> (bp < lvl e \<or> primary e) \<and> next_bp q \<le> follow e" "next_bp q \<le> bp" "seen p = seen p'"
  obtains e' where "erase e' = erase e" "parses bp p' e' (seen q)"
proof -
  have r: "reads (at_level m (lvl e) (print_expr e)) p' q" using assms(4) reads_cong [OF assms(8)] by simp
  have "ps_scope p' = ps_scope p" using scope_skip(2) [of p] scope_skip(2) [of p'] assms(8) by simp
  then have n: "no_types p' (at_level m (lvl e) (print_expr e))" using assms(5) no_types_scope by blast
  show ?thesis by (rule covers_stop [OF level_covers [OF assms(1-3) r n assms(6)] assms(7) that])
qed

subsection \<open>Operators\<close>

text \<open>One turn of the loop of parse_expr: the tree of \<open>l\<close> becomes the left child of \<open>e\<close>.\<close>

lemma covers_step:
  assumes "covers bp p l q1" "bp < next_bp q1"
    "\<And>l'. erase l' = erase l \<Longrightarrow> \<exists>x s. erase x = erase e \<and> seen s = seen q
        \<and> evt (\<lambda>n. led (calls_at n) l' (tok q1) (skip_tok (seen q1)) = Some (x, s))"
  shows "covers bp p e q"
proof -
  obtain l' where l: "erase l' = erase l" "\<And>x r. loops bp l' q1 x r \<Longrightarrow> parses bp p x r"
    using assms(1) unfolding covers_def by blast
  obtain x s where x: "erase x = erase e" "seen s = seen q"
      "evt (\<lambda>n. led (calls_at n) l' (tok q1) (skip_tok (seen q1)) = Some (x, s))"
    using assms(3) [OF l(1)] by blast
  have "parses bp p y r" if "loops bp x q y r" for y r
    by (rule l(2) [OF loops_step [OF assms(2) x(3)]]) (use that loops_cong [OF x(2)] in blast)
  then show ?thesis using x(1) unfolding covers_def by blast
qed

lemma follow_ge: "10 \<le> lvl e \<Longrightarrow> 10 \<le> follow e" "20 \<le> lvl e \<Longrightarrow> 19 \<le> follow e" "30 \<le> lvl e \<Longrightarrow> 29 \<le> follow e"
  "140 \<le> lvl e \<Longrightarrow> 140 \<le> follow e" "40 \<le> lvl e \<Longrightarrow> 40 \<le> follow e"
  using binary_level_range by (auto simp: follow_def level_of_def intro: order_trans [of _ 40] split: ast_body.splits)

lemma level_primary: "140 \<le> lvl e \<Longrightarrow> printable e \<Longrightarrow> 140 < lvl e \<or> primary e"
  by (auto simp: primary_def)

lemma parsedI:
  assumes "\<And>bp p q. 0 \<le> bp \<Longrightarrow> reads (print_expr e) p q \<Longrightarrow> no_types p (print_expr e) \<Longrightarrow>
      bp < lvl e \<or> primary e \<Longrightarrow> next_bp q \<le> follow e \<Longrightarrow> covers bp p e q"
  shows "parsed e"
  using assms by (simp add: parsed_def)

text \<open>A binary operator of any kind: \<open>rb\<close> is the binding power its right side is parsed with.\<close>

lemma infix_parsed:
  assumes l: "parsed l" "printable l" and r: "parsed r" "printable r"
    and pr: "print_expr e = at_level ml (lvl l) (print_expr l) @ K op # at_level mr (lvl r) (print_expr r)"
    and lv: "lvl e = tok_lbp op" "follow e = rb" "tok_lbp op \<le> 130" "0 \<le> rb"
    and led: "\<And>c left t s. tk_kind t = op \<Longrightarrow>
        led c left t s = c_expr c rb s \<bind> (\<lambda>(x, s). Some (node_at t (mk left x), s))"
    and er: "\<And>i j ty l' r'. erase l' = erase l \<Longrightarrow> erase r' = erase r \<Longrightarrow> erase (Ast i j ty (mk l' r')) = erase e"
    and left: "ml \<le> lvl l \<Longrightarrow> tok_lbp op \<le> lvl l \<and> tok_lbp op \<le> follow l"
    and right: "mr \<le> lvl r \<Longrightarrow> (rb < lvl r \<or> primary r) \<and> rb \<le> follow r"
  shows "parsed e"
proof (rule parsedI)
  fix bp p q
  assume a: "0 \<le> bp" "reads (print_expr e) p q" "no_types p (print_expr e)" "bp < lvl e \<or> primary e" "next_bp q \<le> follow e"
  have bp: "bp < tok_lbp op" using a(4) lv by (auto simp: primary_def)
  obtain q1 where q1: "reads (at_level ml (lvl l) (print_expr l)) p q1" "tk_kind (tok q1) = op"
      "reads (at_level mr (lvl r) (print_expr r)) (skip_tok q1) q"
    using a(2) by (auto simp: pr reads_append fits_def)
  have nt: "no_types p (at_level ml (lvl l) (print_expr l))" "no_types (skip_tok q1) (at_level mr (lvl r) (print_expr r))"
    using a(3) no_types_scope [of "skip_tok q1" p] reads_scope [OF q1(1)] by (simp_all add: pr)
  show "covers bp p e q"
  proof (rule covers_step)
    show "covers bp p l q1"
      by (rule level_covers [OF l a(1) q1(1) nt(1)]) (use left bp q1(2) in auto)
    show "bp < next_bp q1" using bp q1(2) by simp
    fix l' assume l': "erase l' = erase l"
    obtain r' where r': "erase r' = erase r" "parses rb (skip_tok (seen q1)) r' (seen q)"
      by (rule level_parses [OF r lv(4) q1(3) nt(2) _ _ skip_seen(1) [symmetric]]) (use right a(5) lv(2) in auto)
    have "evt (\<lambda>n. led (calls_at n) l' (tok q1) (skip_tok (seen q1)) = Some (node_at (tok q1) (mk l' r'), seen q))"
      using r'(2) unfolding parses_def by (rule evt_mono) (simp add: led [OF q1(2)])
    moreover have "erase (node_at (tok q1) (mk l' r')) = erase e"
      using er [OF l' r'(1)] by (simp add: node_at_def ast_alloc_def)
    ultimately show "\<exists>x s. erase x = erase e \<and> seen s = seen q
        \<and> evt (\<lambda>n. led (calls_at n) l' (tok q1) (skip_tok (seen q1)) = Some (x, s))"
      using seen_idem(1) by blast
  qed
qed

lemma binop_parsed:
  assumes "parsed l" "printable l" "parsed r" "printable r" "is_binary_op op"
  shows "parsed (Ast i j ty (Binop op l r))"
proof (rule infix_parsed [OF assms(1-4), where op = op and rb = "tok_lbp op" and mk = "Binop op"])
  note b = binary_lbp [OF assms(5)] binary_level_range [of op]
  show "tok_lbp op \<le> 130" "0 \<le> tok_lbp op" using b by auto
  show "led c left t s = c_expr c (tok_lbp op) s \<bind> (\<lambda>(x, s). Some (node_at t (Binop op left x), s))"
    if "tk_kind t = op" for c left t s using that assms(5) by (simp add: led_def)
  show "tok_lbp op \<le> lvl l \<Longrightarrow> tok_lbp op \<le> lvl l \<and> tok_lbp op \<le> follow l"
    using lvl_follow(2,3) [of l] b by fastforce
  show "tok_lbp op + 1 \<le> lvl r \<Longrightarrow> (tok_lbp op < lvl r \<or> primary r) \<and> tok_lbp op \<le> follow r"
    using lvl_follow [of r] b by fastforce
qed (simp_all add: level_of_def follow_def binary_lbp [OF assms(5)])

lemma assign_parsed:
  assumes "parsed l" "printable l" "parsed r" "printable r" "is_assign_op op"
  shows "parsed (Ast i j ty (Assign op l r))"
proof (rule infix_parsed [OF assms(1-4), where op = op and rb = 19 and mk = "Assign op"])
  note b = tok_lbp_range(2) [OF assms(5)]
  have nb: "\<not> is_binary_op op" using assms(5) by (auto simp: is_assign_op_def is_binary_op_def)
  show "led c left t s = c_expr c 19 s \<bind> (\<lambda>(x, s). Some (node_at t (Assign op left x), s))"
    if "tk_kind t = op" for c left t s using that assms(5) nb b by (simp add: led_def)
  show "140 \<le> lvl l \<Longrightarrow> tok_lbp op \<le> lvl l \<and> tok_lbp op \<le> follow l" using follow_ge(4) [of l] b by simp
  show "20 \<le> lvl r \<Longrightarrow> (19 < lvl r \<or> primary r) \<and> 19 \<le> follow r" using follow_ge(2) [of r] by simp
qed (simp_all add: level_of_def follow_def tok_lbp_range(2) [OF assms(5)])

lemma comma_parsed:
  assumes "parsed l" "printable l" "parsed r" "printable r"
  shows "parsed (Ast i j ty (Comma l r))"
proof (rule infix_parsed [OF assms(1-4), where op = TOK_COMMA and rb = 10 and mk = Comma])
  have b: "tok_lbp TOK_COMMA = 10" by (simp add: tok_lbp_def)
  show "led c left t s = c_expr c 10 s \<bind> (\<lambda>(x, s). Some (node_at t (Comma left x), s))"
    if "tk_kind t = TOK_COMMA" for c left t s using that b by (simp add: led_def is_binary_op_def is_assign_op_def)
  show "10 \<le> lvl l \<Longrightarrow> tok_lbp TOK_COMMA \<le> lvl l \<and> tok_lbp TOK_COMMA \<le> follow l" using follow_ge(1) [of l] b by simp
  show "20 \<le> lvl r \<Longrightarrow> (10 < lvl r \<or> primary r) \<and> 10 \<le> follow r" using follow_ge(2) [of r] by simp
qed (simp_all add: level_of_def follow_def tok_lbp_def)

lemma ternary_parsed:
  assumes c: "parsed c" "printable c" and th: "parsed th" "printable th" and el: "parsed el" "printable el"
  shows "parsed (Ast i j ty (Ternary c th el))"
proof (rule parsedI)
  fix bp p q
  let ?e = "Ast i j ty (Ternary c th el)"
  assume a: "0 \<le> bp" "reads (print_expr ?e) p q" "no_types p (print_expr ?e)" "bp < lvl ?e \<or> primary ?e"
    "next_bp q \<le> follow ?e"
  have bp: "bp < 30" "next_bp q \<le> 29" using a(4,5) by (auto simp: primary_def level_of_def follow_def)
  have thl: "at_level 10 (lvl th) (print_expr th) = print_expr th"
    using lvl_printable [OF th(2)] by (simp add: at_level_def)
  obtain q1 where q1: "reads (at_level 40 (lvl c) (print_expr c)) p q1" "tk_kind (tok q1) = TOK_QUESTION"
      "reads (print_expr th @ K TOK_COLON # at_level 30 (lvl el) (print_expr el)) (skip_tok q1) q"
    using a(2) by (auto simp: reads_append fits_def thl)
  have sc: "ps_scope q1 = ps_scope p" by (rule reads_scope [OF q1(1)])
  have nt: "no_types p (at_level 40 (lvl c) (print_expr c))" "no_types (skip_tok q1) (print_expr th)"
      "no_types p (at_level 30 (lvl el) (print_expr el))"
    using a(3) no_types_scope [of "skip_tok q1" p] sc by (simp_all add: thl)
  show "covers bp p ?e q"
  proof (rule covers_step)
    show "covers bp p c q1"
      by (rule level_covers [OF c a(1) q1(1) nt(1)])
        (use follow_ge(5) [of c] bp q1(2) in auto)
    show "bp < next_bp q1" using bp q1(2) by simp
    fix c' assume c': "erase c' = erase c"
    obtain th' s where t: "erase th' = erase th" "parses 0 (skip_tok (seen q1)) th' (seen s)"
        "tk_kind (tok s) = TOK_COLON" "reads (at_level 30 (lvl el) (print_expr el)) (skip_tok s) q"
        "ps_scope s = ps_scope (skip_tok q1)"
      by (rule enclosed [OF th q1(3) nt(2) lbp_simps(4) skip_seen(1)])
    have nl: "no_types (skip_tok s) (at_level 30 (lvl el) (print_expr el))"
      using nt(3) no_types_scope [of "skip_tok s" p] t(5) sc by simp
    obtain el' where l: "erase el' = erase el" "parses 29 (skip_tok (seen s)) el' (seen q)"
      by (rule level_parses [OF el _ t(4) nl _ bp(2) skip_seen(1) [symmetric]])
        (use follow_ge(3) [of el] bp(2) in auto)
    have "evt (\<lambda>n. led (calls_at n) c' (tok q1) (skip_tok (seen q1)) = Some (node_at (tok q1) (Ternary c' th' el'), seen q))"
      using evt_conj [OF t(2) [unfolded parses_def] l(2) [unfolded parses_def]]
    proof (rule evt_mono)
      fix n
      assume h: "c_expr (calls_at n) 0 (skip_tok (seen q1)) = Some (th', seen s)
          \<and> c_expr (calls_at n) 29 (skip_tok (seen s)) = Some (el', seen q)"
      show "led (calls_at n) c' (tok q1) (skip_tok (seen q1)) = Some (node_at (tok q1) (Ternary c' th' el'), seen q)"
        using h q1(2) expect_hit [of "seen s" TOK_COLON] t(3)
        by (simp add: led_def is_binary_op_def is_assign_op_def expect_tok_def)
    qed
    moreover have "erase (node_at (tok q1) (Ternary c' th' el')) = erase ?e"
      using c' t(1) l(1) by (simp add: node_at_def ast_alloc_def)
    ultimately show "\<exists>x s. erase x = erase ?e \<and> seen s = seen q
        \<and> evt (\<lambda>n. led (calls_at n) c' (tok q1) (skip_tok (seen q1)) = Some (x, s))"
      using seen_idem(1) by blast
  qed
qed

lemma unop_parsed:
  assumes "parsed e" "printable e" "is_prefix_op op"
  shows "parsed (Ast i j ty (Unop op e))"
proof (rule parsedI)
  fix bp :: int and p q
  let ?e = "Ast i j ty (Unop op e)"
  assume a: "0 \<le> bp" "reads (print_expr ?e) p q" "no_types p (print_expr ?e)" "next_bp q \<le> follow ?e"
  have r: "tk_kind (tok p) = op" "reads (at_level 140 (lvl e) (print_expr e)) (skip_tok p) q"
    using a(2) by (auto simp: fits_def)
  have n: "no_types (skip_tok p) (at_level 140 (lvl e) (print_expr e))"
    using a(3) no_types_scope [of "skip_tok p" p] by simp
  have f: "next_bp q \<le> 140" using a(4) by (simp add: follow_def)
  obtain e' where e: "erase e' = erase e" "parses 140 (skip_tok p) e' (seen q)"
    by (rule level_parses [OF assms(1,2) _ r(2) n _ f refl])
      (use level_primary [of e] assms(2) follow_ge(4) [of e] f in auto)
  have "evt (\<lambda>n. nud (calls_at n) (tok p) (skip_tok p) = Some (node_at (tok p) (Unop op e'), seen q))"
    using e(2) unfolding parses_def
    by (rule evt_mono) (use r(1) assms(3) in \<open>auto simp: nud_def literal_of_def is_prefix_op_def\<close>)
  then show "covers bp p ?e q"
    by (rule covers_from [rotated]) (use e(1) in \<open>simp_all add: node_at_def ast_alloc_def\<close>)
qed

lemma sizeof_parsed:
  assumes "parsed e" "printable e"
  shows "parsed (Ast i j ty (SizeofExpr e))"
proof (rule parsedI)
  fix bp :: int and p q
  let ?e = "Ast i j ty (SizeofExpr e)" and ?s = "skip_tok (seen (skip_tok p))"
  assume a: "0 \<le> bp" "reads (print_expr ?e) p q" "no_types p (print_expr ?e)" "next_bp q \<le> follow ?e"
  have r: "tk_kind (tok p) = TOK_SIZEOF" "tk_kind (tok (skip_tok p)) = TOK_LPAREN"
      "reads (print_expr e @ [K TOK_RPAREN]) ?s q"
    using a(2) reads_cong [OF skip_seen(1) [of "skip_tok p"]] by (auto simp: fits_def parens_def)
  have n: "no_types ?s (print_expr e)" using a(3) no_types_scope [of ?s p] by (simp add: parens_def)
  note nt = first_not_type [OF assms(2) r(3) n]
  obtain e' s where e: "erase e' = erase e" "parses 0 (seen ?s) e' (seen s)" "tk_kind (tok s) = TOK_RPAREN"
      "reads [] (skip_tok s) q"
    by (rule enclosed [OF assms r(3) n lbp_simps(3) seen_idem(1)])
  have "evt (\<lambda>n. nud (calls_at n) (tok p) (skip_tok p) = Some (node_at (tok p) (SizeofExpr e'), skip_tok (seen s)))"
    using e(2) unfolding parses_def
  proof (rule evt_mono)
    fix n
    assume "c_expr (calls_at n) 0 (seen ?s) = Some (e', seen s)"
    then have "parse_sizeof (calls_at n) (tok p) (skip_tok p) = Some (node_at (tok p) (SizeofExpr e'), skip_tok (seen s))"
      using r(2) nt expect_hit [of "seen s" TOK_RPAREN] e(3)
      by (simp add: parse_sizeof_def check_tok peek_seen expect_tok_def)
    then show "nud (calls_at n) (tok p) (skip_tok p) = Some (node_at (tok p) (SizeofExpr e'), skip_tok (seen s))"
      using r(1) by (simp add: nud_def literal_of_def is_prefix_op_def)
  qed
  then show "covers bp p ?e q"
    by (rule covers_from [rotated]) (use e in \<open>simp_all add: node_at_def ast_alloc_def skip_seen\<close>)
qed

lemma leaf_parsed:
  fixes b :: ast_body
  assumes "print_expr (Ast i j ty b) = [B b]" "\<And>i j ty. erase (Ast i j ty b) = Ast 0 0 None b"
  shows "parsed (Ast i j ty b)"
proof (rule parsedI)
  fix bp :: int and p q
  assume "reads (print_expr (Ast i j ty b)) p q"
  then have "reads [B b] p q" by (simp only: assms(1))
  then have r: "literal_of (skip_tok p) (tok p) = Some b" "seen (skip_tok p) = seen q"
    by (simp_all add: fits_def intern_skip)
  have "evt (\<lambda>n. nud (calls_at n) (tok p) (skip_tok p) = Some (node_at (tok p) b, skip_tok p))"
    by (rule evt_True) (simp add: nud_def r(1))
  then show "covers bp p (Ast i j ty b) q"
    by (rule covers_from [rotated]) (simp_all only: node_at_def ast_alloc_def assms(2) r(2))
qed

text \<open>A postfix operator: what follows the operand is read by led.\<close>

lemma postfix_parsed:
  assumes f: "parsed f" "printable f" and lv: "lvl e = 150" "tok_lbp k = 150"
    and pr: "print_expr e = at_level 150 (lvl f) (print_expr f) @ K k # ls"
    and led: "\<And>t s q l'. tk_kind t = k \<Longrightarrow> reads ls s q \<Longrightarrow> no_types s ls \<Longrightarrow> erase l' = erase f \<Longrightarrow>
        \<exists>x r. erase x = erase e \<and> seen r = seen q \<and> evt (\<lambda>n. led (calls_at n) l' t s = Some (x, r))"
  shows "parsed e"
proof (rule parsedI)
  fix bp p q
  assume a: "0 \<le> bp" "reads (print_expr e) p q" "no_types p (print_expr e)" "bp < lvl e \<or> primary e"
  have bp: "bp < 150" using a(4) lv by (auto simp: primary_def)
  obtain q1 where q1: "reads (at_level 150 (lvl f) (print_expr f)) p q1" "tk_kind (tok q1) = k" "reads ls (skip_tok q1) q"
    using a(2) by (auto simp: pr reads_append fits_def)
  have nt: "no_types p (at_level 150 (lvl f) (print_expr f))" "no_types (skip_tok (seen q1)) ls"
    using a(3) no_types_scope [of "skip_tok (seen q1)" p] reads_scope [OF q1(1)] by (simp_all add: pr)
  have r: "reads ls (skip_tok (seen q1)) q" using q1(3) reads_cong [OF skip_seen(1)] by blast
  show "covers bp p e q"
  proof (rule covers_step)
    show "covers bp p f q1"
      by (rule level_covers [OF f a(1) q1(1) nt(1)]) (use lvl_follow(3) [of f] bp q1(2) lv(2) in auto)
    show "bp < next_bp q1" using bp q1(2) lv(2) by simp
    show "\<exists>x s. erase x = erase e \<and> seen s = seen q
        \<and> evt (\<lambda>n. led (calls_at n) l' (tok q1) (skip_tok (seen q1)) = Some (x, s))" if "erase l' = erase f" for l'
      by (rule led [OF q1(2) r nt(2) that])
  qed
qed

lemma incr_parsed:
  assumes "parsed e" "printable e" "op = TOK_PLUSPLUS \<or> op = TOK_MINUSMINUS"
  shows "parsed (Ast i j ty (Postfix op e))"
proof (rule postfix_parsed [OF assms(1,2), where k = op and ls = "[]"])
  fix t :: token and s q l'
  assume h: "tk_kind t = op" "reads [] s q" "erase l' = erase e"
  have "led c l' t s = Some (node_at t (Postfix op l'), s)" for c
    using h(1) assms(3) by (auto simp: led_def is_binary_op_def is_assign_op_def)
  then show "\<exists>x r. erase x = erase (Ast i j ty (Postfix op e)) \<and> seen r = seen q
      \<and> evt (\<lambda>n. led (calls_at n) l' t s = Some (x, r))"
    using h by (intro exI [of _ "node_at t (Postfix op l')"] exI [of _ s]) (simp add: node_at_def ast_alloc_def evt_True)
qed (use assms(3) in \<open>auto simp: level_of_def\<close>)

lemma field_token:
  assumes "reads [B (Ident f)] s q"
  shows "expect TOK_IDENT s = (tok s, skip_tok (seen s)) \<and> tok_intern (skip_tok (seen s)) (tok s) = f
    \<and> seen (skip_tok (seen s)) = seen q"
proof -
  have l: "literal_of (seen s) (tok s) = Some (Ident f)" "seen (skip_tok s) = seen q"
    using assms by (simp_all add: fits_def)
  have "tk_kind (tok s) = TOK_IDENT" "tok_intern (seen s) (tok s) = f"
    using l(1) by (simp_all add: literal_of_def split: if_splits)
  then show ?thesis using expect_hit [of s TOK_IDENT] intern_skip(1) [of "seen s" "tok s"] l(2) by (simp add: skip_seen)
qed

lemma member_parsed:
  assumes "parsed e" "printable e"
  shows "parsed (Ast i j ty (Member e f)) \<and> parsed (Ast i j ty (MemberPtr e f))"
proof
  show "parsed (Ast i j ty (Member e f))"
  proof (rule postfix_parsed [OF assms, where k = TOK_DOT and ls = "[B (Ident f)]"])
    fix t :: token and s q l'
    assume h: "tk_kind t = TOK_DOT" "reads [B (Ident f)] s q" "erase l' = erase e"
    have "led c l' t s = Some (node_at t (Member l' f), skip_tok (seen s))" for c
      using h(1) field_token [OF h(2)] by (simp add: led_def is_binary_op_def is_assign_op_def)
    then show "\<exists>x r. erase x = erase (Ast i j ty (Member e f)) \<and> seen r = seen q
        \<and> evt (\<lambda>n. led (calls_at n) l' t s = Some (x, r))"
      using h(3) field_token [OF h(2)]
      by (intro exI [of _ "node_at t (Member l' f)"] exI [of _ "skip_tok (seen s)"]) (simp add: node_at_def ast_alloc_def evt_True)
  qed (simp_all add: level_of_def)
  show "parsed (Ast i j ty (MemberPtr e f))"
  proof (rule postfix_parsed [OF assms, where k = TOK_ARROW and ls = "[B (Ident f)]"])
    fix t :: token and s q l'
    assume h: "tk_kind t = TOK_ARROW" "reads [B (Ident f)] s q" "erase l' = erase e"
    have "led c l' t s = Some (node_at t (MemberPtr l' f), skip_tok (seen s))" for c
      using h(1) field_token [OF h(2)] by (simp add: led_def is_binary_op_def is_assign_op_def)
    then show "\<exists>x r. erase x = erase (Ast i j ty (MemberPtr e f)) \<and> seen r = seen q
        \<and> evt (\<lambda>n. led (calls_at n) l' t s = Some (x, r))"
      using h(3) field_token [OF h(2)]
      by (intro exI [of _ "node_at t (MemberPtr l' f)"] exI [of _ "skip_tok (seen s)"]) (simp add: node_at_def ast_alloc_def evt_True)
  qed (simp_all add: level_of_def)
qed

lemma subscript_parsed:
  assumes "parsed a" "printable a" "parsed x" "printable x"
  shows "parsed (Ast i j ty (Subscript a x))"
proof (rule postfix_parsed [OF assms(1,2), where k = TOK_LBRACKET and ls = "print_expr x @ [K TOK_RBRACKET]"])
  fix t :: token and s q l'
  assume h: "tk_kind t = TOK_LBRACKET" "reads (print_expr x @ [K TOK_RBRACKET]) s q"
    "no_types s (print_expr x @ [K TOK_RBRACKET])" "erase l' = erase a"
  have n: "no_types s (print_expr x)" using h(3) by simp
  obtain x' r where x: "erase x' = erase x" "parses 0 s x' (seen r)" "tk_kind (tok r) = TOK_RBRACKET" "reads [] (skip_tok r) q"
    by (rule enclosed [OF assms(3,4) h(2) n lbp_simps(5) refl])
  have "evt (\<lambda>n. led (calls_at n) l' t s = Some (node_at t (Subscript l' x'), skip_tok (seen r)))"
    using x(2) unfolding parses_def
  proof (rule evt_mono)
    show "led (calls_at n) l' t s = Some (node_at t (Subscript l' x'), skip_tok (seen r))"
      if "c_expr (calls_at n) 0 s = Some (x', seen r)" for n
      using that h(1) expect_hit [of "seen r" TOK_RBRACKET] x(3)
      by (simp add: led_def is_binary_op_def is_assign_op_def expect_tok_def)
  qed
  moreover have "erase (node_at t (Subscript l' x')) = erase (Ast i j ty (Subscript a x))"
    using h(4) x(1) by (simp add: node_at_def ast_alloc_def)
  moreover have "seen (skip_tok (seen r)) = seen q" using x(4) by (simp add: skip_seen)
  ultimately show "\<exists>y r. erase y = erase (Ast i j ty (Subscript a x)) \<and> seen r = seen q
      \<and> evt (\<lambda>n. led (calls_at n) l' t s = Some (y, r))"
    by blast
qed (simp_all add: level_of_def)

subsection \<open>Calls\<close>

lemma arg_loop_reads:
  assumes "args \<noteq> []" "\<forall>x\<in>set args. parsed x \<and> printable x"
    "reads (commas (map (\<lambda>e. at_level 20 (lvl e) (print_expr e)) args) @ [K TOK_RPAREN]) p q"
    "no_types p (commas (map (\<lambda>e. at_level 20 (lvl e) (print_expr e)) args))" "seen p' = seen p"
  shows "\<exists>args' s. map erase args' = map erase args \<and> tk_kind (tok s) = TOK_RPAREN \<and> seen (skip_tok s) = seen q
    \<and> evt (\<lambda>k. \<forall>m\<ge>k. \<forall>n\<ge>k. \<forall>acc. arg_loop m (calls_at n) acc p' = Some (acc @ args', seen s))"
  using assms
proof (induction args arbitrary: p p' rule: induct_list012)
  case (2 x)
  have x: "parsed x" "printable x" using "2.prems"(2) by simp_all
  obtain s where s: "reads (at_level 20 (lvl x) (print_expr x)) p s" "tk_kind (tok s) = TOK_RPAREN" "seen (skip_tok s) = seen q"
    using "2.prems"(3) by (auto simp: reads_append fits_def)
  have n: "no_types p (at_level 20 (lvl x) (print_expr x))" using "2.prems"(4) by simp
  obtain x' where x': "erase x' = erase x" "parses 10 p' x' (seen s)"
    by (rule level_parses [where bp = 10, OF x _ s(1) n _ _ "2.prems"(5) [symmetric]]) (use follow_ge(2) [of x] s(2) in auto)
  obtain N where N: "\<forall>n\<ge>N. c_expr (calls_at n) 10 p' = Some (x', seen s)" using x'(2) by (auto simp: parses_def evt_def)
  have "arg_loop m (calls_at n) acc p' = Some (acc @ [x'], seen s)" if "Suc N \<le> m" "N \<le> n" for m n acc
    using N that match_miss(1) [of "seen s" TOK_COMMA] s(2) by (cases m) (simp_all add: ast_list_append_def)
  then have "evt (\<lambda>k. \<forall>m\<ge>k. \<forall>n\<ge>k. \<forall>acc. arg_loop m (calls_at n) acc p' = Some (acc @ [x'], seen s))"
    unfolding evt_def by (intro exI [of _ "Suc N"]) auto
  then show ?case using x'(1) s(2,3) by (intro exI [of _ "[x']"] exI [of _ s]) simp
next
  case (3 x y zs)
  have x: "parsed x" "printable x" using "3.prems"(2) by simp_all
  let ?more = "commas (map (\<lambda>e. at_level 20 (lvl e) (print_expr e)) (y # zs))"
  obtain s where s: "reads (at_level 20 (lvl x) (print_expr x)) p s" "tk_kind (tok s) = TOK_COMMA"
      "reads (?more @ [K TOK_RPAREN]) (skip_tok s) q"
    using "3.prems"(3) by (auto simp: reads_append fits_def)
  have n: "no_types p (at_level 20 (lvl x) (print_expr x))" "no_types (skip_tok s) ?more"
    using "3.prems"(4) no_types_scope [of "skip_tok s" p] reads_scope [OF s(1)] by simp_all
  obtain x' where x': "erase x' = erase x" "parses 10 p' x' (seen s)"
    by (rule level_parses [where bp = 10, OF x _ s(1) n(1) _ _ "3.prems"(5) [symmetric]]) (use follow_ge(2) [of x] s(2) in auto)
  have "\<forall>x\<in>set (y # zs). parsed x \<and> printable x" using "3.prems"(2) by simp
  from "3.IH"(2) [OF list.distinct(2) this s(3) n(2) skip_seen(1)] obtain args' r where
      r: "map erase args' = map erase (y # zs)" "tk_kind (tok r) = TOK_RPAREN" "seen (skip_tok r) = seen q"
      "evt (\<lambda>k. \<forall>m\<ge>k. \<forall>n\<ge>k. \<forall>acc. arg_loop m (calls_at n) acc (skip_tok (seen s)) = Some (acc @ args', seen r))"
    by blast
  obtain N where N: "\<forall>n\<ge>N. c_expr (calls_at n) 10 p' = Some (x', seen s)"
      "\<forall>k\<ge>N. \<forall>m\<ge>k. \<forall>n\<ge>k. \<forall>acc. arg_loop m (calls_at n) acc (skip_tok (seen s)) = Some (acc @ args', seen r)"
    using evt_conj [OF x'(2) [unfolded parses_def] r(4)] unfolding evt_def by blast
  have lp: "arg_loop k (calls_at n) acc (skip_tok (seen s)) = Some (acc @ args', seen r)" if "N \<le> k" "N \<le> n" for k n acc
    using N(2) that by blast
  have "arg_loop m (calls_at n) acc p' = Some (acc @ x' # args', seen r)" if "Suc N \<le> m" "N \<le> n" for m n acc
    using N(1) lp that match_miss(2) [of "seen s" TOK_COMMA] s(2) by (cases m) (simp_all add: ast_list_append_def)
  then have "evt (\<lambda>k. \<forall>m\<ge>k. \<forall>n\<ge>k. \<forall>acc. arg_loop m (calls_at n) acc p' = Some (acc @ x' # args', seen r))"
    unfolding evt_def by (intro exI [of _ "Suc N"]) auto
  then show ?case using x'(1) r(1-3) by (intro exI [of _ "x' # args'"] exI [of _ r]) simp
qed simp

lemma args_start:
  assumes "args \<noteq> []" "\<forall>x\<in>set args. printable x"
  shows "expr_text (commas (map (\<lambda>e. at_level 20 (lvl e) (print_expr e)) args))"
  using assms by (induction args rule: induct_list012) (simp_all add: print_expr_start)

lemma fits_not_rparen: "fits p l \<Longrightarrow> starts_expr l \<Longrightarrow> tk_kind (tok p) \<noteq> TOK_RPAREN"
  using literal_kind [of "seen p" "tok p"] prefix_kind by (cases l) (fastforce simp: fits_def starts_expr_def)+

lemma call_parsed:
  assumes f: "parsed f" "printable f" and args: "\<forall>x\<in>set args. parsed x \<and> printable x"
  shows "parsed (Ast i j ty (Call f args))"
proof (rule postfix_parsed [OF f, where k = TOK_LPAREN
      and ls = "commas (map (\<lambda>e. at_level 20 (lvl e) (print_expr e)) args) @ [K TOK_RPAREN]"])
  fix t :: token and s q l'
  let ?ls = "commas (map (\<lambda>e. at_level 20 (lvl e) (print_expr e)) args)"
  assume h: "tk_kind t = TOK_LPAREN" "reads (?ls @ [K TOK_RPAREN]) s q" "no_types s (?ls @ [K TOK_RPAREN])" "erase l' = erase f"
  have led: "led c l' t s = (parse_args c s \<bind> (\<lambda>(as, p). Some (node_at t (Call l' as), p)))" for c
    using h(1) by (simp add: led_def is_binary_op_def is_assign_op_def)
  have "\<exists>as r. map erase as = map erase args \<and> seen r = seen q \<and> evt (\<lambda>n. parse_args (calls_at n) s = Some (as, r))"
  proof (cases "args = []")
    case True
    then have r: "tk_kind (tok s) = TOK_RPAREN" "seen (skip_tok s) = seen q" using h(2) by (auto simp: fits_def)
    have "parse_args c s = Some ([], skip_tok (seen s))" for c
      using r(1) expect_hit [of "seen s" TOK_RPAREN] by (simp add: parse_args_def check_tok expect_tok_def)
    then show ?thesis using True r(2)
      by (intro exI [of _ "[]"] exI [of _ "skip_tok (seen s)"]) (simp add: evt_True skip_seen)
  next
    case False
    obtain l ls where l: "?ls = l # ls" "starts_expr l"
      using args_start [OF False] args by (cases ?ls) (auto simp: expr_text_def)
    have "fits s l" using h(2) by (simp add: l(1))
    then have nr: "tk_kind (tok s) \<noteq> TOK_RPAREN" by (rule fits_not_rparen [OF _ l(2)])
    have "no_types s ?ls" using h(3) by simp
    then obtain as r where r: "map erase as = map erase args" "tk_kind (tok r) = TOK_RPAREN" "seen (skip_tok r) = seen q"
        "evt (\<lambda>k. \<forall>m\<ge>k. \<forall>n\<ge>k. \<forall>acc. arg_loop m (calls_at n) acc (seen s) = Some (acc @ as, seen r))"
      using arg_loop_reads [OF False args h(2) _ seen_idem(1)] by blast
    have "evt (\<lambda>n. parse_args (calls_at n) s = Some (as, skip_tok (seen r)))"
      using r(4)
    proof (rule evt_mono)
      fix n
      assume "\<forall>m\<ge>n. \<forall>k\<ge>n. \<forall>acc. arg_loop m (calls_at k) acc (seen s) = Some (acc @ as, seen r)"
      then show "parse_args (calls_at n) s = Some (as, skip_tok (seen r))"
        using nr r(2) expect_hit [of "seen r" TOK_RPAREN] by (simp add: parse_args_def check_tok expect_tok_def)
    qed
    then show ?thesis using r(1,3) by (intro exI [of _ as] exI [of _ "skip_tok (seen r)"]) (simp add: skip_seen)
  qed
  then obtain as r where r: "map erase as = map erase args" "seen r = seen q" "evt (\<lambda>n. parse_args (calls_at n) s = Some (as, r))"
    by blast
  have "evt (\<lambda>n. led (calls_at n) l' t s = Some (node_at t (Call l' as), r))"
    using r(3) by (rule evt_mono) (simp add: led)
  then show "\<exists>x r. erase x = erase (Ast i j ty (Call f args)) \<and> seen r = seen q
      \<and> evt (\<lambda>n. led (calls_at n) l' t s = Some (x, r))"
    using h(4) r(1,2) by (intro exI [of _ "node_at t (Call l' as)"] exI [of _ r]) (simp add: node_at_def ast_alloc_def)
qed (simp_all add: level_of_def)

subsection \<open>All expressions\<close>

lemma printable_parsed: "printable e \<Longrightarrow> parsed e"
proof (induction e rule: printable.induct)
  case (1 line col t b)
  show ?case
    using 1 by (cases b) (auto simp: list_all_iff intro: binop_parsed assign_parsed comma_parsed ternary_parsed unop_parsed
        sizeof_parsed incr_parsed call_parsed subscript_parsed leaf_parsed dest: member_parsed)
qed

lemma skip_errors [simp]: "ps_errors (skip_tok p) = ps_errors p" "ps_errors (seen p) = ps_errors p"
  by (auto simp: skip_tok_def advance_def seen_def peek_def split: prod.splits)

lemma reads_errors: "reads ls p q \<Longrightarrow> ps_errors q = ps_errors p"
proof (induction ls arbitrary: p)
  case Nil
  then have "seen p = seen q" by simp
  then show ?case using skip_errors(2) [of p] skip_errors(2) [of q] by simp
next
  case (Cons l ls)
  then show ?case by force
qed


subsection \<open>Witness\<close>

text \<open>\<open>a-b-c\<close> and its tree; \<open>demo_lex k ss\<close> is the lexer at byte \<open>k\<close> of the source, after interning \<open>ss\<close>.\<close>

definition demo_expr :: ast where
  "demo_expr = (let n = Ast 0 0 None; name = (\<lambda>x. n (Ident x))
     in n (Binop TOK_MINUS (n (Binop TOK_MINUS (name ''a'') (name ''b''))) (name ''c'')))"

definition demo_lex :: "nat \<Rightarrow> string list \<Rightarrow> lexer" where
  "demo_lex k ss = (lexer_init ''a-b-c;'' 6 ss diag_static)\<lparr>lx_cur := k, lx_col := int k + 1\<rparr>"

definition demo_at :: "nat \<Rightarrow> string list \<Rightarrow> parser" where
  "demo_at k ss = parser_init (demo_lex k ss) type_table_init (\<lambda>t. 0) (\<lambda>s. s)"

definition demo_tok :: "TokenKind \<Rightarrow> nat \<Rightarrow> int \<Rightarrow> token" where
  "demo_tok kind k i = null_token\<lparr>tk_kind := kind, tk_start := k, tk_len := 1, tk_line := 1, tk_col := int k + 1, tk_str_idx := i\<rparr>"

lemma demo_scan:
  "scan_token (demo_lex 0 []) = (demo_tok TOK_IDENT 0 0, demo_lex 1 [''a''])"
  "scan_token (demo_lex 1 [''a'']) = (demo_tok TOK_MINUS 1 0, demo_lex 2 [''a''])"
  "scan_token (demo_lex 2 [''a'']) = (demo_tok TOK_IDENT 2 1, demo_lex 3 [''a'', ''b''])"
  "scan_token (demo_lex 3 [''a'', ''b'']) = (demo_tok TOK_MINUS 3 0, demo_lex 4 [''a'', ''b''])"
  "scan_token (demo_lex 4 [''a'', ''b'']) = (demo_tok TOK_IDENT 4 2, demo_lex 5 [''a'', ''b'', ''c''])"
  "scan_token (demo_lex 5 [''a'', ''b'', ''c'']) = (demo_tok TOK_SEMICOLON 5 0, demo_lex 6 [''a'', ''b'', ''c''])"
  by code_simp+

lemma demo_step:
  assumes "scan_token (demo_lex k ss) = (t, demo_lex k' ss')"
  shows "tok (demo_at k ss) = t" "skip_tok (demo_at k ss) = demo_at k' ss'"
    "fits (demo_at k ss) (K kd) \<longleftrightarrow> tk_kind t = kd" "fits (demo_at k ss) (B b) \<longleftrightarrow> literal_of (demo_at k' ss') t = Some b"
proof -
  have n: "\<not> lx_has_peek (demo_lex k ss)" by (simp add: demo_lex_def lexer_init_def)
  show t: "tok (demo_at k ss) = t"
    using assms n by (simp add: tok_def peek_def lexer_peek_def demo_at_def parser_init_def)
  show s: "skip_tok (demo_at k ss) = demo_at k' ss'"
    using assms n by (simp add: skip_tok_def advance_def lexer_next_def demo_at_def parser_init_def)
  show "fits (demo_at k ss) (K kd) \<longleftrightarrow> tk_kind t = kd" by (simp add: fits_def t)
  show "fits (demo_at k ss) (B b) \<longleftrightarrow> literal_of (demo_at k' ss') t = Some b"
    using intern_skip(2) [of "demo_at k ss" t] by (simp add: fits_def t s)
qed

lemmas demo_steps = demo_scan [THEN demo_step(1)] demo_scan [THEN demo_step(2)] demo_scan [THEN demo_step(3)] demo_scan [THEN demo_step(4)]

lemma demo_at_intern: "tok_intern (demo_at k ss) (demo_tok kd j i) = (if i < 0 \<or> i \<ge> int (length ss) then [] else ss ! nat i)"
  by (simp add: tok_intern_def demo_at_def parser_init_def demo_lex_def lexer_init_def demo_tok_def Let_def)

lemma demo_print: "print_expr demo_expr = [B (Ident ''a''), K TOK_MINUS, B (Ident ''b''), K TOK_MINUS, B (Ident ''c'')]"
  by code_simp

lemma demo_reads: "reads (print_expr demo_expr) (demo_at 0 []) (demo_at 5 [''a'', ''b'', ''c''])"
  using demo_steps unfolding demo_print by (simp add: literal_of_def demo_at_intern) (simp add: demo_tok_def)


end
