(* ===== verification/Driver.thy ===== *)
theory Driver
  imports LexerText ParserPrint CodegenData SemaSpec IrgenModWf
begin

section \<open>The driver (main.c)\<close>

text \<open>
  The command line, the reading of the source and the four ways to run the compiler. The process
  writes to stdout (\<open>pc_out\<close>), to files (\<open>pc_files\<close>, in the order they are closed) and to
  stderr, which is kept in \<open>dg_err\<close> with the diagnostics; a call of \<open>exit\<close> is a value \<open>Inl\<close> with the
  status. What the process finds outside is the record \<open>host\<close>: the bytes of stdin and of the files that
  can be opened (a read error ends the bytes), the files that can be created, the memory that malloc and
  realloc return (\<open>None\<close> for NULL), and the parameters of the other components. \<open>argv\<close> is the command
  line without the name of the program. The arenas have memory. The \<open>DEBUG\<close> line of
  read_file is not modelled, and irgen never returns NULL, so the check of \<open>m\<close> has no branch.
\<close>

record host =
  h_stdin :: string
  h_open :: "string \<Rightarrow> string option"
  h_create :: "string \<Rightarrow> bool"
  h_malloc :: "nat \<Rightarrow> string option"
  h_adr :: "tid \<Rightarrow> u64"
  h_fmt_g :: "string \<Rightarrow> string"
  h_garbage :: string
  h_double_bits :: "string \<Rightarrow> int"
  h_float_bits :: "string \<Rightarrow> int"

record proc =
  pc_diag :: diag
  pc_out :: string
  pc_files :: "(string \<times> string) list"

definition proc_start :: proc where
  "proc_start = \<lparr>pc_diag = diag_static, pc_out = [], pc_files = []\<rparr>"

text \<open>\<open>fprintf(stderr, ...)\<close> and \<open>printf(...)\<close>.\<close>

definition eprint :: "string \<Rightarrow> proc \<Rightarrow> proc" where
  "eprint s pc = pc\<lparr>pc_diag := (pc_diag pc)\<lparr>dg_err := dg_err (pc_diag pc) @ s\<rparr>\<rparr>"

definition print :: "string \<Rightarrow> proc \<Rightarrow> proc" where
  "print s pc = pc\<lparr>pc_out := pc_out pc @ s\<rparr>"

text \<open>The address of a type node: NULL is 0.\<close>

definition addr :: "host \<Rightarrow> tid \<Rightarrow> u64" where
  "addr h t = (if t = null_type then 0 else h_adr h t)"

subsection \<open>Reading the source\<close>

text \<open>The loop of read_file: \<open>data\<close> is what the stream still has, \<open>buf\<close> the allocated bytes (its length is
  \<open>cap\<close>). fread writes what fits; realloc keeps the bytes and adds new ones.\<close>

function read_loop :: "(nat \<Rightarrow> string option) \<Rightarrow> string \<Rightarrow> string \<Rightarrow> nat \<Rightarrow> (string \<times> nat) option" where
  "read_loop alloc data buf len =
     (let n = min (length buf - len) (length data);
          buf = take len buf @ take n data @ drop (len + n) buf;
          data = drop n data;
          len = len + n
      in if n = 0 then Some (buf, len)
         else if len = length buf
           then (case alloc (2 * length buf) of
                   None \<Rightarrow> None
                 | Some fresh \<Rightarrow> read_loop alloc data (buf @ drop (length buf) fresh) len)
         else read_loop alloc data buf len)"
  by pat_completeness auto
termination by (relation "measure (\<lambda>(alloc, data, buf, len). length data)") auto

declare read_loop.simps [simp del]

definition out_of_memory :: "proc \<Rightarrow> nat \<times> proc" where
  "out_of_memory pc = (1, eprint (''error: out of memory'' @ [NL]) pc)"

definition source_bytes :: "host \<Rightarrow> string \<Rightarrow> string option" where
  "source_bytes h path = (if path = ''-'' then Some (h_stdin h) else h_open h path)"

definition read_file :: "host \<Rightarrow> string \<Rightarrow> proc \<Rightarrow> (nat \<times> proc) + (string \<times> nat)" where
  "read_file h path pc =
     (case source_bytes h path of
        None \<Rightarrow> Inl (1, eprint (''error: cannot open '' @ quoted path @ [NL]) pc)
      | Some data \<Rightarrow>
          (case h_malloc h 4096 of
             None \<Rightarrow> Inl (out_of_memory pc)
           | Some buf \<Rightarrow>
               (case read_loop (h_malloc h) data buf 0 of
                  None \<Rightarrow> Inl (out_of_memory pc)
                | Some (buf, len) \<Rightarrow> Inr (buf[len := NUL], len))))"

subsection \<open>The dumps\<close>

definition report_errors :: "proc \<Rightarrow> proc" where
  "report_errors pc =
     (if diag_error_count (pc_diag pc) > 0
      then eprint (show_nat (diag_error_count (pc_diag pc)) @ '' error(s) generated.'' @ [NL]) pc else pc)"

definition pad_left :: "nat \<Rightarrow> string \<Rightarrow> string" where
  "pad_left n s = replicate (n - length s) (CHR '' '') @ s"

definition pad_right :: "nat \<Rightarrow> string \<Rightarrow> string" where
  "pad_right n s = s @ replicate (n - length s) (CHR '' '')"

text \<open>The line of a token, with \<open>l\<close> the lexer after it; \<open>quoted\<close> puts single quotes around a text.\<close>

definition token_line :: "(string \<Rightarrow> string) \<Rightarrow> lexer \<Rightarrow> token \<Rightarrow> string" where
  "token_line fmt_g l t =
     pad_left 4 (show_int (tk_line t)) @ '':'' @ pad_right 3 (show_int (tk_col t)) @ ''  ''
     @ pad_right 18 (token_kind_name (tk_kind t)) @ ''  ''
     @ quoted (c_str (text_between l (tk_start t) (tk_start t + tk_len t)))
     @ (if tk_kind t = TOK_INT_LIT then ''  val='' @ show_nat (unat (tk_int_val t)) else [])
     @ (if tk_kind t = TOK_FLOAT_LIT then ''  val='' @ fmt_g (tk_float_val t) else [])
     @ (if tk_kind t = TOK_IDENT \<or> tk_kind t = TOK_STR_LIT
        then (if tk_str_idx t < 0 \<or> tk_str_idx t \<ge> int (length (lx_strings l)) then []
              else ''  str='' @ quoted (c_str (lx_strings l ! nat (tk_str_idx t))))
        else [])
     @ [NL]"

function print_tokens :: "(string \<Rightarrow> string) \<Rightarrow> lexer \<Rightarrow> string \<times> lexer" where
  "print_tokens fmt_g l =
     (let r = lexer_next l
      in if tk_kind (fst r) = TOK_EOF then (token_line fmt_g (snd r) (fst r), snd r)
         else let rest = print_tokens fmt_g (snd r) in (token_line fmt_g (snd r) (fst r) @ fst rest, snd rest))"
  by pat_completeness auto
termination
proof (relation "measure (\<lambda>(_, l). 2 * (lx_end l - lx_cur l) + (if lx_has_peek l then 1 else 0))", goal_cases)
  case (2 f l r)
  then show ?case using scan_token_progress [of l] by (auto simp: lexer_next_def split: if_splits)
qed simp

declare print_tokens.simps [simp del]

text \<open>The lexer over the source, with the diagnostics started for it.\<close>

definition start_lexer :: "string \<Rightarrow> string \<Rightarrow> nat \<Rightarrow> proc \<Rightarrow> lexer" where
  "start_lexer filename src len pc = lexer_init src len [] (diag_init (Some filename) (Some src) (pc_diag pc))"

definition dump_tokens :: "host \<Rightarrow> string \<Rightarrow> string \<Rightarrow> nat \<Rightarrow> proc \<Rightarrow> proc" where
  "dump_tokens h filename src len pc =
     (let (text, l) = print_tokens (h_fmt_g h) (start_lexer filename src len pc)
      in report_errors (print text (pc\<lparr>pc_diag := lx_diag l\<rparr>)))"

text \<open>The part the other three modes share: the parse of the source, and the semantic analysis with the
  generation of the IR.\<close>

definition parse_source :: "nat \<Rightarrow> host \<Rightarrow> string \<Rightarrow> string \<Rightarrow> nat \<Rightarrow> proc \<Rightarrow> (ast \<times> parser) option" where
  "parse_source n h filename src len pc =
     parser_parse n (parser_init (start_lexer filename src len pc) type_table_init (addr h) (h_fmt_g h))"

definition analyse :: "host \<Rightarrow> ast \<Rightarrow> parser \<Rightarrow> diag \<times> type_table \<times> ir_module" where
  "analyse h root q =
     (let (s, root, errors) = sema_check (addr h) (sema_init (ps_types q) (lx_diag (ps_lexer q))) root;
          (types, m) = irgen (addr h) (sm_types s) root
      in (sm_diag s, types, m))"

definition dump_ast :: "nat \<Rightarrow> host \<Rightarrow> string \<Rightarrow> string \<Rightarrow> nat \<Rightarrow> proc \<Rightarrow> proc option" where
  "dump_ast n h filename src len pc = do {
     (root, q) \<leftarrow> parse_source n h filename src len pc;
     let E = \<lparr>pe_nodes = tt_nodes (ps_types q), pe_garbage = h_garbage h, pe_fmt_g = h_fmt_g h\<rparr>;
     let pc = pc\<lparr>pc_diag := lx_diag (ps_lexer q)\<rparr>;
     Some (report_errors (if parser_error_count q = 0 then print (ast_print E root 0) pc else pc))
   }"

definition dump_ir :: "nat \<Rightarrow> host \<Rightarrow> string \<Rightarrow> string \<Rightarrow> nat \<Rightarrow> proc \<Rightarrow> proc option" where
  "dump_ir n h filename src len pc = do {
     (root, q) \<leftarrow> parse_source n h filename src len pc;
     if parser_error_count q > 0
     then Some (eprint (show_int (parser_error_count q) @ '' error(s) in parse.'' @ [NL])
            (pc\<lparr>pc_diag := lx_diag (ps_lexer q)\<rparr>))
     else let (d, types, m) = analyse h root q
          in Some (report_errors (print (ir_print (h_fmt_g h) m) (pc\<lparr>pc_diag := d\<rparr>)))
   }"

subsection \<open>Compiling\<close>

definition compile :: "nat \<Rightarrow> host \<Rightarrow> string \<Rightarrow> string \<Rightarrow> nat \<Rightarrow> string option \<Rightarrow> proc \<Rightarrow> (nat \<times> proc) option" where
  "compile n h filename src len output pc = do {
     (root, q) \<leftarrow> parse_source n h filename src len pc;
     if parser_error_count q > 0
     then Some (1, eprint (show_int (parser_error_count q) @ '' error(s)'' @ [NL])
            (pc\<lparr>pc_diag := lx_diag (ps_lexer q)\<rparr>))
     else let (d, types, m) = analyse h root q;
              pc = pc\<lparr>pc_diag := d\<rparr>;
              E = \<lparr>cg_nodes = tt_nodes types, cg_double_bits = h_double_bits h, cg_float_bits = h_float_bits h\<rparr>;
              text = codegen_module E m;
              status = (if diag_error_count d > 0 then 1 else 0)
          in (case output of
                Some path \<Rightarrow>
                  if path = ''-'' then Some (status, print text pc)
                  else if h_create h path then Some (status, pc\<lparr>pc_files := pc_files pc @ [(path, text)]\<rparr>)
                  else Some (1, eprint (''error: cannot open output '' @ quoted path @ [NL]) pc)
              | None \<Rightarrow> Some (status, print text pc))
   }"

subsection \<open>The command line\<close>

record options =
  op_input :: "string option"
  op_output :: "string option"
  op_dump_tok :: bool
  op_dump_ast :: bool
  op_dump_ir :: bool
  op_do_compile :: bool

definition options_start :: options where
  "options_start = \<lparr>op_input = None, op_output = None, op_dump_tok = False, op_dump_ast = False,
     op_dump_ir = False, op_do_compile = False\<rparr>"

text \<open>The loop over \<open>argv\<close>; \<open>Inl\<close> is a call of usage, with what is printed before it.\<close>

fun read_args :: "string list \<Rightarrow> options \<Rightarrow> string + options" where
  "read_args [] opts = Inr opts"
| "read_args (a # args) opts =
     (if a = ''--dump-tokens'' then read_args args (opts\<lparr>op_dump_tok := True\<rparr>)
      else if a = ''--dump-ast'' then read_args args (opts\<lparr>op_dump_ast := True\<rparr>)
      else if a = ''--dump-ir'' then read_args args (opts\<lparr>op_dump_ir := True\<rparr>)
      else if a = ''-S'' then read_args args (opts\<lparr>op_do_compile := True\<rparr>)
      else if a = ''-o'' \<and> args \<noteq> [] then read_args (tl args) (opts\<lparr>op_output := Some (hd args)\<rparr>)
      else if a = ''--help'' \<or> a = ''-h'' then Inl []
      else if a = [] \<or> hd a \<noteq> CHR ''-'' \<or> a = ''-'' then read_args args (opts\<lparr>op_input := Some a\<rparr>)
      else Inl (''unknown option: '' @ a @ [NL]))"

declare read_args.simps(2) [simp del]

definition usage_text :: string where
  "usage_text = concat (map (\<lambda>l. l @ [NL])
     [''Usage: tinyc [options] <file.c>'', ''Options:'',
      ''  --dump-tokens   Lex only, print token stream'',
      ''  --dump-ast      Parse and print AST'',
      ''  --dump-ir       Parse, sema, and print TAC IR'',
      ''  -S              Compile to assembly (default output: stdout)'',
      ''  -o <file>       Output file for -S'',
      ''  -               Read source from stdin''])"

definition usage :: "proc \<Rightarrow> nat \<times> proc" where
  "usage pc = (1, eprint usage_text pc)"

subsection \<open>main\<close>

text \<open>The mode the options ask for, on the source that has been read.\<close>

definition run_mode :: "nat \<Rightarrow> host \<Rightarrow> options \<Rightarrow> string \<Rightarrow> string \<Rightarrow> nat \<Rightarrow> proc \<Rightarrow> (nat \<times> proc) option" where
  "run_mode n h opts fname src len pc =
     (if op_dump_tok opts then Some (0, dump_tokens h fname src len pc)
      else if op_dump_ast opts then map_option (Pair 0) (dump_ast n h fname src len pc)
      else if op_dump_ir opts then map_option (Pair 0) (dump_ir n h fname src len pc)
      else if op_do_compile opts then compile n h fname src len (op_output opts) pc
      else compile n h fname src len (case op_output opts of Some path \<Rightarrow> Some path | None \<Rightarrow> Some ''-'') pc)"

definition main :: "nat \<Rightarrow> host \<Rightarrow> string list \<Rightarrow> (nat \<times> proc) option" where
  "main n h argv =
     (case read_args argv options_start of
        Inl msg \<Rightarrow> Some (usage (eprint msg proc_start))
      | Inr opts \<Rightarrow>
          (case op_input opts of
             None \<Rightarrow> Some (usage proc_start)
           | Some input \<Rightarrow>
               let pc = eprint (''reading input'' @ [NL]) proc_start
               in (case read_file h input pc of
                     Inl r \<Rightarrow> Some r
                   | Inr (src, len) \<Rightarrow> do {
                       let pc = eprint (''read '' @ show_nat len @ '' bytes'' @ [NL]) pc;
                       (rc, pc) \<leftarrow> run_mode n h opts (if input = ''-'' then ''<stdin>'' else input) src len pc;
                       Some (if rc \<noteq> 0 then 1 else if diag_error_count (pc_diag pc) > 0 then 1 else 0, pc)
                     })))"

end
