(* ===== verification/DriverProps.thy ===== *)
theory DriverProps
  imports Driver
begin

section \<open>Properties of the driver\<close>

subsection \<open>Reading\<close>

definition alloc_ok :: "(nat \<Rightarrow> string option) \<Rightarrow> bool" where
  "alloc_ok alloc \<longleftrightarrow> (\<forall>n bs. alloc n = Some bs \<longrightarrow> length bs = n)"

text \<open>All of \<open>data\<close> is in the buffer behind what was there, with room for one byte more, or some request
  for memory has failed.\<close>

definition holds_all :: "(nat \<Rightarrow> string option) \<Rightarrow> string \<Rightarrow> string \<Rightarrow> nat \<Rightarrow> (string \<times> nat) option \<Rightarrow> bool" where
  "holds_all alloc data buf len r =
     (case r of
        None \<Rightarrow> \<exists>n. alloc n = None \<and> n \<le> 2 * max (length buf) (2 * (len + length data))
      | Some (buf', len') \<Rightarrow> take len' buf' = take len buf @ data \<and> len' = len + length data \<and> len' < length buf'
          \<and> length buf' \<le> max (length buf) (2 * len'))"

lemma holds_all_step:
  assumes "holds_all alloc (drop n data) b (len + n) r" "take (len + n) b = take len buf @ take n data"
    "n \<le> length data" "length b \<le> max (length buf) (2 * (len + n))"
  shows "holds_all alloc data buf len r"
proof (cases r)
  case None
  then obtain k where "alloc k = None" "k \<le> 2 * max (length b) (2 * (len + length data))"
    using assms(1,3) by (auto simp: holds_all_def)
  moreover have "max (length b) (2 * (len + length data)) \<le> max (length buf) (2 * (len + length data))"
    using assms(3,4) by auto
  ultimately show ?thesis by (auto simp: None holds_all_def simp del: max.bounded_iff intro!: exI [of _ k])
next
  case (Some x)
  obtain c m where "x = (c, m)" by fastforce
  moreover have "take n data @ drop n data = data" by simp
  ultimately show ?thesis
    using Some assms by (auto simp: holds_all_def simp del: append_take_drop_id)
qed

lemma read_loop_holds_all:
  assumes ok: "alloc_ok alloc"
  shows "len < length buf \<Longrightarrow> holds_all alloc data buf len (read_loop alloc data buf len)"
proof (induction "length data" arbitrary: data buf len rule: less_induct)
  case less
  obtain n b where n: "n = min (length buf - len) (length data)"
    and b: "b = take len buf @ take n data @ drop (len + n) buf" by simp
  note step = read_loop.simps [of alloc data buf len, unfolded Let_def, folded n, folded b]
  have ne: "buf \<noteq> []" using less.prems by auto
  have l: "length b = length buf" "len + n \<le> length buf" "n \<le> length data" "n = 0 \<longleftrightarrow> data = []"
    using less.prems by (auto simp: n b min_def split: if_splits)
  have t: "take (len + n) (b @ ys) = take len buf @ take n data" for ys
    using less.prems l by (simp add: b)
  have ih: "holds_all alloc (drop n data) (b @ ys) (len + n) (read_loop alloc (drop n data) (b @ ys) (len + n))"
    if "n \<noteq> 0" "len + n < length (b @ ys)" for ys
    by (rule less.hyps) (use that l in auto)
  consider "n = 0" | (full) "n \<noteq> 0" "len + n = length b" | (part) "n \<noteq> 0" "len + n < length b"
    using l by linarith
  then show ?case
  proof cases
    case full
    show ?thesis
    proof (cases "alloc (2 * length b)")
      case None
      then show ?thesis using full l(1,3) by (subst step) (auto simp: holds_all_def intro!: exI [of _ "2 * length b"])
    next
      case (Some fresh)
      then have "length fresh = 2 * length b" using ok by (simp add: alloc_ok_def)
      then show ?thesis
        using holds_all_step [OF ih [of "drop (length b) fresh"] t] full Some l ne by (subst step) simp
    qed
  next
    case part
    then show ?thesis
      using holds_all_step [OF ih [of "[]"] t] l by (subst step) simp
  qed (subst step, use l less.prems in \<open>auto simp: holds_all_def b\<close>)
qed

text \<open>C11: read_file returns the bytes of the source, all of them and in order, in a buffer with room for the
  NUL it writes behind them, which is never larger than twice the source (or the first 4096 bytes);
  it exits with status 1 only when the file cannot be opened or memory is refused.\<close>

theorem read_file_reads_all:
  assumes "alloc_ok (h_malloc h)"
  shows "case read_file h path pc of
      Inl (st, pc') \<Rightarrow> st = 1 \<and> (source_bytes h path = None \<or> (\<exists>n. h_malloc h n = None))
    | Inr (buf, len) \<Rightarrow> source_bytes h path = Some (take len buf) \<and> len < length buf \<and> buf ! len = NUL
        \<and> length buf \<le> max 4096 (2 * len)"
proof (cases "source_bytes h path")
  case (Some data)
  show ?thesis
  proof (cases "h_malloc h 4096")
    case (Some buf)
    then have "length buf = 4096" using assms by (simp add: alloc_ok_def)
    then show ?thesis
      using read_loop_holds_all [OF assms, of 0 buf data] Some \<open>source_bytes h path = Some data\<close>
      by (auto simp: read_file_def holds_all_def out_of_memory_def split: option.splits)
  qed (use Some in \<open>auto simp: read_file_def out_of_memory_def\<close>)
qed (simp add: read_file_def)

lemma read_file_length:
  assumes "alloc_ok (h_malloc h)" "read_file h path pc = Inr (buf, len)"
  shows "\<exists>data. source_bytes h path = Some data \<and> len = length data"
proof -
  obtain data b c where r: "source_bytes h path = Some data" "h_malloc h 4096 = Some b"
    "read_loop (h_malloc h) data b 0 = Some (c, len)"
    using assms(2) by (auto simp: read_file_def split: option.splits)
  then have "length b = 4096" using assms(1) by (simp add: alloc_ok_def)
  then show ?thesis using read_loop_holds_all [OF assms(1), of 0 b data] r by (simp add: holds_all_def)
qed

lemma read_file_proc: "(\<exists>r. read_file h path pc = Inr r) \<longleftrightarrow> (\<exists>r. read_file h path pc' = Inr r)"
  by (auto simp: read_file_def split: option.splits)

subsection \<open>The errors of a run\<close>

text \<open>The source can be parsed with the fuel for its length, and what the parser counts has been reported.\<close>

lemma start_fields [simp]:
  "ahead (parser_init (start_lexer f src len pc) tt a g) = len"
  "reported (parser_init (start_lexer f src len pc) tt a g) = 0" "ps_errors (parser_init lx tt a g) = 0"
  by (simp_all add: ahead_def parser_init_def start_lexer_def lexer_init_def diag_init_def)

lemma parse_source_returns:
  "2 * len + 3 \<le> n \<Longrightarrow> \<exists>root q. parse_source n h f src len pc = Some (root, q) \<and> parse_source (2 * len + 3) h f src len pc = Some (root, q)"
proof -
  assume n: "2 * len + 3 \<le> n"
  obtain root q where r: "parse_source (2 * len + 3) h f src len pc = Some (root, q)"
    using parse_enough [of "parser_init (start_lexer f src len pc) type_table_init (addr h) (h_fmt_g h)" "2 * len + 3"]
    by (auto simp: parse_source_def)
  then show ?thesis using refines_Some [OF parse_mono [OF n]] by (auto simp: parse_source_def)
qed

lemma parse_keeps:
  assumes "parse_source n h f src len pc = Some (root, q)"
  shows "keeps (parser_init (start_lexer f src len pc) type_table_init (addr h) (h_fmt_g h)) q" (is "keeps ?p q")
proof -
  have "parser_parse (max n (2 * len + 3)) ?p = Some (root, q)"
    by (rule refines_Some [OF parse_mono assms [unfolded parse_source_def]]) simp
  then show ?thesis using parse_enough [of ?p "max n (2 * len + 3)"] by auto
qed

lemma parse_source_errors:
  assumes "parse_source n h f src len pc = Some (root, q)"
  shows "0 \<le> parser_error_count q" "parser_error_count q \<le> int (dg_errors (lx_diag (ps_lexer q)))"
  using parse_keeps [OF assms] by (simp_all add: keeps_def parser_error_count_def)

lemma print_diag [simp]:
  "dg_errors (pc_diag (eprint s pc)) = dg_errors (pc_diag pc)" "pc_diag (print s pc) = pc_diag pc"
  "dg_errors (pc_diag (report_errors pc)) = dg_errors (pc_diag pc)"
  by (simp_all add: eprint_def print_def report_errors_def)

definition dumps :: "options \<Rightarrow> bool" where
  "dumps opts \<longleftrightarrow> op_dump_tok opts \<or> op_dump_ast opts \<or> op_dump_ir opts"

definition output_opens :: "host \<Rightarrow> options \<Rightarrow> bool" where
  "output_opens h opts \<longleftrightarrow>
     dumps opts \<or> (case op_output opts of None \<Rightarrow> True | Some path \<Rightarrow> path = ''-'' \<or> h_create h path)"

lemma compile_status:
  assumes "compile n h f src len out pc = Some (rc, pc')"
  shows "rc \<le> 1 \<and> (rc = 0 \<longleftrightarrow> dg_errors (pc_diag pc') = 0
    \<and> (case out of None \<Rightarrow> True | Some path \<Rightarrow> path = ''-'' \<or> h_create h path))"
proof -
  obtain root q where r: "parse_source n h f src len pc = Some (root, q)"
    using assms by (auto simp: compile_def bind_eq_Some_conv)
  show ?thesis
    using assms parse_source_errors(2) [OF r]
    by (auto simp: compile_def r Let_def diag_error_count_def split: if_splits option.splits prod.splits)
qed

lemma run_mode_status:
  assumes "run_mode n h opts f src len pc = Some (rc, pc')"
  shows "(if rc \<noteq> 0 then 1 else if diag_error_count (pc_diag pc') > 0 then 1 else 0) = (0 :: nat)
    \<longleftrightarrow> dg_errors (pc_diag pc') = 0 \<and> output_opens h opts"
proof (cases "dumps opts")
  case True
  then show ?thesis
    using assms by (auto simp: run_mode_def dumps_def output_opens_def diag_error_count_def split: if_splits)
next
  case False
  then obtain out where "compile n h f src len out pc = Some (rc, pc')"
    "(case out of None \<Rightarrow> True | Some path \<Rightarrow> path = ''-'' \<or> h_create h path) = output_opens h opts"
    using assms by (auto simp: run_mode_def dumps_def output_opens_def split: if_splits option.splits)
  then show ?thesis using compile_status [of n h f src len out pc rc pc'] by (auto simp: diag_error_count_def)
qed

lemma run_mode_returns:
  assumes "2 * len + 3 \<le> n"
  shows "\<exists>r. run_mode n h opts f src len pc = Some r \<and> run_mode (2 * len + 3) h opts f src len pc = Some r"
proof -
  obtain root q where "parse_source n h f src len pc = Some (root, q)" "parse_source (2 * len + 3) h f src len pc = Some (root, q)"
    using parse_source_returns [OF assms] by blast
  then show ?thesis
    by (auto simp: run_mode_def dump_ast_def dump_ir_def compile_def Let_def split: prod.splits option.splits)
qed

subsection \<open>The process\<close>

text \<open>The fuel a run needs: twice the bytes of its source and three more.\<close>

definition enough_fuel :: "host \<Rightarrow> string list \<Rightarrow> nat" where
  "enough_fuel h argv =
     (case read_args argv options_start of
        Inl _ \<Rightarrow> 0
      | Inr opts \<Rightarrow>
          (case op_input opts of
             None \<Rightarrow> 0
           | Some input \<Rightarrow> (case source_bytes h input of None \<Rightarrow> 0 | Some data \<Rightarrow> 2 * length data + 3)))"


text \<open>C5: the status tells the truth: it is 0 exactly when the command line was understood, the source
  could be read, no error was reported by any stage of the compiler, and the output could be opened.\<close>

theorem main_status:
  assumes "main n h argv = Some (st, pc)"
  shows "st = 0 \<longleftrightarrow> (\<exists>opts input r. read_args argv options_start = Inr opts \<and> op_input opts = Some input
    \<and> read_file h input proc_start = Inr r \<and> output_opens h opts \<and> diag_error_count (pc_diag pc) = 0)"
proof (cases "read_args argv options_start")
  case (Inr opts)
  show ?thesis
  proof (cases "op_input opts")
    case (Some input)
    let ?pc = "eprint (''reading input'' @ [NL]) proc_start"
    show ?thesis
    proof (cases "read_file h input ?pc")
      case (Inl r)
      then have "fst r = 1" by (auto simp: read_file_def out_of_memory_def split: option.splits)
      then show ?thesis using Inl Inr Some assms read_file_proc [of h input ?pc proc_start] by (auto simp: main_def)
    next
      case (Inr r)
      obtain buf len where r: "r = (buf, len)" by fastforce
      obtain rc where "run_mode n h opts (if input = ''-'' then ''<stdin>'' else input) buf len
          (eprint (''read '' @ show_nat len @ '' bytes'' @ [NL]) ?pc) = Some (rc, pc)"
          "st = (if rc \<noteq> 0 then 1 else if diag_error_count (pc_diag pc) > 0 then 1 else 0)"
        using assms Inr Some \<open>read_args argv options_start = Inr opts\<close>
        by (auto simp: main_def r bind_eq_Some_conv)
      note status = run_mode_status [OF this(1), folded this(2)]
      have "\<exists>r. read_file h input proc_start = Inr r" using read_file_proc [of h input ?pc proc_start] Inr by blast
      then show ?thesis
        using status Some \<open>read_args argv options_start = Inr opts\<close> by (auto simp: diag_error_count_def)
    qed
  qed (use assms in \<open>simp add: Inr main_def usage_def\<close>)
qed (use assms in \<open>simp add: main_def usage_def\<close>)


subsection \<open>The command line\<close>

text \<open>A command line for given options, with the input last.\<close>

definition write_args :: "options \<Rightarrow> string list" where
  "write_args opts =
     (if op_dump_tok opts then [''--dump-tokens''] else []) @ (if op_dump_ast opts then [''--dump-ast''] else [])
     @ (if op_dump_ir opts then [''--dump-ir''] else []) @ (if op_do_compile opts then [''-S''] else [])
     @ (case op_output opts of Some path \<Rightarrow> [''-o'', path] | None \<Rightarrow> [])
     @ (case op_input opts of Some path \<Rightarrow> [path] | None \<Rightarrow> [])"

definition is_path :: "string \<Rightarrow> bool" where
  "is_path a \<longleftrightarrow> a = ''-'' \<or> (\<forall>b. a \<noteq> CHR ''-'' # b)"

lemma read_args_option:
  "read_args (''--dump-tokens'' # args) opts = read_args args (opts\<lparr>op_dump_tok := True\<rparr>)"
  "read_args (''--dump-ast'' # args) opts = read_args args (opts\<lparr>op_dump_ast := True\<rparr>)"
  "read_args (''--dump-ir'' # args) opts = read_args args (opts\<lparr>op_dump_ir := True\<rparr>)"
  "read_args (''-S'' # args) opts = read_args args (opts\<lparr>op_do_compile := True\<rparr>)"
  "read_args (''-o'' # a # args) opts = read_args args (opts\<lparr>op_output := Some a\<rparr>)"
  "is_path a \<Longrightarrow> read_args (a # args) opts = read_args args (opts\<lparr>op_input := Some a\<rparr>)"
  by (cases a; auto simp: read_args.simps(2) is_path_def)+

lemma read_write_args: "(\<And>a. op_input opts = Some a \<Longrightarrow> is_path a) \<Longrightarrow> read_args (write_args opts) options_start = Inr opts"
  by (cases opts) (auto simp: write_args_def options_start_def read_args_option split: option.split)

subsection \<open>Witnesses\<close>

definition demo_host :: "string \<Rightarrow> host" where
  "demo_host src = \<lparr>h_stdin = src, h_open = (\<lambda>_. None), h_create = (\<lambda>_. False),
     h_malloc = (\<lambda>n. if n \<le> 8192 then Some (replicate n NUL) else None), h_adr = of_nat, h_fmt_g = (\<lambda>s. s),
     h_garbage = [], h_double_bits = (\<lambda>_. 0), h_float_bits = (\<lambda>_. 0)\<rparr>"

lemma demo_alloc: "alloc_ok (h_malloc (demo_host src))"
  by (simp add: demo_host_def alloc_ok_def)

lemma read_file_reads_all_witness:
  "case read_file (demo_host ''int x;'') ''-'' proc_start of
      Inl (st, pc') \<Rightarrow> st = 1
    | Inr (buf, len) \<Rightarrow> take len buf = ''int x;'' \<and> len < length buf \<and> buf ! len = NUL \<and> length buf \<le> max 4096 (2 * len)"
  using read_file_reads_all [OF demo_alloc, of "''int x;''" "''-''" proc_start]
  by (auto simp: source_bytes_def demo_host_def split: sum.splits)


lemma read_empty: "read_file (demo_host []) ''-'' pc = Inr (NUL # replicate 4095 NUL, 0)"
proof -
  have "replicate 4096 NUL = NUL # replicate 4095 NUL" using replicate_Suc [of 4095 NUL] by simp
  then show ?thesis
    by (simp add: read_file_def source_bytes_def demo_host_def read_loop.simps [of _ "[]"])
qed

text \<open>The empty source: its only token is the end.\<close>

lemma empty_source:
  "tk_kind (fst (lexer_next (start_lexer f src 0 pc))) = TOK_EOF"
  "dg_errors (lx_diag (snd (lexer_next (start_lexer f src 0 pc)))) = 0"
  "ps_errors (snd (peek (parser_init (start_lexer f src 0 pc) tt a g))) = 0"
  "tk_kind (fst (peek (parser_init (start_lexer f src 0 pc) tt a g))) = TOK_EOF"
proof -
  let ?l = "start_lexer f src 0 pc"
  have f: "\<not> lx_has_peek ?l" "at_end ?l" "dg_errors (lx_diag ?l) = 0"
    by (simp_all add: start_lexer_def lexer_init_def at_end_def diag_init_def)
  then have w: "skip_ws ?l = ?l" by (simp add: skip_ws.simps [of ?l])
  note e = scan_token_eof [of ?l, unfolded w, OF f(2)]
  show n: "tk_kind (fst (lexer_next ?l)) = TOK_EOF" "dg_errors (lx_diag (snd (lexer_next ?l))) = 0"
    using e f by (simp_all add: lexer_next_def)
  show "tk_kind (fst (peek (parser_init ?l tt a g))) = TOK_EOF"
    using e(2) f(1) by (simp add: peek_def lexer_peek_def parser_init_def split_beta)
  show "ps_errors (snd (peek (parser_init ?l tt a g))) = 0" by (simp add: peek_def parser_init_def split_beta)
qed

lemma parse_nothing:
  assumes "peek p = (t, q)" "tk_kind t = TOK_EOF"
  shows "parser_parse (Suc n) p = Some (node_at t (TranslationUnit []), q)"
  using assms at_tok_first(2) [OF peek_spec(2) [OF assms(1)]] by (simp add: parser_parse_def)

lemma main_status_witness:
  "\<exists>pc. main 0 (demo_host []) [''--dump-tokens'', ''-''] = Some (0, pc) \<and> diag_error_count (pc_diag pc) = 0"
proof -
  let ?h = "demo_host []"
  have args: "read_args [''--dump-tokens'', ''-''] options_start
      = Inr \<lparr>op_input = Some ''-'', op_output = None, op_dump_tok = True, op_dump_ast = False, op_dump_ir = False, op_do_compile = False\<rparr>"
    by (simp add: read_args_option is_path_def options_start_def)
  have "dg_errors (lx_diag (snd (print_tokens g (start_lexer f src 0 pc)))) = 0" for g f src pc
    by (subst print_tokens.simps) (simp add: Let_def empty_source)
  then obtain st pc where m: "main 0 ?h [''--dump-tokens'', ''-''] = Some (st, pc)" "dg_errors (pc_diag pc) = 0"
    by (simp add: main_def args read_empty run_mode_def dump_tokens_def split_beta Let_def)
  have "st = 0" unfolding main_status [OF m(1)]
    by (simp add: args read_empty output_opens_def dumps_def m(2) diag_error_count_def)
  then show ?thesis using m by (auto simp: diag_error_count_def)
qed


end
