(* ===== verification/Spec2Isabelle.thy ===== *)
theory Spec2Isabelle
  imports LexerText CodegenSim CodegenCall CodegenData SemaSpec IrgenModWf DriverProps
begin

text \<open>
  A verification development for tinyc, a C99 compiler written in C that translates one
  preprocessed source file to x86-64 assembly for the System V ABI. main.c reads the file,
  runs the lexer and the parser over an arena, a string table and a type table, then the
  semantic analysis, the IR generator, and the code generator with its register allocation
  and argument classification; diagnostics are printed on the way.

  The theories, in the order the compiler uses the parts:

  \<^item> Prelude: machine words, rounding up to a power of two, decimal printing, C strings.
  \<^item> Arena (arena.c): pages of bytes and the bump allocator. Allocations are aligned, inside
    their page and disjoint from all earlier ones, and copied strings keep their bytes. malloc is
    the parameter that says which requests succeed.
  \<^item> Strtab (strtab.c): the parallel arrays of the interning table over the arena; interning
    refines adding to a list of distinct strings.
  \<^item> Diagnostic (diagnostic.c): the file-scope state, the printed text and the counters.
  \<^item> Token, Lexer (token.h, lexer.c): the token kinds and tables and every scanning function.
    LexerProps (keyword search), LexerPos and LexerRun (positions, the token sequence, peeking)
    and LexerText (maximal munch, round trips of words and numbers) hold its properties.
  \<^item> CType (type.c): a \<open>Type *\<close> is a position in the store of type nodes. CTypeProps: interning,
    sizes and alignments, the layout of structs and unions, compatibility, printing.
  \<^item> Ast (ast.h, parser.c 14-285): the syntax tree and its printer.
  \<^item> Parser, ParserExpr, ParserStmt (parser.c 286-1796): scopes, specifiers and declarators; initializers
    and the Pratt parser of expressions; statements, declaration lists and the translation unit.
    ParserTerm, ParserTermExpr and ParserTermStmt give every function a contract: it returns, eats
    its part of the input and keeps the context. ParserFuel: more fuel gives the same result.
    ParserProps: the whole parser returns, restores its context and resolves names; the order of
    pointers. ParserPrint: expressions printed by the levels of C99 6.5 are parsed back.
  \<^item> Scope: the interface of nested symbol tables as a locale. Sema (sema.c): scopes, conversions
    and the three checkers, interpreted as such a table in SemaSpec. SemaProps and SemaStmt
    carry the inductions over expressions and statements; SemaSpec states what they give:
    name resolution, the usual arithmetic conversions against C99, exact error counts, the
    restored context and the types of a whole program.
  \<^item> IR (ir.c), Regalloc (regalloc.c), Abi (abi_classify.c): the instruction list and its printer, the
    stack slots, the classification of arguments.
  \<^item> Irgen, IrgenExpr, IrgenStmt (irgen.c): the generator's state, its scopes, the layout of
    initializers, the mutual recursion over expressions and initializers, statements, functions and
    globals. IrgenWf, IrgenExprWf, IrgenTreeWf (expressions), IrgenFuncWf, IrgenStmtWf (statements)
    and IrgenModWf (the module) show that the generated code is well formed: allocated
    temporaries, labels defined once, no jump without a label.
  \<^item> X86: the instructions codegen.c prints, with their text and their effect on registers and
    memory. Codegen and CodegenFun (codegen.c): every function that prints code, as the list of
    instructions it prints. CodegenSem: the meaning of the integer fragment of the IR and of
    single instructions; CodegenSim: the code of a function simulates its IR, loops and jumps
    included, and returns its value; CodegenCall: caller and callee agree on the places of
    arguments; CodegenData: copied objects and printed strings.
  \<^item> Driver (main.c): the reading of the source into a growing buffer, the three dumps, the
    compilation and the command line, composed of the functions above; DriverProps: the whole source is read
    inside the buffer, every run ends, and the status is 0 exactly when nothing was reported.

  Conventions. Pointers that are only compared are positions or, for interned names, strings;
  an update in place is a new value; errors and NULL are options. A C int that the source
  never lets wrap is an \<open>int\<close>; \<open>size_t\<close>, \<open>uint32_t\<close> and the values of the generated code are
  words. Recursions that need not end have fuel: abi_classify and lookup_member, for which any
  fuel above the rank of the type is shown to be enough and self-containing types are shown to
  exhaust every fuel, and the runs of IR and assembly programs, where the simulation gives
  the number of steps. The parser recurses on what is left of the input, tied in \<open>calls_at\<close> by
  a number of levels that also bounds its loops: twice the bytes left and three more are enough.

  Parameters of the model: the files the driver finds, the success of malloc, the addresses of type nodes (only their hash
  is used), strtod and the bits of a floating constant, \<open>%g\<close>, and the bytes of an uninitialised
  buffer.

  A declarator with a group, as in a pointer to a function, makes the parser fill a NULL of an
  older node with a newer one, so the store may have a node that points forward. The theorems
  on types that ask for a store in which types point backwards do not cover those declarations.

  Not modelled: the arenas running out of memory in the components after Strtab, and the
  TINYC_SELFHOST and __APPLE__ variants. Floating
  point, calls and aggregates have no semantics in CodegenSem; their code is modelled, and the
  simulation is for functions over integers and pointers.
\<close>

end
